(* ===== verification/Lite_Prelude.thy ===== *)
theory Lite_Prelude
  imports Main "HOL-Library.Word"
begin

text \<open>
  Machine integers, panics and the small list and option facts that the component theories
  share.  A \<open>u64\<close> of the Rust sources is a 64-bit word: \<open>+\<close> and \<open>-\<close> wrap around, as they do
  in the release build of the workspace (its \<open>Cargo.toml\<close> sets no overflow checks), and
  \<open>saturating_sub\<close> stops at zero.  Lengths and indices of collections (\<open>usize\<close>) are natural
  numbers.  A panic is a value of the left summand of a result, so every \<open>unwrap\<close>, index and
  assertion of the sources is a branch of the model.
\<close>

section \<open>Machine integers\<close>

type_synonym u8 = "8 word"
type_synonym u32 = "32 word"
type_synonym u64 = "64 word"
type_synonym slot = u64

named_theorems u64_simps \<open>reading words as natural numbers\<close>
named_theorems inv_intros \<open>preservation of component invariants\<close>

definition saturating_sub :: "u64 \<Rightarrow> u64 \<Rightarrow> u64" where
  "saturating_sub a b = (if b \<le> a then a - b else 0)"

lemma unat_saturating_sub [u64_simps]: "unat (saturating_sub a b) = unat a - unat b"
  by (simp add: saturating_sub_def word_le_nat_alt unat_sub)

lemma saturating_sub_le: "saturating_sub a b \<le> a"
  by (simp add: word_le_nat_alt u64_simps)

lemma saturating_sub_zero [simp]: "saturating_sub a 0 = a"
  by (simp add: saturating_sub_def)

lemma unat_u64_bound: "unat (a :: u64) < 18446744073709551616"
  using unsigned_less [of a] by simp

lemma unat_u64_add:
  "unat (a :: u64) + unat b < 18446744073709551616 \<Longrightarrow> unat (a + b) = unat a + unat b"
  by (simp add: unat_word_ariths)

lemma unat_u64_of_nat: "n < 18446744073709551616 \<Longrightarrow> unat (word_of_nat n :: u64) = n"
  by (simp add: unsigned_of_nat take_bit_nat_eq_self)

lemma unat_u64_sub_of_nat:
  assumes "n \<le> unat (a :: u64)"
  shows "unat (a - word_of_nat n) = unat a - n"
proof -
  have n: "unat (word_of_nat n :: u64) = n"
    using assms unat_u64_bound [of a] by (simp add: unat_u64_of_nat)
  then have "(word_of_nat n :: u64) \<le> a" using assms by (simp add: word_le_nat_alt)
  with n show ?thesis by (simp add: unat_sub)
qed

lemma le_add_no_wrap:
  assumes "unat (a :: u64) + unat b < 18446744073709551616"
  shows "a \<le> a + b"
  using assms by (simp add: word_le_nat_alt unat_u64_add)

section \<open>Panics\<close>

datatype panic =
    UnwrapNone
  | IndexOutOfBounds
  | AssertionFailed
  | Unreachable
  | ExplicitPanic string

type_synonym 'a outcome = "panic + 'a"

fun bind_outcome :: "'a outcome \<Rightarrow> ('a \<Rightarrow> 'b outcome) \<Rightarrow> 'b outcome" where
  "bind_outcome (Inl p) f = Inl p"
| "bind_outcome (Inr a) f = f a"

lemma bind_outcome_Inr [simp]:
  "bind_outcome x f = Inr b \<longleftrightarrow> (\<exists>a. x = Inr a \<and> f a = Inr b)"
  by (cases x) auto

definition index_checked :: "'a list \<Rightarrow> nat \<Rightarrow> 'a outcome" where
  "index_checked xs i = (if i < length xs then Inr (xs ! i) else Inl IndexOutOfBounds)"

lemma index_checked_in [simp]: "i < length xs \<Longrightarrow> index_checked xs i = Inr (xs ! i)"
  by (simp add: index_checked_def)

section \<open>Options and lists\<close>

definition unwrap_or :: "'a option \<Rightarrow> 'a \<Rightarrow> 'a" where
  "unwrap_or x d = (case x of None \<Rightarrow> d | Some a \<Rightarrow> a)"

lemma unwrap_or_simps [simp]: "unwrap_or None d = d" "unwrap_or (Some a) d = a"
  by (simp_all add: unwrap_or_def)

definition or_else :: "'a option \<Rightarrow> 'a option \<Rightarrow> 'a option" where
  "or_else x y = (case x of None \<Rightarrow> y | Some a \<Rightarrow> Some a)"

lemma or_else_simps [simp]: "or_else None y = y" "or_else (Some a) y = Some a"
  by (simp_all add: or_else_def)

lemma map_filter_mem: "y \<in> set (List.map_filter f xs) \<longleftrightarrow> (\<exists>x \<in> set xs. f x = Some y)"
  by (induction xs) (auto simp: List.map_filter_def)

lemma map_filter_Nil [simp]: "List.map_filter f [] = []"
  by (simp add: List.map_filter_def)

lemma map_filter_Cons [simp]:
  "List.map_filter f (x # xs) =
     (case f x of None \<Rightarrow> List.map_filter f xs | Some y \<Rightarrow> y # List.map_filter f xs)"
  by (simp add: List.map_filter_def split: option.split)

text \<open>\<open>slice::chunks\<close> of the standard library; the code only calls it with a positive size.\<close>

function chunks :: "nat \<Rightarrow> 'a list \<Rightarrow> 'a list list" where
  "chunks n xs = (if xs = [] \<or> n = 0 then [] else take n xs # chunks n (drop n xs))"
  by pat_completeness auto
termination
  by (relation "measure (\<lambda>(n, xs). length xs)") (auto simp: length_greater_0_conv)

declare chunks.simps [simp del]

lemma chunks_Nil [simp]: "chunks n [] = []"
  by (simp add: chunks.simps)

lemma concat_chunks: "0 < n \<Longrightarrow> concat (chunks n xs) = xs"
proof (induction n xs rule: chunks.induct)
  case (1 n xs)
  then show ?case
    by (cases "xs = []") (simp_all add: chunks.simps [of n xs])
qed

lemma length_chunk: "c \<in> set (chunks n xs) \<Longrightarrow> 0 < length c \<and> length c \<le> n"
proof (induction n xs rule: chunks.induct)
  case (1 n xs)
  then show ?case
    by (cases "xs = [] \<or> n = 0") (auto simp: chunks.simps [of n xs])
qed

text \<open>\<open>Iterator::max\<close> and \<open>min\<close> of a possibly empty sequence, with a default.\<close>

definition max_or :: "'a::linorder \<Rightarrow> 'a list \<Rightarrow> 'a" where
  "max_or d xs = (case xs of [] \<Rightarrow> d | y # ys \<Rightarrow> fold max ys y)"

definition min_or :: "'a::linorder \<Rightarrow> 'a list \<Rightarrow> 'a" where
  "min_or d xs = (case xs of [] \<Rightarrow> d | y # ys \<Rightarrow> fold min ys y)"

lemma fold_max_ge: "(y :: 'a::linorder) \<le> fold max ys y"
proof (induction ys arbitrary: y)
  case (Cons a ys)
  from Cons [of "max a y"] show ?case by (simp add: max.coboundedI2 le_max_iff_disj)
qed simp

lemma max_or_ge: "x \<in> set xs \<Longrightarrow> (x :: 'a::linorder) \<le> max_or d xs"
proof -
  have "x \<in> insert y (set ys) \<Longrightarrow> x \<le> fold max ys y" for x y :: 'a and ys
  proof (induction ys arbitrary: y)
    case (Cons a ys)
    have "max a y \<le> fold max ys (max a y)" by (rule fold_max_ge)
    with Cons show ?case by fastforce
  qed simp
  moreover assume "x \<in> set xs"
  ultimately show ?thesis by (cases xs) (auto simp: max_or_def)
qed

lemma min_or_le: "x \<in> set xs \<Longrightarrow> min_or d xs \<le> (x :: 'a::linorder)"
proof -
  have base: "fold min ys y \<le> y" for y :: 'a and ys
  proof (induction ys arbitrary: y)
    case (Cons a ys)
    from Cons [of "min a y"] show ?case by simp
  qed simp
  have "x \<in> insert y (set ys) \<Longrightarrow> fold min ys y \<le> x" for x y :: 'a and ys
  proof (induction ys arbitrary: y)
    case (Cons a ys)
    have "fold min ys (min a y) \<le> min a y" by (rule base)
    with Cons show ?case by fastforce
  qed simp
  moreover assume "x \<in> set xs"
  ultimately show ?thesis by (cases xs) (auto simp: min_or_def)
qed

end
