(* ===== verification/Key_Maps.thy ===== *)
theory Key_Maps
  imports Lite_Prelude "HOL-Library.AList"
begin

text \<open>
  The two kinds of dictionary the sources use.  A \<open>HashMap\<close> or \<open>DashMap\<close> is an association list
  with distinct keys (\<open>hm_\<close> operations): the order of the list stands for the unspecified
  iteration order of the code.  A \<open>BTreeMap\<close> is an association list with strictly increasing
  keys (\<open>bt_\<close> operations), which also has a first and a last entry.  The interface the
  components rely on is the locale \<open>key_map\<close>, with \<open>ordered_map\<close> extending it by the entries
  at both ends; both are interpreted here on the two implementations.
\<close>

section \<open>Hash maps\<close>

type_synonym ('k, 'v) hashmap = "('k \<times> 'v) list"

definition hm_get :: "('k, 'v) hashmap \<Rightarrow> 'k \<Rightarrow> 'v option" where
  "hm_get m = map_of m"

definition hm_put :: "'k \<Rightarrow> 'v \<Rightarrow> ('k, 'v) hashmap \<Rightarrow> ('k, 'v) hashmap" where
  "hm_put k v m = AList.update k v m"

definition hm_del :: "'k \<Rightarrow> ('k, 'v) hashmap \<Rightarrow> ('k, 'v) hashmap" where
  "hm_del k m = AList.delete k m"

definition map_keys :: "('k \<times> 'v) list \<Rightarrow> 'k list" where
  "map_keys m = List.map fst m"

definition hm_inv :: "('k, 'v) hashmap \<Rightarrow> bool" where
  "hm_inv m \<longleftrightarrow> distinct (map_keys m)"

text \<open>\<open>retain\<close> of both kinds of map, and \<open>iter_mut\<close> with a function on the values.\<close>

definition map_retain :: "('k \<Rightarrow> 'v \<Rightarrow> bool) \<Rightarrow> ('k \<times> 'v) list \<Rightarrow> ('k \<times> 'v) list" where
  "map_retain p m = filter (\<lambda>(k, v). p k v) m"

definition map_vals :: "('k \<Rightarrow> 'v \<Rightarrow> 'w) \<Rightarrow> ('k \<times> 'v) list \<Rightarrow> ('k \<times> 'w) list" where
  "map_vals f m = List.map (\<lambda>(k, v). (k, f k v)) m"

definition map_values :: "('k \<times> 'v) list \<Rightarrow> 'v list" where
  "map_values m = List.map snd m"

section \<open>Ordered maps\<close>

type_synonym ('k, 'v) btreemap = "('k \<times> 'v) list"

definition bt_get :: "('k, 'v) btreemap \<Rightarrow> 'k \<Rightarrow> 'v option" where
  "bt_get m = map_of m"

fun bt_put :: "'k::linorder \<Rightarrow> 'v \<Rightarrow> ('k, 'v) btreemap \<Rightarrow> ('k, 'v) btreemap" where
  "bt_put k v [] = [(k, v)]"
| "bt_put k v ((k', v') # m) =
     (if k < k' then (k, v) # (k', v') # m
      else if k = k' then (k, v) # m
      else (k', v') # bt_put k v m)"

definition bt_del :: "'k \<Rightarrow> ('k, 'v) btreemap \<Rightarrow> ('k, 'v) btreemap" where
  "bt_del k m = filter (\<lambda>e. fst e \<noteq> k) m"

definition bt_first :: "('k, 'v) btreemap \<Rightarrow> ('k \<times> 'v) option" where
  "bt_first m = (case m of [] \<Rightarrow> None | e # _ \<Rightarrow> Some e)"

definition bt_last :: "('k, 'v) btreemap \<Rightarrow> ('k \<times> 'v) option" where
  "bt_last m = (if m = [] then None else Some (last m))"

definition bt_inv :: "('k::linorder, 'v) btreemap \<Rightarrow> bool" where
  "bt_inv m \<longleftrightarrow> sorted_wrt (<) (map_keys m)"

section \<open>The dictionary interface\<close>

locale key_map =
  fixes empty :: 'm
    and get :: "'m \<Rightarrow> 'k \<Rightarrow> 'v option"
    and put :: "'k \<Rightarrow> 'v \<Rightarrow> 'm \<Rightarrow> 'm"
    and del :: "'k \<Rightarrow> 'm \<Rightarrow> 'm"
    and keys :: "'m \<Rightarrow> 'k list"
    and invar :: "'m \<Rightarrow> bool"
  assumes invar_empty: "invar empty"
    and invar_put: "invar m \<Longrightarrow> invar (put k v m)"
    and invar_del: "invar m \<Longrightarrow> invar (del k m)"
    and get_empty: "get empty = Map.empty"
    and get_put: "invar m \<Longrightarrow> get (put k v m) = (get m)(k \<mapsto> v)"
    and get_del: "invar m \<Longrightarrow> get (del k m) = (get m)(k := None)"
    and set_keys: "invar m \<Longrightarrow> set (keys m) = dom (get m)"
    and distinct_keys: "invar m \<Longrightarrow> distinct (keys m)"
begin

lemma size_is_card: "invar m \<Longrightarrow> length (keys m) = card (dom (get m))"
  by (metis distinct_card distinct_keys set_keys)

lemma dom_finite: "invar m \<Longrightarrow> finite (dom (get m))"
  by (metis List.finite_set set_keys)

lemma size_put:
  assumes "invar m"
  shows "length (keys (put k v m)) =
    (if get m k = None then Suc (length (keys m)) else length (keys m))"
proof -
  have "length (keys (put k v m)) = card (insert k (dom (get m)))"
    using assms by (simp add: size_is_card invar_put get_put)
  then show ?thesis
    using assms by (auto simp: size_is_card card_insert_if dom_finite)
qed

lemma size_del:
  assumes "invar m"
  shows "length (keys (del k m)) =
    (if get m k = None then length (keys m) else length (keys m) - 1)"
proof -
  have "length (keys (del k m)) = card (dom (get m) - {k})"
    using assms by (simp add: size_is_card invar_del get_del)
  then show ?thesis
    using assms by (auto simp: size_is_card card_Diff_singleton_if dom_finite)
qed

lemma get_put_other: "invar m \<Longrightarrow> k \<noteq> j \<Longrightarrow> get (put k v m) j = get m j"
  by (simp add: get_put)

lemma get_put_same: "invar m \<Longrightarrow> get (put k v m) k = Some v"
  by (simp add: get_put)

lemma put_put: "invar m \<Longrightarrow> get (put k v (put k w m)) = get (put k v m)"
  by (simp add: get_put invar_put)

text \<open>Storing a list of entries one after the other: the last entry for a key wins.\<close>

lemma put_all_invar: "invar m \<Longrightarrow> invar (fold (\<lambda>(k, v). put k v) es m)"
  by (induction es arbitrary: m) (auto intro: invar_put)

lemma put_all:
  "invar m \<Longrightarrow> get (fold (\<lambda>(k, v). put k v) es m) = get m ++ map_of (rev es)"
proof (induction es arbitrary: m)
  case (Cons e es)
  then show ?case
    by (cases e) (simp add: invar_put get_put map_add_def fun_eq_iff split: option.split)
qed simp

end

locale ordered_map = key_map empty get put del keys invar
  for empty :: 'm
    and get :: "'m \<Rightarrow> 'k::linorder \<Rightarrow> 'v option"
    and put :: "'k \<Rightarrow> 'v \<Rightarrow> 'm \<Rightarrow> 'm"
    and del :: "'k \<Rightarrow> 'm \<Rightarrow> 'm"
    and keys :: "'m \<Rightarrow> 'k list"
    and invar :: "'m \<Rightarrow> bool" +
  fixes first :: "'m \<Rightarrow> ('k \<times> 'v) option"
    and last :: "'m \<Rightarrow> ('k \<times> 'v) option"
  assumes first_None: "invar m \<Longrightarrow> first m = None \<longleftrightarrow> dom (get m) = {}"
    and first_Some: "invar m \<Longrightarrow> first m = Some (k, v) \<Longrightarrow>
      get m k = Some v \<and> (\<forall>j \<in> dom (get m). k \<le> j)"
    and last_None: "invar m \<Longrightarrow> last m = None \<longleftrightarrow> dom (get m) = {}"
    and last_Some: "invar m \<Longrightarrow> last m = Some (k, v) \<Longrightarrow>
      get m k = Some v \<and> (\<forall>j \<in> dom (get m). j \<le> k)"
begin

lemma last_is_Max: "invar m \<Longrightarrow> last m = Some (k, v) \<Longrightarrow> k = Max (dom (get m))"
  by (metis Max_eqI dom_finite domI last_Some)

lemma first_is_Min: "invar m \<Longrightarrow> first m = Some (k, v) \<Longrightarrow> k = Min (dom (get m))"
  by (metis Min_eqI dom_finite domI first_Some)

lemma last_put_greatest:
  assumes "invar m" and "\<And>j. j \<in> dom (get m) \<Longrightarrow> j \<le> k"
  shows "last (put k v m) = Some (k, v)"
proof -
  have i: "invar (put k v m)" using assms(1) by (rule invar_put)
  obtain j w where l: "last (put k v m) = Some (j, w)"
    using last_None [OF i] assms(1) by (cases "last (put k v m)") (auto simp: get_put)
  from last_Some [OF i l] have "get (put k v m) j = Some w" and "k \<le> j"
    using assms(1) by (auto simp: get_put)
  then show ?thesis
    using l assms by (cases "j = k") (auto simp: get_put dest: order.antisym)
qed

end

section \<open>Both maps provide the interface\<close>

lemma hm_put_keys: "set (map_keys (hm_put k v m)) = insert k (set (map_keys m))"
  by (simp add: hm_put_def map_keys_def dom_update)

lemma hm_inv_put [inv_intros]: "hm_inv m \<Longrightarrow> hm_inv (hm_put k v m)"
  by (simp add: hm_inv_def hm_put_def map_keys_def distinct_update)

lemma hm_inv_del [inv_intros]: "hm_inv m \<Longrightarrow> hm_inv (hm_del k m)"
  by (simp add: hm_inv_def hm_del_def map_keys_def distinct_delete)

interpretation hm: key_map "[]" hm_get hm_put hm_del map_keys hm_inv
proof unfold_locales
  fix m :: "('a, 'b) hashmap" and k v
  show "hm_inv m \<Longrightarrow> hm_inv (hm_put k v m)" by (rule hm_inv_put)
  show "hm_inv m \<Longrightarrow> hm_inv (hm_del k m)" by (rule hm_inv_del)
  show "hm_get (hm_put k v m) = (hm_get m)(k \<mapsto> v)"
    by (simp add: hm_get_def hm_put_def fun_eq_iff update_conv)
  show "hm_get (hm_del k m) = (hm_get m)(k := None)"
    by (simp add: hm_get_def hm_del_def fun_eq_iff delete_conv)
  show "set (map_keys m) = dom (hm_get m)"
    by (simp add: map_keys_def hm_get_def dom_map_of_conv_image_fst)
  show "hm_inv m \<Longrightarrow> distinct (map_keys m)" by (simp add: hm_inv_def)
qed (simp_all add: hm_inv_def map_keys_def hm_get_def)

lemma bt_put_keys: "set (map_keys (bt_put k v m)) = insert k (set (map_keys m))"
  by (induction k v m rule: bt_put.induct) (auto simp: map_keys_def)

lemma bt_inv_put [inv_intros]: "bt_inv m \<Longrightarrow> bt_inv (bt_put k v m)"
proof (induction k v m rule: bt_put.induct)
  case (2 k v k' v' m)
  have "set (List.map fst (bt_put k v m)) = insert k (set (List.map fst m))"
    using bt_put_keys [of k v m] by (simp add: map_keys_def)
  then show ?case
    using 2 by (auto simp: bt_inv_def map_keys_def)
qed (simp add: bt_inv_def map_keys_def)

lemma bt_inv_filter: "bt_inv m \<Longrightarrow> bt_inv (filter p m)"
  by (induction m) (auto simp: bt_inv_def map_keys_def)

lemma bt_inv_del [inv_intros]: "bt_inv m \<Longrightarrow> bt_inv (bt_del k m)"
  unfolding bt_del_def by (rule bt_inv_filter)

lemma bt_inv_tl [inv_intros]: "bt_inv m \<Longrightarrow> bt_inv (tl m)"
  by (cases m) (auto simp: bt_inv_def map_keys_def)

lemma bt_get_put: "bt_get (bt_put k v m) = (bt_get m)(k \<mapsto> v)"
  by (induction k v m rule: bt_put.induct) (auto simp: bt_get_def fun_eq_iff)

lemma bt_get_del: "bt_get (bt_del k m) = (bt_get m)(k := None)"
  by (induction m) (auto simp: bt_get_def bt_del_def fun_eq_iff)

lemma bt_inv_distinct: "bt_inv m \<Longrightarrow> distinct (map_keys m)"
  by (simp add: bt_inv_def strict_sorted_iff)

lemma bt_dom: "dom (bt_get m) = set (map_keys m)"
  by (simp add: map_keys_def bt_get_def dom_map_of_conv_image_fst)

lemma bt_get_mem: "bt_inv m \<Longrightarrow> (k, v) \<in> set m \<Longrightarrow> bt_get m k = Some v"
  using bt_inv_distinct [of m] by (simp add: bt_get_def map_keys_def)

lemma bt_last_ge:
  assumes "bt_inv m" and "m \<noteq> []" and "j \<in> set (map_keys m)"
  shows "j \<le> fst (last m)"
proof -
  have "sorted (map_keys m)" using assms(1) by (simp add: bt_inv_def strict_sorted_iff)
  moreover have "m = butlast m @ [last m]" using assms(2) by simp
  then have "map_keys m = map_keys (butlast m) @ [fst (last m)]"
    by (metis (no_types) map_keys_def list.simps(8,9) map_append)
  ultimately show ?thesis
    using assms(3) by (auto simp: sorted_append)
qed

interpretation bt: ordered_map "[]" bt_get bt_put bt_del map_keys bt_inv bt_first bt_last
proof unfold_locales
  fix m :: "('a::linorder, 'b) btreemap" and k v
  show "bt_inv m \<Longrightarrow> bt_inv (bt_put k v m)" by (rule bt_inv_put)
  show "bt_inv m \<Longrightarrow> bt_inv (bt_del k m)" by (rule bt_inv_del)
  show "bt_get (bt_put k v m) = (bt_get m)(k \<mapsto> v)" by (rule bt_get_put)
  show "bt_get (bt_del k m) = (bt_get m)(k := None)" by (rule bt_get_del)
  show "set (map_keys m) = dom (bt_get m)" by (simp add: bt_dom)
  show "bt_inv m \<Longrightarrow> distinct (map_keys m)" by (rule bt_inv_distinct)
  show "(bt_first m = None) = (dom (bt_get m) = {})"
    by (cases m) (simp_all add: bt_first_def bt_dom map_keys_def)
  show "(bt_last m = None) = (dom (bt_get m) = {})"
    by (cases m) (simp_all add: bt_last_def bt_dom map_keys_def)
  assume i: "bt_inv m"
  {
    assume f: "bt_first m = Some (k, v)"
    then obtain m' where m: "m = (k, v) # m'"
      by (auto simp: bt_first_def split: list.splits)
    show "bt_get m k = Some v \<and> (\<forall>j \<in> dom (bt_get m). k \<le> j)"
      using i unfolding bt_dom by (auto simp: m bt_inv_def map_keys_def bt_get_def)
  }
  {
    assume l: "bt_last m = Some (k, v)"
    then have m: "m \<noteq> []" "last m = (k, v)"
      by (auto simp: bt_last_def split: if_splits)
    then have "(k, v) \<in> set m" by (metis last_in_set)
    then show "bt_get m k = Some v \<and> (\<forall>j \<in> dom (bt_get m). j \<le> k)"
      using i bt_last_ge [OF i m(1)] m(2) by (auto simp: bt_dom bt_get_mem)
  }
qed (simp_all add: bt_inv_def map_keys_def bt_get_def)

section \<open>Retaining and mapping entries\<close>

lemma map_keys_retain: "set (map_keys (map_retain p m)) \<subseteq> set (map_keys m)"
  by (auto simp: map_keys_def map_retain_def)

lemma hm_inv_retain [inv_intros]: "hm_inv m \<Longrightarrow> hm_inv (map_retain p m)"
  by (induction m) (auto simp: hm_inv_def map_keys_def map_retain_def)

lemma bt_inv_retain [inv_intros]: "bt_inv m \<Longrightarrow> bt_inv (map_retain p m)"
  unfolding map_retain_def by (rule bt_inv_filter)

lemma map_of_retain:
  "distinct (map_keys m) \<Longrightarrow>
   map_of (map_retain p m) k =
     (case map_of m k of None \<Rightarrow> None | Some v \<Rightarrow> if p k v then Some v else None)"
proof (induction m)
  case (Cons e m)
  obtain a b where e: "e = (a, b)" by (cases e)
  have "k = a \<Longrightarrow> map_of (map_retain p m) k = None"
    using Cons.prems map_keys_retain [of p m]
    by (auto simp: e map_keys_def map_of_eq_None_iff)
  then show ?case
    using Cons by (auto simp: e map_retain_def map_keys_def)
qed (simp add: map_retain_def)

lemma hm_get_retain:
  "hm_inv m \<Longrightarrow> hm_get (map_retain p m) k =
     (case hm_get m k of None \<Rightarrow> None | Some v \<Rightarrow> if p k v then Some v else None)"
  by (simp add: hm_get_def hm_inv_def map_of_retain)

lemma bt_get_retain:
  "bt_inv m \<Longrightarrow> bt_get (map_retain p m) k =
     (case bt_get m k of None \<Rightarrow> None | Some v \<Rightarrow> if p k v then Some v else None)"
  by (simp add: bt_get_def bt_inv_distinct map_of_retain)

lemma map_keys_vals [simp]: "map_keys (map_vals f m) = map_keys m"
  by (simp add: map_keys_def map_vals_def split_def comp_def)

lemma map_of_vals: "map_of (map_vals f m) k = map_option (f k) (map_of m k)"
  by (induction m) (auto simp: map_vals_def)

lemma hm_get_vals: "hm_get (map_vals f m) k = map_option (f k) (hm_get m k)"
  by (simp add: hm_get_def map_of_vals)

lemma hm_inv_vals [inv_intros]: "hm_inv m \<Longrightarrow> hm_inv (map_vals f m)"
  by (simp add: hm_inv_def)

lemma hm_get_Some_mem: "hm_get m k = Some v \<Longrightarrow> (k, v) \<in> set m"
  unfolding hm_get_def by (rule map_of_SomeD)

lemma hm_get_mem: "hm_inv m \<Longrightarrow> (k, v) \<in> set m \<Longrightarrow> hm_get m k = Some v"
  by (simp add: hm_get_def hm_inv_def map_keys_def)

lemma hm_inv_Nil [simp]: "hm_inv []"
  by (simp add: hm_inv_def map_keys_def)

lemma bt_inv_Nil [simp]: "bt_inv []"
  by (simp add: bt_inv_def map_keys_def)

lemma hm_get_Nil [simp]: "hm_get [] k = None"
  by (simp add: hm_get_def)

lemma bt_get_Nil [simp]: "bt_get [] k = None"
  by (simp add: bt_get_def)

lemma length_map_keys [simp]: "length (map_keys m) = length m"
  by (simp add: map_keys_def)

lemma hm_get_hm_put: "hm_get (hm_put k v m) j = (if j = k then Some v else hm_get m j)"
  by (simp add: hm_get_def hm_put_def update_conv)

lemma hm_get_hm_del: "hm_get (hm_del k m) j = (if j = k then None else hm_get m j)"
  by (simp add: hm_get_def hm_del_def delete_conv)

lemma hm_put_fresh: "k \<notin> fst ` set m \<Longrightarrow> hm_put k v m = m @ [(k, v)]"
  by (induction m) (auto simp: hm_put_def)

lemmas hm_laws = hm.get_put hm.get_del hm.size_put hm.size_del hm_get_retain
lemmas bt_laws = bt_get_put bt_get_del bt.size_put bt.size_del bt_get_retain

end
