(* ===== verification/Core_Data.thy ===== *)
theory Core_Data
  imports Key_Maps
begin

text \<open>
  The data every component exchanges: \<open>core/src/structures\<close> and \<open>core/src/commitment_utils.rs\<close>.
  Public keys and hashes are 32-byte arrays, read as 256-bit words (big endian, so the order of
  the words is the order of the byte arrays); signatures are 64 bytes.  A field of a third-party
  type that the code only carries (the message of a transaction, an error of the runtime) is its
  wire bytes.  Record fields carry a prefix that names the struct they belong to.
\<close>

section \<open>Identifiers\<close>

type_synonym pubkey = "256 word"
type_synonym hash = "256 word"
type_synonym signature = "512 word"
type_synonym wire = "u8 list"

section \<open>Commitment levels\<close>

datatype commitment_level = LevelProcessed | LevelConfirmed | LevelFinalized

record commitment_config =
  cc_commitment :: commitment_level

definition processed_config :: commitment_config where
  "processed_config = \<lparr>cc_commitment = LevelProcessed\<rparr>"

definition confirmed_config :: commitment_config where
  "confirmed_config = \<lparr>cc_commitment = LevelConfirmed\<rparr>"

definition finalized_config :: commitment_config where
  "finalized_config = \<lparr>cc_commitment = LevelFinalized\<rparr>"

definition is_finalized :: "commitment_config \<Rightarrow> bool" where
  "is_finalized c \<longleftrightarrow> cc_commitment c = LevelFinalized"

definition is_processed :: "commitment_config \<Rightarrow> bool" where
  "is_processed c \<longleftrightarrow> cc_commitment c = LevelProcessed"

lemmas config_defs = processed_config_def confirmed_config_def finalized_config_def
  is_finalized_def is_processed_def

lemma config_simps [simp]:
  "is_finalized finalized_config" "\<not> is_finalized confirmed_config"
  "\<not> is_finalized processed_config" "is_processed processed_config"
  "\<not> is_processed confirmed_config" "\<not> is_processed finalized_config"
  by (simp_all add: config_defs)

lemma processed_not_finalized: "is_processed c \<Longrightarrow> \<not> is_finalized c"
  by (simp add: config_defs)

datatype commitment = Processed | Confirmed | Finalized

fun commitment_rank :: "commitment \<Rightarrow> nat" where
  "commitment_rank Processed = 0"
| "commitment_rank Confirmed = 1"
| "commitment_rank Finalized = 2"

lemma commitment_rank_inject [simp]: "commitment_rank a = commitment_rank b \<longleftrightarrow> a = b"
  by (cases a; cases b) simp_all

text \<open>The derived \<open>Ord\<close> of the enum compares the discriminants.\<close>

instantiation commitment :: linorder
begin

definition less_eq_commitment :: "commitment \<Rightarrow> commitment \<Rightarrow> bool" where
  "less_eq_commitment a b \<longleftrightarrow> commitment_rank a \<le> commitment_rank b"

definition less_commitment :: "commitment \<Rightarrow> commitment \<Rightarrow> bool" where
  "less_commitment a b \<longleftrightarrow> commitment_rank a < commitment_rank b"

instance
  by standard (auto simp: less_eq_commitment_def less_commitment_def)

end

lemmas commitment_order = less_eq_commitment_def less_commitment_def

lemma not_Finalized_less [simp]: "\<not> Finalized < c"
  by (cases c) (simp_all add: less_commitment_def)

fun commitment_from_level :: "commitment_level \<Rightarrow> commitment" where
  "commitment_from_level LevelFinalized = Finalized"
| "commitment_from_level LevelConfirmed = Confirmed"
| "commitment_from_level LevelProcessed = Processed"

definition commitment_from_config :: "commitment_config \<Rightarrow> commitment" where
  "commitment_from_config c = commitment_from_level (cc_commitment c)"

fun into_commitment_level :: "commitment \<Rightarrow> commitment_level" where
  "into_commitment_level Confirmed = LevelConfirmed"
| "into_commitment_level Processed = LevelProcessed"
| "into_commitment_level Finalized = LevelFinalized"

definition into_commiment_config :: "commitment \<Rightarrow> commitment_config" where
  "into_commiment_config c = \<lparr>cc_commitment = into_commitment_level c\<rparr>"

lemma commitment_level_roundtrip [simp]: "commitment_from_level (into_commitment_level c) = c"
  by (cases c) simp_all

lemma into_level_roundtrip [simp]: "into_commitment_level (commitment_from_level l) = l"
  by (cases l) simp_all

lemma commitment_config_roundtrip [simp]:
  "commitment_from_config (into_commiment_config c) = c"
  "into_commiment_config (commitment_from_config cc) = cc"
  by (simp_all add: commitment_from_config_def into_commiment_config_def)

section \<open>Blocks and transactions\<close>

record lookup_message =
  lm_account_key :: pubkey
  lm_writable_indexes :: "u8 list"
  lm_readonly_indexes :: "u8 list"

text \<open>
  Messages, instructions and rewards are data of the SDK; the operations the code calls on them
  that only select a field are written out.
\<close>

record message_header =
  mh_num_required_signatures :: u8
  mh_num_readonly_signed_accounts :: u8
  mh_num_readonly_unsigned_accounts :: u8

record compiled_instruction =
  ix_program_id_index :: u8
  ix_accounts :: "u8 list"
  ix_data :: "u8 list"

record message_core =
  mc_header :: message_header
  mc_account_keys :: "pubkey list"
  mc_recent_blockhash :: hash
  mc_instructions :: "compiled_instruction list"

datatype versioned_message =
    MessageLegacy message_core
  | MessageV0 message_core "lookup_message list"

fun message_core_of :: "versioned_message \<Rightarrow> message_core" where
  "message_core_of (MessageLegacy m) = m"
| "message_core_of (MessageV0 m _) = m"

fun address_table_lookups :: "versioned_message \<Rightarrow> lookup_message list option" where
  "address_table_lookups (MessageLegacy _) = None"
| "address_table_lookups (MessageV0 _ ls) = Some ls"

record versioned_transaction =
  vt_signatures :: "signature list"
  vt_message :: versioned_message

definition instruction_program :: "pubkey list \<Rightarrow> compiled_instruction \<Rightarrow> pubkey outcome" where
  "instruction_program keys ix = index_checked keys (unat (ix_program_id_index ix))"

datatype compute_budget_instruction =
    SetComputeUnitLimit u32
  | SetComputeUnitPrice u64
  | OtherComputeBudget

datatype reward_type = RewardFee | RewardRent | RewardStaking | RewardVoting

record reward =
  rw_pubkey :: string
  rw_lamports :: "64 word"
  rw_post_balance :: u64
  rw_reward_type :: "reward_type option"
  rw_commission :: "u8 option"

record transaction_info =
  ti_signature :: signature
  ti_is_vote :: bool
  ti_err :: "wire option"
  ti_cu_requested :: "u32 option"
  ti_prioritization_fees :: "u64 option"
  ti_cu_consumed :: "u64 option"
  ti_recent_blockhash :: hash
  ti_message :: versioned_message
  ti_writable_accounts :: "pubkey list"
  ti_readable_accounts :: "pubkey list"
  ti_address_lookup_tables :: "lookup_message list"

record produced_block =
  pb_transactions :: "transaction_info list"
  pb_leader_id :: "string option"
  pb_blockhash :: hash
  pb_block_height :: u64
  pb_slot :: slot
  pb_parent_slot :: slot
  pb_block_time :: u64
  pb_previous_blockhash :: hash
  pb_rewards :: "reward list option"
  pb_commitment_config :: commitment_config

definition empty_message :: versioned_message where
  "empty_message = MessageLegacy \<lparr>mc_header = \<lparr>mh_num_required_signatures = 1,
     mh_num_readonly_signed_accounts = 0, mh_num_readonly_unsigned_accounts = 0\<rparr>,
     mc_account_keys = [], mc_recent_blockhash = 0, mc_instructions = []\<rparr>"

definition to_confirmed_block :: "produced_block \<Rightarrow> produced_block" where
  "to_confirmed_block b = b\<lparr>pb_commitment_config := confirmed_config\<rparr>"

definition to_finalized_block :: "produced_block \<Rightarrow> produced_block" where
  "to_finalized_block b = b\<lparr>pb_commitment_config := finalized_config\<rparr>"

record block_info =
  bi_slot :: u64
  bi_parent :: u64
  bi_block_height :: u64
  bi_blockhash :: hash
  bi_commitment_config :: commitment_config
  bi_block_time :: u64

record slot_notification =
  sn_processed_slot :: slot
  sn_estimated_processed_slot :: slot

record sent_transaction_info =
  st_signature :: signature
  st_slot :: slot
  st_transaction :: wire
  st_last_valid_block_height :: u64
  st_prioritization_fee :: u64

section \<open>Accounts and account filters\<close>

record account =
  ac_lamports :: u64
  ac_data :: "u8 list"
  ac_owner :: pubkey
  ac_executable :: bool
  ac_rent_epoch :: u64

record account_data =
  ad_pubkey :: pubkey
  ad_account :: account
  ad_updated_slot :: slot

record account_notification =
  an_data :: account_data
  an_commitment :: commitment

datatype memcmp_encoded = EncodedBytes "u8 list" | EncodedBase58 string | EncodedBase64 string

record rpc_memcmp =
  rm_offset :: nat
  rm_bytes :: memcmp_encoded

datatype rpc_filter_type = DataSize u64 | Memcmp rpc_memcmp | TokenAccountState

text \<open>
  Matching bytes against an encoded pattern is the RPC client library's \<open>bytes_match\<close>, an
  argument here.
\<close>

fun allows :: "(rpc_memcmp \<Rightarrow> u8 list \<Rightarrow> bool) \<Rightarrow> account_data \<Rightarrow> rpc_filter_type \<Rightarrow> bool" where
  "allows bytes_match a (DataSize sz) \<longleftrightarrow>
     (word_of_nat (length (ac_data (ad_account a))) :: u64) = sz"
| "allows bytes_match a (Memcmp compare) \<longleftrightarrow> bytes_match compare (ac_data (ad_account a))"
| "allows bytes_match a TokenAccountState \<longleftrightarrow> False"

datatype memcmp_filter_data = FBytes "u8 list" | FBase58 string | FBase64 string

record memcmp_filter =
  mf_offset :: u64
  mf_data :: memcmp_filter_data

datatype account_filter_type = FDatasize u64 | FMemcmp memcmp_filter | FTokenAccountState

record account_filter =
  af_accounts :: "string list"
  af_program_id :: "string option"
  af_filters :: "account_filter_type list option"

fun to_encoded_bytes :: "memcmp_filter_data \<Rightarrow> memcmp_encoded" where
  "to_encoded_bytes (FBytes bytes) = EncodedBytes bytes"
| "to_encoded_bytes (FBase58 data) = EncodedBase58 data"
| "to_encoded_bytes (FBase64 data) = EncodedBase64 data"

fun to_rpc_filter :: "account_filter_type \<Rightarrow> rpc_filter_type" where
  "to_rpc_filter (FDatasize sz) = DataSize sz"
| "to_rpc_filter (FMemcmp memcpy) =
     Memcmp \<lparr>rm_offset = unat (mf_offset memcpy), rm_bytes = to_encoded_bytes (mf_data memcpy)\<rparr>"
| "to_rpc_filter FTokenAccountState = TokenAccountState"

definition get_rpc_filter :: "account_filter \<Rightarrow> rpc_filter_type list option" where
  "get_rpc_filter f = map_option (List.map to_rpc_filter) (af_filters f)"

text \<open>The other direction decodes the pattern; \<open>bytes\<close> is the library's decoder.\<close>

fun from_rpc_filter :: "(rpc_memcmp \<Rightarrow> u8 list option) \<Rightarrow> rpc_filter_type \<Rightarrow> account_filter_type" where
  "from_rpc_filter bytes (DataSize sz) = FDatasize sz"
| "from_rpc_filter bytes (Memcmp memcmp) =
     FMemcmp \<lparr>mf_offset = word_of_nat (rm_offset memcmp),
              mf_data = FBytes (unwrap_or (bytes memcmp) [])\<rparr>"
| "from_rpc_filter bytes TokenAccountState = FTokenAccountState"

text \<open>Converting an account filter to the filter of the RPC client and back gives the same filter,
  for every filter whose pattern is raw bytes; the client's decoder is the identity on raw bytes.\<close>

theorem rpc_filter_roundtrip:
  assumes "\<And>off bs. bytes \<lparr>rm_offset = off, rm_bytes = EncodedBytes bs\<rparr> = Some bs"
    and "\<forall>m. f = FMemcmp m \<longrightarrow> (\<exists>bs. mf_data m = FBytes bs)"
  shows "from_rpc_filter bytes (to_rpc_filter f) = f"
proof (cases f)
  case (FMemcmp m)
  with assms(2) obtain bs where "mf_data m = FBytes bs" by auto
  then show ?thesis
    by (cases m) (simp add: FMemcmp assms(1))
qed simp_all

lemma rpc_filter_roundtrip_witness:
  "from_rpc_filter (\<lambda>m. case rm_bytes m of EncodedBytes bs \<Rightarrow> Some bs | _ \<Rightarrow> None)
     (to_rpc_filter (FMemcmp \<lparr>mf_offset = 4, mf_data = FBytes [1, 2]\<rparr>)) =
   FMemcmp \<lparr>mf_offset = 4, mf_data = FBytes [1, 2]\<rparr>"
  by (rule rpc_filter_roundtrip) simp_all

end
