(* ===== verification/Account_Store.thy ===== *)
theory Account_Store
  imports Core_Data
begin

text \<open>
  \<open>accounts/src/inmemory_account_store.rs\<close>: the accounts in memory, each with its data per
  commitment (every unfinalized processed slot, the confirmed and the finalized data), the confirmed
  slots and the index of accounts by owner.  A \<open>HashSet\<close> of accounts is a list without
  repetition, in the order it is iterated.  The metrics are left out.
\<close>

section \<open>One account at every commitment\<close>

record account_by_commitment =
  ab_pubkey :: pubkey
  ab_processed :: "(slot, account_data) btreemap"
  ab_confirmed :: "account_data option"
  ab_finalized :: "account_data option"

fun get_account_data :: "account_by_commitment \<Rightarrow> commitment \<Rightarrow> account_data option" where
  "get_account_data a Processed =
     or_else (map_option snd (bt_last (ab_processed a))) (ab_confirmed a)"
| "get_account_data a Confirmed = ab_confirmed a"
| "get_account_data a Finalized = ab_finalized a"

definition account_by_commitment_new :: "account_data \<Rightarrow> commitment \<Rightarrow> account_by_commitment" where
  "account_by_commitment_new data c =
     \<lparr>ab_pubkey = ad_pubkey data,
      ab_processed = bt_put (ad_updated_slot data) data [],
      ab_confirmed = (if c = Confirmed \<or> c = Finalized then Some data else None),
      ab_finalized = (if c = Finalized then Some data else None)\<rparr>"

definition account_by_commitment_initialize :: "account_data \<Rightarrow> account_by_commitment" where
  "account_by_commitment_initialize data =
     \<lparr>ab_pubkey = ad_pubkey data,
      ab_processed = bt_put (ad_updated_slot data) data [],
      ab_confirmed = Some data,
      ab_finalized = Some data\<rparr>"

text \<open>Data of an older or equal slot never replaces the confirmed or finalized data.\<close>

definition newer_than :: "account_data option \<Rightarrow> account_data \<Rightarrow> bool" where
  "newer_than cur data \<longleftrightarrow>
     (case cur of None \<Rightarrow> True | Some x \<Rightarrow> ad_updated_slot x < ad_updated_slot data)"

definition account_update ::
    "account_by_commitment \<Rightarrow> account_data \<Rightarrow> commitment \<Rightarrow> account_by_commitment \<times> bool" where
  "account_update a data c =
     (let update_confirmed = newer_than (ab_confirmed a) data;
          update_finalized = newer_than (ab_finalized a) data;
          vacant = bt_get (ab_processed a) (ad_updated_slot data) = None;
          a1 = (if vacant
                then a\<lparr>ab_processed := bt_put (ad_updated_slot data) data (ab_processed a)\<rparr> else a)
      in case c of
           Confirmed \<Rightarrow>
             (if update_confirmed then a1\<lparr>ab_confirmed := Some data\<rparr> else a1,
              vacant \<or> update_confirmed)
         | Finalized \<Rightarrow>
             (let a2 = (if update_confirmed then a1\<lparr>ab_confirmed := Some data\<rparr> else a1)
              in (if update_finalized then a2\<lparr>ab_finalized := Some data\<rparr> else a2,
                  vacant \<or> update_confirmed \<or> update_finalized))
         | Processed \<Rightarrow> (a1, vacant))"

text \<open>The loop that pops the processed slots up to a finalized one, keeping the last entry.\<close>

fun pop_finalized :: "slot \<Rightarrow> (slot, account_data) btreemap \<Rightarrow> (slot, account_data) btreemap" where
  "pop_finalized sl (e # e' # m) =
     (if fst e \<le> sl then pop_finalized sl (e' # m) else e # e' # m)"
| "pop_finalized sl m = m"

definition slot_or_default :: "account_data option \<Rightarrow> slot" where
  "slot_or_default a = unwrap_or (map_option ad_updated_slot a) 0"

definition promote_slot_commitment ::
    "account_by_commitment \<Rightarrow> slot \<Rightarrow> commitment \<Rightarrow>
     account_by_commitment \<times> (account_data \<times> account_data option) option" where
  "promote_slot_commitment a sl c =
     (case bt_get (ab_processed a) sl of
        Some data \<Rightarrow>
          (case c of
             Processed \<Rightarrow> (a, None)
           | Confirmed \<Rightarrow>
               if slot_or_default (ab_confirmed a) < sl
               then (a\<lparr>ab_confirmed := Some data\<rparr>, Some (data, ab_confirmed a))
               else (a, None)
           | Finalized \<Rightarrow>
               (let a1 = a\<lparr>ab_processed := pop_finalized sl (ab_processed a)\<rparr>
                in if slot_or_default (ab_finalized a) < sl
                   then (a1\<lparr>ab_finalized := Some data\<rparr>, Some (data, ab_finalized a))
                   else (a1, None)))
      | None \<Rightarrow>
          (if c = Finalized then (a\<lparr>ab_processed := pop_finalized sl (ab_processed a)\<rparr>, None)
           else (a, None)))"

section \<open>The store\<close>

record inmemory_account_store =
  is_account_store :: "(pubkey, account_by_commitment) hashmap"
  is_confirmed_slots_map :: "slot set"
  is_accounts_by_owner :: "(pubkey, pubkey list) hashmap"

definition inmemory_account_store_new :: inmemory_account_store where
  "inmemory_account_store_new =
     \<lparr>is_account_store = [], is_confirmed_slots_map = {}, is_accounts_by_owner = []\<rparr>"

definition add_account_owner ::
    "inmemory_account_store \<Rightarrow> pubkey \<Rightarrow> pubkey \<Rightarrow> inmemory_account_store" where
  "add_account_owner s account owner =
     (case hm_get (is_accounts_by_owner s) owner of
        Some accounts \<Rightarrow>
          s\<lparr>is_accounts_by_owner :=
              hm_put owner (List.insert account accounts) (is_accounts_by_owner s)\<rparr>
      | None \<Rightarrow> s\<lparr>is_accounts_by_owner := hm_put owner [account] (is_accounts_by_owner s)\<rparr>)"

definition update_owner ::
    "inmemory_account_store \<Rightarrow> account_data \<Rightarrow> account_data \<Rightarrow> commitment \<Rightarrow>
     inmemory_account_store outcome" where
  "update_owner s prev new c =
     (if ad_pubkey prev \<noteq> ad_pubkey new then Inl AssertionFailed
      else if ac_owner (ad_account prev) \<noteq> ac_owner (ad_account new) then
        (let s1 =
           (if c = Finalized then
              (case hm_get (is_accounts_by_owner s) (ac_owner (ad_account prev)) of
                 Some accounts \<Rightarrow>
                   s\<lparr>is_accounts_by_owner := hm_put (ac_owner (ad_account prev))
                      (removeAll (ad_pubkey prev) accounts) (is_accounts_by_owner s)\<rparr>
               | None \<Rightarrow> s)
            else s)
         in Inr (add_account_owner s1 (ad_pubkey new) (ac_owner (ad_account new))))
      else Inr s)"

definition update_account ::
    "inmemory_account_store \<Rightarrow> account_data \<Rightarrow> commitment \<Rightarrow>
     (inmemory_account_store \<times> bool) outcome" where
  "update_account s data c0 =
     (let c = (if c0 = Processed
               then (if ad_updated_slot data \<in> is_confirmed_slots_map s then Confirmed else Processed)
               else c0)
      in case hm_get (is_account_store s) (ad_pubkey data) of
           Some occ \<Rightarrow>
             (let prev = get_account_data occ c;
                  (occ', updated) = account_update occ data c;
                  s1 = s\<lparr>is_account_store := hm_put (ad_pubkey data) occ' (is_account_store s)\<rparr>
              in if updated then
                   (case prev of
                      Some p \<Rightarrow> bind_outcome (update_owner s1 p data c) (\<lambda>s2. Inr (s2, True))
                    | None \<Rightarrow> Inr (s1, True))
                 else Inr (s1, False))
         | None \<Rightarrow>
             (let s1 = add_account_owner s (ad_pubkey data) (ac_owner (ad_account data))
              in Inr (s1\<lparr>is_account_store :=
                   hm_put (ad_pubkey data) (account_by_commitment_new data c) (is_account_store s1)\<rparr>,
                 True)))"

definition initilize_or_update_account ::
    "inmemory_account_store \<Rightarrow> account_data \<Rightarrow> inmemory_account_store outcome" where
  "initilize_or_update_account s data =
     (if hm_get (is_account_store s) (ad_pubkey data) \<noteq> None
      then bind_outcome (update_account s data Finalized) (\<lambda>(s', _). Inr s')
      else
        (let s1 = add_account_owner s (ad_pubkey data) (ac_owner (ad_account data))
         in Inr (s1\<lparr>is_account_store := hm_put (ad_pubkey data)
              (account_by_commitment_initialize data) (is_account_store s1)\<rparr>)))"

datatype account_loading_error =
    AccountNotFound
  | ConfigDoesnotContainRequiredFilters
  | OperationTimeOut

definition get_account ::
    "inmemory_account_store \<Rightarrow> pubkey \<Rightarrow> commitment \<Rightarrow> account_loading_error + account_data option"
where
  "get_account s pk c =
     (case hm_get (is_account_store s) pk of
        Some a \<Rightarrow> Inr (get_account_data a c)
      | None \<Rightarrow> Inr None)"

text \<open>One account of the index, checked again against the owner and the filters.\<close>

definition program_account ::
    "(rpc_memcmp \<Rightarrow> u8 list \<Rightarrow> bool) \<Rightarrow> inmemory_account_store \<Rightarrow> pubkey \<Rightarrow>
     rpc_filter_type list option \<Rightarrow> commitment \<Rightarrow> pubkey \<Rightarrow> account_data option" where
  "program_account bytes_match s program filters c pk =
     (case get_account s pk c of
        Inr (Some data) \<Rightarrow>
          if ac_owner (ad_account data) = program then
            (case filters of
               Some fs \<Rightarrow> if list_all (allows bytes_match data) fs then Some data else None
             | None \<Rightarrow> Some data)
          else None
      | _ \<Rightarrow> None)"

definition get_program_accounts ::
    "(rpc_memcmp \<Rightarrow> u8 list \<Rightarrow> bool) \<Rightarrow> inmemory_account_store \<Rightarrow> pubkey \<Rightarrow>
     rpc_filter_type list option \<Rightarrow> commitment \<Rightarrow> account_data list option" where
  "get_program_accounts bytes_match s program filters c =
     map_option (List.map_filter (program_account bytes_match s program filters c))
       (hm_get (is_accounts_by_owner s) program)"

text \<open>Updating the owner index for the promoted accounts, one after the other.\<close>

fun update_owners ::
    "inmemory_account_store \<Rightarrow> commitment \<Rightarrow> (account_data \<times> account_data option) list \<Rightarrow>
     inmemory_account_store outcome" where
  "update_owners s c [] = Inr s"
| "update_owners s c ((data, prev) # us) =
     (case prev of
        Some p \<Rightarrow>
          if ac_owner (ad_account p) \<noteq> ac_owner (ad_account data)
          then bind_outcome (update_owner s p data c) (\<lambda>s'. update_owners s' c us)
          else update_owners s c us
      | None \<Rightarrow> update_owners s c us)"

definition notified_accounts ::
    "(account_data \<times> account_data option) list \<Rightarrow> account_data list" where
  "notified_accounts updated =
     List.map_filter
       (\<lambda>(data, prev). case prev of
            Some p \<Rightarrow> if p \<noteq> data then Some data else None
          | None \<Rightarrow> Some data) updated"

definition process_slot_data ::
    "inmemory_account_store \<Rightarrow> slot \<Rightarrow> commitment \<Rightarrow>
     (inmemory_account_store \<times> account_data list) outcome" where
  "process_slot_data s sl c =
     (if c = Processed then Inr (s, [])
      else
        (let slots = (if c = Confirmed then insert sl (is_confirmed_slots_map s)
                      else is_confirmed_slots_map s - {sl});
             promoted = map_vals (\<lambda>_ a. promote_slot_commitment a sl c) (is_account_store s);
             updated = List.map_filter (snd \<circ> snd) promoted;
             s1 = s\<lparr>is_confirmed_slots_map := slots,
                    is_account_store := map_vals (\<lambda>_. fst) promoted\<rparr>
         in bind_outcome (update_owners s1 c updated)
              (\<lambda>s2. Inr (s2, notified_accounts updated))))"

section \<open>One account: invariant and progress\<close>

definition data_of :: "pubkey \<Rightarrow> account_data option \<Rightarrow> bool" where
  "data_of pk x \<longleftrightarrow> (case x of None \<Rightarrow> True | Some d \<Rightarrow> ad_pubkey d = pk)"

lemma data_of_simps [simp]: "data_of pk None" "data_of pk (Some d) \<longleftrightarrow> ad_pubkey d = pk"
  by (simp_all add: data_of_def)

definition processed_inv :: "pubkey \<Rightarrow> (slot, account_data) btreemap \<Rightarrow> bool" where
  "processed_inv pk m \<longleftrightarrow> bt_inv m \<and> m \<noteq> [] \<and>
     (\<forall>(sl, d) \<in> set m. ad_updated_slot d = sl \<and> ad_pubkey d = pk)"

definition account_inv :: "pubkey \<Rightarrow> account_by_commitment \<Rightarrow> bool" where
  "account_inv pk a \<longleftrightarrow> ab_pubkey a = pk \<and> processed_inv pk (ab_processed a) \<and>
     data_of pk (ab_confirmed a) \<and> data_of pk (ab_finalized a)"

text \<open>The data a reader sees is never replaced by data of an older slot.\<close>

definition advances :: "account_data option \<Rightarrow> account_data option \<Rightarrow> bool" where
  "advances x y \<longleftrightarrow>
     (case x of None \<Rightarrow> True
      | Some d \<Rightarrow> (case y of None \<Rightarrow> False | Some d' \<Rightarrow> ad_updated_slot d \<le> ad_updated_slot d'))"

lemma advances_refl [simp]: "advances x x"
  by (simp add: advances_def split: option.split)

lemma advances_None [simp]: "advances None y"
  by (simp add: advances_def)

lemma advances_Some [simp]: "advances (Some d) (Some d') \<longleftrightarrow> ad_updated_slot d \<le> ad_updated_slot d'"
  by (simp add: advances_def)

lemma advances_trans: "advances x y \<Longrightarrow> advances y z \<Longrightarrow> advances x z"
  by (auto simp: advances_def split: option.splits)

lemma newer_advances: "newer_than x d \<Longrightarrow> advances x (Some d)"
  by (auto simp: newer_than_def advances_def split: option.splits)

lemma promoted_advances: "slot_or_default x < ad_updated_slot d \<Longrightarrow> advances x (Some d)"
  by (auto simp: slot_or_default_def advances_def split: option.splits)

lemma get_processed_eq: "ab_processed a \<noteq> [] \<Longrightarrow>
  get_account_data a Processed = Some (snd (last (ab_processed a)))"
  by (simp add: bt_last_def)

lemma processed_inv_put:
  assumes "processed_inv pk m" and "ad_pubkey d = pk"
  shows "processed_inv pk (bt_put (ad_updated_slot d) d m)"
proof -
  have "set (bt_put k v m) \<subseteq> insert (k, v) (set m)" for k v
    by (induction k v m rule: bt_put.induct) auto
  moreover have "bt_put k v m \<noteq> []" for k v by (cases m) (auto split: if_splits)
  ultimately show ?thesis
    using assms by (fastforce simp: processed_inv_def bt_inv_put)
qed

lemma processed_inv_single: "ad_pubkey d = pk \<Longrightarrow> processed_inv pk (bt_put (ad_updated_slot d) d [])"
  by (simp add: processed_inv_def bt_inv_def map_keys_def)

lemma last_processed_slot:
  assumes "processed_inv pk m"
  shows "ad_updated_slot (snd (last m)) = fst (last m)" and "ad_pubkey (snd (last m)) = pk"
proof -
  obtain k d where l: "last m = (k, d)" by (cases "last m")
  have "last m \<in> set m" using assms by (simp add: processed_inv_def)
  then have "(k, d) \<in> set m" by (simp only: l)
  then show "ad_updated_slot (snd (last m)) = fst (last m)" "ad_pubkey (snd (last m)) = pk"
    using assms by (auto simp: processed_inv_def l)
qed

lemma last_put_advances:
  assumes "processed_inv pk m" and "ad_pubkey d = pk"
  shows "ad_updated_slot (snd (last m)) \<le> ad_updated_slot (snd (last (bt_put (ad_updated_slot d) d m)))"
proof -
  let ?m = "bt_put (ad_updated_slot d) d m"
  have inv: "processed_inv pk ?m" using assms by (rule processed_inv_put)
  have "fst (last m) \<in> set (map_keys m)"
    using assms(1) by (simp add: map_keys_def processed_inv_def)
  then have "fst (last m) \<le> fst (last ?m)"
    using inv bt_put_keys [of "ad_updated_slot d" d m]
    by (intro bt_last_ge) (auto simp: processed_inv_def)
  then show ?thesis by (simp add: last_processed_slot(1) [OF assms(1)] last_processed_slot(1) [OF inv])
qed

lemma pop_finalized_last: "last (pop_finalized sl m) = last m"
  by (induction sl m rule: pop_finalized.induct) auto

lemma pop_finalized_subset: "set (pop_finalized sl m) \<subseteq> set m"
  by (induction sl m rule: pop_finalized.induct) auto

lemma processed_inv_pop: "processed_inv pk m \<Longrightarrow> processed_inv pk (pop_finalized sl m)"
  by (induction sl m rule: pop_finalized.induct)
    (auto simp: processed_inv_def bt_inv_def map_keys_def)

text \<open>After the loop only unfinalized slots and at most one older entry are left.\<close>

lemma pop_finalized_rest:
  "bt_inv m \<Longrightarrow> length (pop_finalized sl m) \<le> 1 \<or> (\<forall>k \<in> set (map_keys (pop_finalized sl m)). sl < k)"
  by (induction sl m rule: pop_finalized.induct) (auto simp: bt_inv_def map_keys_def)

lemma account_inv_processed: "account_inv pk a \<Longrightarrow> processed_inv pk (ab_processed a)"
  by (simp add: account_inv_def)

lemma get_account_data_pubkey: "account_inv pk a \<Longrightarrow> data_of pk (get_account_data a c)"
  by (cases c) (auto simp: account_inv_def bt_last_def last_processed_slot processed_inv_def
      dest!: last_in_set)

lemma account_new_inv [inv_intros]:
  "account_inv (ad_pubkey d) (account_by_commitment_new d c)"
  "account_inv (ad_pubkey d) (account_by_commitment_initialize d)"
  by (auto simp: account_inv_def account_by_commitment_new_def account_by_commitment_initialize_def
      processed_inv_single simp del: bt_put.simps)

lemma account_update_inv [inv_intros]:
  "account_inv pk a \<Longrightarrow> ad_pubkey d = pk \<Longrightarrow> account_inv pk (fst (account_update a d c))"
  by (cases c) (auto simp: account_inv_def account_update_def Let_def processed_inv_put)

lemma account_update_advances:
  assumes "account_inv pk a" and "ad_pubkey d = pk"
  shows "advances (get_account_data a c') (get_account_data (fst (account_update a d c)) c')"
proof (cases c')
  case Processed
  have "processed_inv pk (ab_processed a)" "ab_processed a \<noteq> []"
    using assms(1) by (auto simp: account_inv_def processed_inv_def)
  moreover from this have "processed_inv pk (ab_processed (fst (account_update a d c)))"
    using account_update_inv [OF assms, of c] by (simp add: account_inv_def)
  then have "ab_processed (fst (account_update a d c)) \<noteq> []" by (simp add: processed_inv_def)
  moreover have "ab_processed (fst (account_update a d c)) \<in>
      {ab_processed a, bt_put (ad_updated_slot d) d (ab_processed a)}"
    by (cases c) (auto simp: account_update_def Let_def)
  ultimately show ?thesis
    using last_put_advances [OF _ assms(2)]
    unfolding Processed by (auto simp: get_processed_eq simp del: get_account_data.simps)
qed (use newer_advances in \<open>cases c; auto simp: account_update_def Let_def\<close>)+

lemma bt_get_processed: "processed_inv pk m \<Longrightarrow> bt_get m sl = Some d \<Longrightarrow>
  ad_updated_slot d = sl \<and> ad_pubkey d = pk"
  by (auto simp: processed_inv_def bt_get_def dest!: map_of_SomeD)

lemma promote_inv [inv_intros]:
  assumes "account_inv pk a"
  shows "account_inv pk (fst (promote_slot_commitment a sl c))"
  using assms bt_get_processed [OF account_inv_processed [OF assms]]
  by (cases c) (auto simp: account_inv_def promote_slot_commitment_def Let_def processed_inv_pop
      split: option.split)

lemma promote_advances:
  assumes "account_inv pk a"
  shows "advances (get_account_data a c') (get_account_data (fst (promote_slot_commitment a sl c)) c')"
proof (cases c')
  case Processed
  have "ab_processed a \<noteq> []" "ab_processed (fst (promote_slot_commitment a sl c)) \<noteq> []"
    using assms promote_inv [OF assms, of sl c] by (auto simp: account_inv_def processed_inv_def)
  moreover have "last (ab_processed (fst (promote_slot_commitment a sl c))) = last (ab_processed a)"
    by (cases c) (auto simp: promote_slot_commitment_def Let_def pop_finalized_last
        split: option.split)
  ultimately show ?thesis
    unfolding Processed by (simp add: get_processed_eq del: get_account_data.simps)
next
  case Confirmed
  with bt_get_processed [OF account_inv_processed [OF assms]] show ?thesis
    by (cases c) (auto simp: promote_slot_commitment_def Let_def split: option.split
        intro!: promoted_advances)
next
  case Finalized
  with bt_get_processed [OF account_inv_processed [OF assms]] show ?thesis
    by (cases c) (auto simp: promote_slot_commitment_def Let_def split: option.split
        intro!: promoted_advances)
qed

lemma promote_updated:
  assumes "account_inv pk a" and "promote_slot_commitment a sl c = (a', Some (d, p))"
  shows "ad_pubkey d = pk \<and> ad_updated_slot d = sl \<and> get_account_data a' c = Some d \<and>
    p = get_account_data a c \<and> data_of pk p \<and> c \<noteq> Processed"
  using assms bt_get_processed [OF account_inv_processed [OF assms(1)]]
    get_account_data_pubkey [OF assms(1), of c]
  by (cases c) (auto simp: promote_slot_commitment_def Let_def split: option.splits if_splits)

section \<open>The store: invariant and progress\<close>

definition account_at :: "inmemory_account_store \<Rightarrow> pubkey \<Rightarrow> commitment \<Rightarrow> account_data option"
where
  "account_at s pk c =
     (case hm_get (is_account_store s) pk of None \<Rightarrow> None | Some a \<Rightarrow> get_account_data a c)"

lemma get_account_eq: "get_account s pk c = Inr (account_at s pk c)"
  by (simp add: get_account_def account_at_def split: option.split)

definition accounts_inv :: "(pubkey, account_by_commitment) hashmap \<Rightarrow> bool" where
  "accounts_inv m \<longleftrightarrow> hm_inv m \<and> (\<forall>pk a. hm_get m pk = Some a \<longrightarrow> account_inv pk a)"

definition owners_inv :: "(pubkey, pubkey list) hashmap \<Rightarrow> bool" where
  "owners_inv m \<longleftrightarrow> hm_inv m \<and> (\<forall>ow l. hm_get m ow = Some l \<longrightarrow> distinct l)"

definition account_store_inv :: "inmemory_account_store \<Rightarrow> bool" where
  "account_store_inv s \<longleftrightarrow> accounts_inv (is_account_store s) \<and> owners_inv (is_accounts_by_owner s)"

definition indexed :: "inmemory_account_store \<Rightarrow> pubkey \<Rightarrow> pubkey \<Rightarrow> bool" where
  "indexed s owner pk \<longleftrightarrow>
     (case hm_get (is_accounts_by_owner s) owner of None \<Rightarrow> False | Some l \<Rightarrow> pk \<in> set l)"

lemma accounts_inv_put: "accounts_inv m \<Longrightarrow> account_inv pk a \<Longrightarrow> accounts_inv (hm_put pk a m)"
  by (auto simp: accounts_inv_def hm_inv_put hm.get_put)

lemma owners_inv_put: "owners_inv m \<Longrightarrow> distinct l \<Longrightarrow> owners_inv (hm_put ow l m)"
  by (auto simp: owners_inv_def hm_inv_put hm.get_put)

lemma add_account_owner_frame [simp]:
  "is_account_store (add_account_owner s pk ow) = is_account_store s"
  "is_confirmed_slots_map (add_account_owner s pk ow) = is_confirmed_slots_map s"
  by (simp_all add: add_account_owner_def split: option.split)

lemma add_account_owner_inv:
  "owners_inv (is_accounts_by_owner s) \<Longrightarrow> owners_inv (is_accounts_by_owner (add_account_owner s pk ow))"
  by (auto simp: add_account_owner_def owners_inv_put owners_inv_def hm.get_put hm_inv_put
      split: option.split)

lemma add_account_owner_indexed:
  "owners_inv (is_accounts_by_owner s) \<Longrightarrow>
   indexed (add_account_owner s pk ow) ow' pk' \<longleftrightarrow> indexed s ow' pk' \<or> (ow' = ow \<and> pk' = pk)"
  by (auto simp: indexed_def add_account_owner_def owners_inv_def hm.get_put split: option.split)

lemma update_owner_frame:
  assumes "ad_pubkey p = ad_pubkey d" and "owners_inv (is_accounts_by_owner s)"
  obtains s' where "update_owner s p d c = Inr s'" and "is_account_store s' = is_account_store s"
    and "is_confirmed_slots_map s' = is_confirmed_slots_map s"
    and "owners_inv (is_accounts_by_owner s')"
    and "ac_owner (ad_account p) = ac_owner (ad_account d) \<Longrightarrow> s' = s"
proof -
  have "owners_inv (hm_put ow (removeAll k l) (is_accounts_by_owner s))"
    if "hm_get (is_accounts_by_owner s) ow = Some l" for ow k l
    using that assms(2) distinct_removeAll [of l k]
    by (intro owners_inv_put) (auto simp: owners_inv_def)
  then have "\<exists>s'. update_owner s p d c = Inr s' \<and> is_account_store s' = is_account_store s \<and>
      is_confirmed_slots_map s' = is_confirmed_slots_map s \<and>
      owners_inv (is_accounts_by_owner s') \<and>
      (ac_owner (ad_account p) = ac_owner (ad_account d) \<longrightarrow> s' = s)"
    using assms by (auto simp: update_owner_def Let_def split: option.split
        intro!: add_account_owner_inv)
  then show thesis using that by blast
qed

lemma accounts_get_put:
  "accounts_inv m \<Longrightarrow> hm_get (hm_put pk a m) = (hm_get m)(pk \<mapsto> a)"
  by (simp add: accounts_inv_def hm.get_put)

lemma update_account_ok:
  assumes inv: "account_store_inv s"
  shows "\<exists>s' b. update_account s d c = Inr (s', b) \<and> account_store_inv s' \<and>
    is_confirmed_slots_map s' = is_confirmed_slots_map s \<and>
    (\<forall>pk c'. advances (account_at s pk c') (account_at s' pk c')) \<and>
    (\<forall>pk c'. pk \<noteq> ad_pubkey d \<longrightarrow> account_at s' pk c' = account_at s pk c')"
proof -
  let ?c = "if c = Processed
    then (if ad_updated_slot d \<in> is_confirmed_slots_map s then Confirmed else Processed) else c"
  have acc: "accounts_inv (is_account_store s)" and own: "owners_inv (is_accounts_by_owner s)"
    using inv by (auto simp: account_store_inv_def)
  show ?thesis
  proof (cases "hm_get (is_account_store s) (ad_pubkey d)")
    case None
    then show ?thesis
      using acc own
      by (auto simp: update_account_def account_store_inv_def accounts_inv_put account_new_inv
          add_account_owner_inv accounts_get_put [OF acc] account_at_def)
  next
    case (Some a)
    let ?a = "fst (account_update a d ?c)" and ?u = "snd (account_update a d ?c)"
    let ?s = "s\<lparr>is_account_store := hm_put (ad_pubkey d) ?a (is_account_store s)\<rparr>"
    have a: "account_inv (ad_pubkey d) a" using acc Some by (auto simp: accounts_inv_def)
    have "account_store_inv ?s"
      using acc own account_update_inv [OF a] by (simp add: account_store_inv_def accounts_inv_put)
    moreover have adv: "advances (account_at s pk c') (account_at ?s pk c')" for pk c'
      using account_update_advances [OF a] Some
      by (auto simp: accounts_get_put [OF acc] account_at_def)
    moreover have same: "account_at ?s pk c' = account_at s pk c'" if "pk \<noteq> ad_pubkey d" for pk c'
      using that by (simp add: accounts_get_put [OF acc] account_at_def)
    moreover have "\<exists>s'. update_account s d c = Inr (s', ?u) \<and> is_account_store s' = is_account_store ?s \<and>
        is_confirmed_slots_map s' = is_confirmed_slots_map s \<and> owners_inv (is_accounts_by_owner s')"
    proof (cases "get_account_data a ?c")
      case None
      with Some own show ?thesis
        by (simp add: update_account_def Let_def split_def del: get_account_data.simps)
    next
      case (Some p)
      then have p: "ad_pubkey p = ad_pubkey d" using get_account_data_pubkey [OF a, of ?c] by simp
      obtain s' where "update_owner ?s p d ?c = Inr s'" "is_account_store s' = is_account_store ?s"
          "is_confirmed_slots_map s' = is_confirmed_slots_map ?s"
          "owners_inv (is_accounts_by_owner s')"
        using update_owner_frame [OF p, of ?s ?c] own by auto
      with Some \<open>hm_get (is_account_store s) (ad_pubkey d) = Some a\<close> own show ?thesis
        by (auto simp: update_account_def Let_def split_def simp del: get_account_data.simps)
    qed
    ultimately show ?thesis
      by (auto simp: account_store_inv_def account_at_def)
  qed
qed

lemma initialize_ok:
  assumes inv: "account_store_inv s"
  shows "\<exists>s'. initilize_or_update_account s d = Inr s' \<and> account_store_inv s' \<and>
    is_confirmed_slots_map s' = is_confirmed_slots_map s \<and>
    (\<forall>pk c'. advances (account_at s pk c') (account_at s' pk c')) \<and>
    (\<forall>pk c'. pk \<noteq> ad_pubkey d \<longrightarrow> account_at s' pk c' = account_at s pk c')"
proof (cases "hm_get (is_account_store s) (ad_pubkey d)")
  case None
  have acc: "accounts_inv (is_account_store s)" and own: "owners_inv (is_accounts_by_owner s)"
    using inv by (auto simp: account_store_inv_def)
  with None show ?thesis
    by (auto simp: initilize_or_update_account_def account_store_inv_def accounts_inv_put
        account_new_inv add_account_owner_inv accounts_get_put [OF acc] account_at_def)
next
  case Some
  with update_account_ok [OF inv, of d Finalized] show ?thesis
    by (auto simp: initilize_or_update_account_def)
qed

definition keeps_owner :: "account_data \<times> account_data option \<Rightarrow> bool" where
  "keeps_owner u \<longleftrightarrow>
     (case snd u of None \<Rightarrow> True
      | Some q \<Rightarrow> ac_owner (ad_account q) = ac_owner (ad_account (fst u)))"

lemma update_owners_frame:
  assumes "owners_inv (is_accounts_by_owner s)"
    and "\<forall>(d, p) \<in> set us. data_of (ad_pubkey d) p"
  shows "\<exists>s'. update_owners s c us = Inr s' \<and> is_account_store s' = is_account_store s \<and>
    is_confirmed_slots_map s' = is_confirmed_slots_map s \<and>
    owners_inv (is_accounts_by_owner s') \<and>
    ((\<forall>u \<in> set us. keeps_owner u) \<longrightarrow> s' = s)"
  using assms
proof (induction us arbitrary: s)
  case (Cons u us)
  obtain d p where u: "u = (d, p)" by (cases u)
  show ?case
  proof (cases "\<exists>q. p = Some q \<and> ac_owner (ad_account q) \<noteq> ac_owner (ad_account d)")
    case True
    then obtain q where q: "p = Some q" "ac_owner (ad_account q) \<noteq> ac_owner (ad_account d)" by blast
    then have "ad_pubkey q = ad_pubkey d" using Cons.prems(2) u by simp
    then obtain s1 where s1: "update_owner s q d c = Inr s1" "is_account_store s1 = is_account_store s"
        "is_confirmed_slots_map s1 = is_confirmed_slots_map s"
        "owners_inv (is_accounts_by_owner s1)"
      using Cons.prems(1) by (rule update_owner_frame)
    with Cons.IH [OF s1(4)] Cons.prems(2) u q show ?thesis by (auto simp: keeps_owner_def)
  next
    case False
    then have "update_owners s c (u # us) = update_owners s c us"
      by (cases p) (auto simp: u)
    with Cons.IH [OF Cons.prems(1)] Cons.prems(2) u show ?thesis by auto
  qed
qed simp

definition promotions ::
    "inmemory_account_store \<Rightarrow> slot \<Rightarrow> commitment \<Rightarrow> (account_data \<times> account_data option) list"
where
  "promotions s sl c = List.map_filter (snd \<circ> snd)
     (map_vals (\<lambda>_ a. promote_slot_commitment a sl c) (is_account_store s))"

lemma promotions_iff:
  assumes "accounts_inv (is_account_store s)"
  shows "(d, p) \<in> set (promotions s sl c) \<longleftrightarrow>
    (\<exists>pk a a'. hm_get (is_account_store s) pk = Some a \<and>
      promote_slot_commitment a sl c = (a', Some (d, p)))"
proof -
  have "(d, p) \<in> set (promotions s sl c) \<longleftrightarrow>
      (\<exists>(pk, a) \<in> set (is_account_store s). snd (promote_slot_commitment a sl c) = Some (d, p))"
    by (simp add: promotions_def map_filter_mem map_vals_def split_def)
  moreover have "(pk, a) \<in> set (is_account_store s) \<longleftrightarrow> hm_get (is_account_store s) pk = Some a" for pk a
    using assms hm_get_mem [of "is_account_store s" pk a] hm_get_Some_mem [of "is_account_store s" pk a]
    by (auto simp: accounts_inv_def)
  ultimately show ?thesis by (auto simp: prod_eq_iff)
qed

lemma process_slot_data_ok:
  assumes inv: "account_store_inv s" and c: "c \<noteq> Processed"
  shows "\<exists>s'. process_slot_data s sl c = Inr (s', notified_accounts (promotions s sl c)) \<and>
    account_store_inv s' \<and>
    (\<forall>pk. hm_get (is_account_store s') pk =
       map_option (\<lambda>a. fst (promote_slot_commitment a sl c)) (hm_get (is_account_store s) pk)) \<and>
    is_confirmed_slots_map s' =
      (if c = Confirmed then insert sl (is_confirmed_slots_map s)
       else is_confirmed_slots_map s - {sl}) \<and>
    ((\<forall>u \<in> set (promotions s sl c). keeps_owner u) \<longrightarrow>
      is_accounts_by_owner s' = is_accounts_by_owner s)"
proof -
  have acc: "accounts_inv (is_account_store s)" and own: "owners_inv (is_accounts_by_owner s)"
    using inv by (auto simp: account_store_inv_def)
  let ?promoted = "map_vals (\<lambda>_ a. promote_slot_commitment a sl c) (is_account_store s)"
  let ?s = "s\<lparr>is_confirmed_slots_map :=
      if c = Confirmed then insert sl (is_confirmed_slots_map s) else is_confirmed_slots_map s - {sl},
      is_account_store := map_vals (\<lambda>_. fst) ?promoted\<rparr>"
  have store: "hm_get (is_account_store ?s) pk =
      map_option (\<lambda>a. fst (promote_slot_commitment a sl c)) (hm_get (is_account_store s) pk)" for pk
    by (simp add: hm_get_vals option.map_comp comp_def)
  then have acc': "accounts_inv (is_account_store ?s)"
    using acc promote_inv by (auto simp: accounts_inv_def hm_inv_vals)
  have "\<forall>(d, p) \<in> set (promotions s sl c). data_of (ad_pubkey d) p"
    using promote_updated acc by (fastforce simp: promotions_iff [OF acc] accounts_inv_def)
  moreover have "owners_inv (is_accounts_by_owner ?s)" using own by simp
  ultimately obtain s' where s': "update_owners ?s c (promotions s sl c) = Inr s'"
      "is_account_store s' = is_account_store ?s"
      "is_confirmed_slots_map s' = is_confirmed_slots_map ?s"
      "owners_inv (is_accounts_by_owner s')"
      "(\<forall>u \<in> set (promotions s sl c). keeps_owner u) \<longrightarrow> s' = ?s"
    using update_owners_frame [of ?s "promotions s sl c" c] by blast
  then have "process_slot_data s sl c = Inr (s', notified_accounts (promotions s sl c))"
    using c by (simp add: process_slot_data_def Let_def flip: promotions_def)
  with s' store acc' show ?thesis
    by (intro exI [of _ s']) (auto simp: account_store_inv_def)
qed

lemma process_slot_data_advances:
  assumes inv: "account_store_inv s" and step: "process_slot_data s sl c = Inr (s', ns)"
  shows "advances (account_at s pk c') (account_at s' pk c')"
proof (cases "c = Processed")
  case True
  with step show ?thesis by (simp add: process_slot_data_def)
next
  case False
  then have s': "hm_get (is_account_store s') pk =
      map_option (\<lambda>a. fst (promote_slot_commitment a sl c)) (hm_get (is_account_store s) pk)"
    using process_slot_data_ok [OF inv False, of sl] step by auto
  show ?thesis
  proof (cases "hm_get (is_account_store s) pk")
    case (Some a)
    then have "account_inv pk a"
      using inv by (simp add: account_store_inv_def accounts_inv_def)
    with Some s' show ?thesis by (simp add: account_at_def promote_advances)
  qed (simp add: account_at_def)
qed

lemma initialize_stores:
  assumes inv: "account_store_inv s" and init: "initilize_or_update_account s d = Inr s'"
  shows "advances (Some d) (account_at s' (ad_pubkey d) Finalized)"
proof -
  have acc: "accounts_inv (is_account_store s)" and own: "owners_inv (is_accounts_by_owner s)"
    using inv by (auto simp: account_store_inv_def)
  show ?thesis
  proof (cases "hm_get (is_account_store s) (ad_pubkey d)")
    case None
    with init show ?thesis
      by (auto simp: initilize_or_update_account_def account_at_def accounts_get_put [OF acc]
          account_by_commitment_initialize_def)
  next
    case (Some a)
    let ?a = "fst (account_update a d Finalized)"
    let ?s = "s\<lparr>is_account_store := hm_put (ad_pubkey d) ?a (is_account_store s)\<rparr>"
    have "account_inv (ad_pubkey d) a" using acc Some by (auto simp: accounts_inv_def)
    then have p: "data_of (ad_pubkey d) (ab_finalized a)" by (simp add: account_inv_def)
    have upd: "update_account s d Finalized =
      (if snd (account_update a d Finalized) then
         (case ab_finalized a of
            Some p \<Rightarrow> bind_outcome (update_owner ?s p d Finalized) (\<lambda>s2. Inr (s2, True))
          | None \<Rightarrow> Inr (?s, True))
       else Inr (?s, False))"
      by (simp add: update_account_def Some Let_def split_def)
    obtain b where b: "update_account s d Finalized = Inr (s', b)"
      using init Some by (auto simp: initilize_or_update_account_def)
    have "is_account_store s' = is_account_store ?s"
    proof (cases "ab_finalized a")
      case None
      with b show ?thesis by (auto simp: upd split: if_splits)
    next
      case (Some q)
      then have "ad_pubkey q = ad_pubkey d" using p by simp
      moreover have "owners_inv (is_accounts_by_owner ?s)" using own by simp
      ultimately obtain s2 where "update_owner ?s q d Finalized = Inr s2"
          "is_account_store s2 = is_account_store ?s" by (rule update_owner_frame)
      with b Some show ?thesis by (auto simp: upd split: if_splits)
    qed
    then show ?thesis
      by (auto simp: account_at_def accounts_get_put [OF acc] account_update_def Let_def
          newer_than_def split: option.split)
  qed
qed

section \<open>Sequences of notifications\<close>

datatype account_event =
    AccountUpdate account_data commitment
  | AccountInit account_data
  | SlotData slot commitment

fun account_store_step ::
    "inmemory_account_store \<Rightarrow> account_event \<Rightarrow> inmemory_account_store outcome" where
  "account_store_step s (AccountUpdate d c) = bind_outcome (update_account s d c) (\<lambda>(s', _). Inr s')"
| "account_store_step s (AccountInit d) = initilize_or_update_account s d"
| "account_store_step s (SlotData sl c) = bind_outcome (process_slot_data s sl c) (\<lambda>(s', _). Inr s')"

fun account_store_run ::
    "inmemory_account_store \<Rightarrow> account_event list \<Rightarrow> inmemory_account_store outcome" where
  "account_store_run s [] = Inr s"
| "account_store_run s (e # es) = bind_outcome (account_store_step s e) (\<lambda>s'. account_store_run s' es)"

lemma account_store_step_ok:
  assumes inv: "account_store_inv s"
  shows "\<exists>s'. account_store_step s e = Inr s' \<and> account_store_inv s' \<and>
    (\<forall>pk c. advances (account_at s pk c) (account_at s' pk c))"
proof (cases e)
  case (AccountUpdate d c)
  with update_account_ok [OF inv, of d c] show ?thesis by auto
next
  case (AccountInit d)
  with initialize_ok [OF inv, of d] show ?thesis by auto
next
  case (SlotData sl c)
  show ?thesis
  proof (cases "c = Processed")
    case True
    with SlotData inv show ?thesis by (simp add: process_slot_data_def)
  next
    case False
    with SlotData process_slot_data_ok [OF inv False, of sl]
      process_slot_data_advances [OF inv, of sl c] show ?thesis by fastforce
  qed
qed

lemma account_store_run_ok:
  "account_store_inv s \<Longrightarrow>
   \<exists>s'. account_store_run s es = Inr s' \<and> account_store_inv s' \<and>
     (\<forall>pk c. advances (account_at s pk c) (account_at s' pk c))"
proof (induction es arbitrary: s)
  case (Cons e es)
  obtain s1 where s1: "account_store_step s e = Inr s1" "account_store_inv s1"
      "\<forall>pk c. advances (account_at s pk c) (account_at s1 pk c)"
    using account_store_step_ok [OF Cons.prems] by blast
  obtain s2 where "account_store_run s1 es = Inr s2" "account_store_inv s2"
      "\<forall>pk c. advances (account_at s1 pk c) (account_at s2 pk c)"
    using Cons.IH [OF s1(2)] by blast
  with s1 show ?case by (simp, blast intro: advances_trans)
qed simp

lemma account_store_new_inv: "account_store_inv inmemory_account_store_new"
  by (simp add: account_store_inv_def accounts_inv_def owners_inv_def
      inmemory_account_store_new_def)

section \<open>The owner index when owners do not change\<close>

definition stored_data :: "account_by_commitment \<Rightarrow> account_data set" where
  "stored_data a =
     snd ` set (ab_processed a) \<union> set_option (ab_confirmed a) \<union> set_option (ab_finalized a)"

definition owners_stable :: "(pubkey \<Rightarrow> pubkey) \<Rightarrow> inmemory_account_store \<Rightarrow> bool" where
  "owners_stable f s \<longleftrightarrow>
     (\<forall>pk a. hm_get (is_account_store s) pk = Some a \<longrightarrow>
        indexed s (f pk) pk \<and> (\<forall>d \<in> stored_data a. ac_owner (ad_account d) = f pk))"

lemma get_account_data_stored: "get_account_data a c = Some d \<Longrightarrow> d \<in> stored_data a"
  by (cases c) (auto simp: stored_data_def bt_last_def or_else_def split: if_splits option.splits)

lemma bt_put_values: "snd ` set (bt_put k v m) \<subseteq> insert v (snd ` set m)"
  by (induction k v m rule: bt_put.induct) auto

lemma stored_data_update: "stored_data (fst (account_update a d c)) \<subseteq> insert d (stored_data a)"
  using bt_put_values [of "ad_updated_slot d" d "ab_processed a"]
  by (cases c) (auto simp: stored_data_def account_update_def Let_def)

lemma stored_data_new:
  "stored_data (account_by_commitment_new d c) = {d}"
  "stored_data (account_by_commitment_initialize d) = {d}"
  by (auto simp: stored_data_def account_by_commitment_new_def account_by_commitment_initialize_def)

lemma stored_data_promote: "stored_data (fst (promote_slot_commitment a sl c)) \<subseteq> stored_data a"
proof -
  have "bt_get (ab_processed a) sl = Some d \<Longrightarrow> d \<in> snd ` set (ab_processed a)" for d
    by (force simp: bt_get_def dest: map_of_SomeD)
  then show ?thesis
    using pop_finalized_subset [of sl "ab_processed a"]
    by (cases c) (auto simp: stored_data_def promote_slot_commitment_def Let_def
        split: option.split)
qed

lemma update_account_stable:
  assumes inv: "account_store_inv s" and st: "owners_stable f s"
    and d: "ac_owner (ad_account d) = f (ad_pubkey d)"
    and step: "update_account s d c = Inr (s', b)"
  shows "owners_stable f s'"
proof -
  let ?c = "if c = Processed
    then (if ad_updated_slot d \<in> is_confirmed_slots_map s then Confirmed else Processed) else c"
  have acc: "accounts_inv (is_account_store s)" and own: "owners_inv (is_accounts_by_owner s)"
    using inv by (auto simp: account_store_inv_def)
  show ?thesis
  proof (cases "hm_get (is_account_store s) (ad_pubkey d)")
    case None
    with step have s': "s' = (add_account_owner s (ad_pubkey d) (f (ad_pubkey d)))
        \<lparr>is_account_store := hm_put (ad_pubkey d) (account_by_commitment_new d ?c) (is_account_store s)\<rparr>"
      by (auto simp: update_account_def d)
    have "indexed s' o1 pk \<longleftrightarrow> indexed (add_account_owner s (ad_pubkey d) (f (ad_pubkey d))) o1 pk"
      for o1 pk
      by (simp add: s' indexed_def)
    then show ?thesis
      using st d
      by (auto simp: owners_stable_def s' accounts_get_put [OF acc] stored_data_new
          add_account_owner_indexed [OF own])
  next
    case (Some a)
    let ?a = "fst (account_update a d ?c)"
    let ?s = "s\<lparr>is_account_store := hm_put (ad_pubkey d) ?a (is_account_store s)\<rparr>"
    have "update_owner ?s p d ?c = Inr ?s" if "get_account_data a ?c = Some p" for p
    proof -
      have "p \<in> stored_data a" using that by (rule get_account_data_stored)
      then have "ac_owner (ad_account p) = f (ad_pubkey d)"
        using st Some by (auto simp: owners_stable_def)
      moreover have "ad_pubkey p = ad_pubkey d"
        using get_account_data_pubkey [of "ad_pubkey d" a ?c] acc Some that
        by (auto simp: accounts_inv_def simp del: get_account_data.simps)
      ultimately show ?thesis by (simp add: update_owner_def d)
    qed
    then have "s' = ?s"
      using step Some
      by (auto simp: update_account_def Let_def split_def split: option.splits if_splits
          simp del: get_account_data.simps)
    then show ?thesis
      using st d Some stored_data_update [of a d ?c]
      by (auto simp: owners_stable_def accounts_get_put [OF acc] indexed_def)
  qed
qed

lemma process_slot_data_stable:
  assumes inv: "account_store_inv s" and st: "owners_stable f s"
    and step: "process_slot_data s sl c = Inr (s', ns)"
  shows "owners_stable f s'"
proof (cases "c = Processed")
  case True
  with step st show ?thesis by (simp add: process_slot_data_def)
next
  case False
  have acc: "accounts_inv (is_account_store s)" using inv by (simp add: account_store_inv_def)
  have "keeps_owner u" if u: "u \<in> set (promotions s sl c)" for u
  proof -
    obtain d p where dp: "u = (d, p)" by (cases u)
    with u obtain pk a a' where a: "hm_get (is_account_store s) pk = Some a"
        "promote_slot_commitment a sl c = (a', Some (d, p))"
      by (auto simp: promotions_iff [OF acc])
    have "account_inv pk a" using acc a(1) by (simp add: accounts_inv_def)
    note upd = promote_updated [OF this a(2)]
    have "d \<in> stored_data a'" using upd get_account_data_stored by blast
    then have "d \<in> stored_data a" using stored_data_promote [of a sl c] a(2) by auto
    moreover have "q \<in> stored_data a" if "p = Some q" for q
      using upd that get_account_data_stored [of a c q] by simp
    ultimately show ?thesis
      using st a(1) by (auto simp: dp keeps_owner_def owners_stable_def split: option.split)
  qed
  then have "is_accounts_by_owner s' = is_accounts_by_owner s"
    and "\<forall>pk. hm_get (is_account_store s') pk =
      map_option (\<lambda>a. fst (promote_slot_commitment a sl c)) (hm_get (is_account_store s) pk)"
    using process_slot_data_ok [OF inv False, of sl] step by auto
  then show ?thesis
    using st stored_data_promote by (fastforce simp: owners_stable_def indexed_def)
qed

fun event_data :: "account_event \<Rightarrow> account_data option" where
  "event_data (AccountUpdate d _) = Some d"
| "event_data (AccountInit d) = Some d"
| "event_data (SlotData _ _) = None"

definition keeps_owners :: "(pubkey \<Rightarrow> pubkey) \<Rightarrow> account_event \<Rightarrow> bool" where
  "keeps_owners f e \<longleftrightarrow>
     (case event_data e of None \<Rightarrow> True | Some d \<Rightarrow> ac_owner (ad_account d) = f (ad_pubkey d))"

lemma account_store_step_stable:
  assumes inv: "account_store_inv s" and st: "owners_stable f s" and e: "keeps_owners f e"
    and step: "account_store_step s e = Inr s'"
  shows "owners_stable f s'"
proof (cases e)
  case (AccountUpdate d c)
  with e step update_account_stable [OF inv st] show ?thesis by (auto simp: keeps_owners_def)
next
  case (AccountInit d)
  show ?thesis
  proof (cases "hm_get (is_account_store s) (ad_pubkey d)")
    case None
    have acc: "accounts_inv (is_account_store s)" and own: "owners_inv (is_accounts_by_owner s)"
      using inv by (auto simp: account_store_inv_def)
    have d: "ac_owner (ad_account d) = f (ad_pubkey d)"
      using e AccountInit by (simp add: keeps_owners_def)
    have s': "s' = (add_account_owner s (ad_pubkey d) (f (ad_pubkey d)))
        \<lparr>is_account_store := hm_put (ad_pubkey d) (account_by_commitment_initialize d) (is_account_store s)\<rparr>"
      using step None AccountInit by (auto simp: initilize_or_update_account_def d)
    have "indexed s' o1 pk \<longleftrightarrow> indexed (add_account_owner s (ad_pubkey d) (f (ad_pubkey d))) o1 pk"
      for o1 pk
      by (simp add: s' indexed_def)
    then show ?thesis
      using st d
      by (auto simp: owners_stable_def s' accounts_get_put [OF acc] stored_data_new
          add_account_owner_indexed [OF own])
  next
    case Some
    with AccountInit e step update_account_stable [OF inv st] show ?thesis
      by (auto simp: keeps_owners_def initilize_or_update_account_def)
  qed
next
  case (SlotData sl c)
  with step process_slot_data_stable [OF inv st] show ?thesis by auto
qed

lemma account_store_run_stable:
  "account_store_inv s \<Longrightarrow> owners_stable f s \<Longrightarrow> \<forall>e \<in> set es. keeps_owners f e \<Longrightarrow>
   account_store_run s es = Inr s' \<Longrightarrow> account_store_inv s' \<and> owners_stable f s'"
proof (induction es arbitrary: s)
  case (Cons e es)
  obtain s1 where s1: "account_store_step s e = Inr s1" "account_store_run s1 es = Inr s'"
    using Cons.prems(4) by auto
  moreover have "account_store_inv s1"
    using account_store_step_ok [OF Cons.prems(1), of e] s1(1) by auto
  moreover have "owners_stable f s1"
    using account_store_step_stable [OF Cons.prems(1,2) _ s1(1)] Cons.prems(3) by simp
  ultimately show ?case using Cons.IH [of s1] Cons.prems(3) by simp
qed simp

section \<open>Program accounts\<close>

definition passes_filters ::
    "(rpc_memcmp \<Rightarrow> u8 list \<Rightarrow> bool) \<Rightarrow> rpc_filter_type list option \<Rightarrow> account_data \<Rightarrow> bool" where
  "passes_filters bytes_match filters d \<longleftrightarrow>
     (case filters of None \<Rightarrow> True | Some fs \<Rightarrow> list_all (allows bytes_match d) fs)"

lemma program_account_iff:
  "program_account bytes_match s program filters c pk = Some d \<longleftrightarrow>
     account_at s pk c = Some d \<and> ac_owner (ad_account d) = program \<and>
     passes_filters bytes_match filters d"
  by (auto simp: program_account_def get_account_eq passes_filters_def split: option.split)

lemma account_at_pubkey: "account_store_inv s \<Longrightarrow> account_at s pk c = Some d \<Longrightarrow> ad_pubkey d = pk"
  using get_account_data_pubkey [of pk _ c]
  by (fastforce simp: account_at_def account_store_inv_def accounts_inv_def split: option.splits)

lemma program_accounts_sound:
  assumes "account_store_inv s" and "get_program_accounts bytes_match s program filters c = Some ds"
    and "d \<in> set ds"
  shows "ac_owner (ad_account d) = program" and "passes_filters bytes_match filters d"
    and "account_at s (ad_pubkey d) c = Some d"
proof -
  obtain pk where pk: "program_account bytes_match s program filters c pk = Some d"
    using assms(2,3) by (auto simp: get_program_accounts_def map_filter_mem)
  then have "ad_pubkey d = pk"
    using account_at_pubkey [OF assms(1)] by (auto simp: program_account_iff)
  with pk show "ac_owner (ad_account d) = program" "passes_filters bytes_match filters d"
      "account_at s (ad_pubkey d) c = Some d"
    by (auto simp: program_account_iff)
qed

lemma map_filter_key:
  "\<forall>x y. f x = Some y \<longrightarrow> key y = x \<Longrightarrow>
   List.map key (List.map_filter f xs) = filter (\<lambda>x. f x \<noteq> None) xs"
  by (induction xs) (auto split: option.split)

lemma program_accounts_distinct:
  assumes "account_store_inv s" and "get_program_accounts bytes_match s program filters c = Some ds"
  shows "distinct (List.map ad_pubkey ds)"
proof -
  obtain l where l: "hm_get (is_accounts_by_owner s) program = Some l"
      "ds = List.map_filter (program_account bytes_match s program filters c) l"
    using assms(2) by (auto simp: get_program_accounts_def)
  have "distinct l"
    using assms(1) l(1) by (auto simp: account_store_inv_def owners_inv_def)
  moreover have "List.map ad_pubkey ds =
      filter (\<lambda>pk. program_account bytes_match s program filters c pk \<noteq> None) l"
    unfolding l(2)
    by (rule map_filter_key) (use account_at_pubkey [OF assms(1)] in \<open>auto simp: program_account_iff\<close>)
  ultimately show ?thesis by simp
qed

lemma program_accounts_complete:
  assumes "owners_stable f s" and "account_at s pk c = Some d"
    and "passes_filters bytes_match filters d"
  shows "\<exists>ds. get_program_accounts bytes_match s (ac_owner (ad_account d)) filters c = Some ds \<and>
    d \<in> set ds"
proof -
  obtain a where a: "hm_get (is_account_store s) pk = Some a" "get_account_data a c = Some d"
    using assms(2) by (auto simp: account_at_def split: option.splits)
  then have own: "ac_owner (ad_account d) = f pk"
    using assms(1) get_account_data_stored by (auto simp: owners_stable_def)
  have "indexed s (f pk) pk" using assms(1) a(1) by (auto simp: owners_stable_def)
  then obtain l where "hm_get (is_accounts_by_owner s) (f pk) = Some l" "pk \<in> set l"
    by (auto simp: indexed_def split: option.splits)
  moreover have "program_account bytes_match s (f pk) filters c pk = Some d"
    using assms own by (simp add: program_account_iff)
  ultimately show ?thesis
    by (auto simp: get_program_accounts_def own map_filter_mem)
qed

section \<open>Properties\<close>

definition sample_account :: "pubkey \<Rightarrow> pubkey \<Rightarrow> slot \<Rightarrow> account_data" where
  "sample_account pk owner sl = \<lparr>ad_pubkey = pk, ad_account = \<lparr>ac_lamports = 1, ac_data = [],
     ac_owner = owner, ac_executable = False, ac_rent_epoch = 0\<rparr>, ad_updated_slot = sl\<rparr>"

text \<open>C1: No notification, in whatever order they arrive, makes the store panic or lets a reader see
  older data: what any account shows at any commitment after some events is replaced, by further
  events, only with data of the same or a later slot.\<close>

theorem account_data_never_goes_back:
  "\<exists>s1 s2. account_store_run inmemory_account_store_new es = Inr s1 \<and>
    account_store_run s1 fs = Inr s2 \<and>
    (\<forall>pk c d. get_account s1 pk c = Inr (Some d) \<longrightarrow>
      (\<exists>d'. get_account s2 pk c = Inr (Some d') \<and> ad_pubkey d' = pk \<and>
        ad_updated_slot d \<le> ad_updated_slot d'))"
proof -
  obtain s1 where s1: "account_store_run inmemory_account_store_new es = Inr s1" "account_store_inv s1"
    using account_store_run_ok [OF account_store_new_inv] by blast
  obtain s2 where s2: "account_store_run s1 fs = Inr s2" "account_store_inv s2"
      "\<forall>pk c. advances (account_at s1 pk c) (account_at s2 pk c)"
    using account_store_run_ok [OF s1(2)] by blast
  have "\<exists>d'. get_account s2 pk c = Inr (Some d') \<and> ad_pubkey d' = pk \<and>
      ad_updated_slot d \<le> ad_updated_slot d'" if "get_account s1 pk c = Inr (Some d)" for pk c d
    using that s2(3) [rule_format, of pk c] account_at_pubkey [OF s2(2), of pk c]
    by (auto simp: get_account_eq advances_def split: option.splits)
  with s1(1) s2(1) show ?thesis by blast
qed

lemma account_data_never_goes_back_witness:
  "\<exists>s1 s2. account_store_run inmemory_account_store_new [AccountUpdate (sample_account 1 7 5) Confirmed]
      = Inr s1 \<and>
    account_store_run s1 [AccountUpdate (sample_account 1 7 3) Confirmed] = Inr s2 \<and>
    (\<exists>d'. get_account s2 1 Confirmed = Inr (Some d') \<and> 5 \<le> ad_updated_slot d')"
proof -
  have "get_account s1 1 Confirmed = Inr (Some (sample_account 1 7 5))"
    if "account_store_run inmemory_account_store_new
      [AccountUpdate (sample_account 1 7 5) Confirmed] = Inr s1" for s1
    using that by (auto simp: update_account_def inmemory_account_store_new_def get_account_def
        account_by_commitment_new_def sample_account_def add_account_owner_def hm.get_put)
  with account_data_never_goes_back [of "[AccountUpdate (sample_account 1 7 5) Confirmed]"
      "[AccountUpdate (sample_account 1 7 3) Confirmed]"]
  show ?thesis by (fastforce simp: sample_account_def)
qed

text \<open>C3: When a slot is confirmed or finalized, the accounts returned for notification are exactly
  those whose data at that commitment changed, each with the data of that slot that readers see
  from now on.\<close>

theorem slot_notifications_exact:
  assumes "account_store_inv s" and "c \<noteq> Processed"
    and "process_slot_data s sl c = Inr (s', notified)"
  shows "set notified = {d. get_account s' (ad_pubkey d) c = Inr (Some d) \<and>
      get_account s (ad_pubkey d) c \<noteq> Inr (Some d)} \<and>
    (\<forall>d \<in> set notified. ad_updated_slot d = sl)"
proof -
  have acc: "accounts_inv (is_account_store s)" using assms(1) by (simp add: account_store_inv_def)
  have ns: "notified = notified_accounts (promotions s sl c)"
    and s': "hm_get (is_account_store s') pk =
      map_option (\<lambda>a. fst (promote_slot_commitment a sl c)) (hm_get (is_account_store s) pk)" for pk
    using process_slot_data_ok [OF assms(1,2), of sl] assms(3) by auto
  have one: "(case u of (data, prev) \<Rightarrow> (case prev of
        Some p \<Rightarrow> if p \<noteq> data then Some data else None | None \<Rightarrow> Some data)) = Some d \<longleftrightarrow>
      fst u = d \<and> snd u \<noteq> Some d" for u d
    by (auto split: prod.split option.split)
  have "d \<in> set notified \<longleftrightarrow> (\<exists>p. (d, p) \<in> set (promotions s sl c) \<and> p \<noteq> Some d)" for d
    unfolding ns notified_accounts_def map_filter_mem one by force
  then have mem: "d \<in> set notified \<longleftrightarrow> (\<exists>pk a a' p. hm_get (is_account_store s) pk = Some a \<and>
      promote_slot_commitment a sl c = (a', Some (d, p)) \<and> p \<noteq> Some d)" for d
    unfolding promotions_iff [OF acc] by blast
  have unchanged: "get_account_data (fst (promote_slot_commitment a sl c)) c = get_account_data a c"
    if "snd (promote_slot_commitment a sl c) = None" for a
    using that assms(2)
    by (cases c) (auto simp: promote_slot_commitment_def Let_def split: option.splits if_splits)
  show ?thesis
  proof (intro conjI ballI set_eqI iffI)
    fix d
    assume "d \<in> set notified"
    then obtain pk a a' p where a: "hm_get (is_account_store s) pk = Some a"
        "promote_slot_commitment a sl c = (a', Some (d, p))" "p \<noteq> Some d"
      using mem by blast
    have "account_inv pk a" using acc a(1) by (simp add: accounts_inv_def)
    note upd = promote_updated [OF this a(2)]
    then show "ad_updated_slot d = sl" by blast
    show "d \<in> {d. get_account s' (ad_pubkey d) c = Inr (Some d) \<and>
        get_account s (ad_pubkey d) c \<noteq> Inr (Some d)}"
      using upd a s' by (auto simp: get_account_eq account_at_def)
  next
    fix d
    assume "d \<in> {d. get_account s' (ad_pubkey d) c = Inr (Some d) \<and>
        get_account s (ad_pubkey d) c \<noteq> Inr (Some d)}"
    then obtain a where a: "hm_get (is_account_store s) (ad_pubkey d) = Some a"
        "get_account_data (fst (promote_slot_commitment a sl c)) c = Some d"
        "get_account_data a c \<noteq> Some d"
      using s' by (auto simp: get_account_eq account_at_def split: option.splits)
    then obtain d1 p where u: "promote_slot_commitment a sl c =
        (fst (promote_slot_commitment a sl c), Some (d1, p))"
      using unchanged [of a] by (cases "promote_slot_commitment a sl c"; cases "snd (promote_slot_commitment a sl c)") auto
    have "account_inv (ad_pubkey d) a" using acc a(1) by (simp add: accounts_inv_def)
    from promote_updated [OF this u] a u show "d \<in> set notified"
      unfolding mem by (metis option.inject)
  qed
qed

definition sample_account_store :: inmemory_account_store where
  "sample_account_store = \<lparr>is_account_store = [(1, \<lparr>ab_pubkey = 1,
       ab_processed = [(5, sample_account 1 7 5)], ab_confirmed = None, ab_finalized = None\<rparr>)],
     is_confirmed_slots_map = {}, is_accounts_by_owner = [(7, [1])]\<rparr>"

lemma sample_account_store_inv: "account_store_inv sample_account_store"
  by (auto simp: account_store_inv_def accounts_inv_def owners_inv_def sample_account_store_def
      hm_inv_def hm_get_def map_keys_def account_inv_def processed_inv_def bt_inv_def
      sample_account_def)

lemma slot_notifications_exact_witness:
  "\<exists>s'. process_slot_data sample_account_store 5 Confirmed = Inr (s', [sample_account 1 7 5]) \<and>
    get_account s' 1 Confirmed = Inr (Some (sample_account 1 7 5))"
proof -
  obtain s' where s': "process_slot_data sample_account_store 5 Confirmed =
      Inr (s', [sample_account 1 7 5])"
    by (auto simp: process_slot_data_def sample_account_store_def map_vals_def bt_get_def
        promote_slot_commitment_def slot_or_default_def notified_accounts_def)
  then have "sample_account 1 7 5 \<in> {d. get_account s' (ad_pubkey d) Confirmed = Inr (Some d) \<and>
      get_account sample_account_store (ad_pubkey d) Confirmed \<noteq> Inr (Some d)}"
    using slot_notifications_exact [OF sample_account_store_inv _ s'] by auto
  moreover have "ad_pubkey (sample_account 1 7 5) = 1" by (simp add: sample_account_def)
  ultimately show ?thesis using s' by auto
qed

text \<open>C35: While owners do not change, a program's accounts are found exactly: after any events that
  never give an account a new owner, the answer for a program at a commitment holds each account of
  that owner whose data at that commitment passes the filters, once, and no other.\<close>

theorem program_accounts_exact:
  assumes "\<forall>e \<in> set es. keeps_owners f e"
    and "account_store_run inmemory_account_store_new es = Inr s"
  shows "set (unwrap_or (get_program_accounts bytes_match s program filters c) []) =
      {d. get_account s (ad_pubkey d) c = Inr (Some d) \<and> ac_owner (ad_account d) = program \<and>
          passes_filters bytes_match filters d} \<and>
    distinct (List.map ad_pubkey (unwrap_or (get_program_accounts bytes_match s program filters c) []))"
proof -
  have "owners_stable f inmemory_account_store_new"
    by (simp add: owners_stable_def inmemory_account_store_new_def)
  from account_store_run_stable [OF account_store_new_inv this assms]
  have inv: "account_store_inv s" and st: "owners_stable f s" by auto
  show ?thesis
  proof (cases "get_program_accounts bytes_match s program filters c")
    case None
    then show ?thesis
      using program_accounts_complete [OF st, of _ c _ bytes_match filters]
      by (fastforce simp: get_account_eq)
  next
    case (Some ds)
    then show ?thesis
      using program_accounts_complete [OF st, of _ c _ bytes_match filters]
        program_accounts_sound [OF inv Some] program_accounts_distinct [OF inv Some]
      by (fastforce simp: get_account_eq)
  qed
qed

lemma program_accounts_exact_witness:
  "\<exists>s. account_store_run inmemory_account_store_new [AccountUpdate (sample_account 1 7 5) Processed]
      = Inr s \<and>
    set (unwrap_or (get_program_accounts (\<lambda>_ _. True) s 7 None Processed) []) =
      {d. get_account s (ad_pubkey d) Processed = Inr (Some d) \<and> ac_owner (ad_account d) = 7}"
proof -
  obtain s where "account_store_run inmemory_account_store_new
      [AccountUpdate (sample_account 1 7 5) Processed] = Inr s"
    using account_store_run_ok [OF account_store_new_inv] by blast
  with program_accounts_exact [of "[AccountUpdate (sample_account 1 7 5) Processed]" "\<lambda>_. 7" s
      "\<lambda>_ _. True" 7 None Processed]
  show ?thesis by (auto simp: keeps_owners_def sample_account_def passes_filters_def)
qed

text \<open>An ownership change can be missed: when an account is first seen at processed commitment
  with one owner and then arrives as finalized data of a new owner, the index of the new owner is
  not updated, because no finalized data was there to compare with.  The account itself is served
  with its new owner, and the query for the new owner's accounts says there are none.\<close>

theorem new_owner_not_indexed:
  "\<exists>s. account_store_run inmemory_account_store_new
      [AccountUpdate (sample_account 1 7 5) Processed, AccountUpdate (sample_account 1 8 6) Finalized]
      = Inr s \<and>
    get_account s 1 Finalized = Inr (Some (sample_account 1 8 6)) \<and>
    get_account s 1 Processed = Inr (Some (sample_account 1 8 6)) \<and>
    get_program_accounts bytes_match s 8 None Finalized = None"
  by (simp add: update_account_def inmemory_account_store_new_def get_account_def
      get_program_accounts_def account_by_commitment_new_def account_update_def sample_account_def
      add_account_owner_def hm.get_put hm_inv_put bt_get_def newer_than_def bt_last_def Let_def)

text \<open>Finalizing a slot frees memory: afterwards an account keeps processed data only of later
  slots, or a single entry, and what it shows at processed commitment has not changed.\<close>

theorem finalized_slot_prunes:
  assumes "account_store_inv s" and "process_slot_data s sl Finalized = Inr (s', notified)"
    and "hm_get (is_account_store s') pk = Some a"
  shows "(length (ab_processed a) \<le> 1 \<or> (\<forall>k \<in> set (map_keys (ab_processed a)). sl < k)) \<and>
    get_account s' pk Processed = get_account s pk Processed"
proof -
  have acc: "accounts_inv (is_account_store s)" using assms(1) by (simp add: account_store_inv_def)
  obtain b where b: "hm_get (is_account_store s) pk = Some b"
    and a: "a = fst (promote_slot_commitment b sl Finalized)"
    using process_slot_data_ok [OF assms(1), of Finalized sl] assms(2,3) by auto
  have inv: "account_inv pk b" "account_inv pk a"
    using acc b promote_inv by (auto simp: accounts_inv_def a)
  have eq: "ab_processed a = pop_finalized sl (ab_processed b)"
    by (auto simp: a promote_slot_commitment_def Let_def split: option.split)
  moreover have "get_account_data a Processed = get_account_data b Processed"
    using inv by (simp add: get_processed_eq account_inv_def processed_inv_def eq pop_finalized_last
        del: get_account_data.simps)
  moreover have "bt_inv (ab_processed b)" using inv(1) by (simp add: account_inv_def processed_inv_def)
  ultimately show ?thesis
    using pop_finalized_rest [of "ab_processed b" sl] assms(3) b
    by (simp add: get_account_def del: get_account_data.simps)
qed

lemma finalized_slot_prunes_witness:
  "\<exists>s'. process_slot_data sample_account_store 5 Finalized = Inr (s', [sample_account 1 7 5]) \<and>
    get_account s' 1 Processed = get_account sample_account_store 1 Processed"
proof -
  obtain s' a where "process_slot_data sample_account_store 5 Finalized =
      Inr (s', [sample_account 1 7 5])" "hm_get (is_account_store s') 1 = Some a"
    by (auto simp: process_slot_data_def sample_account_store_def map_vals_def bt_get_def
        promote_slot_commitment_def slot_or_default_def notified_accounts_def hm_get_def)
  with finalized_slot_prunes [OF sample_account_store_inv] show ?thesis by blast
qed

end
