(* ===== verification/Block_Store.thy ===== *)
theory Block_Store
  imports Core_Data
begin

text \<open>
  \<open>core/src/stores/block_information_store.rs\<close>: the block hashes the service knows, with the
  latest confirmed and the latest finalized block.  The store is shared behind atomics and locks;
  one call of a method is one transition here.
\<close>

section \<open>Block information\<close>

definition MAX_RECENT_BLOCKHASHES :: u64 where
  "MAX_RECENT_BLOCKHASHES = 300"

record block_information =
  bn_slot :: u64
  bn_block_height :: u64
  bn_last_valid_blockheight :: u64
  bn_cleanup_slot :: slot
  bn_blockhash :: hash
  bn_commitment_config :: commitment_config
  bn_block_time :: u64

definition from_block :: "produced_block \<Rightarrow> block_information" where
  "from_block b = \<lparr>
     bn_slot = pb_slot b,
     bn_block_height = pb_block_height b,
     bn_last_valid_blockheight = pb_block_height b + MAX_RECENT_BLOCKHASHES,
     bn_cleanup_slot = pb_block_height b + 1000,
     bn_blockhash = pb_blockhash b,
     bn_commitment_config = pb_commitment_config b,
     bn_block_time = pb_block_time b\<rparr>"

definition from_block_info :: "block_info \<Rightarrow> block_information" where
  "from_block_info b = \<lparr>
     bn_slot = bi_slot b,
     bn_block_height = bi_block_height b,
     bn_last_valid_blockheight = bi_block_height b + MAX_RECENT_BLOCKHASHES,
     bn_cleanup_slot = bi_block_height b + 1000,
     bn_blockhash = bi_blockhash b,
     bn_commitment_config = bi_commitment_config b,
     bn_block_time = bi_block_time b\<rparr>"

definition level_of :: "block_information \<Rightarrow> commitment" where
  "level_of b = commitment_from_config (bn_commitment_config b)"

section \<open>The store and its operations\<close>

record block_information_store =
  bs_blocks :: "(hash, block_information) hashmap"
  bs_last_blockheight :: u64
  bs_latest_confirmed_block :: block_information
  bs_latest_finalized_block :: block_information

definition block_store_new :: "block_information \<Rightarrow> block_information_store" where
  "block_store_new b = \<lparr>
     bs_blocks = hm_put (bn_blockhash b) b [],
     bs_last_blockheight = bn_block_height b,
     bs_latest_confirmed_block = b,
     bs_latest_finalized_block = b\<rparr>"

definition get_block_info :: "block_information_store \<Rightarrow> hash \<Rightarrow> block_information option" where
  "get_block_info s h = hm_get (bs_blocks s) h"

definition get_latest_block :: "block_information_store \<Rightarrow> commitment_config \<Rightarrow> block_information" where
  "get_latest_block s c =
     (if is_finalized c then bs_latest_finalized_block s else bs_latest_confirmed_block s)"

definition get_latest_blockhash :: "block_information_store \<Rightarrow> commitment_config \<Rightarrow> hash" where
  "get_latest_blockhash s c = bn_blockhash (get_latest_block s c)"

definition get_latest_block_information ::
    "block_information_store \<Rightarrow> commitment_config \<Rightarrow> block_information" where
  "get_latest_block_information s c = get_latest_block s c"

text \<open>Writing through the lock that \<open>get_latest_block_arc\<close> returns.\<close>

definition set_latest_block ::
    "commitment_config \<Rightarrow> block_information \<Rightarrow> block_information_store \<Rightarrow> block_information_store"
where
  "set_latest_block c b s =
     (if is_finalized c then s\<lparr>bs_latest_finalized_block := b\<rparr>
      else s\<lparr>bs_latest_confirmed_block := b\<rparr>)"

text \<open>Whether a stored entry gives way to a block of the given commitment.\<close>

fun should_update :: "commitment_level \<Rightarrow> commitment_config \<Rightarrow> bool" where
  "should_update LevelFinalized c \<longleftrightarrow> False"
| "should_update LevelConfirmed c \<longleftrightarrow> c = finalized_config"
| "should_update LevelProcessed c \<longleftrightarrow> c = confirmed_config \<or> c = finalized_config"

definition update_last_blockheight ::
    "block_information \<Rightarrow> block_information_store \<Rightarrow> block_information_store" where
  "update_last_blockheight b s =
     (if bs_last_blockheight s < bn_block_height b
      then s\<lparr>bs_last_blockheight := bn_block_height b\<rparr> else s)"

definition update_latest ::
    "block_information \<Rightarrow> block_information_store \<Rightarrow> block_information_store" where
  "update_latest b s =
     (if bn_slot b > bn_slot (get_latest_block s (bn_commitment_config b))
      then set_latest_block (bn_commitment_config b) b s else s)"

definition add_block ::
    "block_information_store \<Rightarrow> block_information \<Rightarrow> block_information_store \<times> bool" where
  "add_block s b =
     (let s = update_last_blockheight b s;
          s = update_latest b s
      in case hm_get (bs_blocks s) (bn_blockhash b) of
           Some old \<Rightarrow>
             (let upd = should_update (cc_commitment (bn_commitment_config old))
                          (bn_commitment_config b)
              in (if upd then s\<lparr>bs_blocks := hm_put (bn_blockhash b) b (bs_blocks s)\<rparr> else s, upd))
         | None \<Rightarrow> (s\<lparr>bs_blocks := hm_put (bn_blockhash b) b (bs_blocks s)\<rparr>, True))"

definition block_store_clean :: "block_information_store \<Rightarrow> block_information_store" where
  "block_store_clean s =
     s\<lparr>bs_blocks := map_retain
        (\<lambda>_ v. bn_last_valid_blockheight v \<ge>
               bn_block_height (get_latest_block_information s finalized_config))
        (bs_blocks s)\<rparr>"

definition number_of_blocks_in_store :: "block_information_store \<Rightarrow> nat" where
  "number_of_blocks_in_store s = length (bs_blocks s)"

definition is_blockhash_valid ::
    "block_information_store \<Rightarrow> hash \<Rightarrow> commitment_config \<Rightarrow> bool \<times> slot" where
  "is_blockhash_valid s h c =
     (let latest = get_latest_block_information s c
      in case hm_get (bs_blocks s) h of
           Some b \<Rightarrow> (bn_block_height latest \<le> bn_last_valid_blockheight b, bn_slot latest)
         | None \<Rightarrow> (False, bn_slot latest))"

definition get_block_info_by_slot ::
    "block_information_store \<Rightarrow> u64 \<Rightarrow> block_information option" where
  "get_block_info_by_slot s sl = List.find (\<lambda>b. bn_slot b = sl) (map_values (bs_blocks s))"

definition get_last_blockheight :: "block_information_store \<Rightarrow> u64" where
  "get_last_blockheight s = bs_last_blockheight s"

section \<open>Runs of the store\<close>

datatype block_store_op = AddBlock block_information | CleanBlocks

fun block_store_step :: "block_information_store \<Rightarrow> block_store_op \<Rightarrow> block_information_store" where
  "block_store_step s (AddBlock b) = fst (add_block s b)"
| "block_store_step s CleanBlocks = block_store_clean s"

definition block_store_run ::
    "block_information_store \<Rightarrow> block_store_op list \<Rightarrow> block_information_store" where
  "block_store_run s ops = foldl block_store_step s ops"

section \<open>The invariant\<close>

text \<open>
  Entries are stored under their own hash, no stored block is above the last seen height, the
  block kept as latest finalized was reported as finalized, and every stored finalized block is
  at most as recent as it.
\<close>

definition block_store_inv :: "block_information_store \<Rightarrow> bool" where
  "block_store_inv s \<longleftrightarrow>
     hm_inv (bs_blocks s) \<and>
     (\<forall>h b. hm_get (bs_blocks s) h = Some b \<longrightarrow>
        bn_blockhash b = h \<and> bn_block_height b \<le> bs_last_blockheight s \<and>
        bn_slot b \<le> bn_slot (get_latest_block s (bn_commitment_config b))) \<and>
     is_finalized (bn_commitment_config (bs_latest_finalized_block s)) \<and>
     (\<forall>c. bn_block_height (get_latest_block s c) \<le> bs_last_blockheight s)"

lemma should_update_level:
  "should_update (cc_commitment (bn_commitment_config old)) (bn_commitment_config b) \<longleftrightarrow>
   level_of old < level_of b"
  by (cases "cc_commitment (bn_commitment_config old)";
      cases "cc_commitment (bn_commitment_config b)")
    (auto simp: level_of_def commitment_from_config_def config_defs less_commitment_def
      intro!: commitment_config.equality)

lemma update_last_blockheight_simps [simp]:
  "bs_blocks (update_last_blockheight b s) = bs_blocks s"
  "bs_latest_confirmed_block (update_last_blockheight b s) = bs_latest_confirmed_block s"
  "bs_latest_finalized_block (update_last_blockheight b s) = bs_latest_finalized_block s"
  "bs_last_blockheight (update_last_blockheight b s) =
     max (bs_last_blockheight s) (bn_block_height b)"
  "get_latest_block (update_last_blockheight b s) c = get_latest_block s c"
  by (auto simp: update_last_blockheight_def get_latest_block_def max_def)

lemma update_latest_simps [simp]:
  "bs_blocks (update_latest b s) = bs_blocks s"
  "bs_last_blockheight (update_latest b s) = bs_last_blockheight s"
  by (simp_all add: update_latest_def set_latest_block_def)

lemma update_latest_get:
  "get_latest_block (update_latest b s) c =
     (if is_finalized c = is_finalized (bn_commitment_config b) \<and>
         bn_slot (get_latest_block s c) < bn_slot b
      then b else get_latest_block s c)"
  by (auto simp: update_latest_def set_latest_block_def get_latest_block_def)

lemma add_block_latest:
  "get_latest_block (fst (add_block s b)) c =
     (if is_finalized c = is_finalized (bn_commitment_config b) \<and>
         bn_slot (get_latest_block s c) < bn_slot b
      then b else get_latest_block s c)"
proof -
  have upd: "get_latest_block (t\<lparr>bs_blocks := m\<rparr>) c = get_latest_block t c" for t m
    by (simp add: get_latest_block_def)
  show ?thesis
    by (simp add: add_block_def Let_def upd update_latest_get split: option.split)
qed

lemma add_block_last_blockheight:
  "bs_last_blockheight (fst (add_block s b)) = max (bs_last_blockheight s) (bn_block_height b)"
  by (simp add: add_block_def Let_def split: option.split)

lemma add_block_blocks:
  assumes "hm_inv (bs_blocks s)"
  shows "hm_get (bs_blocks (fst (add_block s b))) h =
    (if h = bn_blockhash b \<and>
        (\<forall>old. hm_get (bs_blocks s) h = Some old \<longrightarrow> level_of old < level_of b)
     then Some b else hm_get (bs_blocks s) h)"
  using assms
  by (auto simp: add_block_def Let_def hm_laws should_update_level split: option.split)

text \<open>What one insertion does to the entry under the hash of the block.\<close>

fun merge_entry :: "block_information option \<Rightarrow> block_information \<Rightarrow> block_information option" where
  "merge_entry None b = Some b"
| "merge_entry (Some old) b = (if level_of old < level_of b then Some b else Some old)"

lemma add_block_entry:
  "hm_inv (bs_blocks s) \<Longrightarrow> hm_get (bs_blocks (fst (add_block s b))) h =
    (if h = bn_blockhash b then merge_entry (hm_get (bs_blocks s) h) b
     else hm_get (bs_blocks s) h)"
  by (cases "hm_get (bs_blocks s) h") (auto simp: add_block_blocks)

lemma merge_entry_commute:
  assumes "level_of a = level_of b \<Longrightarrow> a = b"
  shows "merge_entry (merge_entry e a) b = merge_entry (merge_entry e b) a"
proof (cases "level_of a" "level_of b" rule: linorder_cases)
  case equal
  with assms show ?thesis by simp
qed (cases e; simp; metis less_trans order.asym)+

lemma add_block_flag:
  "snd (add_block s b) \<longleftrightarrow>
   (\<forall>old. hm_get (bs_blocks s) (bn_blockhash b) = Some old \<longrightarrow> level_of old < level_of b)"
  by (auto simp: add_block_def Let_def should_update_level split: option.split)

lemma add_block_hm_inv: "hm_inv (bs_blocks s) \<Longrightarrow> hm_inv (bs_blocks (fst (add_block s b)))"
  by (auto simp: add_block_def Let_def intro: inv_intros split: option.split)


lemma clean_simps [simp]:
  "get_latest_block (block_store_clean s) c = get_latest_block s c"
  "bs_last_blockheight (block_store_clean s) = bs_last_blockheight s"
  "bs_latest_finalized_block (block_store_clean s) = bs_latest_finalized_block s"
  by (simp_all add: block_store_clean_def get_latest_block_def)

lemma clean_blocks:
  "hm_inv (bs_blocks s) \<Longrightarrow> hm_get (bs_blocks (block_store_clean s)) h =
     (case hm_get (bs_blocks s) h of None \<Rightarrow> None
      | Some b \<Rightarrow> if bn_last_valid_blockheight b \<ge> bn_block_height (bs_latest_finalized_block s)
                 then Some b else None)"
  by (simp add: block_store_clean_def hm_get_retain get_latest_block_information_def
      get_latest_block_def config_defs)

lemma latest_finalized_eq: "get_latest_block s finalized_config = bs_latest_finalized_block s"
  by (simp add: get_latest_block_def config_defs)

lemma add_block_inv [inv_intros]:
  assumes "block_store_inv s"
  shows "block_store_inv (fst (add_block s b))"
proof -
  let ?t = "fst (add_block s b)"
  have i: "hm_inv (bs_blocks s)" using assms by (simp add: block_store_inv_def)
  have mono: "bn_slot (get_latest_block s c) \<le> bn_slot (get_latest_block ?t c)" for c
    by (auto simp: add_block_latest)
  have new: "bn_slot b \<le> bn_slot (get_latest_block ?t (bn_commitment_config b))"
    by (auto simp: add_block_latest not_less)
  have "bn_blockhash x = h \<and> bn_block_height x \<le> bs_last_blockheight ?t \<and>
      bn_slot x \<le> bn_slot (get_latest_block ?t (bn_commitment_config x))"
    if "hm_get (bs_blocks ?t) h = Some x" for h x
  proof (cases "x = b \<and> h = bn_blockhash b")
    case True
    then show ?thesis using new by (simp add: add_block_last_blockheight)
  next
    case False
    then have "hm_get (bs_blocks s) h = Some x"
      using that by (auto simp: add_block_blocks [OF i] split: if_splits)
    then show ?thesis
      using assms mono [of "bn_commitment_config x"]
      by (force simp: block_store_inv_def add_block_last_blockheight le_max_iff_disj)
  qed
  moreover have "is_finalized (bn_commitment_config (bs_latest_finalized_block ?t))"
    using assms by (simp add: latest_finalized_eq [symmetric] add_block_latest block_store_inv_def)
  moreover have "bn_block_height (get_latest_block ?t c) \<le> bs_last_blockheight ?t" for c
    using assms
    by (auto simp: add_block_latest add_block_last_blockheight block_store_inv_def le_max_iff_disj)
  ultimately show ?thesis
    using add_block_hm_inv [OF i] by (auto simp: block_store_inv_def)
qed

lemma clean_inv [inv_intros]: "block_store_inv s \<Longrightarrow> block_store_inv (block_store_clean s)"
  by (auto simp: block_store_inv_def clean_blocks split: option.splits if_splits)
    (auto simp: block_store_clean_def intro: inv_intros)

lemma new_inv:
  "is_finalized (bn_commitment_config b) \<Longrightarrow> block_store_inv (block_store_new b)"
  by (simp add: block_store_inv_def block_store_new_def hm.get_put inv_intros
      get_latest_block_def)

lemma run_Nil [simp]: "block_store_run s [] = s"
  by (simp add: block_store_run_def)

lemma run_Cons [simp]:
  "block_store_run s (x # xs) = block_store_run (block_store_step s x) xs"
  by (simp add: block_store_run_def)

lemma run_inv: "block_store_inv s \<Longrightarrow> block_store_inv (block_store_run s ops)"
proof (induction ops arbitrary: s)
  case (Cons x ops)
  then show ?case by (cases x) (simp_all add: add_block_inv clean_inv)
qed simp

section \<open>Properties\<close>

text \<open>
  a store created from a finalized block keeps its invariant through every sequence of
  insertions and cleanups: entries sit under their own hash, no stored block is above the
  recorded last height, no stored block is more recent than the latest block of its commitment
  class, the blocks served as latest are not above
  the recorded last height, and the block served as finalized was reported as finalized.
\<close>

theorem block_store_invariant:
  assumes "is_finalized (bn_commitment_config b)"
  shows "block_store_inv (block_store_run (block_store_new b) ops)"
  using assms by (intro run_inv new_inv)

definition sample_block :: "u64 \<Rightarrow> hash \<Rightarrow> commitment_config \<Rightarrow> block_information" where
  "sample_block n h c = \<lparr>bn_slot = n, bn_block_height = n, bn_last_valid_blockheight = n + 300,
     bn_cleanup_slot = n + 1000, bn_blockhash = h, bn_commitment_config = c, bn_block_time = 0\<rparr>"

theorem block_store_invariant_witness:
  "block_store_inv (block_store_run (block_store_new (sample_block 5 1 finalized_config))
     [AddBlock (sample_block 6 2 processed_config), CleanBlocks])"
  by (rule block_store_invariant) (simp add: sample_block_def config_defs)

text \<open>
  once a hash is stored, further blocks never lower its commitment, and an entry of
  finalized commitment is never replaced.
\<close>

theorem stored_commitment_never_drops:
  assumes "block_store_inv s"
    and "get_block_info s h = Some old"
  shows "\<exists>new. get_block_info (block_store_run s (List.map AddBlock bs)) h = Some new \<and>
    level_of old \<le> level_of new \<and> (level_of old = Finalized \<longrightarrow> new = old)"
  using assms
proof (induction bs arbitrary: s old)
  case (Cons b bs)
  let ?t = "fst (add_block s b)"
  have i: "hm_inv (bs_blocks s)" using Cons.prems(1) by (simp add: block_store_inv_def)
  obtain mid where mid: "get_block_info ?t h = Some mid" "level_of old \<le> level_of mid"
      "level_of old = Finalized \<longrightarrow> mid = old"
  proof (cases "h = bn_blockhash b \<and> level_of old < level_of b")
    case True
    then have "level_of old \<noteq> Finalized" by auto
    then show ?thesis
      using True that [of b] Cons.prems(2)
      by (auto simp: get_block_info_def add_block_blocks [OF i])
  next
    case False
    then show ?thesis
      using that [of old] Cons.prems(2) by (auto simp: get_block_info_def add_block_blocks [OF i])
  qed
  from Cons.IH [OF add_block_inv [OF Cons.prems(1)] mid(1)] mid(2,3)
  show ?case by (auto simp: get_block_info_def)
qed auto

theorem stored_commitment_never_drops_witness:
  "\<exists>new. get_block_info (block_store_run (block_store_new (sample_block 5 1 finalized_config))
      (List.map AddBlock [sample_block 7 1 confirmed_config])) 1 = Some new \<and>
    level_of (sample_block 5 1 finalized_config) \<le> level_of new \<and>
    (level_of (sample_block 5 1 finalized_config) = Finalized \<longrightarrow>
     new = sample_block 5 1 finalized_config)"
proof (rule stored_commitment_never_drops)
  show "block_store_inv (block_store_new (sample_block 5 1 finalized_config))"
    by (rule new_inv) (simp add: sample_block_def config_defs)
  show "get_block_info (block_store_new (sample_block 5 1 finalized_config)) 1 =
      Some (sample_block 5 1 finalized_config)"
    by (simp add: get_block_info_def block_store_new_def hm.get_put sample_block_def)
qed

text \<open>
  the cleanup is invisible to clients: at finalized commitment, and at confirmed commitment
  whenever the confirmed block is not below the finalized one, \<open>is_blockhash_valid\<close> answers
  every query as it did before the cleanup.
\<close>

theorem clean_preserves_blockhash_validity:
  assumes "block_store_inv s"
    and "bn_block_height (get_latest_block_information s finalized_config)
      \<le> bn_block_height (get_latest_block_information s c)"
  shows "is_blockhash_valid (block_store_clean s) h c = is_blockhash_valid s h c"
  using assms
  by (auto simp: is_blockhash_valid_def get_latest_block_information_def clean_blocks
      block_store_inv_def latest_finalized_eq Let_def split: option.split)

theorem clean_preserves_blockhash_validity_witness:
  "is_blockhash_valid (block_store_clean (block_store_new (sample_block 5 1 finalized_config)))
     1 finalized_config =
   is_blockhash_valid (block_store_new (sample_block 5 1 finalized_config)) 1 finalized_config"
  by (rule clean_preserves_blockhash_validity)
    (simp_all add: new_inv sample_block_def config_defs)

text \<open>
  two block notifications may arrive in either order: if blocks of one hash and one
  commitment are the same block, and blocks of one slot and one commitment class are the same
  block, both orders leave the same lookups, the same latest blocks and the same last height.
\<close>

theorem add_block_order_irrelevant:
  assumes "block_store_inv s"
    and "bn_blockhash a = bn_blockhash b \<Longrightarrow> level_of a = level_of b \<Longrightarrow> a = b"
    and "is_finalized (bn_commitment_config a) = is_finalized (bn_commitment_config b) \<Longrightarrow>
      bn_slot a = bn_slot b \<Longrightarrow> a = b"
  shows "get_block_info (block_store_run s [AddBlock a, AddBlock b]) h =
      get_block_info (block_store_run s [AddBlock b, AddBlock a]) h \<and>
    get_latest_block_information (block_store_run s [AddBlock a, AddBlock b]) c =
      get_latest_block_information (block_store_run s [AddBlock b, AddBlock a]) c \<and>
    get_last_blockheight (block_store_run s [AddBlock a, AddBlock b]) =
      get_last_blockheight (block_store_run s [AddBlock b, AddBlock a])"
proof -
  have i: "hm_inv (bs_blocks s)" using assms(1) by (simp add: block_store_inv_def)
  note ia = add_block_hm_inv [OF i, of a] and ib = add_block_hm_inv [OF i, of b]
  have "merge_entry (merge_entry e a) b = merge_entry (merge_entry e b) a"
    if "bn_blockhash a = bn_blockhash b" for e
    using that assms(2) by (intro merge_entry_commute)
  then have "get_block_info (block_store_run s [AddBlock a, AddBlock b]) h =
      get_block_info (block_store_run s [AddBlock b, AddBlock a]) h"
    by (cases "bn_blockhash a = bn_blockhash b")
      (auto simp: get_block_info_def add_block_entry [OF i] add_block_entry [OF ia]
        add_block_entry [OF ib])
  moreover have "get_latest_block_information (block_store_run s [AddBlock a, AddBlock b]) c =
      get_latest_block_information (block_store_run s [AddBlock b, AddBlock a]) c"
    using assms(3) by (auto simp: get_latest_block_information_def add_block_latest)
  ultimately show ?thesis
    by (simp add: get_last_blockheight_def add_block_last_blockheight max.commute max.left_commute)
qed

theorem add_block_order_irrelevant_witness:
  "get_block_info (block_store_run (block_store_new (sample_block 5 1 finalized_config))
      [AddBlock (sample_block 6 2 confirmed_config), AddBlock (sample_block 7 3 confirmed_config)])
      2 =
    get_block_info (block_store_run (block_store_new (sample_block 5 1 finalized_config))
      [AddBlock (sample_block 7 3 confirmed_config), AddBlock (sample_block 6 2 confirmed_config)])
      2"
  using add_block_order_irrelevant [of "block_store_new (sample_block 5 1 finalized_config)"
      "sample_block 6 2 confirmed_config" "sample_block 7 3 confirmed_config" 2]
  by (simp add: new_inv sample_block_def config_defs)

text \<open>
  blocks of processed commitment land in the slot of the latest confirmed block: after a
  processed block newer than it, the store answers queries at confirmed commitment with that
  processed block.
\<close>

theorem processed_block_served_as_confirmed:
  assumes "is_processed (bn_commitment_config b)"
    and "bn_slot (get_latest_block_information s confirmed_config) < bn_slot b"
  shows "get_latest_block_information (fst (add_block s b)) confirmed_config = b"
  using assms by (simp add: get_latest_block_information_def add_block_latest processed_not_finalized)

theorem processed_block_served_as_confirmed_witness:
  "get_latest_block_information
     (fst (add_block (block_store_new (sample_block 5 1 finalized_config))
        (sample_block 6 2 processed_config))) confirmed_config =
   sample_block 6 2 processed_config"
  by (rule processed_block_served_as_confirmed)
    (simp_all add: sample_block_def config_defs block_store_new_def
      get_latest_block_information_def get_latest_block_def)

end
