(* ===== verification/Data_Cache.thy ===== *)
theory Data_Cache
  imports Block_Store
begin

text \<open>
  The central store of the service: \<open>core/src/stores\<close> (\<open>tx_store.rs\<close>, \<open>subscription_store.rs\<close>,
  \<open>cluster_info_store.rs\<close>, \<open>data_cache.rs\<close>) and \<open>core/src/structures/identity_stakes.rs\<close>, with
  the handlers of \<open>services/src/data_caching_service.rs\<close> that feed it.  Wall-clock instants are
  milliseconds; a subscription sink is the identifier of the client it writes to, what is sent to
  it is returned as a list of messages, and whether it is closed is an argument.
\<close>

section \<open>Transactions\<close>

datatype confirmation_status = StatusProcessed | StatusConfirmed | StatusFinalized

record transaction_status =
  ts_slot :: slot
  ts_confirmations :: "nat option"
  ts_status :: "wire + unit"
  ts_err :: "wire option"
  ts_confirmation_status :: "confirmation_status option"

record tx_props =
  tp_status :: "transaction_status option"
  tp_last_valid_blockheight :: u64
  tp_sent_by_lite_rpc :: bool

type_synonym tx_store = "(signature, tx_props) hashmap"

definition tx_update_status ::
    "tx_store \<Rightarrow> signature \<Rightarrow> transaction_status \<Rightarrow> u64 \<Rightarrow> tx_store \<times> bool" where
  "tx_update_status store sig status last_valid =
     (case hm_get store sig of
        Some meta \<Rightarrow> (hm_put sig (meta\<lparr>tp_status := Some status\<rparr>) store, tp_sent_by_lite_rpc meta)
      | None \<Rightarrow> (hm_put sig \<lparr>tp_status = Some status, tp_last_valid_blockheight = last_valid,
                               tp_sent_by_lite_rpc = False\<rparr> store, False))"

definition tx_insert :: "tx_store \<Rightarrow> signature \<Rightarrow> tx_props \<Rightarrow> tx_store \<times> tx_props option" where
  "tx_insert store sig props = (hm_put sig props store, hm_get store sig)"

definition tx_len :: "tx_store \<Rightarrow> nat" where
  "tx_len store = length store"

definition tx_is_empty :: "tx_store \<Rightarrow> bool" where
  "tx_is_empty store \<longleftrightarrow> store = []"

definition tx_contains_key :: "tx_store \<Rightarrow> signature \<Rightarrow> bool" where
  "tx_contains_key store sig \<longleftrightarrow> hm_get store sig \<noteq> None"

definition tx_get :: "tx_store \<Rightarrow> signature \<Rightarrow> tx_props option" where
  "tx_get store sig = hm_get store sig"

definition tx_clean :: "u64 \<Rightarrow> tx_store \<Rightarrow> tx_store" where
  "tx_clean finalized_blockheight store =
     map_retain (\<lambda>_ v. tp_last_valid_blockheight v \<ge> finalized_blockheight) store"

definition is_transaction_confirmed :: "tx_store \<Rightarrow> signature \<Rightarrow> bool" where
  "is_transaction_confirmed store sig =
     (case hm_get store sig of Some props \<Rightarrow> tp_status props \<noteq> None | None \<Rightarrow> False)"

section \<open>Signature subscriptions\<close>

type_synonym sink = nat
type_synonym instant = nat

type_synonym subscription_store = "(signature \<times> commitment, sink \<times> instant) hashmap"

record sink_message =
  sm_sink :: sink
  sm_slot :: slot
  sm_err :: "wire option"

definition signature_subscribe ::
    "instant \<Rightarrow> subscription_store \<Rightarrow> signature \<Rightarrow> commitment_config \<Rightarrow> sink \<Rightarrow> subscription_store"
where
  "signature_subscribe now subs sig c sink =
     hm_put (sig, commitment_from_config c) (sink, now) subs"

definition signature_un_subscribe ::
    "subscription_store \<Rightarrow> signature \<Rightarrow> commitment_config \<Rightarrow> subscription_store" where
  "signature_un_subscribe subs sig c = hm_del (sig, commitment_from_config c) subs"

definition notify ::
    "subscription_store \<Rightarrow> slot \<Rightarrow> transaction_info \<Rightarrow> commitment_config \<Rightarrow>
     subscription_store \<times> sink_message list" where
  "notify subs sl tx c =
     (let key = (ti_signature tx, commitment_from_config c)
      in case hm_get subs key of
           Some (sink, _) \<Rightarrow>
             (hm_del key subs, [\<lparr>sm_sink = sink, sm_slot = sl, sm_err = ti_err tx\<rparr>])
         | None \<Rightarrow> (subs, []))"

definition subs_clean ::
    "(sink \<Rightarrow> bool) \<Rightarrow> instant \<Rightarrow> nat \<Rightarrow> subscription_store \<Rightarrow> subscription_store" where
  "subs_clean is_closed now ttl subs =
     map_retain (\<lambda>_ (sink, since). \<not> is_closed sink \<and> now - since < ttl) subs"

definition number_of_subscribers :: "subscription_store \<Rightarrow> nat" where
  "number_of_subscribers subs = length subs"

section \<open>Stakes of the service's identity\<close>

record rpc_vote_account_info =
  va_vote_pubkey :: string
  va_node_pubkey :: string
  va_activated_stake :: u64
  va_commission :: u8
  va_epoch_vote_account :: bool
  va_epoch_credits :: "(u64 \<times> u64 \<times> u64) list"
  va_last_vote :: u64
  va_root_slot :: u64

record rpc_vote_account_status =
  vs_current :: "rpc_vote_account_info list"
  vs_delinquent :: "rpc_vote_account_info list"

datatype connection_peer_type = Unstaked | Staked u64

record identity_stakes_data =
  is_peer_type :: connection_peer_type
  is_stakes :: u64
  is_total_stakes :: u64
  is_min_stakes :: u64
  is_max_stakes :: u64

record identity_stakes =
  id_identity :: pubkey
  id_stakes_data :: identity_stakes_data

definition identity_stakes_new :: "pubkey \<Rightarrow> identity_stakes" where
  "identity_stakes_new identity = \<lparr>id_identity = identity, id_stakes_data =
     \<lparr>is_peer_type = Unstaked, is_stakes = 0, is_total_stakes = 0, is_min_stakes = 0,
      is_max_stakes = 0\<rparr>\<rparr>"

definition get_stakes :: "identity_stakes \<Rightarrow> identity_stakes_data" where
  "get_stakes s = id_stakes_data s"

text \<open>Collecting pairs into a map keeps the last pair of a key.\<close>

definition map_of_stakes :: "rpc_vote_account_status \<Rightarrow> (string, u64) hashmap" where
  "map_of_stakes votes =
     fold (\<lambda>x. hm_put (va_node_pubkey x) (va_activated_stake x))
       (vs_current votes @ vs_delinquent votes) []"

definition update_stakes_for_identity ::
    "(pubkey \<Rightarrow> string) \<Rightarrow> identity_stakes \<Rightarrow> rpc_vote_account_status \<Rightarrow> identity_stakes" where
  "update_stakes_for_identity pubkey_to_string s votes =
     (let m = map_of_stakes votes
      in case hm_get m (pubkey_to_string (id_identity s)) of
           Some stakes \<Rightarrow>
             (let only_stakes = map_values m
              in s\<lparr>id_stakes_data :=
                    \<lparr>is_peer_type = Staked stakes,
                     is_stakes = stakes,
                     is_total_stakes = sum_list only_stakes,
                     is_min_stakes = min_or 0 only_stakes,
                     is_max_stakes = max_or 0 only_stakes\<rparr>\<rparr>)
         | None \<Rightarrow> s)"

section \<open>Cluster nodes\<close>

record contact_info =
  ci_pubkey :: string
  ci_tpu :: "(u32 \<times> nat) option"

definition load_cluster_info ::
    "(string \<Rightarrow> pubkey option) \<Rightarrow> (pubkey, contact_info) hashmap \<Rightarrow> contact_info list \<Rightarrow>
     (pubkey, contact_info) hashmap" where
  "load_cluster_info pubkey_from_str nodes received =
     fold (\<lambda>x m. case pubkey_from_str (ci_pubkey x) of Some pk \<Rightarrow> hm_put pk x m | None \<Rightarrow> m)
       received nodes"

section \<open>Epochs and slots\<close>

text \<open>
  The epoch schedule is the SDK's; the four functions the code calls, and the one field it reads,
  are what the model gets.
\<close>

record epoch_schedule =
  es_slots_per_epoch :: u64
  es_epoch_and_slot_index :: "slot \<Rightarrow> u64 \<times> u64"
  es_slots_in_epoch :: "u64 \<Rightarrow> u64"
  es_first_slot_in_epoch :: "u64 \<Rightarrow> slot"
  es_last_slot_in_epoch :: "u64 \<Rightarrow> slot"

record epoch =
  ep_epoch :: u64
  ep_slot_index :: u64
  ep_slots_in_epoch :: u64
  ep_absolute_slot :: slot

definition get_epoch_at_slot :: "epoch_schedule \<Rightarrow> slot \<Rightarrow> epoch" where
  "get_epoch_at_slot es sl =
     (let (e, i) = es_epoch_and_slot_index es sl
      in \<lparr>ep_epoch = e, ep_slot_index = i, ep_slots_in_epoch = es_slots_in_epoch es e,
          ep_absolute_slot = sl\<rparr>)"

definition get_next_epoch :: "u64 \<Rightarrow> u64" where
  "get_next_epoch e = e + 1"

record slot_cache =
  sc_current_slot :: slot
  sc_estimated_slot :: slot

definition slot_cache_new :: "slot \<Rightarrow> slot_cache" where
  "slot_cache_new sl = \<lparr>sc_current_slot = sl, sc_estimated_slot = sl\<rparr>"

definition slot_cache_update :: "slot_notification \<Rightarrow> slot_cache \<Rightarrow> slot_cache" where
  "slot_cache_update n c = c\<lparr>sc_current_slot := sn_processed_slot n,
     sc_estimated_slot := sn_estimated_processed_slot n\<rparr>"

section \<open>The data cache\<close>

record leader_schedule_data =
  ls_schedule_by_node :: "(string, nat list) hashmap"
  ls_schedule_by_slot :: "pubkey list"
  ls_epoch :: u64

record calculated_schedule =
  cs_current :: "leader_schedule_data option"
  cs_next :: "leader_schedule_data option"

record data_cache =
  dc_block_information_store :: block_information_store
  dc_txs :: tx_store
  dc_tx_subs :: subscription_store
  dc_slot_cache :: slot_cache
  dc_identity_stakes :: identity_stakes
  dc_cluster_info :: "(pubkey, contact_info) hashmap"
  dc_epoch_data :: epoch_schedule
  dc_leader_schedule :: calculated_schedule

definition data_cache_clean ::
    "(sink \<Rightarrow> bool) \<Rightarrow> instant \<Rightarrow> nat \<Rightarrow> data_cache \<Rightarrow> data_cache" where
  "data_cache_clean is_closed now ttl dc =
     (let block_info = get_latest_block_information (dc_block_information_store dc) finalized_config
      in dc\<lparr>dc_block_information_store := block_store_clean (dc_block_information_store dc),
            dc_txs := tx_clean (bn_block_height block_info) (dc_txs dc),
            dc_tx_subs := subs_clean is_closed now ttl (dc_tx_subs dc)\<rparr>)"

definition check_if_confirmed_or_expired_blockheight ::
    "data_cache \<Rightarrow> sent_transaction_info \<Rightarrow> bool" where
  "check_if_confirmed_or_expired_blockheight dc tx \<longleftrightarrow>
     get_last_blockheight (dc_block_information_store dc) > st_last_valid_block_height tx \<or>
     is_transaction_confirmed (dc_txs dc) (st_signature tx)"

definition get_current_epoch :: "data_cache \<Rightarrow> commitment_config \<Rightarrow> epoch" where
  "get_current_epoch dc c =
     get_epoch_at_slot (dc_epoch_data dc)
       (bn_slot (get_latest_block_information (dc_block_information_store dc) c))"

definition get_current_confirmed_slot :: "data_cache \<Rightarrow> u64" where
  "get_current_confirmed_slot dc =
     bn_slot (get_latest_block_information (dc_block_information_store dc) confirmed_config)"

section \<open>The caching service\<close>

fun confirmation_status_of :: "commitment_level \<Rightarrow> confirmation_status" where
  "confirmation_status_of LevelFinalized = StatusFinalized"
| "confirmation_status_of LevelConfirmed = StatusConfirmed"
| "confirmation_status_of LevelProcessed = StatusProcessed"

text \<open>The body of the loop over the transactions of a block.\<close>

definition cache_transaction ::
    "produced_block \<Rightarrow> transaction_info \<Rightarrow> data_cache \<Rightarrow> data_cache \<times> sink_message list" where
  "cache_transaction block tx dc =
     (let last_valid =
            (case get_block_info (dc_block_information_store dc) (ti_recent_blockhash tx) of
               Some b \<Rightarrow> bn_last_valid_blockheight b
             | None \<Rightarrow> pb_block_height block + MAX_RECENT_BLOCKHASHES);
          status = \<lparr>ts_slot = pb_slot block, ts_confirmations = None,
                    ts_status = (case ti_err tx of None \<Rightarrow> Inr () | Some e \<Rightarrow> Inl e),
                    ts_err = ti_err tx,
                    ts_confirmation_status = Some (confirmation_status_of
                       (cc_commitment (pb_commitment_config block)))\<rparr>;
          (txs, _) = tx_update_status (dc_txs dc) (ti_signature tx) status last_valid;
          (subs, msgs) = notify (dc_tx_subs dc) (pb_slot block) tx (pb_commitment_config block)
      in (dc\<lparr>dc_txs := txs, dc_tx_subs := subs\<rparr>, msgs))"

fun cache_transactions ::
    "produced_block \<Rightarrow> transaction_info list \<Rightarrow> data_cache \<Rightarrow> data_cache \<times> sink_message list" where
  "cache_transactions block [] dc = (dc, [])"
| "cache_transactions block (tx # txs) dc =
     (let (dc', msgs) = cache_transaction block tx dc;
          (dc'', msgs') = cache_transactions block txs dc'
      in (dc'', msgs @ msgs'))"

definition cache_block :: "produced_block \<Rightarrow> data_cache \<Rightarrow> data_cache \<times> sink_message list" where
  "cache_block block dc =
     cache_transactions block (pb_transactions block)
       (dc\<lparr>dc_block_information_store :=
            fst (add_block (dc_block_information_store dc) (from_block block))\<rparr>)"

datatype cache_event =
    BlockReceived produced_block
  | BlockInfoReceived block_info
  | SlotReceived slot_notification
  | ClusterInfoReceived "contact_info list"
  | VoteAccountsReceived rpc_vote_account_status
  | CleanTick instant

text \<open>
  One turn of one of the six tasks; a lagged stream is a turn without event, a closed stream ends
  its task.
\<close>

fun cache_step ::
    "(pubkey \<Rightarrow> string) \<Rightarrow> (string \<Rightarrow> pubkey option) \<Rightarrow> (sink \<Rightarrow> bool) \<Rightarrow> nat \<Rightarrow>
     data_cache \<Rightarrow> cache_event \<Rightarrow> data_cache \<times> sink_message list" where
  "cache_step to_str from_str is_closed ttl dc (BlockReceived block) = cache_block block dc"
| "cache_step to_str from_str is_closed ttl dc (BlockInfoReceived b) =
     (dc\<lparr>dc_block_information_store :=
          fst (add_block (dc_block_information_store dc) (from_block_info b))\<rparr>, [])"
| "cache_step to_str from_str is_closed ttl dc (SlotReceived n) =
     (dc\<lparr>dc_slot_cache := slot_cache_update n (dc_slot_cache dc)\<rparr>, [])"
| "cache_step to_str from_str is_closed ttl dc (ClusterInfoReceived nodes) =
     (dc\<lparr>dc_cluster_info := load_cluster_info from_str (dc_cluster_info dc) nodes\<rparr>, [])"
| "cache_step to_str from_str is_closed ttl dc (VoteAccountsReceived votes) =
     (dc\<lparr>dc_identity_stakes :=
          update_stakes_for_identity to_str (dc_identity_stakes dc) votes\<rparr>, [])"
| "cache_step to_str from_str is_closed ttl dc (CleanTick now) =
     (data_cache_clean is_closed now ttl dc, [])"


section \<open>Lemmas\<close>

lemma hm_inv_tx_update [inv_intros]:
  "hm_inv store \<Longrightarrow> hm_inv (fst (tx_update_status store sig status last_valid))"
  by (auto simp: tx_update_status_def intro: inv_intros split: option.split)

lemma tx_update_status_get:
  assumes "hm_inv store"
  shows "hm_get (fst (tx_update_status store sig status last_valid)) k =
    (if k = sig
     then Some (case hm_get store sig of
        Some meta \<Rightarrow> meta\<lparr>tp_status := Some status\<rparr>
      | None \<Rightarrow> \<lparr>tp_status = Some status, tp_last_valid_blockheight = last_valid,
                 tp_sent_by_lite_rpc = False\<rparr>)
     else hm_get store k)"
  using assms by (auto simp: tx_update_status_def hm_laws split: option.split)

lemma tx_update_confirmed:
  assumes "hm_inv store"
  shows "is_transaction_confirmed (fst (tx_update_status store sig status last_valid)) k \<longleftrightarrow>
    k = sig \<or> is_transaction_confirmed store k"
  using assms
  by (auto simp: is_transaction_confirmed_def tx_update_status_get split: option.split)

lemma hm_inv_notify [inv_intros]: "hm_inv subs \<Longrightarrow> hm_inv (fst (notify subs sl tx c))"
  by (auto simp: notify_def Let_def intro: inv_intros split: option.split)

lemma notify_get:
  assumes "hm_inv subs"
  shows "hm_get (fst (notify subs sl tx c)) k =
    (if k = (ti_signature tx, commitment_from_config c) then None else hm_get subs k)"
  using assms by (auto simp: notify_def Let_def hm_laws split: option.split)

definition data_cache_inv :: "data_cache \<Rightarrow> bool" where
  "data_cache_inv dc \<longleftrightarrow>
     block_store_inv (dc_block_information_store dc) \<and> hm_inv (dc_txs dc) \<and>
     hm_inv (dc_tx_subs dc) \<and> hm_inv (dc_cluster_info dc)"

lemma cache_transaction_simps:
  "dc_block_information_store (fst (cache_transaction block tx dc)) =
     dc_block_information_store dc"
  "dc_cluster_info (fst (cache_transaction block tx dc)) = dc_cluster_info dc"
  "\<exists>status last_valid. dc_txs (fst (cache_transaction block tx dc)) =
     fst (tx_update_status (dc_txs dc) (ti_signature tx) status last_valid)"
  "dc_tx_subs (fst (cache_transaction block tx dc)) =
     fst (notify (dc_tx_subs dc) (pb_slot block) tx (pb_commitment_config block))"
  "snd (cache_transaction block tx dc) =
     snd (notify (dc_tx_subs dc) (pb_slot block) tx (pb_commitment_config block))"
  by (auto simp: cache_transaction_def Let_def split_def)

lemma cache_transaction_inv:
  assumes "data_cache_inv dc"
  shows "data_cache_inv (fst (cache_transaction block tx dc))"
proof -
  obtain status lv where "dc_txs (fst (cache_transaction block tx dc)) =
      fst (tx_update_status (dc_txs dc) (ti_signature tx) status lv)"
    using cache_transaction_simps(3) by blast
  with assms show ?thesis
    by (simp add: data_cache_inv_def cache_transaction_simps inv_intros)
qed

lemma cache_transaction_confirmed:
  assumes "hm_inv (dc_txs dc)"
  shows "is_transaction_confirmed (dc_txs (fst (cache_transaction block tx dc))) k \<longleftrightarrow>
    k = ti_signature tx \<or> is_transaction_confirmed (dc_txs dc) k"
proof -
  obtain status lv where "dc_txs (fst (cache_transaction block tx dc)) =
      fst (tx_update_status (dc_txs dc) (ti_signature tx) status lv)"
    using cache_transaction_simps(3) by blast
  with assms show ?thesis by (simp add: tx_update_confirmed)
qed

lemma fst_cache_transactions_Cons:
  "fst (cache_transactions block (tx # txs) dc) =
     fst (cache_transactions block txs (fst (cache_transaction block tx dc)))"
  "snd (cache_transactions block (tx # txs) dc) =
     snd (cache_transaction block tx dc) @
     snd (cache_transactions block txs (fst (cache_transaction block tx dc)))"
  by (simp_all add: Let_def split_def)

declare cache_transactions.simps(2) [simp del]

lemma cache_transactions_inv:
  "data_cache_inv dc \<Longrightarrow> data_cache_inv (fst (cache_transactions block txs dc))"
  by (induction txs arbitrary: dc)
    (simp_all add: fst_cache_transactions_Cons cache_transaction_inv)

lemma cache_transactions_confirmed:
  "data_cache_inv dc \<Longrightarrow>
   is_transaction_confirmed (dc_txs (fst (cache_transactions block txs dc))) k \<longleftrightarrow>
   k \<in> ti_signature ` set txs \<or> is_transaction_confirmed (dc_txs dc) k"
proof (induction txs arbitrary: dc)
  case (Cons tx txs)
  moreover have "hm_inv (dc_txs dc)" using Cons.prems by (simp add: data_cache_inv_def)
  ultimately show ?case
    by (auto simp: fst_cache_transactions_Cons cache_transaction_inv cache_transaction_confirmed)
qed simp

lemma add_block_data_cache_inv:
  "data_cache_inv dc \<Longrightarrow> data_cache_inv (dc\<lparr>dc_block_information_store :=
     fst (add_block (dc_block_information_store dc) b)\<rparr>)"
  by (simp add: data_cache_inv_def add_block_inv)

lemma cache_block_inv: "data_cache_inv dc \<Longrightarrow> data_cache_inv (fst (cache_block block dc))"
  by (simp add: cache_block_def cache_transactions_inv add_block_data_cache_inv)

lemma load_cluster_inv: "hm_inv nodes \<Longrightarrow> hm_inv (load_cluster_info from_str nodes received)"
  unfolding load_cluster_info_def
  by (induction received arbitrary: nodes) (auto intro: inv_intros split: option.split)

lemma data_cache_clean_inv:
  "data_cache_inv dc \<Longrightarrow> data_cache_inv (data_cache_clean is_closed now ttl dc)"
  by (simp add: data_cache_inv_def data_cache_clean_def Let_def clean_inv tx_clean_def
      subs_clean_def inv_intros)

lemma tx_clean_confirmed:
  assumes "hm_inv store"
  shows "is_transaction_confirmed (tx_clean h store) k \<longleftrightarrow>
    (\<exists>p. hm_get store k = Some p \<and> tp_status p \<noteq> None \<and> h \<le> tp_last_valid_blockheight p)"
  using assms
  by (auto simp: is_transaction_confirmed_def tx_clean_def hm_get_retain split: option.split)

section \<open>Properties\<close>

definition sample_cache :: data_cache where
  "sample_cache = \<lparr>
     dc_block_information_store = block_store_new (sample_block 5 1 finalized_config),
     dc_txs = [], dc_tx_subs = signature_subscribe 0 [] 77 confirmed_config 3,
     dc_slot_cache = slot_cache_new 5, dc_identity_stakes = identity_stakes_new 9,
     dc_cluster_info = [],
     dc_epoch_data = \<lparr>es_slots_per_epoch = 1000,
       es_epoch_and_slot_index = (\<lambda>s. (s div 1000, s mod 1000)),
       es_slots_in_epoch = (\<lambda>_. 1000), es_first_slot_in_epoch = (\<lambda>e. e * 1000),
       es_last_slot_in_epoch = (\<lambda>e. e * 1000 + 999)\<rparr>,
     dc_leader_schedule = \<lparr>cs_current = None, cs_next = None\<rparr>\<rparr>"

definition sample_transaction :: "signature \<Rightarrow> transaction_info" where
  "sample_transaction sig = \<lparr>ti_signature = sig, ti_is_vote = False, ti_err = None,
     ti_cu_requested = None, ti_prioritization_fees = Some 10, ti_cu_consumed = Some 100,
     ti_recent_blockhash = 1, ti_message = empty_message, ti_writable_accounts = [],
     ti_readable_accounts = [], ti_address_lookup_tables = []\<rparr>"

definition sample_produced :: "transaction_info list \<Rightarrow> produced_block" where
  "sample_produced txs = \<lparr>pb_transactions = txs, pb_leader_id = None, pb_blockhash = 2,
     pb_block_height = 6, pb_slot = 6, pb_parent_slot = 5, pb_block_time = 0,
     pb_previous_blockhash = 1, pb_rewards = None, pb_commitment_config = confirmed_config\<rparr>"

lemma sample_cache_inv: "data_cache_inv sample_cache"
  by (simp add: data_cache_inv_def sample_cache_def new_inv sample_block_def
      signature_subscribe_def inv_intros)

text \<open>
  every event the caching service handles (a block, a block meta, a slot, cluster nodes, vote
  accounts, a cleanup) keeps the data cache well-formed.
\<close>

theorem cache_step_invariant:
  assumes "data_cache_inv dc"
  shows "data_cache_inv (fst (cache_step to_str from_str is_closed ttl dc e))"
proof (cases e)
  case (BlockInfoReceived b)
  with assms show ?thesis by (simp add: add_block_data_cache_inv)
next
  case (ClusterInfoReceived nodes)
  with assms show ?thesis by (simp add: data_cache_inv_def load_cluster_inv)
qed (use assms in \<open>simp_all add: cache_block_inv data_cache_clean_inv, simp_all add: data_cache_inv_def\<close>)

theorem cache_step_invariant_witness:
  "data_cache_inv (fst (cache_step (\<lambda>_. []) (\<lambda>_. None) (\<lambda>_. False) 10 sample_cache
     (BlockReceived (sample_produced [sample_transaction 77]))))"
  by (rule cache_step_invariant [OF sample_cache_inv])


definition sample_sent :: "signature \<Rightarrow> sent_transaction_info" where
  "sample_sent sig = \<lparr>st_signature = sig, st_slot = 5, st_transaction = [],
     st_last_valid_block_height = 305, st_prioritization_fee = 10\<rparr>"


text \<open>
  the periodic cleanup never makes the service forget that a transaction needs no further
  sending: if the entry of the transaction carries the expiry height the transaction was sent
  with, the verdict confirmed-or-expired is the same before and after the cleanup.
\<close>

theorem clean_keeps_confirmed_or_expired:
  assumes "data_cache_inv dc"
    and "\<And>p. tx_get (dc_txs dc) (st_signature sent) = Some p \<Longrightarrow>
      tp_last_valid_blockheight p = st_last_valid_block_height sent"
  shows "check_if_confirmed_or_expired_blockheight (data_cache_clean is_closed now ttl dc) sent \<longleftrightarrow>
    check_if_confirmed_or_expired_blockheight dc sent"
proof -
  let ?s = "dc_block_information_store dc"
  let ?h = "bn_block_height (get_latest_block_information ?s finalized_config)"
  have txs: "hm_inv (dc_txs dc)" using assms(1) by (simp add: data_cache_inv_def)
  have le: "?h \<le> bs_last_blockheight ?s"
    using assms(1)
    by (simp add: data_cache_inv_def block_store_inv_def get_latest_block_information_def)
  have "is_transaction_confirmed (tx_clean ?h (dc_txs dc)) (st_signature sent) \<longleftrightarrow>
      (?h \<le> st_last_valid_block_height sent \<and>
       is_transaction_confirmed (dc_txs dc) (st_signature sent))"
    unfolding tx_clean_confirmed [OF txs]
    using assms(2) by (auto simp: is_transaction_confirmed_def tx_get_def split: option.split)
  with le show ?thesis
    by (auto simp: check_if_confirmed_or_expired_blockheight_def data_cache_clean_def Let_def
        get_last_blockheight_def)
qed

theorem clean_keeps_confirmed_or_expired_witness:
  "check_if_confirmed_or_expired_blockheight
     (data_cache_clean (\<lambda>_. False) 0 10 sample_cache) (sample_sent 77) \<longleftrightarrow>
   check_if_confirmed_or_expired_blockheight sample_cache (sample_sent 77)"
  by (rule clean_keeps_confirmed_or_expired [OF sample_cache_inv])
    (simp add: sample_cache_def tx_get_def)

text \<open>
  The messages a block owes: one per transaction that has a subscriber at the commitment of the
  block, the first occurrence of a signature counting.
\<close>

fun first_occurrences :: "signature set \<Rightarrow> transaction_info list \<Rightarrow> transaction_info list" where
  "first_occurrences seen [] = []"
| "first_occurrences seen (tx # txs) =
     (if ti_signature tx \<in> seen then first_occurrences seen txs
      else tx # first_occurrences (insert (ti_signature tx) seen) txs)"

definition owed_message ::
    "subscription_store \<Rightarrow> produced_block \<Rightarrow> transaction_info \<Rightarrow> sink_message option" where
  "owed_message subs block tx =
     map_option (\<lambda>(sink, _). \<lparr>sm_sink = sink, sm_slot = pb_slot block, sm_err = ti_err tx\<rparr>)
       (hm_get subs (ti_signature tx, commitment_from_config (pb_commitment_config block)))"

lemma notify_messages:
  "snd (notify subs (pb_slot block) tx (pb_commitment_config block)) =
     (case owed_message subs block tx of None \<Rightarrow> [] | Some m \<Rightarrow> [m])"
  by (auto simp: notify_def owed_message_def Let_def split: option.split)

lemma cache_transactions_messages:
  assumes "data_cache_inv dc"
    and "\<And>sig. hm_get (dc_tx_subs dc) (sig, commitment_from_config (pb_commitment_config block)) =
      (if sig \<in> seen then None
       else hm_get subs (sig, commitment_from_config (pb_commitment_config block)))"
  shows "snd (cache_transactions block txs dc) =
    List.map_filter (owed_message subs block) (first_occurrences seen txs)"
  using assms
proof (induction txs arbitrary: dc seen)
  case (Cons tx txs)
  let ?c = "commitment_from_config (pb_commitment_config block)"
  let ?d = "fst (cache_transaction block tx dc)"
  have i: "hm_inv (dc_tx_subs dc)" using Cons.prems(1) by (simp add: data_cache_inv_def)
  have "snd (cache_transactions block txs ?d) =
      List.map_filter (owed_message subs block)
        (first_occurrences (insert (ti_signature tx) seen) txs)"
    using Cons.prems
    by (intro Cons.IH) (auto simp: cache_transaction_inv cache_transaction_simps notify_get [OF i])
  moreover have "insert (ti_signature tx) seen = seen" if "ti_signature tx \<in> seen"
    using that by (rule insert_absorb)
  moreover have "owed_message (dc_tx_subs dc) block tx =
      (if ti_signature tx \<in> seen then None else owed_message subs block tx)"
    using Cons.prems(2) [of "ti_signature tx"] by (simp add: owed_message_def)
  ultimately show ?case
    by (simp add: fst_cache_transactions_Cons cache_transaction_simps notify_messages
        List.map_filter_simps split: option.split)
qed (simp add: List.map_filter_simps)

text \<open>
  handling a block sends exactly the messages it owes: one to each signature subscriber at
  the block's commitment whose transaction the block holds, in the block's order and never twice
  for a repeated signature.
\<close>

theorem block_notifies_each_subscriber_once:
  assumes "data_cache_inv dc"
  shows "snd (cache_block block dc) =
    List.map_filter (owed_message (dc_tx_subs dc) block)
      (first_occurrences {} (pb_transactions block))"
  unfolding cache_block_def
  using assms by (intro cache_transactions_messages) (simp_all add: add_block_data_cache_inv)

theorem block_notifies_each_subscriber_once_witness:
  "snd (cache_block (sample_produced [sample_transaction 77, sample_transaction 77]) sample_cache) =
   [\<lparr>sm_sink = 3, sm_slot = 6, sm_err = None\<rparr>]"
  unfolding block_notifies_each_subscriber_once [OF sample_cache_inv]
  by (simp add: owed_message_def sample_produced_def sample_transaction_def sample_cache_def signature_subscribe_def
      List.map_filter_simps hm.get_put config_defs commitment_from_config_def)

text \<open>
  when the vote accounts name the service's identity, the recorded stake is staked and lies
  between the recorded minimum and maximum, and every stake of the report lies between them;
  otherwise the record does not change.
\<close>

theorem identity_stakes_bounds:
  "case hm_get (map_of_stakes votes) (to_str (id_identity s)) of
     None \<Rightarrow> update_stakes_for_identity to_str s votes = s
   | Some stakes \<Rightarrow>
       (let d = get_stakes (update_stakes_for_identity to_str s votes)
        in is_stakes d = stakes \<and> is_peer_type d = Staked stakes \<and>
           is_min_stakes d \<le> stakes \<and> stakes \<le> is_max_stakes d \<and>
           (\<forall>x \<in> set (map_values (map_of_stakes votes)).
              is_min_stakes d \<le> x \<and> x \<le> is_max_stakes d))"
proof (cases "hm_get (map_of_stakes votes) (to_str (id_identity s))")
  case None
  then show ?thesis by (simp add: update_stakes_for_identity_def Let_def)
next
  case (Some stakes)
  then have "stakes \<in> set (map_values (map_of_stakes votes))"
    by (force simp: map_values_def dest: hm_get_Some_mem)
  with Some show ?thesis
    by (simp add: update_stakes_for_identity_def get_stakes_def Let_def min_or_le max_or_ge)
qed

theorem identity_stakes_bounds_witness:
  "let v = \<lparr>va_vote_pubkey = ''v'', va_node_pubkey = ''n'', va_activated_stake = 40,
     va_commission = 1, va_epoch_vote_account = True, va_epoch_credits = [], va_last_vote = 1,
     va_root_slot = 1\<rparr>;
     votes = \<lparr>vs_current = [v], vs_delinquent = []\<rparr>
   in is_stakes (get_stakes (update_stakes_for_identity (\<lambda>_. ''n'') (identity_stakes_new 9) votes))
      = 40"
  using identity_stakes_bounds [where to_str = "\<lambda>_. ''n''" and s = "identity_stakes_new 9" and
      votes = "\<lparr>vs_current = [\<lparr>va_vote_pubkey = ''v'', va_node_pubkey = ''n'',
        va_activated_stake = 40, va_commission = 1, va_epoch_vote_account = True,
        va_epoch_credits = [], va_last_vote = 1, va_root_slot = 1\<rparr>], vs_delinquent = []\<rparr>"]
  by (simp add: map_of_stakes_def Let_def hm.get_put)

end
