(* ===== verification/Account_Service.thy ===== *)
theory Account_Service
  imports Account_Store Data_Cache
begin

text \<open>
  \<open>accounts/src/account_store_interface.rs\<close> and \<open>accounts/src/account_service.rs\<close>: the storage
  interface the service calls, the two tasks that feed it and broadcast what changed, the initial
  load from an RPC node and the two read requests.  The service is written over a record of the
  interface's functions, as the code is written over \<open>dyn AccountStorageInterface\<close>; what it relies
  on is the locale \<open>account_storage_laws\<close>, interpreted here on the in-memory store.
\<close>

section \<open>The storage interface\<close>

record 's account_storage =
  as_update_account :: "'s \<Rightarrow> account_data \<Rightarrow> commitment \<Rightarrow> ('s \<times> bool) outcome"
  as_initilize_or_update_account :: "'s \<Rightarrow> account_data \<Rightarrow> 's outcome"
  as_get_account ::
    "'s \<Rightarrow> pubkey \<Rightarrow> commitment \<Rightarrow> ('s \<times> (account_loading_error + account_data option)) outcome"
  as_get_program_accounts ::
    "'s \<Rightarrow> pubkey \<Rightarrow> rpc_filter_type list option \<Rightarrow> commitment \<Rightarrow>
     ('s \<times> account_data list option) outcome"
  as_process_slot_data :: "'s \<Rightarrow> slot \<Rightarrow> commitment \<Rightarrow> ('s \<times> account_data list) outcome"

definition inmemory_storage ::
    "(rpc_memcmp \<Rightarrow> u8 list \<Rightarrow> bool) \<Rightarrow> inmemory_account_store account_storage" where
  "inmemory_storage bytes_match =
     \<lparr>as_update_account = update_account,
      as_initilize_or_update_account = initilize_or_update_account,
      as_get_account = (\<lambda>s pk c. Inr (s, get_account s pk c)),
      as_get_program_accounts = (\<lambda>s p fs c. Inr (s, get_program_accounts bytes_match s p fs c)),
      as_process_slot_data = process_slot_data\<rparr>"

section \<open>The tasks of the service\<close>

text \<open>What one message of the account stream or of the block info stream does; the second component
  is what goes out to the subscribers.\<close>

datatype service_event =
    AccountReceived account_notification
  | BlockInfoForAccounts block_info
  | StreamLagged

fun service_step ::
    "'s account_storage \<Rightarrow> 's \<Rightarrow> service_event \<Rightarrow> ('s \<times> account_notification list) outcome" where
  "service_step st s (AccountReceived n) =
     bind_outcome (as_update_account st s (an_data n) (an_commitment n))
       (\<lambda>(s', updated). Inr (s', if updated then [n] else []))"
| "service_step st s (BlockInfoForAccounts b) =
     (if is_processed (bi_commitment_config b) then Inr (s, [])
      else
        (let c = commitment_from_config (bi_commitment_config b)
         in bind_outcome (as_process_slot_data st s (bi_slot b) c)
              (\<lambda>(s', updated_accounts).
                 Inr (s', List.map (\<lambda>d. \<lparr>an_data = d, an_commitment = c\<rparr>) updated_accounts))))"
| "service_step st s StreamLagged = Inr (s, [])"

fun service_run ::
    "'s account_storage \<Rightarrow> 's \<Rightarrow> service_event list \<Rightarrow> ('s \<times> account_notification list) outcome" where
  "service_run st s [] = Inr (s, [])"
| "service_run st s (e # es) =
     bind_outcome (service_step st s e) (\<lambda>(s', ns).
       bind_outcome (service_run st s' es) (\<lambda>(s'', ns'). Inr (s'', ns @ ns')))"

section \<open>The initial load\<close>

text \<open>
  The RPC node answers the program query with keys and a batch query with one entry per key; every
  attempt may fail.  Parsing a public key is the SDK's and \<open>expect\<close> panics when it fails.
\<close>

fun parse_accounts :: "(string \<Rightarrow> pubkey option) \<Rightarrow> string list \<Rightarrow> pubkey list outcome" where
  "parse_accounts from_str [] = Inr []"
| "parse_accounts from_str (x # xs) =
     (case from_str x of
        None \<Rightarrow> Inl (ExplicitPanic ''Accounts in filters should be valid'')
      | Some pk \<Rightarrow> bind_outcome (parse_accounts from_str xs) (\<lambda>pks. Inr (pk # pks)))"

fun accounts_to_load ::
    "(string \<Rightarrow> pubkey option) \<Rightarrow> (pubkey \<Rightarrow> rpc_filter_type list option \<Rightarrow> 'e + pubkey list) \<Rightarrow>
     account_filter list \<Rightarrow> ('e + pubkey list) outcome" where
  "accounts_to_load from_str rpc_program [] = Inr (Inr [])"
| "accounts_to_load from_str rpc_program (f # fs) =
     bind_outcome (parse_accounts from_str (af_accounts f)) (\<lambda>pks.
       (case af_program_id f of
          None \<Rightarrow>
            bind_outcome (accounts_to_load from_str rpc_program fs)
              (\<lambda>r. Inr (map_sum id (\<lambda>rest. pks @ rest) r))
        | Some p \<Rightarrow>
            (case from_str p of
               None \<Rightarrow> Inl (ExplicitPanic ''Program id in filters should be valid'')
             | Some program_id \<Rightarrow>
                 (case rpc_program program_id (get_rpc_filter f) of
                    Inl e \<Rightarrow> Inr (Inl e)
                  | Inr rpc_acc \<Rightarrow>
                      bind_outcome (accounts_to_load from_str rpc_program fs)
                        (\<lambda>r. Inr (map_sum id (\<lambda>rest. pks @ rpc_acc @ rest) r))))))"

definition nb_accounts_in_gma :: nat where
  "nb_accounts_in_gma = 100"

definition nb_retry :: nat where
  "nb_retry = 10"

type_synonym batch_response = "slot \<times> account option list"

text \<open>The first successful of the remaining attempts; an empty answer when all of them fail.\<close>

fun fetch_batch :: "(nat \<Rightarrow> batch_response option) \<Rightarrow> nat \<Rightarrow> nat \<Rightarrow> batch_response" where
  "fetch_batch rpc attempt 0 = (0, [])"
| "fetch_batch rpc attempt (Suc n) =
     (case rpc attempt of Some response \<Rightarrow> response | None \<Rightarrow> fetch_batch rpc (Suc attempt) n)"

fun store_fetched ::
    "'s account_storage \<Rightarrow> pubkey list \<Rightarrow> slot \<Rightarrow> (nat \<times> account option) list \<Rightarrow> 's \<Rightarrow> 's outcome"
where
  "store_fetched st accounts updated_slot [] s = Inr s"
| "store_fetched st accounts updated_slot ((i, a) # rest) s =
     (case a of
        None \<Rightarrow> store_fetched st accounts updated_slot rest s
      | Some acc \<Rightarrow>
          bind_outcome (index_checked accounts i) (\<lambda>pk.
            bind_outcome (as_initilize_or_update_account st s
                \<lparr>ad_pubkey = pk, ad_account = acc, ad_updated_slot = updated_slot\<rparr>)
              (store_fetched st accounts updated_slot rest)))"

fun load_batches ::
    "'s account_storage \<Rightarrow> (pubkey list \<Rightarrow> nat \<Rightarrow> batch_response option) \<Rightarrow> pubkey list list \<Rightarrow>
     's \<Rightarrow> 's outcome" where
  "load_batches st rpc [] s = Inr s"
| "load_batches st rpc (accounts # batches) s =
     (let (updated_slot, fetched) = fetch_batch (rpc accounts) 0 nb_retry
      in bind_outcome (store_fetched st accounts updated_slot (List.enumerate 0 fetched) s)
           (load_batches st rpc batches))"

text \<open>\<open>chunks\<close> panics for size zero, that is when no parallel request is allowed.\<close>

definition populate_from_rpc ::
    "'s account_storage \<Rightarrow> (string \<Rightarrow> pubkey option) \<Rightarrow>
     (pubkey \<Rightarrow> rpc_filter_type list option \<Rightarrow> 'e + pubkey list) \<Rightarrow>
     (pubkey list \<Rightarrow> nat \<Rightarrow> batch_response option) \<Rightarrow> account_filter list \<Rightarrow> nat \<Rightarrow>
     's \<Rightarrow> ('s \<times> ('e + unit)) outcome" where
  "populate_from_rpc st from_str rpc_program rpc filters max_request_in_parallel s =
     bind_outcome (accounts_to_load from_str rpc_program filters) (\<lambda>r.
       (case r of
          Inl e \<Rightarrow> Inr (s, Inl e)
        | Inr accounts \<Rightarrow>
            if max_request_in_parallel = 0 then Inl (ExplicitPanic ''chunk size must be non-zero'')
            else
              bind_outcome
                (load_batches st rpc
                  (concat (List.map (chunks nb_accounts_in_gma)
                    (chunks (max_request_in_parallel * nb_accounts_in_gma) accounts))) s)
                (\<lambda>s'. Inr (s', Inr ()))))"

section \<open>Read requests\<close>

datatype ui_account_encoding =
    EncBinary | EncBase58 | EncBase64 | EncJsonParsed | EncBase64Zstd

record ui_data_slice =
  us_offset :: nat
  us_length :: nat

record account_info_config =
  aic_encoding :: "ui_account_encoding option"
  aic_data_slice :: "ui_data_slice option"
  aic_commitment :: "commitment_config option"
  aic_min_context_slot :: "slot option"

record program_accounts_config =
  pac_filters :: "rpc_filter_type list option"
  pac_account_config :: account_info_config
  pac_with_context :: "bool option"

text \<open>\<open>encode\<close> is the account encoder of the SDK.\<close>

definition convert_account_data_to_ui_account ::
    "(account_data \<Rightarrow> ui_account_encoding \<Rightarrow> ui_data_slice option \<Rightarrow> 'ui) \<Rightarrow> account_data \<Rightarrow>
     account_info_config option \<Rightarrow> 'ui" where
  "convert_account_data_to_ui_account encode d config =
     encode d (unwrap_or (Option.bind config aic_encoding) EncBase64) (Option.bind config aic_data_slice)"

definition config_commitment :: "commitment_config option \<Rightarrow> commitment" where
  "config_commitment c = commitment_from_config (unwrap_or c finalized_config)"

definition service_get_account ::
    "'s account_storage \<Rightarrow> (account_data \<Rightarrow> ui_account_encoding \<Rightarrow> ui_data_slice option \<Rightarrow> 'ui) \<Rightarrow>
     's \<Rightarrow> pubkey \<Rightarrow> account_info_config option \<Rightarrow>
     ('s \<times> (account_loading_error + slot \<times> 'ui option)) outcome" where
  "service_get_account st encode s account config =
     bind_outcome (as_get_account st s account (config_commitment (Option.bind config aic_commitment)))
       (\<lambda>(s', r).
          (case r of
             Inl e \<Rightarrow> Inr (s', Inl e)
           | Inr None \<Rightarrow> Inr (s', Inl ConfigDoesnotContainRequiredFilters)
           | Inr (Some d) \<Rightarrow>
               (let minimum_context_slot = unwrap_or (Option.bind config aic_min_context_slot) 0
                in if minimum_context_slot \<le> ad_updated_slot d
                   then Inr (s', Inr (ad_updated_slot d,
                          Some (convert_account_data_to_ui_account encode d config)))
                   else Inr (s', Inr (ad_updated_slot d, None)))))"

definition service_get_program_accounts ::
    "'s account_storage \<Rightarrow> (account_data \<Rightarrow> ui_account_encoding \<Rightarrow> ui_data_slice option \<Rightarrow> 'ui) \<Rightarrow>
     (pubkey \<Rightarrow> string) \<Rightarrow> 's \<Rightarrow> pubkey \<Rightarrow> program_accounts_config option \<Rightarrow>
     ('s \<times> (string + slot \<times> (string \<times> 'ui) list)) outcome" where
  "service_get_program_accounts st encode to_str s program_id config =
     (let account_config = map_option pac_account_config config
      in bind_outcome (as_get_program_accounts st s program_id (Option.bind config pac_filters)
           (config_commitment (Option.bind account_config aic_commitment)))
         (\<lambda>(s', r).
            (case r of
               None \<Rightarrow> Inr (s', Inl (to_str program_id))
             | Some program_accounts \<Rightarrow>
                 (let min_context_slot =
                        unwrap_or (Option.bind config (\<lambda>c.
                          if unwrap_or (pac_with_context c) False
                          then aic_min_context_slot (pac_account_config c) else None)) 0;
                      sl = max_or 0 (List.map ad_updated_slot program_accounts);
                      rpc_keyed_accounts =
                        List.map_filter (\<lambda>d.
                          if ad_updated_slot d \<ge> min_context_slot
                          then Some (to_str (ad_pubkey d),
                                 convert_account_data_to_ui_account encode d account_config)
                          else None) program_accounts
                  in Inr (s', Inr (sl, rpc_keyed_accounts))))))"

section \<open>The laws of the interface\<close>

text \<open>
  \<open>view\<close> is what the storage holds for an account at a commitment.  No call panics or replaces the
  data of an account by older data; a read that finds data in the storage returns it; an
  initialised account is there at finalized commitment.
\<close>

locale account_storage_laws =
  fixes st :: "'s account_storage"
    and invar :: "'s \<Rightarrow> bool"
    and view :: "'s \<Rightarrow> pubkey \<Rightarrow> commitment \<Rightarrow> account_data option"
  assumes update_law: "invar s \<Longrightarrow> \<exists>s' b. as_update_account st s d c = Inr (s', b) \<and> invar s' \<and>
      (\<forall>pk c'. advances (view s pk c') (view s' pk c'))"
    and init_law: "invar s \<Longrightarrow> \<exists>s'. as_initilize_or_update_account st s d = Inr s' \<and> invar s' \<and>
      (\<forall>pk c'. advances (view s pk c') (view s' pk c')) \<and>
      advances (Some d) (view s' (ad_pubkey d) Finalized)"
    and get_law: "invar s \<Longrightarrow> \<exists>s' r. as_get_account st s pk c = Inr (s', r) \<and> invar s' \<and>
      (\<forall>pk c'. advances (view s pk c') (view s' pk c')) \<and>
      (\<forall>d. view s pk c = Some d \<longrightarrow> r = Inr (Some d)) \<and>
      (\<forall>d. r = Inr (Some d) \<longrightarrow> ad_pubkey d = pk)"
    and program_law: "invar s \<Longrightarrow> \<exists>s' r. as_get_program_accounts st s p fs c = Inr (s', r) \<and> invar s' \<and>
      (\<forall>pk c'. advances (view s pk c') (view s' pk c'))"
    and slot_law: "invar s \<Longrightarrow> \<exists>s' ns. as_process_slot_data st s sl c = Inr (s', ns) \<and> invar s' \<and>
      (\<forall>pk c'. advances (view s pk c') (view s' pk c'))"
begin

lemma service_step_ok:
  assumes "invar s"
  shows "\<exists>s' ns. service_step st s e = Inr (s', ns) \<and> invar s' \<and>
    (\<forall>pk c. advances (view s pk c) (view s' pk c))"
proof (cases e)
  case (AccountReceived n)
  with update_law [OF assms, of "an_data n" "an_commitment n"] show ?thesis by auto
next
  case (BlockInfoForAccounts b)
  with slot_law [OF assms, of "bi_slot b" "commitment_from_config (bi_commitment_config b)"] assms
  show ?thesis by (auto simp: Let_def)
next
  case StreamLagged
  with assms show ?thesis by simp
qed

lemma service_run_ok:
  "invar s \<Longrightarrow> \<exists>s' ns. service_run st s es = Inr (s', ns) \<and> invar s' \<and>
     (\<forall>pk c. advances (view s pk c) (view s' pk c))"
proof (induction es arbitrary: s)
  case (Cons e es)
  obtain s1 n1 where s1: "service_step st s e = Inr (s1, n1)" "invar s1"
      "\<forall>pk c. advances (view s pk c) (view s1 pk c)"
    using service_step_ok [OF Cons.prems] by blast
  obtain s2 n2 where "service_run st s1 es = Inr (s2, n2)" "invar s2"
      "\<forall>pk c. advances (view s1 pk c) (view s2 pk c)"
    using Cons.IH [OF s1(2)] by blast
  with s1 show ?case by (simp, blast intro: advances_trans)
qed simp

text \<open>An account the storage holds is served with its slot; later events never lower the slot.\<close>

lemma service_get_account_ok:
  assumes "invar s"
  shows "\<exists>s' r. service_get_account st encode s pk config = Inr (s', r) \<and> invar s' \<and>
    (\<forall>pk c'. advances (view s pk c') (view s' pk c')) \<and>
    (\<forall>d. view s pk (config_commitment (Option.bind config aic_commitment)) = Some d \<longrightarrow>
       r = Inr (ad_updated_slot d,
         if unwrap_or (Option.bind config aic_min_context_slot) 0 \<le> ad_updated_slot d
         then Some (convert_account_data_to_ui_account encode d config) else None))"
proof -
  let ?c = "config_commitment (Option.bind config aic_commitment)"
  obtain s' r where r: "as_get_account st s pk ?c = Inr (s', r)" "invar s'"
      "\<forall>pk c'. advances (view s pk c') (view s' pk c')"
      "\<forall>d. view s pk ?c = Some d \<longrightarrow> r = Inr (Some d)"
    using get_law [OF assms, of pk ?c] by blast
  have "\<exists>r'. service_get_account st encode s pk config = Inr (s', r')"
    by (simp add: service_get_account_def r(1) Let_def split: sum.split option.split)
  then obtain r' where r': "service_get_account st encode s pk config = Inr (s', r')" ..
  moreover have "r' = Inr (ad_updated_slot d,
      if unwrap_or (Option.bind config aic_min_context_slot) 0 \<le> ad_updated_slot d
      then Some (convert_account_data_to_ui_account encode d config) else None)"
    if "view s pk ?c = Some d" for d
    using r' that r(4) by (simp add: service_get_account_def r(1) Let_def split: if_splits)
  ultimately show ?thesis using r(2,3) by blast
qed

lemma served_slot_advances:
  assumes "invar s"
    and "view s pk (config_commitment (Option.bind config aic_commitment)) = Some d"
  shows "\<exists>s' ns s'' sl ui. service_run st s es = Inr (s', ns) \<and>
    service_get_account st encode s' pk config = Inr (s'', Inr (sl, ui)) \<and> ad_updated_slot d \<le> sl"
proof -
  let ?c = "config_commitment (Option.bind config aic_commitment)"
  obtain s' ns where s': "service_run st s es = Inr (s', ns)" "invar s'"
      "\<forall>pk c. advances (view s pk c) (view s' pk c)"
    using service_run_ok [OF assms(1)] by blast
  then have "advances (Some d) (view s' pk ?c)" using assms(2) by metis
  then obtain d' where d': "view s' pk ?c = Some d'" "ad_updated_slot d \<le> ad_updated_slot d'"
    by (auto simp: advances_def split: option.splits)
  with s'(1) service_get_account_ok [OF s'(2), of encode pk config] show ?thesis by auto
qed

text \<open>The initial load: every account the node returned is there at finalized commitment.\<close>

lemma store_fetched_ok:
  "invar s \<Longrightarrow> \<forall>(i, a) \<in> set ias. i < length accounts \<Longrightarrow>
   \<exists>s'. store_fetched st accounts sl ias s = Inr s' \<and> invar s' \<and>
     (\<forall>pk c. advances (view s pk c) (view s' pk c)) \<and>
     (\<forall>i acc. (i, Some acc) \<in> set ias \<longrightarrow>
        (\<exists>d. view s' (accounts ! i) Finalized = Some d \<and> sl \<le> ad_updated_slot d))"
proof (induction ias arbitrary: s)
  case (Cons ia ias)
  obtain i a where ia: "ia = (i, a)" by (cases ia)
  show ?case
  proof (cases a)
    case None
    with Cons ia show ?thesis by simp
  next
    case (Some acc)
    let ?d = "\<lparr>ad_pubkey = accounts ! i, ad_account = acc, ad_updated_slot = sl\<rparr>"
    obtain s1 where s1: "as_initilize_or_update_account st s ?d = Inr s1" "invar s1"
        "\<forall>pk c. advances (view s pk c) (view s1 pk c)"
        "advances (Some ?d) (view s1 (accounts ! i) Finalized)"
      using init_law [OF Cons.prems(1), of ?d] by auto
    obtain s2 where s2: "store_fetched st accounts sl ias s1 = Inr s2" "invar s2"
        "\<forall>pk c. advances (view s1 pk c) (view s2 pk c)"
        "\<forall>i acc. (i, Some acc) \<in> set ias \<longrightarrow>
          (\<exists>d. view s2 (accounts ! i) Finalized = Some d \<and> sl \<le> ad_updated_slot d)"
      using Cons.IH [OF s1(2)] Cons.prems(2) by auto
    have "advances (Some ?d) (view s2 (accounts ! i) Finalized)"
      using s1(4) s2(3) advances_trans by blast
    then have "\<exists>d. view s2 (accounts ! i) Finalized = Some d \<and> sl \<le> ad_updated_slot d"
      by (auto simp: advances_def split: option.splits)
    moreover have "\<forall>pk c. advances (view s pk c) (view s2 pk c)"
      using s1(3) s2(3) advances_trans by blast
    ultimately show ?thesis
      using s1(1) s2 Cons.prems(2) by (auto simp: ia Some)
  qed
qed simp

lemma load_batches_ok:
  "invar s \<Longrightarrow> \<forall>b \<in> set batches. length (snd (fetch_batch (rpc b) 0 nb_retry)) \<le> length b \<Longrightarrow>
   \<exists>s'. load_batches st rpc batches s = Inr s' \<and> invar s' \<and>
     (\<forall>pk c. advances (view s pk c) (view s' pk c)) \<and>
     (\<forall>b i acc. b \<in> set batches \<longrightarrow> i < length (snd (fetch_batch (rpc b) 0 nb_retry)) \<longrightarrow>
        snd (fetch_batch (rpc b) 0 nb_retry) ! i = Some acc \<longrightarrow>
        (\<exists>d. view s' (b ! i) Finalized = Some d \<and>
           fst (fetch_batch (rpc b) 0 nb_retry) \<le> ad_updated_slot d))"
proof (induction batches arbitrary: s)
  case (Cons b batches)
  obtain sl fetched where f: "fetch_batch (rpc b) 0 nb_retry = (sl, fetched)" by fastforce
  have "\<forall>(i, a) \<in> set (List.enumerate 0 fetched). i < length b"
    using Cons.prems(2) f by (auto simp: in_set_enumerate_eq)
  then obtain s1 where s1: "store_fetched st b sl (List.enumerate 0 fetched) s = Inr s1" "invar s1"
      "\<forall>pk c. advances (view s pk c) (view s1 pk c)"
      "\<forall>i acc. (i, Some acc) \<in> set (List.enumerate 0 fetched) \<longrightarrow>
        (\<exists>d. view s1 (b ! i) Finalized = Some d \<and> sl \<le> ad_updated_slot d)"
    using store_fetched_ok [OF Cons.prems(1)] by blast
  obtain s2 where s2: "load_batches st rpc batches s1 = Inr s2" "invar s2"
      "\<forall>pk c. advances (view s1 pk c) (view s2 pk c)"
      "\<forall>b i acc. b \<in> set batches \<longrightarrow> i < length (snd (fetch_batch (rpc b) 0 nb_retry)) \<longrightarrow>
        snd (fetch_batch (rpc b) 0 nb_retry) ! i = Some acc \<longrightarrow>
        (\<exists>d. view s2 (b ! i) Finalized = Some d \<and>
           fst (fetch_batch (rpc b) 0 nb_retry) \<le> ad_updated_slot d)"
    using Cons.IH [OF s1(2)] Cons.prems(2) by auto
  have "\<exists>d. view s2 (b ! i) Finalized = Some d \<and> sl \<le> ad_updated_slot d"
    if "i < length fetched" "fetched ! i = Some acc" for i acc
  proof -
    have "(i, Some acc) \<in> set (List.enumerate 0 fetched)"
      using that by (simp add: in_set_enumerate_eq)
    then obtain d where "view s1 (b ! i) Finalized = Some d" "sl \<le> ad_updated_slot d"
      using s1(4) by blast
    moreover have "advances (view s1 (b ! i) Finalized) (view s2 (b ! i) Finalized)"
      using s2(3) by blast
    ultimately show ?thesis by (auto simp: advances_def split: option.splits)
  qed
  moreover have "\<forall>pk c. advances (view s pk c) (view s2 pk c)"
    using s1(3) s2(3) advances_trans by blast
  ultimately show ?case
    using s1(1) s2 by (auto simp: f)
qed simp

end

interpretation ims: account_storage_laws "inmemory_storage bytes_match" account_store_inv account_at
  for bytes_match
proof
  fix s :: inmemory_account_store and d c pk sl p fs
  assume inv: "account_store_inv s"
  show "\<exists>s' b. as_update_account (inmemory_storage bytes_match) s d c = Inr (s', b) \<and>
      account_store_inv s' \<and> (\<forall>pk c'. advances (account_at s pk c') (account_at s' pk c'))"
    using update_account_ok [OF inv, of d c] by (auto simp: inmemory_storage_def)
  show "\<exists>s'. as_initilize_or_update_account (inmemory_storage bytes_match) s d = Inr s' \<and>
      account_store_inv s' \<and> (\<forall>pk c'. advances (account_at s pk c') (account_at s' pk c')) \<and>
      advances (Some d) (account_at s' (ad_pubkey d) Finalized)"
    using initialize_ok [OF inv, of d] initialize_stores [OF inv, of d]
    by (auto simp: inmemory_storage_def)
  show "\<exists>s' r. as_get_account (inmemory_storage bytes_match) s pk c = Inr (s', r) \<and>
      account_store_inv s' \<and> (\<forall>pk c'. advances (account_at s pk c') (account_at s' pk c')) \<and>
      (\<forall>d. account_at s pk c = Some d \<longrightarrow> r = Inr (Some d)) \<and>
      (\<forall>d. r = Inr (Some d) \<longrightarrow> ad_pubkey d = pk)"
    using inv account_at_pubkey [OF inv] by (auto simp: inmemory_storage_def get_account_eq)
  show "\<exists>s' r. as_get_program_accounts (inmemory_storage bytes_match) s p fs c = Inr (s', r) \<and>
      account_store_inv s' \<and> (\<forall>pk c'. advances (account_at s pk c') (account_at s' pk c'))"
    using inv by (simp add: inmemory_storage_def)
  show "\<exists>s' ns. as_process_slot_data (inmemory_storage bytes_match) s sl c = Inr (s', ns) \<and>
      account_store_inv s' \<and> (\<forall>pk c'. advances (account_at s pk c') (account_at s' pk c'))"
    using account_store_step_ok [OF inv, of "SlotData sl c"]
    by (auto simp: inmemory_storage_def)
qed

section \<open>The initial load asks for every account\<close>

lemma fetch_batch_some:
  "k < n \<Longrightarrow> rpc (a + k) \<noteq> None \<Longrightarrow> \<exists>j. rpc j = Some (fetch_batch rpc a n)"
proof (induction n arbitrary: a k)
  case (Suc n)
  show ?case
  proof (cases "rpc a")
    case None
    with Suc.prems have "k \<noteq> 0" by (metis add_0_right)
    then obtain k' where "k = Suc k'" by (cases k) auto
    with Suc.IH [of k' "Suc a"] Suc.prems None show ?thesis by simp
  qed auto
qed simp

definition load_plan :: "nat \<Rightarrow> pubkey list \<Rightarrow> pubkey list list" where
  "load_plan n accounts = concat (List.map (chunks nb_accounts_in_gma) (chunks (n * nb_accounts_in_gma) accounts))"

lemma load_plan_concat: "0 < n \<Longrightarrow> concat (load_plan n accounts) = accounts"
proof -
  have "0 < k \<Longrightarrow> concat (concat (List.map (chunks k) xss)) = concat xss" for k and xss :: "pubkey list list"
    by (induction xss) (simp_all add: concat_chunks)
  then show "0 < n \<Longrightarrow> concat (load_plan n accounts) = accounts"
    by (simp add: load_plan_def concat_chunks nb_accounts_in_gma_def)
qed

lemma load_plan_size: "b \<in> set (load_plan n accounts) \<Longrightarrow> length b \<le> nb_accounts_in_gma"
  using length_chunk [of b nb_accounts_in_gma] by (auto simp: load_plan_def)

section \<open>Properties\<close>

text \<open>The account service never panics on its streams and never serves an account from an
  older slot than before: once the in-memory store holds data for the requested commitment, after
  any messages the request is answered, with a slot at least as high.\<close>

theorem served_slot_never_goes_back:
  assumes "account_store_inv s"
    and "account_at s pk (config_commitment (Option.bind config aic_commitment)) = Some d"
  shows "\<exists>s' ns s'' sl ui. service_run (inmemory_storage bytes_match) s es = Inr (s', ns) \<and>
    service_get_account (inmemory_storage bytes_match) encode s' pk config = Inr (s'', Inr (sl, ui)) \<and>
    ad_updated_slot d \<le> sl"
  using assms by (rule ims.served_slot_advances)

lemma served_slot_never_goes_back_witness:
  "\<exists>s' ns s'' sl ui. service_run (inmemory_storage (\<lambda>_ _. True)) sample_account_store
      [AccountReceived \<lparr>an_data = sample_account 1 7 3, an_commitment = Processed\<rparr>] = Inr (s', ns) \<and>
    service_get_account (inmemory_storage (\<lambda>_ _. True)) (\<lambda>d _ _. d) s' 1
      (Some \<lparr>aic_encoding = None, aic_data_slice = None, aic_commitment = Some processed_config,
         aic_min_context_slot = None\<rparr>) = Inr (s'', Inr (sl, ui)) \<and> 5 \<le> sl"
proof -
  have "account_at sample_account_store 1 Processed = Some (sample_account 1 7 5)"
    by (simp add: account_at_def sample_account_store_def hm_get_def bt_last_def)
  then show ?thesis
    using served_slot_never_goes_back [OF sample_account_store_inv, of 1
        "Some \<lparr>aic_encoding = None, aic_data_slice = None, aic_commitment = Some processed_config,
          aic_min_context_slot = None\<rparr>" "sample_account 1 7 5"]
    by (simp add: config_commitment_def commitment_from_config_def processed_config_def
        sample_account_def del: service_run.simps)
qed

text \<open>The initial load is complete: when the node answers each batch within the retries and in
  the order of its keys, loading succeeds, no batch has more than a hundred keys, and every account
  of the filters that exists on the node is then served at finalized commitment.\<close>

theorem populate_serves_every_account:
  assumes "account_store_inv s" and "0 < max_parallel"
    and "accounts_to_load from_str rpc_program filters = Inr (Inr accounts)"
    and "\<forall>b. b \<noteq> [] \<longrightarrow> (\<exists>k < nb_retry. rpc b k \<noteq> None)"
    and "\<forall>b k sl as. rpc b k = Some (sl, as) \<longrightarrow> as = List.map lookup b"
  shows "\<exists>s'. populate_from_rpc (inmemory_storage bytes_match) from_str rpc_program rpc filters
      max_parallel s = Inr (s', Inr ()) \<and>
    (\<forall>b \<in> set (load_plan max_parallel accounts). length b \<le> 100) \<and>
    (\<forall>pk \<in> set accounts. lookup pk \<noteq> None \<longrightarrow>
      (\<exists>d. get_account s' pk Finalized = Inr (Some d)))"
proof -
  let ?plan = "load_plan max_parallel accounts"
  have answer: "snd (fetch_batch (rpc b) 0 nb_retry) = List.map lookup b" if b: "b \<noteq> []" for b
  proof -
    obtain k where "k < nb_retry" "rpc b (0 + k) \<noteq> None" using assms(4) b by auto
    then obtain j where "rpc b j = Some (fetch_batch (rpc b) 0 nb_retry)"
      using fetch_batch_some by blast
    then show ?thesis using assms(5) by (metis prod.collapse)
  qed
  have ne: "b \<noteq> []" if "b \<in> set ?plan" for b
    using that length_chunk [of b nb_accounts_in_gma] by (auto simp: load_plan_def)
  obtain s' where s': "load_batches (inmemory_storage bytes_match) rpc ?plan s = Inr s'"
      "account_store_inv s'"
      "\<forall>b i acc. b \<in> set ?plan \<longrightarrow> i < length (snd (fetch_batch (rpc b) 0 nb_retry)) \<longrightarrow>
        snd (fetch_batch (rpc b) 0 nb_retry) ! i = Some acc \<longrightarrow>
        (\<exists>d. account_at s' (b ! i) Finalized = Some d \<and>
           fst (fetch_batch (rpc b) 0 nb_retry) \<le> ad_updated_slot d)"
    using ims.load_batches_ok [OF assms(1), of ?plan rpc bytes_match] answer ne by fastforce
  have "\<exists>d. get_account s' pk Finalized = Inr (Some d)"
    if pk: "pk \<in> set accounts" "lookup pk = Some acc" for pk acc
  proof -
    have "pk \<in> set (concat ?plan)" using pk(1) assms(2) by (simp add: load_plan_concat)
    then obtain b i where "b \<in> set ?plan" "i < length b" "pk = b ! i"
      by (auto simp: in_set_conv_nth)
    then show ?thesis
      using s'(3) [rule_format, of b i acc] answer [OF ne] pk(2) by (auto simp: get_account_eq)
  qed
  moreover have "populate_from_rpc (inmemory_storage bytes_match) from_str rpc_program rpc filters
      max_parallel s = Inr (s', Inr ())"
    using assms(2,3) s'(1) by (simp add: populate_from_rpc_def load_plan_def)
  ultimately show ?thesis
    using load_plan_size by (fastforce simp: nb_accounts_in_gma_def)
qed

definition sample_rpc :: "pubkey list \<Rightarrow> nat \<Rightarrow> batch_response option" where
  "sample_rpc b k = (if k = 1
     then Some (9, List.map (\<lambda>_. Some (ad_account (sample_account 3 7 9))) b) else None)"

lemma populate_serves_every_account_witness:
  "\<exists>s' d. populate_from_rpc (inmemory_storage (\<lambda>_ _. True)) (\<lambda>_. Some 3) (\<lambda>_ _. Inl ()) sample_rpc
      [\<lparr>af_accounts = [''key''], af_program_id = None, af_filters = None\<rparr>] 1
      inmemory_account_store_new = Inr (s', Inr ()) \<and>
    get_account s' 3 Finalized = Inr (Some d)"
proof -
  let ?acc = "Some (ad_account (sample_account 3 7 9))"
  let ?filters = "[\<lparr>af_accounts = [''key''], af_program_id = None, af_filters = None\<rparr>]"
  have load: "accounts_to_load (\<lambda>_. Some 3) (\<lambda>_ _. Inl ()) ?filters = Inr (Inr [3])"
    by simp
  have answers: "\<forall>b. b \<noteq> [] \<longrightarrow> (\<exists>k < nb_retry. sample_rpc b k \<noteq> None)"
    by (intro allI impI exI [of _ 1]) (simp add: nb_retry_def sample_rpc_def)
  have order: "\<forall>b k sl as. sample_rpc b k = Some (sl, as) \<longrightarrow> as = List.map (\<lambda>_. ?acc) b"
    by (simp add: sample_rpc_def)
  obtain s' where s': "populate_from_rpc (inmemory_storage (\<lambda>_ _. True)) (\<lambda>_. Some 3) (\<lambda>_ _. Inl ())
      sample_rpc ?filters 1 inmemory_account_store_new = Inr (s', Inr ())"
      "\<forall>pk \<in> set [3]. ?acc \<noteq> None \<longrightarrow> (\<exists>d. get_account s' pk Finalized = Inr (Some d))"
    using populate_serves_every_account [OF account_store_new_inv zero_less_one load answers order]
    by blast
  from s'(2) obtain d where "get_account s' 3 Finalized = Inr (Some d)" by auto
  with s'(1) show ?thesis by blast
qed

end
