(* ===== verification/On_Demand.thy ===== *)
theory On_Demand
  imports Account_Service
begin

text \<open>
  \<open>accounts-on-demand/src\<close>: a storage that loads what it is asked for.  \<open>AccountsOnDemand\<close> wraps
  another storage; an account it does not hold is subscribed to and fetched once from an RPC node,
  and later requests for it wait for that load.  The wrapper keeps the laws of the interface, so
  everything proved of the account service over these laws holds with it as well.
\<close>

section \<open>State and subscriptions\<close>

text \<open>\<open>od_watch\<close> is the last value sent to the subscription manager.\<close>

record 's accounts_on_demand =
  od_accounts_storage :: 's
  od_accounts_subscribed :: "pubkey list"
  od_program_filters :: "account_filter list"
  od_watch :: "account_filter list"
  od_accounts_in_loading :: "pubkey set"

definition accounts_on_demand_new :: "'s \<Rightarrow> 's accounts_on_demand" where
  "accounts_on_demand_new s = \<lparr>od_accounts_storage = s, od_accounts_subscribed = [],
     od_program_filters = [], od_watch = [], od_accounts_in_loading = {}\<rparr>"

definition subscription_filters ::
    "(pubkey \<Rightarrow> string) \<Rightarrow> pubkey list \<Rightarrow> account_filter list \<Rightarrow> account_filter list" where
  "subscription_filters to_str subscribed filters =
     filters @ List.map (\<lambda>accounts. \<lparr>af_accounts = accounts, af_program_id = None, af_filters = None\<rparr>)
       (chunks 100 (List.map to_str subscribed))"

definition refresh_subscription ::
    "(pubkey \<Rightarrow> string) \<Rightarrow> 's accounts_on_demand \<Rightarrow> 's accounts_on_demand" where
  "refresh_subscription to_str od =
     od\<lparr>od_watch := subscription_filters to_str (od_accounts_subscribed od) (od_program_filters od)\<rparr>"

section \<open>Reading an account\<close>

text \<open>
  The request up to the point where it answers, starts waiting for another request that loads the
  same account, or has become the one that loads it.
\<close>

datatype get_progress =
    Answered "account_loading_error + account_data option"
  | WaitsForLoading
  | StartsLoading

definition begin_get_account ::
    "'s account_storage \<Rightarrow> 's accounts_on_demand \<Rightarrow> pubkey \<Rightarrow> commitment \<Rightarrow>
     ('s accounts_on_demand \<times> get_progress) outcome" where
  "begin_get_account st od pk c =
     bind_outcome (as_get_account st (od_accounts_storage od) pk c) (\<lambda>(s, r).
       (let od1 = od\<lparr>od_accounts_storage := s\<rparr>
        in case r of
             Inl e \<Rightarrow> Inr (od1, Answered (Inl e))
           | Inr (Some d) \<Rightarrow> Inr (od1, Answered (Inr (Some d)))
           | Inr None \<Rightarrow>
               if pk \<in> od_accounts_in_loading od1 then Inr (od1, WaitsForLoading)
               else if pk \<in> set (od_accounts_subscribed od1) then Inr (od1, Answered (Inr None))
               else Inr (od1\<lparr>od_accounts_in_loading := insert pk (od_accounts_in_loading od1),
                             od_accounts_subscribed := od_accounts_subscribed od1 @ [pk]\<rparr>,
                         StartsLoading)))"

definition retry_fetching_account :: nat where
  "retry_fetching_account = 10"

text \<open>The attempts of the RPC client; an answer without an account ends them.\<close>

fun fetch_account ::
    "(nat \<Rightarrow> (slot \<times> account option) option) \<Rightarrow> nat \<Rightarrow> nat \<Rightarrow> (slot \<times> account) option" where
  "fetch_account rpc attempt 0 = None"
| "fetch_account rpc attempt (Suc n) =
     (case rpc attempt of
        Some (sl, Some account) \<Rightarrow> Some (sl, account)
      | Some (_, None) \<Rightarrow> None
      | None \<Rightarrow> fetch_account rpc (Suc attempt) n)"

definition finish_loading :: "'s accounts_on_demand \<Rightarrow> pubkey \<Rightarrow> 's accounts_on_demand" where
  "finish_loading od pk = od\<lparr>od_accounts_in_loading := od_accounts_in_loading od - {pk}\<rparr>"

definition load_account ::
    "'s account_storage \<Rightarrow> (pubkey \<Rightarrow> commitment_config \<Rightarrow> nat \<Rightarrow> (slot \<times> account option) option) \<Rightarrow>
     's accounts_on_demand \<Rightarrow> pubkey \<Rightarrow> commitment \<Rightarrow>
     ('s accounts_on_demand \<times> account_data option) outcome" where
  "load_account st rpc od pk c =
     (case fetch_account (rpc pk (into_commiment_config c)) 0 retry_fetching_account of
        None \<Rightarrow> Inr (finish_loading od pk, None)
      | Some (sl, account) \<Rightarrow>
          (let d = \<lparr>ad_pubkey = pk, ad_account = account, ad_updated_slot = sl\<rparr>
           in bind_outcome (as_update_account st (od_accounts_storage od) d c) (\<lambda>(s, _).
                Inr (finish_loading (od\<lparr>od_accounts_storage := s\<rparr>) pk, Some d))))"

text \<open>A waiting request reads the storage again when it is notified, and fails after ten seconds.\<close>

definition wait_for_account ::
    "'s account_storage \<Rightarrow> bool \<Rightarrow> 's accounts_on_demand \<Rightarrow> pubkey \<Rightarrow> commitment \<Rightarrow>
     ('s accounts_on_demand \<times> (account_loading_error + account_data option)) outcome" where
  "wait_for_account st notified od pk c =
     (if notified then
        bind_outcome (as_get_account st (od_accounts_storage od) pk c)
          (\<lambda>(s, r). Inr (od\<lparr>od_accounts_storage := s\<rparr>, r))
      else Inr (od, Inl OperationTimeOut))"

definition on_demand_get_account ::
    "'s account_storage \<Rightarrow> (pubkey \<Rightarrow> string) \<Rightarrow>
     (pubkey \<Rightarrow> commitment_config \<Rightarrow> nat \<Rightarrow> (slot \<times> account option) option) \<Rightarrow> (pubkey \<Rightarrow> bool) \<Rightarrow>
     's accounts_on_demand \<Rightarrow> pubkey \<Rightarrow> commitment \<Rightarrow>
     ('s accounts_on_demand \<times> (account_loading_error + account_data option)) outcome" where
  "on_demand_get_account st to_str rpc notified od pk c =
     bind_outcome (begin_get_account st od pk c) (\<lambda>(od1, progress).
       (case progress of
          Answered r \<Rightarrow> Inr (od1, r)
        | WaitsForLoading \<Rightarrow> wait_for_account st (notified pk) od1 pk c
        | StartsLoading \<Rightarrow>
            bind_outcome (load_account st rpc (refresh_subscription to_str od1) pk c)
              (\<lambda>(od2, d). Inr (od2, Inr d))))"

section \<open>Reading the accounts of a program\<close>

fun store_program_accounts ::
    "'s account_storage \<Rightarrow> commitment \<Rightarrow> account_data list \<Rightarrow> 's \<Rightarrow> 's outcome" where
  "store_program_accounts st c [] s = Inr s"
| "store_program_accounts st c (d # ds) s =
     bind_outcome (as_update_account st s d c) (\<lambda>(s', _). store_program_accounts st c ds s')"

definition on_demand_get_program_accounts ::
    "'s account_storage \<Rightarrow> (pubkey \<Rightarrow> string) \<Rightarrow> (rpc_memcmp \<Rightarrow> u8 list option) \<Rightarrow>
     (pubkey \<Rightarrow> rpc_filter_type list option \<Rightarrow> commitment_config \<Rightarrow> (pubkey \<times> account) list option) \<Rightarrow>
     's accounts_on_demand \<Rightarrow> pubkey \<Rightarrow> rpc_filter_type list option \<Rightarrow> commitment \<Rightarrow>
     ('s accounts_on_demand \<times> account_data list option) outcome" where
  "on_demand_get_program_accounts st to_str bytes rpc_program od program filters c =
     bind_outcome (as_get_program_accounts st (od_accounts_storage od) program filters c) (\<lambda>(s, r).
       (let od1 = od\<lparr>od_accounts_storage := s\<rparr>
        in case r of
             Some accounts \<Rightarrow> Inr (od1, Some accounts)
           | None \<Rightarrow>
               (let account_filter = \<lparr>af_accounts = [], af_program_id = Some (to_str program),
                      af_filters = map_option (List.map (from_rpc_filter bytes)) filters\<rparr>
                in if account_filter \<in> set (od_program_filters od1) then Inr (od1, None)
                   else
                     (let od2 = refresh_subscription to_str
                            (od1\<lparr>od_program_filters := od_program_filters od1 @ [account_filter]\<rparr>)
                      in case rpc_program program filters (into_commiment_config c) of
                           None \<Rightarrow> Inr (od2, None)
                         | Some response \<Rightarrow>
                             (let ds = List.map (\<lambda>(pk, account).
                                    \<lparr>ad_pubkey = pk, ad_account = account, ad_updated_slot = 0\<rparr>) response
                              in bind_outcome (store_program_accounts st c ds (od_accounts_storage od2))
                                   (\<lambda>s'. Inr (od2\<lparr>od_accounts_storage := s'\<rparr>, Some ds)))))))"

section \<open>The wrapper as a storage\<close>

definition on_inner ::
    "('s \<Rightarrow> ('s \<times> 'a) outcome) \<Rightarrow> 's accounts_on_demand \<Rightarrow> ('s accounts_on_demand \<times> 'a) outcome" where
  "on_inner f od =
     bind_outcome (f (od_accounts_storage od)) (\<lambda>(s, a). Inr (od\<lparr>od_accounts_storage := s\<rparr>, a))"

definition on_demand_storage ::
    "'s account_storage \<Rightarrow> (pubkey \<Rightarrow> string) \<Rightarrow> (rpc_memcmp \<Rightarrow> u8 list option) \<Rightarrow>
     (pubkey \<Rightarrow> commitment_config \<Rightarrow> nat \<Rightarrow> (slot \<times> account option) option) \<Rightarrow>
     (pubkey \<Rightarrow> rpc_filter_type list option \<Rightarrow> commitment_config \<Rightarrow> (pubkey \<times> account) list option) \<Rightarrow>
     (pubkey \<Rightarrow> bool) \<Rightarrow> 's accounts_on_demand account_storage" where
  "on_demand_storage st to_str bytes rpc rpc_program notified =
     \<lparr>as_update_account = (\<lambda>od d c. on_inner (\<lambda>s. as_update_account st s d c) od),
      as_initilize_or_update_account = (\<lambda>od d.
        bind_outcome (as_initilize_or_update_account st (od_accounts_storage od) d)
          (\<lambda>s. Inr (od\<lparr>od_accounts_storage := s\<rparr>))),
      as_get_account = on_demand_get_account st to_str rpc notified,
      as_get_program_accounts = on_demand_get_program_accounts st to_str bytes rpc_program,
      as_process_slot_data = (\<lambda>od sl c. on_inner (\<lambda>s. as_process_slot_data st s sl c) od)\<rparr>"

section \<open>The subscription manager\<close>

text \<open>
  Its stream task passes every message on before it updates the storage.  The streaming task
  restarts with the current filters; when the new subscriptions do not start in time the old ones
  stay.
\<close>

definition subscription_message ::
    "'s account_storage \<Rightarrow> 's \<Rightarrow> account_notification \<Rightarrow> ('s \<times> account_notification list) outcome" where
  "subscription_message st s message =
     bind_outcome (as_update_account st s (an_data message) (an_commitment message))
       (\<lambda>(s', _). Inr (s', [message]))"

definition restart_streaming ::
    "account_filter list option \<Rightarrow> account_filter list \<Rightarrow> bool \<Rightarrow> account_filter list option" where
  "restart_streaming current filters has_started =
     (case current of
        None \<Rightarrow> Some filters
      | Some running \<Rightarrow> if has_started then Some filters else Some running)"

section \<open>The wrapper keeps the laws\<close>

definition on_demand_inv :: "('s \<Rightarrow> bool) \<Rightarrow> 's accounts_on_demand \<Rightarrow> bool" where
  "on_demand_inv ok od \<longleftrightarrow> ok (od_accounts_storage od) \<and> distinct (od_accounts_subscribed od) \<and>
     od_accounts_in_loading od \<subseteq> set (od_accounts_subscribed od)"

lemma on_demand_inv_storage:
  "on_demand_inv ok od \<Longrightarrow> ok s \<Longrightarrow> on_demand_inv ok (od\<lparr>od_accounts_storage := s\<rparr>)"
  by (simp add: on_demand_inv_def)

lemma refresh_subscription_frame [simp]:
  "od_accounts_storage (refresh_subscription to_str od) = od_accounts_storage od"
  "od_accounts_subscribed (refresh_subscription to_str od) = od_accounts_subscribed od"
  "od_accounts_in_loading (refresh_subscription to_str od) = od_accounts_in_loading od"
  "od_program_filters (refresh_subscription to_str od) = od_program_filters od"
  by (simp_all add: refresh_subscription_def)

context account_storage_laws
begin

lemma begin_get_account_ok:
  assumes "on_demand_inv invar od"
  shows "\<exists>od' p. begin_get_account st od pk c = Inr (od', p) \<and> on_demand_inv invar od' \<and>
    (\<forall>k c'. advances (view (od_accounts_storage od) k c') (view (od_accounts_storage od') k c')) \<and>
    (\<forall>d. view (od_accounts_storage od) pk c = Some d \<longrightarrow> p = Answered (Inr (Some d))) \<and>
    (\<forall>d. p = Answered (Inr (Some d)) \<longrightarrow> ad_pubkey d = pk)"
proof -
  have "invar (od_accounts_storage od)" using assms by (simp add: on_demand_inv_def)
  then obtain s r where r: "as_get_account st (od_accounts_storage od) pk c = Inr (s, r)" "invar s"
      "\<forall>k c'. advances (view (od_accounts_storage od) k c') (view s k c')"
      "\<forall>d. view (od_accounts_storage od) pk c = Some d \<longrightarrow> r = Inr (Some d)"
      "\<forall>d. r = Inr (Some d) \<longrightarrow> ad_pubkey d = pk"
    using get_law [of "od_accounts_storage od" pk c] by auto
  show ?thesis
  proof (cases "r = Inr None")
    case True
    with r assms show ?thesis
      by (auto simp: begin_get_account_def Let_def on_demand_inv_def)
  next
    case False
    then have "begin_get_account st od pk c = Inr (od\<lparr>od_accounts_storage := s\<rparr>, Answered r)"
      by (auto simp: begin_get_account_def r(1) Let_def split: sum.split option.split)
    moreover have "on_demand_inv invar (od\<lparr>od_accounts_storage := s\<rparr>)"
      using assms r(2) by (rule on_demand_inv_storage)
    moreover have "\<forall>k c'. advances (view (od_accounts_storage od) k c')
        (view (od_accounts_storage (od\<lparr>od_accounts_storage := s\<rparr>)) k c')"
      using r(3) by simp
    moreover have "\<forall>d. view (od_accounts_storage od) pk c = Some d \<longrightarrow> Answered r = Answered (Inr (Some d))"
      "\<forall>d. Answered r = Answered (Inr (Some d)) \<longrightarrow> ad_pubkey d = pk"
      using r(4,5) by blast+
    ultimately show ?thesis by blast
  qed
qed

lemma load_account_ok:
  assumes "on_demand_inv invar od"
  shows "\<exists>od' d. load_account st rpc od pk c = Inr (od', d) \<and> on_demand_inv invar od' \<and>
    (\<forall>k c'. advances (view (od_accounts_storage od) k c') (view (od_accounts_storage od') k c')) \<and>
    pk \<notin> od_accounts_in_loading od' \<and> (\<forall>x. d = Some x \<longrightarrow> ad_pubkey x = pk)"
proof (cases "fetch_account (rpc pk (into_commiment_config c)) 0 retry_fetching_account")
  case None
  with assms show ?thesis
    by (auto simp: load_account_def finish_loading_def on_demand_inv_def)
next
  case (Some sa)
  obtain sl acc where sa: "sa = (sl, acc)" by (cases sa)
  have "invar (od_accounts_storage od)" using assms by (simp add: on_demand_inv_def)
  then obtain s b where "as_update_account st (od_accounts_storage od)
      \<lparr>ad_pubkey = pk, ad_account = acc, ad_updated_slot = sl\<rparr> c = Inr (s, b)" "invar s"
      "\<forall>k c'. advances (view (od_accounts_storage od) k c') (view s k c')"
    using update_law [of "od_accounts_storage od"] by blast
  with Some sa assms show ?thesis
    by (auto simp: load_account_def finish_loading_def on_demand_inv_def Let_def)
qed

lemma on_demand_get_account_ok:
  assumes "on_demand_inv invar od"
  shows "\<exists>od' r. on_demand_get_account st to_str rpc notified od pk c = Inr (od', r) \<and>
    on_demand_inv invar od' \<and>
    (\<forall>k c'. advances (view (od_accounts_storage od) k c') (view (od_accounts_storage od') k c')) \<and>
    (\<forall>d. view (od_accounts_storage od) pk c = Some d \<longrightarrow> r = Inr (Some d)) \<and>
    (\<forall>d. r = Inr (Some d) \<longrightarrow> ad_pubkey d = pk)"
proof -
  obtain od1 p where p: "begin_get_account st od pk c = Inr (od1, p)" "on_demand_inv invar od1"
      "\<forall>k c'. advances (view (od_accounts_storage od) k c') (view (od_accounts_storage od1) k c')"
      "\<forall>d. view (od_accounts_storage od) pk c = Some d \<longrightarrow> p = Answered (Inr (Some d))"
      "\<forall>d. p = Answered (Inr (Some d)) \<longrightarrow> ad_pubkey d = pk"
    using begin_get_account_ok [OF assms, of pk c] by auto
  show ?thesis
  proof (cases p)
    case (Answered r)
    then have "on_demand_get_account st to_str rpc notified od pk c = Inr (od1, r)"
      using p(1) by (simp add: on_demand_get_account_def)
    moreover have "\<forall>d. view (od_accounts_storage od) pk c = Some d \<longrightarrow> r = Inr (Some d)"
      "\<forall>d. r = Inr (Some d) \<longrightarrow> ad_pubkey d = pk"
      using p(4,5) Answered by blast+
    ultimately show ?thesis using p(2,3) by blast
  next
    case WaitsForLoading
    have inv: "invar (od_accounts_storage od1)" using p(2) by (simp add: on_demand_inv_def)
    obtain s r where r: "as_get_account st (od_accounts_storage od1) pk c = Inr (s, r)" "invar s"
        "\<forall>k c'. advances (view (od_accounts_storage od1) k c') (view s k c')"
        "\<forall>d. r = Inr (Some d) \<longrightarrow> ad_pubkey d = pk"
      using get_law [OF inv, of pk c] by auto
    have adv: "\<forall>k c'. advances (view (od_accounts_storage od) k c') (view s k c')"
      using p(3) r(3) advances_trans by blast
    have none: "view (od_accounts_storage od) pk c = None"
      using p(4) WaitsForLoading by (cases "view (od_accounts_storage od) pk c") auto
    show ?thesis
      using WaitsForLoading p r none adv
      by (cases "notified pk")
        (simp_all add: on_demand_get_account_def wait_for_account_def on_demand_inv_storage)
  next
    case StartsLoading
    then have none: "view (od_accounts_storage od) pk c = None"
      using p(4) by (cases "view (od_accounts_storage od) pk c") auto
    have "on_demand_inv invar (refresh_subscription to_str od1)"
      using p(2) by (simp add: on_demand_inv_def)
    from load_account_ok [OF this, of rpc pk c] obtain od2 d where
      "load_account st rpc (refresh_subscription to_str od1) pk c = Inr (od2, d)"
      "on_demand_inv invar od2"
      "\<forall>k c'. advances (view (od_accounts_storage od1) k c') (view (od_accounts_storage od2) k c')"
      "\<forall>x. d = Some x \<longrightarrow> ad_pubkey x = pk"
      by auto
    moreover from this(3) have
      "\<forall>k c'. advances (view (od_accounts_storage od) k c') (view (od_accounts_storage od2) k c')"
      using p(3) advances_trans by blast
    ultimately show ?thesis
      using StartsLoading p(1) none by (simp add: on_demand_get_account_def)
  qed
qed

lemma store_program_accounts_ok:
  "invar s \<Longrightarrow> \<exists>s'. store_program_accounts st c ds s = Inr s' \<and> invar s' \<and>
     (\<forall>k c'. advances (view s k c') (view s' k c'))"
proof (induction ds arbitrary: s)
  case (Cons d ds)
  obtain s1 b where s1: "as_update_account st s d c = Inr (s1, b)" "invar s1"
      "\<forall>k c'. advances (view s k c') (view s1 k c')"
    using update_law [OF Cons.prems] by blast
  obtain s2 where "store_program_accounts st c ds s1 = Inr s2" "invar s2"
      "\<forall>k c'. advances (view s1 k c') (view s2 k c')"
    using Cons.IH [OF s1(2)] by blast
  with s1 show ?case by (simp, blast intro: advances_trans)
qed simp

lemma on_demand_get_program_accounts_ok:
  assumes "on_demand_inv invar od"
  shows "\<exists>od' r. on_demand_get_program_accounts st to_str bytes rpc_program od p fs c = Inr (od', r) \<and>
    on_demand_inv invar od' \<and>
    (\<forall>k c'. advances (view (od_accounts_storage od) k c') (view (od_accounts_storage od') k c'))"
proof -
  have "invar (od_accounts_storage od)" using assms by (simp add: on_demand_inv_def)
  then obtain s r where r: "as_get_program_accounts st (od_accounts_storage od) p fs c = Inr (s, r)"
      "invar s" "\<forall>k c'. advances (view (od_accounts_storage od) k c') (view s k c')"
    using program_law by blast
  let ?f = "\<lparr>af_accounts = [], af_program_id = Some (to_str p),
    af_filters = map_option (List.map (from_rpc_filter bytes)) fs\<rparr>"
  have inv1: "on_demand_inv invar (od\<lparr>od_accounts_storage := s\<rparr>)"
    using assms r(2) by (rule on_demand_inv_storage)
  show ?thesis
  proof (cases "r = None \<and> ?f \<notin> set (od_program_filters od) \<and>
      rpc_program p fs (into_commiment_config c) \<noteq> None")
    case True
    then obtain response where resp: "rpc_program p fs (into_commiment_config c) = Some response"
      by auto
    obtain s' where "store_program_accounts st c (List.map (\<lambda>(pk, account).
        \<lparr>ad_pubkey = pk, ad_account = account, ad_updated_slot = 0\<rparr>) response) s = Inr s'"
        "invar s'" "\<forall>k c'. advances (view s k c') (view s' k c')"
      using store_program_accounts_ok [OF r(2)] by blast
    moreover from this(3) have
      "\<forall>k c'. advances (view (od_accounts_storage od) k c') (view s' k c')"
      using r(3) advances_trans by blast
    ultimately show ?thesis
      using True resp r(1) inv1
      by (auto simp: on_demand_get_program_accounts_def Let_def on_demand_inv_def)
  next
    case False
    with r inv1 show ?thesis
      by (cases r) (auto simp: on_demand_get_program_accounts_def Let_def on_demand_inv_def
          split: option.split)
  qed
qed

lemma on_demand_laws:
  "account_storage_laws (on_demand_storage st to_str bytes rpc rpc_program notified)
     (on_demand_inv invar) (\<lambda>od. view (od_accounts_storage od))"
proof
  fix od d c pk sl p fs
  assume inv: "on_demand_inv invar od"
  then have i: "invar (od_accounts_storage od)" by (simp add: on_demand_inv_def)
  let ?st = "on_demand_storage st to_str bytes rpc rpc_program notified"
  let ?adv = "\<lambda>od'. \<forall>k c'. advances (view (od_accounts_storage od) k c') (view (od_accounts_storage od') k c')"
  show "\<exists>od' b. as_update_account ?st od d c = Inr (od', b) \<and> on_demand_inv invar od' \<and> ?adv od'"
    using update_law [OF i, of d c] inv
    by (auto simp: on_demand_storage_def on_inner_def on_demand_inv_storage)
  show "\<exists>od'. as_initilize_or_update_account ?st od d = Inr od' \<and> on_demand_inv invar od' \<and> ?adv od' \<and>
      advances (Some d) (view (od_accounts_storage od') (ad_pubkey d) Finalized)"
    using init_law [OF i, of d] inv by (auto simp: on_demand_storage_def on_demand_inv_storage)
  show "\<exists>od' r. as_get_account ?st od pk c = Inr (od', r) \<and> on_demand_inv invar od' \<and> ?adv od' \<and>
      (\<forall>d. view (od_accounts_storage od) pk c = Some d \<longrightarrow> r = Inr (Some d)) \<and>
      (\<forall>d. r = Inr (Some d) \<longrightarrow> ad_pubkey d = pk)"
    using on_demand_get_account_ok [OF inv] by (simp add: on_demand_storage_def)
  show "\<exists>od' r. as_get_program_accounts ?st od p fs c = Inr (od', r) \<and> on_demand_inv invar od' \<and> ?adv od'"
    using on_demand_get_program_accounts_ok [OF inv] by (simp add: on_demand_storage_def)
  show "\<exists>od' ns. as_process_slot_data ?st od sl c = Inr (od', ns) \<and> on_demand_inv invar od' \<and> ?adv od'"
    using slot_law [OF i, of sl c] inv
    by (auto simp: on_demand_storage_def on_inner_def on_demand_inv_storage)
qed

end

interpretation odi: account_storage_laws
  "on_demand_storage (inmemory_storage bytes_match) to_str bytes rpc rpc_program notified"
  "on_demand_inv account_store_inv" "\<lambda>od. account_at (od_accounts_storage od)"
  for bytes_match to_str bytes rpc rpc_program notified
  by (rule ims.on_demand_laws)

section \<open>Interleaved requests\<close>

text \<open>
  The atomic steps of concurrent requests over one wrapper, in any order: \<open>on_demand_run\<close> returns
  the accounts for which a request became the one that loads them.
\<close>

datatype on_demand_event =
    BeginGet pubkey commitment
  | RefreshSubscription
  | LoadAccount pubkey commitment
  | WakeWaiting bool pubkey commitment
  | GetProgram pubkey "rpc_filter_type list option" commitment
  | StorageUpdate account_data commitment
  | StorageSlot slot commitment

record 's on_demand_env =
  oe_storage :: "'s account_storage"
  oe_to_str :: "pubkey \<Rightarrow> string"
  oe_bytes :: "rpc_memcmp \<Rightarrow> u8 list option"
  oe_rpc :: "pubkey \<Rightarrow> commitment_config \<Rightarrow> nat \<Rightarrow> (slot \<times> account option) option"
  oe_rpc_program ::
    "pubkey \<Rightarrow> rpc_filter_type list option \<Rightarrow> commitment_config \<Rightarrow> (pubkey \<times> account) list option"

fun on_demand_step ::
    "'s on_demand_env \<Rightarrow> 's accounts_on_demand \<Rightarrow> on_demand_event \<Rightarrow>
     ('s accounts_on_demand \<times> pubkey list) outcome" where
  "on_demand_step e od (BeginGet pk c) =
     bind_outcome (begin_get_account (oe_storage e) od pk c)
       (\<lambda>(od', p). Inr (od', if p = StartsLoading then [pk] else []))"
| "on_demand_step e od RefreshSubscription = Inr (refresh_subscription (oe_to_str e) od, [])"
| "on_demand_step e od (LoadAccount pk c) =
     bind_outcome (load_account (oe_storage e) (oe_rpc e) od pk c) (\<lambda>(od', _). Inr (od', []))"
| "on_demand_step e od (WakeWaiting notified pk c) =
     bind_outcome (wait_for_account (oe_storage e) notified od pk c) (\<lambda>(od', _). Inr (od', []))"
| "on_demand_step e od (GetProgram p fs c) =
     bind_outcome (on_demand_get_program_accounts (oe_storage e) (oe_to_str e) (oe_bytes e)
       (oe_rpc_program e) od p fs c) (\<lambda>(od', _). Inr (od', []))"
| "on_demand_step e od (StorageUpdate d c) =
     bind_outcome (on_inner (\<lambda>s. as_update_account (oe_storage e) s d c) od) (\<lambda>(od', _). Inr (od', []))"
| "on_demand_step e od (StorageSlot sl c) =
     bind_outcome (on_inner (\<lambda>s. as_process_slot_data (oe_storage e) s sl c) od)
       (\<lambda>(od', _). Inr (od', []))"

fun on_demand_run ::
    "'s on_demand_env \<Rightarrow> 's accounts_on_demand \<Rightarrow> on_demand_event list \<Rightarrow>
     ('s accounts_on_demand \<times> pubkey list) outcome" where
  "on_demand_run e od [] = Inr (od, [])"
| "on_demand_run e od (ev # evs) =
     bind_outcome (on_demand_step e od ev) (\<lambda>(od1, loads).
       bind_outcome (on_demand_run e od1 evs) (\<lambda>(od2, loads'). Inr (od2, loads @ loads')))"

lemma begin_get_account_loads:
  assumes "begin_get_account st od pk c = Inr (od', p)"
  shows "od_accounts_subscribed od' = od_accounts_subscribed od @ (if p = StartsLoading then [pk] else [])"
    and "p = StartsLoading \<Longrightarrow> pk \<notin> set (od_accounts_subscribed od)"
proof -
  obtain s r where r: "as_get_account st (od_accounts_storage od) pk c = Inr (s, r)"
    using assms by (auto simp: begin_get_account_def)
  have "od_accounts_subscribed od' =
      od_accounts_subscribed od @ (if p = StartsLoading then [pk] else []) \<and>
      (p = StartsLoading \<longrightarrow> pk \<notin> set (od_accounts_subscribed od))"
  proof (cases "r = Inr None")
    case True
    with assms r show ?thesis by (auto simp: begin_get_account_def Let_def split: if_splits)
  next
    case False
    then have "begin_get_account st od pk c = Inr (od\<lparr>od_accounts_storage := s\<rparr>, Answered r)"
      by (auto simp: begin_get_account_def r Let_def split: sum.split option.split)
    with assms show ?thesis by auto
  qed
  then show "od_accounts_subscribed od' =
      od_accounts_subscribed od @ (if p = StartsLoading then [pk] else [])"
    and "p = StartsLoading \<Longrightarrow> pk \<notin> set (od_accounts_subscribed od)"
    by simp_all
qed

lemma load_account_subscribed:
  assumes "load_account st rpc od pk c = Inr (od', d)"
  shows "od_accounts_subscribed od' = od_accounts_subscribed od"
proof (cases "fetch_account (rpc pk (into_commiment_config c)) 0 retry_fetching_account")
  case None
  with assms show ?thesis by (auto simp: load_account_def finish_loading_def)
next
  case (Some sa)
  with assms show ?thesis
    by (cases sa) (auto simp: load_account_def finish_loading_def Let_def)
qed

lemma wait_for_account_subscribed:
  "wait_for_account st notified od pk c = Inr (od', r) \<Longrightarrow>
   od_accounts_subscribed od' = od_accounts_subscribed od"
  by (auto simp: wait_for_account_def split: if_splits)

lemma on_inner_subscribed:
  "on_inner f od = Inr (od', r) \<Longrightarrow> od_accounts_subscribed od' = od_accounts_subscribed od"
  by (auto simp: on_inner_def)

lemma get_program_accounts_subscribed:
  assumes "on_demand_get_program_accounts st to_str bytes rpc_program od p fs c = Inr (od', r)"
  shows "od_accounts_subscribed od' = od_accounts_subscribed od"
proof -
  obtain s x where x: "as_get_program_accounts st (od_accounts_storage od) p fs c = Inr (s, x)"
    using assms by (auto simp: on_demand_get_program_accounts_def)
  show ?thesis
  proof (cases x)
    case None
    with x assms show ?thesis
      by (cases "rpc_program p fs (into_commiment_config c)")
        (auto simp: on_demand_get_program_accounts_def Let_def split: if_splits)
  next
    case Some
    with x assms show ?thesis by (auto simp: on_demand_get_program_accounts_def Let_def)
  qed
qed

lemma on_demand_step_subscribed:
  assumes "on_demand_step e od ev = Inr (od', loads)"
  shows "od_accounts_subscribed od' = od_accounts_subscribed od @ loads \<and> distinct loads \<and>
    set loads \<inter> set (od_accounts_subscribed od) = {}"
proof (cases ev)
  case (BeginGet pk c)
  with assms begin_get_account_loads [of "oe_storage e" od pk c] show ?thesis by auto
qed (use assms in \<open>auto dest: load_account_subscribed wait_for_account_subscribed
    on_inner_subscribed get_program_accounts_subscribed\<close>)

lemma on_demand_run_subscribed:
  "on_demand_run e od evs = Inr (od', loads) \<Longrightarrow>
   od_accounts_subscribed od' = od_accounts_subscribed od @ loads \<and> distinct loads \<and>
   set loads \<inter> set (od_accounts_subscribed od) = {}"
proof (induction evs arbitrary: od loads)
  case (Cons ev evs)
  then obtain od1 l1 l2 where "on_demand_step e od ev = Inr (od1, l1)"
      "on_demand_run e od1 evs = Inr (od', l2)" "loads = l1 @ l2"
    by auto
  with Cons.IH [of od1 l2] on_demand_step_subscribed [of e od ev od1 l1] show ?case by auto
qed simp

lemma subscription_filters_accounts:
  "concat (List.map af_accounts (subscription_filters to_str accounts filters)) =
     concat (List.map af_accounts filters) @ List.map to_str accounts"
proof -
  have "concat (List.map af_accounts (List.map (\<lambda>accounts. \<lparr>af_accounts = accounts,
      af_program_id = None, af_filters = None\<rparr>) xss)) = concat xss" for xss
    by (induction xss) simp_all
  then show ?thesis by (simp add: subscription_filters_def concat_chunks)
qed

section \<open>Properties\<close>



text \<open>Single flight: however the requests interleave with each other, with loads, notifications
  and stream updates, an account is loaded by at most one of them, and the accounts loaded are the
  ones the subscription is extended by.\<close>

theorem each_account_loaded_once:
  assumes "on_demand_run e (accounts_on_demand_new s) events = Inr (od, loads)"
  shows "distinct loads \<and> od_accounts_subscribed od = loads"
  using on_demand_run_subscribed [OF assms] by (simp add: accounts_on_demand_new_def)

definition sample_env :: "inmemory_account_store on_demand_env" where
  "sample_env = \<lparr>oe_storage = inmemory_storage (\<lambda>_ _. True), oe_to_str = (\<lambda>_. ''key''),
     oe_bytes = (\<lambda>_. None), oe_rpc = (\<lambda>_ _ _. None), oe_rpc_program = (\<lambda>_ _ _. None)\<rparr>"

lemma each_account_loaded_once_witness:
  "\<exists>od. on_demand_run sample_env (accounts_on_demand_new inmemory_account_store_new)
      [BeginGet 1 Processed, BeginGet 1 Confirmed, BeginGet 2 Processed, LoadAccount 1 Processed,
       BeginGet 1 Processed] = Inr (od, [1, 2]) \<and> od_accounts_subscribed od = [1, 2]"
proof -
  obtain od where "on_demand_run sample_env (accounts_on_demand_new inmemory_account_store_new)
      [BeginGet 1 Processed, BeginGet 1 Confirmed, BeginGet 2 Processed, LoadAccount 1 Processed,
       BeginGet 1 Processed] = Inr (od, [1, 2])"
    by (auto simp: sample_env_def inmemory_storage_def begin_get_account_def load_account_def
        get_account_def inmemory_account_store_new_def accounts_on_demand_new_def finish_loading_def
        retry_fetching_account_def numeral_eq_Suc)
  with each_account_loaded_once [OF this] show ?thesis by blast
qed

text \<open>A refresh subscribes to everything asked for so far: the filters sent to the subscription
  manager are the program filters followed by filters of at most a hundred accounts each that
  together name exactly the subscribed accounts.\<close>

theorem refresh_covers_subscribed_accounts:
  "\<exists>account_filters. od_watch (refresh_subscription to_str od) = od_program_filters od @ account_filters \<and>
    concat (List.map af_accounts account_filters) = List.map to_str (od_accounts_subscribed od) \<and>
    (\<forall>f \<in> set account_filters. length (af_accounts f) \<le> 100 \<and> af_accounts f \<noteq> [] \<and> af_program_id f = None)"
proof -
  let ?fs = "List.map (\<lambda>accounts. \<lparr>af_accounts = accounts, af_program_id = None, af_filters = None\<rparr>)
    (chunks 100 (List.map to_str (od_accounts_subscribed od)))"
  have "concat (List.map af_accounts ?fs) = List.map to_str (od_accounts_subscribed od)"
    using subscription_filters_accounts [of to_str "od_accounts_subscribed od" "[]"]
    by (simp add: subscription_filters_def)
  moreover have "\<forall>f \<in> set ?fs. length (af_accounts f) \<le> 100 \<and> af_accounts f \<noteq> [] \<and> af_program_id f = None"
    using length_chunk by fastforce
  ultimately show ?thesis
    by (intro exI [of _ ?fs]) (simp add: refresh_subscription_def subscription_filters_def)
qed

lemma refresh_covers_subscribed_accounts_witness:
  "\<exists>fs. od_watch (refresh_subscription (\<lambda>_. ''key'') (accounts_on_demand_new inmemory_account_store_new
      \<lparr>od_accounts_subscribed := [1]\<rparr>)) = fs \<and> concat (List.map af_accounts fs) = [''key'']"
  using refresh_covers_subscribed_accounts [of "\<lambda>_. ''key''"
      "accounts_on_demand_new inmemory_account_store_new\<lparr>od_accounts_subscribed := [1]\<rparr>"]
  by (auto simp: accounts_on_demand_new_def)

text \<open>A program query after a single account of the program was loaded is answered from that
  account alone: the index entry the one account left behind is taken for the program's filter, so
  the node is not asked, whatever accounts it has, and no program filter is subscribed.\<close>

theorem loaded_account_hides_program_accounts:
  assumes "rpc 1 processed_config 0 = Some (9, Some (ad_account (sample_account 1 7 9)))"
  shows "\<exists>od od'. on_demand_get_account (inmemory_storage bytes_match) to_str rpc notified
      (accounts_on_demand_new inmemory_account_store_new) 1 Processed =
        Inr (od, Inr (Some (sample_account 1 7 9))) \<and>
    on_demand_get_program_accounts (inmemory_storage bytes_match) to_str bytes rpc_program od 7 None
      Processed = Inr (od', Some [sample_account 1 7 9]) \<and>
    od_program_filters od' = []"
proof -
  let ?a = "sample_account 1 7 9"
  let ?s = "\<lparr>is_account_store = [(1, account_by_commitment_new ?a Processed)],
    is_confirmed_slots_map = {}, is_accounts_by_owner = [(7, [1])]\<rparr>"
  let ?od = "\<lparr>od_accounts_storage = ?s, od_accounts_subscribed = [1], od_program_filters = [],
    od_watch = subscription_filters to_str [1] [], od_accounts_in_loading = {}\<rparr>"
  have upd: "update_account inmemory_account_store_new ?a Processed = Inr (?s, True)"
    by (simp add: update_account_def inmemory_account_store_new_def sample_account_def
        add_account_owner_def hm_put_def)
  have fetch: "fetch_account (rpc 1 processed_config) 0 retry_fetching_account =
      Some (9, ad_account ?a)"
    using assms by (simp add: retry_fetching_account_def numeral_eq_Suc)
  have a: "\<lparr>ad_pubkey = 1, ad_account = ad_account ?a, ad_updated_slot = 9\<rparr> = ?a"
    by (simp add: sample_account_def)
  have "on_demand_get_account (inmemory_storage bytes_match) to_str rpc notified
      (accounts_on_demand_new inmemory_account_store_new) 1 Processed = Inr (?od, Inr (Some ?a))"
    using upd fetch
    by (simp add: on_demand_get_account_def begin_get_account_def accounts_on_demand_new_def
        load_account_def refresh_subscription_def finish_loading_def a into_commiment_config_def
        inmemory_storage_def get_account_def inmemory_account_store_new_def processed_config_def
        Let_def)
  moreover have "get_program_accounts bytes_match ?s 7 None Processed = Some [?a]"
    by (simp add: get_program_accounts_def program_account_def get_account_def hm_get_def
        account_by_commitment_new_def bt_last_def sample_account_def)
  then have "on_demand_get_program_accounts (inmemory_storage bytes_match) to_str bytes rpc_program
      ?od 7 None Processed = Inr (?od, Some [?a])"
    by (simp add: on_demand_get_program_accounts_def inmemory_storage_def)
  ultimately show ?thesis by auto
qed

lemma loaded_account_hides_program_accounts_witness:
  "\<exists>od od'. on_demand_get_account (inmemory_storage (\<lambda>_ _. True)) (\<lambda>_. ''key'')
      (\<lambda>pk _ _. Some (9, Some (ad_account (sample_account pk 7 9)))) (\<lambda>_. True)
      (accounts_on_demand_new inmemory_account_store_new) 1 Processed =
        Inr (od, Inr (Some (sample_account 1 7 9))) \<and>
    on_demand_get_program_accounts (inmemory_storage (\<lambda>_ _. True)) (\<lambda>_. ''key'') (\<lambda>_. None)
      (\<lambda>_ _ _. Some [(1, ad_account (sample_account 1 7 9)), (2, ad_account (sample_account 2 7 9))])
      od 7 None Processed = Inr (od', Some [sample_account 1 7 9])"
  using loaded_account_hides_program_accounts
    [of "\<lambda>pk _ _. Some (9, Some (ad_account (sample_account pk 7 9)))"] by blast

end
