(* ===== verification/Lookup_Tables.thy ===== *)
theory Lookup_Tables
  imports Core_Data "HOL-Library.Sublist"
begin

text \<open>
  \<open>address-lookup-tables/src/address_lookup_table_store.rs\<close>: the cache of address lookup tables.
  A message names accounts by their index in a table; before a block is resolved the tables that
  are missing or too short are loaded from an RPC node.  The deserializer of a table, the RPC client
  and the binary encoder are arguments.  The tasks that load batches run one after the other here.
\<close>

section \<open>The interface\<close>

text \<open>
  \<open>core/src/traits/address_lookup_table_interface.rs\<close>: what the components that read blocks rely on.
  After a reload for some messages, each valid one resolves to what it really names.
\<close>

locale address_lookup_table_interface =
  fixes resolve :: "'t \<Rightarrow> lookup_message \<Rightarrow> pubkey list \<times> pubkey list"
    and reload :: "'t \<Rightarrow> lookup_message list \<Rightarrow> 't"
    and invar :: "'t \<Rightarrow> bool"
    and valid :: "lookup_message \<Rightarrow> bool"
    and truth :: "lookup_message \<Rightarrow> pubkey list \<times> pubkey list"
  assumes reload_invar: "invar t \<Longrightarrow> invar (reload t ms)"
    and reload_resolves: "invar t \<Longrightarrow> m \<in> set ms \<Longrightarrow> valid m \<Longrightarrow> resolve (reload t ms) m = truth m"
begin

lemma reloaded_map: "invar t \<Longrightarrow> set ms' \<subseteq> set ms \<Longrightarrow> \<forall>m \<in> set ms. valid m \<Longrightarrow>
    List.map (resolve (reload t ms)) ms' = List.map truth ms'"
  by (auto intro: reload_resolves)

end

section \<open>State and operations\<close>

type_synonym alt_store = "(pubkey, pubkey list) hashmap"

definition alt_store_new :: alt_store where
  "alt_store_new = []"

definition alt_save_account ::
    "(u8 list \<Rightarrow> pubkey list option) \<Rightarrow> alt_store \<Rightarrow> pubkey \<Rightarrow> u8 list \<Rightarrow> alt_store outcome" where
  "alt_save_account deserialize m address data =
     (case deserialize data of
        None \<Rightarrow> Inl UnwrapNone
      | Some addresses \<Rightarrow> Inr (hm_put address addresses m))"

text \<open>
  One task: the entries of the answer in order.  A panic ends the task; what it saved before stays,
  and the caller, which ignores the results of the tasks, goes on.
\<close>

fun alt_save_batch ::
    "(u8 list \<Rightarrow> pubkey list option) \<Rightarrow> pubkey list \<Rightarrow> (nat \<times> u8 list option) list \<Rightarrow> alt_store \<Rightarrow>
     alt_store" where
  "alt_save_batch deserialize batch [] m = m"
| "alt_save_batch deserialize batch ((i, acc) # rest) m =
     (case acc of
        None \<Rightarrow> alt_save_batch deserialize batch rest m
      | Some data \<Rightarrow>
          (case bind_outcome (index_checked batch i)
                  (\<lambda>address. alt_save_account deserialize m address data) of
             Inl _ \<Rightarrow> m
           | Inr m' \<Rightarrow> alt_save_batch deserialize batch rest m'))"

definition alt_load_batch ::
    "(u8 list \<Rightarrow> pubkey list option) \<Rightarrow> (pubkey list \<Rightarrow> u8 list option list option) \<Rightarrow> pubkey list \<Rightarrow>
     alt_store \<Rightarrow> alt_store" where
  "alt_load_batch deserialize rpc batch m =
     (case rpc batch of
        Some accounts \<Rightarrow> alt_save_batch deserialize batch (List.enumerate 0 accounts) m
      | None \<Rightarrow> m)"

definition load_alts_list ::
    "(u8 list \<Rightarrow> pubkey list option) \<Rightarrow> (pubkey list \<Rightarrow> u8 list option list option) \<Rightarrow> pubkey list \<Rightarrow>
     alt_store \<Rightarrow> alt_store" where
  "load_alts_list deserialize rpc alts m =
     fold (\<lambda>batches. fold (alt_load_batch deserialize rpc) (chunks 100 batches)) (chunks 1000 alts) m"

definition alt_needs_loading :: "alt_store \<Rightarrow> lookup_message \<Rightarrow> bool" where
  "alt_needs_loading m alt \<longleftrightarrow>
     (case hm_get m (lm_account_key alt) of
        Some alt_data \<Rightarrow>
          (let size = (word_of_nat (length alt_data) :: u8)
           in list_ex (\<lambda>x. x \<ge> size) (lm_readonly_indexes alt) \<or>
              list_ex (\<lambda>x. x \<ge> size) (lm_writable_indexes alt))
      | None \<Rightarrow> True)"

definition alt_accounts_to_load :: "alt_store \<Rightarrow> lookup_message list \<Rightarrow> pubkey list" where
  "alt_accounts_to_load m alt_messages =
     List.map_filter (\<lambda>alt. if alt_needs_loading m alt then Some (lm_account_key alt) else None)
       alt_messages"

definition reload_if_necessary ::
    "(u8 list \<Rightarrow> pubkey list option) \<Rightarrow> (pubkey list \<Rightarrow> u8 list option list option) \<Rightarrow> alt_store \<Rightarrow>
     lookup_message list \<Rightarrow> alt_store" where
  "reload_if_necessary deserialize rpc m alt_messages =
     load_alts_list deserialize rpc (alt_accounts_to_load m alt_messages) m"

definition reload_alt_account ::
    "(u8 list \<Rightarrow> pubkey list option) \<Rightarrow> (pubkey \<Rightarrow> u8 list option option) \<Rightarrow> alt_store \<Rightarrow> pubkey \<Rightarrow>
     alt_store outcome" where
  "reload_alt_account deserialize rpc m address =
     (let account = unwrap_or (rpc address) None
      in case account of
           Some data \<Rightarrow> alt_save_account deserialize m address data
         | None \<Rightarrow> Inr m)"

definition get_accounts_in_address_lookup_table ::
    "alt_store \<Rightarrow> pubkey \<Rightarrow> u8 list \<Rightarrow> pubkey list option" where
  "get_accounts_in_address_lookup_table m alt accounts =
     (case hm_get m alt of
        Some alt_account \<Rightarrow>
          if list_ex (\<lambda>index. unat index \<ge> length alt_account) accounts then None
          else Some (List.map (\<lambda>index. alt_account ! unat index) accounts)
      | None \<Rightarrow> None)"

definition alt_get_accounts :: "alt_store \<Rightarrow> pubkey \<Rightarrow> u8 list \<Rightarrow> pubkey list" where
  "alt_get_accounts m alt accounts =
     unwrap_or (get_accounts_in_address_lookup_table m alt accounts) []"

definition resolve_addresses_from_lookup_table ::
    "alt_store \<Rightarrow> lookup_message \<Rightarrow> pubkey list \<times> pubkey list" where
  "resolve_addresses_from_lookup_table m message =
     (alt_get_accounts m (lm_account_key message) (lm_writable_indexes message),
      alt_get_accounts m (lm_account_key message) (lm_readonly_indexes message))"

type_synonym binary_alt_data = "(pubkey \<times> pubkey list) list"

definition binary_alt_data_new :: "alt_store \<Rightarrow> binary_alt_data" where
  "binary_alt_data_new m = List.map (\<lambda>(k, v). (k, v)) m"

definition serialize_binary :: "(binary_alt_data \<Rightarrow> u8 list option) \<Rightarrow> alt_store \<Rightarrow> u8 list outcome"
where
  "serialize_binary serialize m =
     (case serialize (binary_alt_data_new m) of None \<Rightarrow> Inl UnwrapNone | Some bs \<Rightarrow> Inr bs)"

definition load_binary ::
    "(u8 list \<Rightarrow> binary_alt_data option) \<Rightarrow> u8 list \<Rightarrow> alt_store \<Rightarrow> alt_store outcome" where
  "load_binary deserialize binary_data m =
     (case deserialize binary_data of
        None \<Rightarrow> Inl UnwrapNone
      | Some data \<Rightarrow> Inr (fold (\<lambda>(alt, accounts). hm_put alt accounts) data m))"

section \<open>Lemmas\<close>

text \<open>A node that holds the tables \<open>tables\<close> and answers every batch.\<close>

definition node_holds ::
    "(u8 list \<Rightarrow> pubkey list option) \<Rightarrow> (pubkey list \<Rightarrow> u8 list option list option) \<Rightarrow>
     (pubkey \<Rightarrow> pubkey list) \<Rightarrow> bool" where
  "node_holds deserialize rpc tables \<longleftrightarrow>
     (\<forall>batch. \<exists>answer. rpc batch = Some answer \<and> length answer = length batch \<and>
        (\<forall>i < length batch. \<exists>data. answer ! i = Some data \<and> deserialize data = Some (tables (batch ! i))))"

text \<open>Every cached table is what the node holds or an earlier, shorter state of it.\<close>

definition cached_prefixes :: "(pubkey \<Rightarrow> pubkey list) \<Rightarrow> alt_store \<Rightarrow> bool" where
  "cached_prefixes tables m \<longleftrightarrow> hm_inv m \<and> (\<forall>k t. hm_get m k = Some t \<longrightarrow> prefix t (tables k))"

lemma cached_prefixes_put: "cached_prefixes tables m \<Longrightarrow> cached_prefixes tables (hm_put k (tables k) m)"
  by (auto simp: cached_prefixes_def hm_inv_put hm.get_put)

text \<open>What is known after loading keys: their tables are the node's, all others as before.\<close>

definition loads :: "(pubkey \<Rightarrow> pubkey list) \<Rightarrow> pubkey set \<Rightarrow> alt_store \<Rightarrow> alt_store \<Rightarrow> bool" where
  "loads tables ks m m' \<longleftrightarrow> hm_inv m' \<and>
     hm_get m' = (\<lambda>k. if k \<in> ks then Some (tables k) else hm_get m k)"

lemma loads_comp: "loads tables ks m m1 \<Longrightarrow> loads tables ks' m1 m2 \<Longrightarrow> loads tables (ks \<union> ks') m m2"
  by (auto simp: loads_def)

lemma loads_fold:
  assumes "\<And>x m. x \<in> set xs \<Longrightarrow> hm_inv m \<Longrightarrow> loads tables (ks x) m (f x m)" and "hm_inv m"
  shows "loads tables (\<Union>x \<in> set xs. ks x) m (fold f xs m)"
  using assms
proof (induction xs arbitrary: m)
  case (Cons x xs)
  have x: "loads tables (ks x) m (f x m)" using Cons.prems by simp
  then have "hm_inv (f x m)" by (simp add: loads_def)
  with Cons have "loads tables (\<Union>x \<in> set xs. ks x) (f x m) (fold f xs (f x m))" by simp
  with x show ?case using loads_comp by fastforce
qed (simp add: loads_def)

lemma alt_save_batch_loads:
  assumes "\<forall>(i, acc) \<in> set ias. i < length batch \<and>
      (\<exists>data. acc = Some data \<and> deserialize data = Some (tables (batch ! i)))"
    and "hm_inv m"
  shows "loads tables ((!) batch ` fst ` set ias) m (alt_save_batch deserialize batch ias m)"
  using assms
proof (induction ias arbitrary: m)
  case (Cons ia ias)
  obtain i data where ia: "ia = (i, Some data)" "i < length batch"
      "deserialize data = Some (tables (batch ! i))"
    using Cons.prems(1) by (cases ia) auto
  let ?m = "hm_put (batch ! i) (tables (batch ! i)) m"
  have "loads tables {batch ! i} m ?m"
    using Cons.prems(2) by (auto simp: loads_def hm_inv_put hm.get_put)
  moreover have "loads tables ((!) batch ` fst ` set ias) ?m (alt_save_batch deserialize batch ias ?m)"
    using Cons by (simp add: hm_inv_put)
  ultimately show ?case
    using loads_comp ia by (fastforce simp: alt_save_account_def)
qed (simp add: loads_def)

lemma alt_load_batch_loads:
  assumes "node_holds deserialize rpc tables" and "hm_inv m"
  shows "loads tables (set batch) m (alt_load_batch deserialize rpc batch m)"
proof -
  obtain answer where a: "rpc batch = Some answer" "length answer = length batch"
      "\<forall>i < length batch. \<exists>data. answer ! i = Some data \<and> deserialize data = Some (tables (batch ! i))"
    using assms(1) unfolding node_holds_def by blast
  then have entries: "\<forall>(i, acc) \<in> set (List.enumerate 0 answer). i < length batch \<and>
      (\<exists>data. acc = Some data \<and> deserialize data = Some (tables (batch ! i)))"
    by (auto simp: in_set_enumerate_eq)
  have "fst ` set (List.enumerate 0 answer) = {..<length batch}"
    unfolding set_map [symmetric] by (simp add: a(2) map_fst_enumerate atLeast0LessThan)
  moreover have "(!) batch ` {..<length batch} = set batch"
    by (auto simp: in_set_conv_nth image_iff)
  ultimately show ?thesis
    using alt_save_batch_loads [OF entries assms(2)] a(1) by (simp add: alt_load_batch_def)
qed

lemma chunks_set: "0 < n \<Longrightarrow> (\<Union>c \<in> set (chunks n xs). set c) = set xs"
  by (metis concat_chunks set_concat)

lemma load_alts_list_loads:
  assumes "node_holds deserialize rpc tables" and "hm_inv m"
  shows "loads tables (set alts) m (load_alts_list deserialize rpc alts m)"
proof -
  have "loads tables (set b) m (fold (alt_load_batch deserialize rpc) (chunks 100 b) m)"
    if "hm_inv m" for b m
    using loads_fold [of "chunks 100 b" tables set "alt_load_batch deserialize rpc" m]
      alt_load_batch_loads [OF assms(1)] that by (simp add: chunks_set)
  then show ?thesis
    using loads_fold [of "chunks 1000 alts" tables set _ m] assms(2)
    by (simp add: load_alts_list_def chunks_set)
qed

lemma index_in_cached:
  assumes "\<not> list_ex (\<lambda>x. x \<ge> (word_of_nat (length t) :: u8)) is" and "x \<in> set is"
  shows "unat x < length t"
proof -
  have "x < (word_of_nat (length t) :: u8)" using assms by (auto simp: list_ex_iff)
  then have "unat x < unat (word_of_nat (length t) :: u8)" by (simp add: word_less_nat_alt)
  also have "\<dots> \<le> length t" by (simp add: unsigned_of_nat take_bit_nat_less_eq_self)
  finally show ?thesis .
qed

lemma alt_get_accounts_prefix:
  assumes "hm_get m k = Some t" and "prefix t full" and "\<forall>x \<in> set is. unat x < length t"
  shows "alt_get_accounts m k is = List.map (\<lambda>x. full ! unat x) is"
proof -
  have "t ! unat x = full ! unat x" if "x \<in> set is" for x
    using assms(2,3) that by (auto simp: prefix_def nth_append)
  then show ?thesis
    using assms(1,3) by (auto simp: alt_get_accounts_def get_accounts_in_address_lookup_table_def
        list_ex_iff not_le)
qed

lemma reload_loads:
  "node_holds deserialize rpc tables \<Longrightarrow> cached_prefixes tables m \<Longrightarrow>
   loads tables (set (alt_accounts_to_load m messages)) m (reload_if_necessary deserialize rpc m messages)"
  unfolding reload_if_necessary_def using load_alts_list_loads by (auto simp: cached_prefixes_def)

lemma reload_cached_prefixes:
  assumes "node_holds deserialize rpc tables" and "cached_prefixes tables m"
  shows "cached_prefixes tables (reload_if_necessary deserialize rpc m messages)"
  using reload_loads [OF assms, of messages] assms(2) by (auto simp: cached_prefixes_def loads_def)

definition valid_message :: "(pubkey \<Rightarrow> pubkey list) \<Rightarrow> lookup_message \<Rightarrow> bool" where
  "valid_message tables msg \<longleftrightarrow>
     (\<forall>x \<in> set (lm_writable_indexes msg) \<union> set (lm_readonly_indexes msg).
        unat x < length (tables (lm_account_key msg)))"

definition named_accounts :: "(pubkey \<Rightarrow> pubkey list) \<Rightarrow> lookup_message \<Rightarrow> pubkey list \<times> pubkey list"
where
  "named_accounts tables msg =
     (List.map (\<lambda>x. tables (lm_account_key msg) ! unat x) (lm_writable_indexes msg),
      List.map (\<lambda>x. tables (lm_account_key msg) ! unat x) (lm_readonly_indexes msg))"

lemma reloaded_resolves:
  assumes "node_holds deserialize rpc tables" and "cached_prefixes tables m"
    and "msg \<in> set messages" and valid: "valid_message tables msg"
  shows "resolve_addresses_from_lookup_table (reload_if_necessary deserialize rpc m messages) msg =
    named_accounts tables msg"
proof -
  let ?k = "lm_account_key msg" and ?m = "reload_if_necessary deserialize rpc m messages"
  note l = reload_loads [OF assms(1,2), of messages]
  obtain t where t: "hm_get ?m ?k = Some t" "prefix t (tables ?k)"
    and idx: "\<forall>x \<in> set (lm_writable_indexes msg) \<union> set (lm_readonly_indexes msg). unat x < length t"
  proof (cases "?k \<in> set (alt_accounts_to_load m messages)")
    case True
    with l have "hm_get ?m ?k = Some (tables ?k)" by (simp add: loads_def)
    with that valid show thesis by (simp add: valid_message_def)
  next
    case False
    then have "\<not> alt_needs_loading m msg"
      using assms(3) by (auto simp: alt_accounts_to_load_def map_filter_mem)
    then obtain t where t: "hm_get m ?k = Some t"
      "\<not> list_ex (\<lambda>x. x \<ge> (word_of_nat (length t) :: u8)) (lm_readonly_indexes msg)"
      "\<not> list_ex (\<lambda>x. x \<ge> (word_of_nat (length t) :: u8)) (lm_writable_indexes msg)"
      by (auto simp: alt_needs_loading_def Let_def split: option.splits)
    moreover have "hm_get ?m ?k = Some t" using l False t(1) by (simp add: loads_def)
    moreover have "prefix t (tables ?k)" using assms(2) t(1) by (simp add: cached_prefixes_def)
    ultimately show thesis using that index_in_cached by blast
  qed
  show ?thesis
    unfolding resolve_addresses_from_lookup_table_def named_accounts_def
    using alt_get_accounts_prefix [OF t] idx by simp
qed

interpretation alt: address_lookup_table_interface resolve_addresses_from_lookup_table
  "reload_if_necessary deserialize rpc"
  "\<lambda>m. node_holds deserialize rpc tables \<and> cached_prefixes tables m"
  "valid_message tables" "named_accounts tables"
  for deserialize rpc tables
  by unfold_locales (auto intro: reload_cached_prefixes reloaded_resolves)

section \<open>Properties\<close>


definition sample_message :: lookup_message where
  "sample_message = \<lparr>lm_account_key = 5, lm_writable_indexes = [1], lm_readonly_indexes = [0, 1]\<rparr>"


text \<open>A full table is never considered loaded: the length of a table with 256 entries is
  truncated to zero, so every message that uses the table makes the code fetch it again, although
  the cached table answers all of its indexes.\<close>

theorem full_table_always_reloaded:
  assumes "hm_get m (lm_account_key msg) = Some t" and "length t = 256"
    and "lm_writable_indexes msg \<noteq> [] \<or> lm_readonly_indexes msg \<noteq> []"
    and "msg \<in> set messages"
  shows "lm_account_key msg \<in> set (alt_accounts_to_load m messages) \<and>
    resolve_addresses_from_lookup_table m msg =
      (List.map (\<lambda>x. t ! unat x) (lm_writable_indexes msg),
       List.map (\<lambda>x. t ! unat x) (lm_readonly_indexes msg))"
proof -
  have size: "(word_of_nat (length t) :: u8) = 0" by (simp add: assms(2))
  have "alt_needs_loading m msg"
    using assms(1,3) by (auto simp: alt_needs_loading_def size neq_Nil_conv)
  then have "lm_account_key msg \<in> set (alt_accounts_to_load m messages)"
    using assms(4) by (auto simp: alt_accounts_to_load_def map_filter_mem)
  moreover have "unat x < length t" for x :: u8
    using unsigned_less [of x] by (simp add: assms(2))
  ultimately show ?thesis
    using alt_get_accounts_prefix [OF assms(1) prefix_order.order_refl]
    by (simp add: resolve_addresses_from_lookup_table_def)
qed

lemma full_table_always_reloaded_witness:
  "5 \<in> set (alt_accounts_to_load [(5, replicate 256 9)] [sample_message])"
  using full_table_always_reloaded [of "[(5, replicate 256 9)]" sample_message "replicate 256 9"
      "[sample_message]"]
  by (simp add: sample_message_def hm_get_def)

text \<open>Saving and loading round trip: a store written to the binary file and loaded into an empty
  store at startup answers every lookup as before.\<close>

theorem alt_store_roundtrip:
  assumes "hm_inv m" and "serialize (binary_alt_data_new m) \<noteq> None"
    and "\<forall>d bs. serialize d = Some bs \<longrightarrow> deserialize bs = Some d"
  shows "\<exists>bs m'. serialize_binary serialize m = Inr bs \<and>
    load_binary deserialize bs alt_store_new = Inr m' \<and>
    alt_get_accounts m' = alt_get_accounts m"
proof -
  obtain bs where bs: "serialize (binary_alt_data_new m) = Some bs"
      "deserialize bs = Some (binary_alt_data_new m)"
    using assms(2,3) by blast
  let ?m = "fold (\<lambda>(alt, accounts). hm_put alt accounts) (binary_alt_data_new m) alt_store_new"
  have data: "binary_alt_data_new m = m" by (simp add: binary_alt_data_new_def)
  have "hm_get ?m = hm_get alt_store_new ++ map_of (rev m)"
    using hm.put_all [of alt_store_new m] by (simp add: data alt_store_new_def)
  also have "map_of (rev m) = map_of m"
    using assms(1) by (subst map_of_inject_set) (simp_all add: hm_inv_def map_keys_def rev_map [symmetric])
  also have "hm_get alt_store_new ++ map_of m = hm_get m"
    by (simp add: alt_store_new_def fun_eq_iff hm_get_def map_add_def split: option.split)
  finally have "alt_get_accounts ?m = alt_get_accounts m"
    by (simp add: alt_get_accounts_def get_accounts_in_address_lookup_table_def fun_eq_iff)
  with bs show ?thesis by (auto simp: serialize_binary_def load_binary_def)
qed

lemma alt_store_roundtrip_witness:
  "\<exists>m'. load_binary (\<lambda>_. Some [(5, [10])]) [1] alt_store_new = Inr m' \<and>
    alt_get_accounts m' 5 [0] = [10]"
proof -
  let ?ser = "\<lambda>d :: binary_alt_data. if d = [(5, [10])] then Some [1 :: u8] else None"
  have "hm_inv [(5 :: pubkey, [10 :: pubkey])]" by (simp add: hm_inv_def map_keys_def)
  moreover have "?ser (binary_alt_data_new [(5, [10])]) \<noteq> None" by (simp add: binary_alt_data_new_def)
  moreover have "\<forall>d bs. ?ser d = Some bs \<longrightarrow> (\<lambda>_. Some [(5, [10])]) bs = Some d" by simp
  ultimately obtain bs m' where "serialize_binary ?ser [(5, [10])] = Inr bs"
      "load_binary (\<lambda>_. Some [(5, [10])]) bs alt_store_new = Inr m'"
      "alt_get_accounts m' = alt_get_accounts [(5, [10])]"
    using alt_store_roundtrip [of "[(5, [10])]" ?ser "\<lambda>_. Some [(5, [10])]"] by blast
  moreover have "alt_get_accounts [(5, [10])] 5 [0] = [10]"
    by (simp add: alt_get_accounts_def hm_get_def get_accounts_in_address_lookup_table_def)
  ultimately show ?thesis by (auto simp: load_binary_def)
qed

end
