(* ===== verification/Prio_Fees.thy ===== *)
theory Prio_Fees
  imports Lookup_Tables "HOL-Library.Option_ord" "HOL-Library.Multiset"
begin

text \<open>
  \<open>prioritization_fees/src\<close>: the fee statistics of a block by transaction and by compute unit, the
  store of recent blocks and the store of recent blocks per account.  The \<open>f32\<close> quotient of a
  percentile is the argument \<open>fraction\<close>; sums of compute units wrap around like the \<open>u64\<close> they are.
\<close>

section \<open>Percentiles\<close>

record prio_fees_data =
  pd_priority :: u64
  pd_cu_consumed :: u64

definition prio_fees_data_default :: prio_fees_data where
  "prio_fees_data_default = \<lparr>pd_priority = 0, pd_cu_consumed = 0\<rparr>"

record fee_point =
  fp_percentile :: u32
  fp_fees :: u64

record 'f percentiles =
  pc_by_tx :: "u64 list"
  pc_by_tx_percentiles :: "'f list"
  pc_by_cu :: "u64 list"
  pc_by_cu_percentiles :: "'f list"

text \<open>\<open>(0..=100).step_by(5)\<close>\<close>

definition percentile_steps :: "nat list" where
  "percentile_steps = List.map (\<lambda>i. i * 5) [0..<21]"

definition sorted_fees :: "prio_fees_data list \<Rightarrow> prio_fees_data list" where
  "sorted_fees data = (if data = [] then [prio_fees_data_default] else sort_key pd_priority data)"

definition fee_by_index :: "prio_fees_data list \<Rightarrow> nat \<Rightarrow> fee_point outcome" where
  "fee_by_index xs p =
     (let index = length xs * p div 100;
          cap_index = min index (length xs - 1)
      in bind_outcome (index_checked xs cap_index)
           (\<lambda>d. Inr \<lparr>fp_percentile = word_of_nat p, fp_fees = pd_priority d\<rparr>))"

text \<open>The inner loop: it moves on until the aggregated compute units reach the target.\<close>

function advance_cu :: "prio_fees_data list \<Rightarrow> u64 \<Rightarrow> u64 \<Rightarrow> nat \<Rightarrow> (u64 \<times> nat) outcome" where
  "advance_cu xs target agg index =
     (if agg < target then
        (if Suc index < length xs
         then advance_cu xs target (agg + pd_cu_consumed (xs ! Suc index)) (Suc index)
         else Inl IndexOutOfBounds)
      else Inr (agg, index))"
  by pat_completeness auto
termination
  by (relation "measure (\<lambda>(xs, _, _, index). length xs - index)") auto

declare advance_cu.simps [simp del]

fun fees_by_cu :: "prio_fees_data list \<Rightarrow> u64 \<Rightarrow> nat list \<Rightarrow> u64 \<Rightarrow> nat \<Rightarrow> fee_point list outcome" where
  "fees_by_cu xs cu_sum [] agg index = Inr []"
| "fees_by_cu xs cu_sum (p # ps) agg index =
     bind_outcome (advance_cu xs (cu_sum * word_of_nat p div 100) agg index) (\<lambda>(agg', index').
       bind_outcome (index_checked xs index') (\<lambda>d.
         bind_outcome (fees_by_cu xs cu_sum ps agg' index') (\<lambda>rest.
           Inr (\<lparr>fp_percentile = word_of_nat p, fp_fees = pd_priority d\<rparr> # rest))))"

fun collect_outcomes :: "'a outcome list \<Rightarrow> 'a list outcome" where
  "collect_outcomes [] = Inr []"
| "collect_outcomes (x # xs) =
     bind_outcome x (\<lambda>a. bind_outcome (collect_outcomes xs) (\<lambda>as. Inr (a # as)))"

definition calculate_supp_percentiles ::
    "(u32 \<Rightarrow> 'f) \<Rightarrow> prio_fees_data list \<Rightarrow> 'f percentiles outcome" where
  "calculate_supp_percentiles fraction data =
     (let xs = sorted_fees data
      in bind_outcome (collect_outcomes (List.map (fee_by_index xs) percentile_steps)) (\<lambda>by_index.
           (let cu_sum = sum_list (List.map pd_cu_consumed xs)
            in bind_outcome (index_checked xs 0) (\<lambda>d0.
                 bind_outcome (fees_by_cu xs cu_sum percentile_steps (pd_cu_consumed d0) 0)
                   (\<lambda>by_cu. Inr
                      \<lparr>pc_by_tx = List.map fp_fees by_index,
                       pc_by_tx_percentiles = List.map (fraction \<circ> fp_percentile) by_index,
                       pc_by_cu = List.map fp_fees by_cu,
                       pc_by_cu_percentiles = List.map (fraction \<circ> fp_percentile) by_cu\<rparr>)))))"

definition find_fee :: "'f list \<Rightarrow> u64 list \<Rightarrow> 'f \<Rightarrow> u64 option" where
  "find_fee percentiles fees p = map_option snd (List.find (\<lambda>(q, _). q = p) (zip percentiles fees))"

definition get_fees_by_tx :: "'f percentiles \<Rightarrow> 'f \<Rightarrow> u64 option" where
  "get_fees_by_tx pc p = find_fee (pc_by_tx_percentiles pc) (pc_by_tx pc) p"

definition get_fees_cu :: "'f percentiles \<Rightarrow> 'f \<Rightarrow> u64 option" where
  "get_fees_cu pc p = find_fee (pc_by_cu_percentiles pc) (pc_by_cu pc) p"

section \<open>Statistics of a block\<close>

record tx_aggregate_stats =
  ta_total :: u64
  ta_nonvote :: u64

record 'f prio_fees_stats =
  ps_by_tx :: "u64 list"
  ps_by_tx_percentiles :: "'f list"
  ps_by_cu :: "u64 list"
  ps_by_cu_percentiles :: "'f list"
  ps_tx_count :: tx_aggregate_stats
  ps_cu_consumed :: tx_aggregate_stats

definition prio_fees_stats_default :: "'f prio_fees_stats" where
  "prio_fees_stats_default = \<lparr>ps_by_tx = [], ps_by_tx_percentiles = [], ps_by_cu = [],
     ps_by_cu_percentiles = [], ps_tx_count = \<lparr>ta_total = 0, ta_nonvote = 0\<rparr>,
     ps_cu_consumed = \<lparr>ta_total = 0, ta_nonvote = 0\<rparr>\<rparr>"

fun position :: "'a list \<Rightarrow> 'a \<Rightarrow> nat option" where
  "position [] x = None"
| "position (y # ys) x = (if y = x then Some 0 else map_option Suc (position ys x))"

definition get_percentile :: "'f prio_fees_stats \<Rightarrow> 'f \<Rightarrow> (u64 \<times> u64) option outcome" where
  "get_percentile ps p =
     (case (position (ps_by_tx_percentiles ps) p, position (ps_by_cu_percentiles ps) p) of
        (Some index_tx, Some index_cu) \<Rightarrow>
          bind_outcome (index_checked (ps_by_tx ps) index_tx) (\<lambda>tx.
            bind_outcome (index_checked (ps_by_cu ps) index_cu) (\<lambda>cu. Inr (Some (tx, cu))))
      | _ \<Rightarrow> Inr None)"

record block_prio_data =
  bd_transaction_data :: "prio_fees_data list"
  bd_nb_non_vote_tx :: u64
  bd_nb_total_tx :: u64
  bd_non_vote_cu_consumed :: u64
  bd_total_cu_consumed :: u64

definition block_prio_data_default :: block_prio_data where
  "block_prio_data_default = \<lparr>bd_transaction_data = [], bd_nb_non_vote_tx = 0, bd_nb_total_tx = 0,
     bd_non_vote_cu_consumed = 0, bd_total_cu_consumed = 0\<rparr>"

definition calculate_stats :: "(u32 \<Rightarrow> 'f) \<Rightarrow> block_prio_data \<Rightarrow> 'f prio_fees_stats outcome" where
  "calculate_stats fraction b =
     bind_outcome (calculate_supp_percentiles fraction (bd_transaction_data b)) (\<lambda>pc.
       Inr \<lparr>ps_by_tx = pc_by_tx pc, ps_by_tx_percentiles = pc_by_tx_percentiles pc,
            ps_by_cu = pc_by_cu pc, ps_by_cu_percentiles = pc_by_cu_percentiles pc,
            ps_tx_count = \<lparr>ta_total = bd_nb_total_tx b, ta_nonvote = bd_nb_non_vote_tx b\<rparr>,
            ps_cu_consumed =
              \<lparr>ta_total = bd_total_cu_consumed b, ta_nonvote = bd_non_vote_cu_consumed b\<rparr>\<rparr>)"

definition block_prio_data_add :: "block_prio_data \<Rightarrow> block_prio_data \<Rightarrow> block_prio_data" where
  "block_prio_data_add a b =
     \<lparr>bd_transaction_data = bd_transaction_data a @ bd_transaction_data b,
      bd_nb_non_vote_tx = bd_nb_non_vote_tx a + bd_nb_non_vote_tx b,
      bd_nb_total_tx = bd_nb_total_tx a + bd_nb_total_tx b,
      bd_non_vote_cu_consumed = bd_non_vote_cu_consumed a + bd_non_vote_cu_consumed b,
      bd_total_cu_consumed = bd_total_cu_consumed a + bd_total_cu_consumed b\<rparr>"

section \<open>Recent blocks\<close>

type_synonym prio_fee_store = "(slot, block_prio_data) btreemap"

definition last_n_aggregate :: "nat \<Rightarrow> (u64, block_prio_data) btreemap \<Rightarrow> block_prio_data" where
  "last_n_aggregate nb m =
     fold (\<lambda>(_, rhs) agg. block_prio_data_add agg rhs) (take nb (rev m)) block_prio_data_default"

definition get_latest_priofees ::
    "(u32 \<Rightarrow> 'f) \<Rightarrow> prio_fee_store \<Rightarrow> (slot \<times> 'f prio_fees_stats) option outcome" where
  "get_latest_priofees fraction m =
     (case bt_last m of
        None \<Rightarrow> Inr None
      | Some (sl, value) \<Rightarrow>
          bind_outcome (calculate_stats fraction value) (\<lambda>stats. Inr (Some (sl, stats))))"

definition get_last_n_priofees_aggregate ::
    "(u32 \<Rightarrow> 'f) \<Rightarrow> prio_fee_store \<Rightarrow> nat \<Rightarrow> (slot \<times> 'f prio_fees_stats) option outcome" where
  "get_last_n_priofees_aggregate fraction m nb =
     (case bt_last m of
        None \<Rightarrow> Inr None
      | Some (last_slot, _) \<Rightarrow>
          bind_outcome (calculate_stats fraction (last_n_aggregate nb m))
            (\<lambda>prio_fees. Inr (Some (last_slot, prio_fees))))"

definition prio_fees_data_of :: "transaction_info \<Rightarrow> prio_fees_data" where
  "prio_fees_data_of tx = \<lparr>pd_priority = unwrap_or (ti_prioritization_fees tx) 0,
     pd_cu_consumed = unwrap_or (ti_cu_consumed tx) 0\<rparr>"

definition block_prio_data_of :: "produced_block \<Rightarrow> block_prio_data" where
  "block_prio_data_of block =
     (let txs = pb_transactions block;
          non_vote = filter (\<lambda>tx. \<not> ti_is_vote tx) txs;
          cu = (\<lambda>tx. unwrap_or (ti_cu_consumed tx) 0)
      in \<lparr>bd_transaction_data = List.map prio_fees_data_of non_vote,
          bd_nb_non_vote_tx = word_of_nat (length non_vote),
          bd_nb_total_tx = word_of_nat (length txs),
          bd_non_vote_cu_consumed = sum_list (List.map cu non_vote),
          bd_total_cu_consumed = sum_list (List.map cu txs)\<rparr>)"

record 'f prio_fees_update_message =
  pm_slot :: slot
  pm_priofees_stats :: "'f prio_fees_stats"

text \<open>One block received by the task.\<close>

definition block_priofees_step ::
    "(u32 \<Rightarrow> 'f) \<Rightarrow> u64 \<Rightarrow> prio_fee_store \<Rightarrow> produced_block \<Rightarrow>
     (prio_fee_store \<times> 'f prio_fees_update_message option) outcome" where
  "block_priofees_step fraction slots_to_retain m block =
     (if \<not> is_processed (pb_commitment_config block) then Inr (m, None)
      else
        (let data = block_prio_data_of block
         in bind_outcome (calculate_stats fraction data) (\<lambda>stats.
              Inr (map_retain (\<lambda>sl _. sl > saturating_sub (pb_slot block) slots_to_retain)
                     (bt_put (pb_slot block) data m),
                   Some \<lparr>pm_slot = pb_slot block, pm_priofees_stats = stats\<rparr>))))"

section \<open>Recent blocks by account\<close>

text \<open>The lookup tables behind the trait object, when there are any.\<close>

record 't alt_interface =
  alt_state :: 't
  alt_reload :: "'t \<Rightarrow> lookup_message list \<Rightarrow> 't"
  alt_resolve :: "'t \<Rightarrow> lookup_message \<Rightarrow> pubkey list \<times> pubkey list"

type_synonym account_prio = "(u64, block_prio_data) btreemap"

record 't account_prio_store =
  ap_all :: "(pubkey, account_prio) hashmap"
  ap_writeonly :: "(pubkey, account_prio) hashmap"
  ap_number_of_slots_to_save :: nat
  ap_last_slot :: u64
  ap_lookup_tables :: "'t alt_interface option"

definition account_prio_store_new :: "nat \<Rightarrow> 't alt_interface option \<Rightarrow> 't account_prio_store" where
  "account_prio_store_new n alts = \<lparr>ap_all = [], ap_writeonly = [], ap_number_of_slots_to_save = n,
     ap_last_slot = 0, ap_lookup_tables = alts\<rparr>"

definition push_value :: "'v \<Rightarrow> 'k \<Rightarrow> ('k, 'v list) hashmap \<Rightarrow> ('k, 'v list) hashmap" where
  "push_value v k m =
     (case hm_get m k of Some acc_vec \<Rightarrow> hm_put k (acc_vec @ [v]) m | None \<Rightarrow> hm_put k [v] m)"

definition locked_accounts ::
    "'t alt_interface option \<Rightarrow> transaction_info \<Rightarrow> pubkey list \<times> pubkey list" where
  "locked_accounts alts tx =
     (case alts of
        None \<Rightarrow> (ti_writable_accounts tx, ti_readable_accounts tx)
      | Some a \<Rightarrow>
          fold (\<lambda>lookup (w, r). case alt_resolve a (alt_state a) lookup of (aw, ar) \<Rightarrow> (w @ aw, r @ ar))
            (ti_address_lookup_tables tx) (ti_writable_accounts tx, ti_readable_accounts tx))"

type_synonym fees_by_account = "(pubkey, prio_fees_data list) hashmap"

definition add_transaction_fees ::
    "'t alt_interface option \<Rightarrow> transaction_info \<Rightarrow> fees_by_account \<times> fees_by_account \<Rightarrow>
     fees_by_account \<times> fees_by_account" where
  "add_transaction_fees alts tx acc =
     (case acc of (write, read_write) \<Rightarrow>
        (let value = prio_fees_data_of tx; (w, r) = locked_accounts alts tx
         in (fold (push_value value) w write,
             fold (push_value value) r (fold (push_value value) w read_write))))"

definition convert_to_block_prio_data :: "prio_fees_data list \<Rightarrow> block_prio_data" where
  "convert_to_block_prio_data data =
     (let tx_count = word_of_nat (length data); cu = sum_list (List.map pd_cu_consumed data)
      in \<lparr>bd_transaction_data = data, bd_nb_non_vote_tx = tx_count, bd_nb_total_tx = tx_count,
          bd_non_vote_cu_consumed = cu, bd_total_cu_consumed = cu\<rparr>)"

definition store_account_fees ::
    "slot \<Rightarrow> pubkey \<times> block_prio_data \<Rightarrow> (pubkey, account_prio) hashmap \<Rightarrow>
     (pubkey, account_prio) hashmap" where
  "store_account_fees sl entry m =
     (case entry of (account, data) \<Rightarrow>
        (case hm_get m account of
           Some prio \<Rightarrow> hm_put account (bt_put sl data prio) m
         | None \<Rightarrow> hm_put account (bt_put sl data []) m))"

text \<open>\<open>pop_first\<close> while the first slot is not after the bound; then empty entries go.\<close>

definition cleanup_accounts :: "u64 \<Rightarrow> (pubkey, account_prio) hashmap \<Rightarrow> (pubkey, account_prio) hashmap"
where
  "cleanup_accounts min_slot m =
     map_retain (\<lambda>_ ap. ap \<noteq> []) (map_vals (\<lambda>_ ap. dropWhile (\<lambda>e. fst e \<le> min_slot) ap) m)"

record 'f account_prio_fees_stats =
  as_write_stats :: "'f prio_fees_stats"
  as_all_stats :: "'f prio_fees_stats"

record 'f account_prio_fees_update_message =
  am_slot :: slot
  am_accounts_data :: "(pubkey, 'f account_prio_fees_stats) hashmap"

fun account_stats ::
    "(u32 \<Rightarrow> 'f) \<Rightarrow> (pubkey, block_prio_data) hashmap \<Rightarrow> (pubkey \<times> block_prio_data) list \<Rightarrow>
     (pubkey, 'f account_prio_fees_stats) hashmap outcome" where
  "account_stats fraction write [] = Inr []"
| "account_stats fraction write ((account, data) # rest) =
     bind_outcome (case hm_get write account of
         Some write_data \<Rightarrow> calculate_stats fraction write_data
       | None \<Rightarrow> Inr prio_fees_stats_default) (\<lambda>ws.
       bind_outcome (calculate_stats fraction data) (\<lambda>als.
         bind_outcome (account_stats fraction write rest) (\<lambda>m.
           Inr ((account, \<lparr>as_write_stats = ws, as_all_stats = als\<rparr>) # m))))"

definition sorted_transactions :: "produced_block \<Rightarrow> transaction_info list" where
  "sorted_transactions block =
     sort_key ti_prioritization_fees (filter (\<lambda>x. \<not> ti_is_vote x) (pb_transactions block))"

definition account_prio_update ::
    "(u32 \<Rightarrow> 'f) \<Rightarrow> 't account_prio_store \<Rightarrow> produced_block \<Rightarrow>
     ('t account_prio_store \<times> 'f account_prio_fees_update_message) outcome" where
  "account_prio_update fraction s block =
     (let transactions = sorted_transactions block;
          alts = map_option (\<lambda>a. a\<lparr>alt_state := alt_reload a (alt_state a)
                   (concat (List.map ti_address_lookup_tables transactions))\<rparr>) (ap_lookup_tables s);
          (write0, read_write0) = fold (add_transaction_fees alts) transactions ([], []);
          write = map_vals (\<lambda>_. convert_to_block_prio_data) write0;
          read_write = map_vals (\<lambda>_. convert_to_block_prio_data) read_write0;
          writeonly = fold (store_account_fees (pb_slot block)) read_write
            (fold (store_account_fees (pb_slot block)) write (ap_writeonly s));
          min_slot_to_retain =
            saturating_sub (pb_slot block) (word_of_nat (ap_number_of_slots_to_save s));
          s' = s\<lparr>ap_all := cleanup_accounts min_slot_to_retain (ap_all s),
                 ap_writeonly := cleanup_accounts min_slot_to_retain writeonly,
                 ap_last_slot := pb_slot block,
                 ap_lookup_tables := alts\<rparr>
      in bind_outcome (account_stats fraction write read_write)
           (\<lambda>data. Inr (s', \<lparr>am_slot = pb_slot block, am_accounts_data = data\<rparr>)))"

definition latest_data :: "(pubkey, account_prio) hashmap \<Rightarrow> pubkey \<Rightarrow> block_prio_data" where
  "latest_data m account =
     (case hm_get m account of
        Some ap \<Rightarrow> (case bt_last ap of Some (_, v) \<Rightarrow> v | None \<Rightarrow> block_prio_data_default)
      | None \<Rightarrow> block_prio_data_default)"

definition get_latest_stats ::
    "(u32 \<Rightarrow> 'f) \<Rightarrow> 't account_prio_store \<Rightarrow> pubkey \<Rightarrow> (slot \<times> 'f account_prio_fees_stats) outcome"
where
  "get_latest_stats fraction s account =
     bind_outcome (calculate_stats fraction (latest_data (ap_writeonly s) account)) (\<lambda>ws.
       bind_outcome (calculate_stats fraction (latest_data (ap_all s) account)) (\<lambda>als.
         Inr (ap_last_slot s, \<lparr>as_write_stats = ws, as_all_stats = als\<rparr>)))"

definition n_last_data :: "nat \<Rightarrow> (pubkey, account_prio) hashmap \<Rightarrow> pubkey \<Rightarrow> block_prio_data" where
  "n_last_data nb m account =
     (case hm_get m account of Some ap \<Rightarrow> last_n_aggregate nb ap | None \<Rightarrow> block_prio_data_default)"

definition get_n_last_stats ::
    "(u32 \<Rightarrow> 'f) \<Rightarrow> 't account_prio_store \<Rightarrow> pubkey \<Rightarrow> nat \<Rightarrow> (slot \<times> 'f account_prio_fees_stats) outcome"
where
  "get_n_last_stats fraction s account nb =
     bind_outcome (calculate_stats fraction (n_last_data nb (ap_writeonly s) account)) (\<lambda>ws.
       bind_outcome (calculate_stats fraction (n_last_data nb (ap_all s) account)) (\<lambda>als.
         Inr (ap_last_slot s, \<lparr>as_write_stats = ws, as_all_stats = als\<rparr>)))"

text \<open>The service task handles processed blocks only.\<close>

definition account_priofees_step ::
    "(u32 \<Rightarrow> 'f) \<Rightarrow> 't account_prio_store \<Rightarrow> produced_block \<Rightarrow>
     ('t account_prio_store \<times> 'f account_prio_fees_update_message option) outcome" where
  "account_priofees_step fraction s block =
     (if \<not> is_processed (pb_commitment_config block) then Inr (s, None)
      else bind_outcome (account_prio_update fraction s block) (\<lambda>(s', m). Inr (s', Some m)))"

section \<open>The percentiles are well defined\<close>

text \<open>Compute units consumed by the transactions up to an index, as a natural number.\<close>

definition cu_upto :: "prio_fees_data list \<Rightarrow> nat \<Rightarrow> nat" where
  "cu_upto xs i = sum_list (List.map (\<lambda>d. unat (pd_cu_consumed d)) (take (Suc i) xs))"

definition total_cu :: "prio_fees_data list \<Rightarrow> nat" where
  "total_cu xs = sum_list (List.map (\<lambda>d. unat (pd_cu_consumed d)) xs)"

lemma cu_upto_Suc: "Suc i < length xs \<Longrightarrow> cu_upto xs (Suc i) = cu_upto xs i + unat (pd_cu_consumed (xs ! Suc i))"
  by (simp add: cu_upto_def take_Suc_conv_app_nth)

lemma cu_upto_le_total: "cu_upto xs i \<le> total_cu xs"
proof -
  have "total_cu xs = cu_upto xs i + sum_list (List.map (\<lambda>d. unat (pd_cu_consumed d)) (drop (Suc i) xs))"
    unfolding total_cu_def cu_upto_def by (metis append_take_drop_id map_append sum_list_append)
  then show ?thesis by simp
qed

lemma cu_upto_last: "xs \<noteq> [] \<Longrightarrow> cu_upto xs (length xs - 1) = total_cu xs"
  by (simp add: cu_upto_def total_cu_def)

lemma unat_sum_list:
  "sum_list (List.map unat ws) < 18446744073709551616 \<Longrightarrow> unat (sum_list ws :: u64) = sum_list (List.map unat ws)"
  by (induction ws) (simp_all add: unat_u64_add)

lemma sorted_fees_facts:
  "sorted_fees data \<noteq> []" "sorted (List.map pd_priority (sorted_fees data))"
  "total_cu (sorted_fees data) = total_cu data"
proof -
  show "sorted_fees data \<noteq> []"
    using length_sort [of pd_priority data] by (cases "data = []") (auto simp: sorted_fees_def simp del: length_sort)
  show "sorted (List.map pd_priority (sorted_fees data))" by (simp add: sorted_fees_def)
  have "total_cu (sort_key pd_priority data) = total_cu data"
    unfolding total_cu_def by (simp flip: sum_mset_sum_list)
  then show "total_cu (sorted_fees data) = total_cu data"
    by (simp add: sorted_fees_def total_cu_def prio_fees_data_default_def)
qed

lemma collect_outcomes_Inr: "collect_outcomes (List.map (\<lambda>x. Inr (f x)) xs) = Inr (List.map f xs)"
  by (induction xs) simp_all

lemma fees_by_index_ok:
  assumes "xs \<noteq> []"
  shows "collect_outcomes (List.map (fee_by_index xs) ps) =
    Inr (List.map (\<lambda>p. \<lparr>fp_percentile = word_of_nat p,
      fp_fees = pd_priority (xs ! min (length xs * p div 100) (length xs - 1))\<rparr>) ps)"
proof -
  have "fee_by_index xs p = Inr \<lparr>fp_percentile = word_of_nat p,
      fp_fees = pd_priority (xs ! min (length xs * p div 100) (length xs - 1))\<rparr>" for p
  proof -
    have "min (length xs * p div 100) (length xs - 1) < length xs"
      using assms by (cases xs) auto
    then show ?thesis by (simp add: fee_by_index_def Let_def del: One_nat_def)
  qed
  then have "fee_by_index xs = (\<lambda>p. Inr \<lparr>fp_percentile = word_of_nat p,
      fp_fees = pd_priority (xs ! min (length xs * p div 100) (length xs - 1))\<rparr>)"
    by (rule ext)
  then show ?thesis by (simp only: collect_outcomes_Inr)
qed

text \<open>The index the loop stops at is the first one whose transactions reach the target.\<close>

definition first_reaching :: "prio_fees_data list \<Rightarrow> nat \<Rightarrow> nat \<Rightarrow> bool" where
  "first_reaching xs target i \<longleftrightarrow>
     i < length xs \<and> target \<le> cu_upto xs i \<and> (\<forall>j < i. cu_upto xs j < target)"

lemma first_reaching_mono:
  "first_reaching xs t i \<Longrightarrow> first_reaching xs t' i' \<Longrightarrow> t \<le> t' \<Longrightarrow> i \<le> i'"
  by (meson first_reaching_def leD le_trans not_le)

lemma advance_cu_ok:
  "index < length xs \<Longrightarrow> unat agg = cu_upto xs index \<Longrightarrow> total_cu xs < 18446744073709551616 \<Longrightarrow>
   unat target \<le> total_cu xs \<Longrightarrow> \<forall>j < index. cu_upto xs j < unat target \<Longrightarrow>
   \<exists>agg' i. advance_cu xs target agg index = Inr (agg', i) \<and> unat agg' = cu_upto xs i \<and>
     first_reaching xs (unat target) i"
proof (induction xs target agg index rule: advance_cu.induct)
  case (1 xs target agg index)
  show ?case
  proof (cases "agg < target")
    case False
    then show ?thesis
      using "1.prems" by (simp add: advance_cu.simps first_reaching_def word_less_nat_alt)
  next
    case True
    then have lt: "cu_upto xs index < unat target" using "1.prems"(2) by (simp add: word_less_nat_alt)
    have "xs \<noteq> []" using "1.prems"(1) by auto
    then have "Suc index < length xs"
      using lt "1.prems"(1,4) cu_upto_last [of xs] by (cases "index = length xs - 1") auto
    moreover from this have "unat (agg + pd_cu_consumed (xs ! Suc index)) = cu_upto xs (Suc index)"
      using "1.prems"(2,3) cu_upto_le_total [of xs "Suc index"]
      by (simp add: cu_upto_Suc unat_u64_add)
    moreover have "\<forall>j < Suc index. cu_upto xs j < unat target"
      using lt "1.prems"(5) by (auto simp: less_Suc_eq)
    ultimately show ?thesis
      using "1.IH" [OF True] "1.prems"(3,4) True by (simp add: advance_cu.simps [of xs target agg])
  qed
qed

definition cu_target :: "prio_fees_data list \<Rightarrow> nat \<Rightarrow> nat" where
  "cu_target xs p = total_cu xs * p div 100"

lemma cu_target_mono: "p \<le> p' \<Longrightarrow> cu_target xs p \<le> cu_target xs p'"
  by (simp add: cu_target_def div_le_mono)

lemma unat_cu_target:
  assumes "unat cu_sum = total_cu xs" and "total_cu xs * 100 < 18446744073709551616" and "p \<le> 100"
  shows "unat (cu_sum * word_of_nat p div 100 :: u64) = cu_target xs p" and "cu_target xs p \<le> total_cu xs"
proof -
  have "unat (word_of_nat p :: u64) = p" using assms(3) by (simp add: unat_u64_of_nat)
  moreover have "total_cu xs * p < 18446744073709551616"
    using assms(2,3) by (meson le_less_trans mult_le_mono2)
  ultimately have "unat (cu_sum * word_of_nat p) = total_cu xs * p"
    using assms(1) by (simp add: unat_word_ariths)
  then show "unat (cu_sum * word_of_nat p div 100 :: u64) = cu_target xs p"
    by (simp add: unat_div cu_target_def)
  have "total_cu xs * p div 100 \<le> total_cu xs * 100 div 100"
    using assms(3) by (intro div_le_mono mult_le_mono2)
  then show "cu_target xs p \<le> total_cu xs" by (simp add: cu_target_def)
qed

lemma fees_by_cu_ok:
  assumes "unat cu_sum = total_cu xs" and "total_cu xs * 100 < 18446744073709551616"
  shows "index < length xs \<Longrightarrow> unat agg = cu_upto xs index \<Longrightarrow> sorted ps \<Longrightarrow> \<forall>p \<in> set ps. p \<le> 100 \<Longrightarrow>
    \<forall>p \<in> set ps. \<forall>j < index. cu_upto xs j < cu_target xs p \<Longrightarrow>
    \<exists>is. fees_by_cu xs cu_sum ps agg index =
        Inr (map2 (\<lambda>p i. \<lparr>fp_percentile = word_of_nat p, fp_fees = pd_priority (xs ! i)\<rparr>) ps is) \<and>
      list_all2 (\<lambda>p i. first_reaching xs (cu_target xs p) i) ps is"
proof (induction ps arbitrary: agg index)
  case (Cons p ps)
  note t = unat_cu_target [OF assms, of p]
  obtain agg' i where a: "advance_cu xs (cu_sum * word_of_nat p div 100) agg index = Inr (agg', i)"
      "unat agg' = cu_upto xs i" and i: "first_reaching xs (cu_target xs p) i"
    using advance_cu_ok [of index xs agg "cu_sum * word_of_nat p div 100"] Cons.prems t assms(2)
    by auto
  have "\<forall>q \<in> set ps. \<forall>j < i. cu_upto xs j < cu_target xs q"
  proof (intro ballI allI impI)
    fix q j assume "q \<in> set ps" "j < i"
    then have "cu_target xs p \<le> cu_target xs q" "cu_upto xs j < cu_target xs p"
      using Cons.prems(3) i by (auto simp: first_reaching_def intro: cu_target_mono)
    then show "cu_upto xs j < cu_target xs q" by simp
  qed
  moreover have "i < length xs" using i by (simp add: first_reaching_def)
  ultimately obtain "is" where "fees_by_cu xs cu_sum ps agg' i =
        Inr (map2 (\<lambda>p i. \<lparr>fp_percentile = word_of_nat p, fp_fees = pd_priority (xs ! i)\<rparr>) ps is)"
      "list_all2 (\<lambda>p i. first_reaching xs (cu_target xs p) i) ps is"
    using Cons.IH [of i agg'] a(2) Cons.prems(3,4) by auto
  then have "fees_by_cu xs cu_sum (p # ps) agg index = Inr (map2 (\<lambda>p i. \<lparr>fp_percentile = word_of_nat p,
      fp_fees = pd_priority (xs ! i)\<rparr>) (p # ps) (i # is)) \<and>
      list_all2 (\<lambda>p i. first_reaching xs (cu_target xs p) i) (p # ps) (i # is)"
    using a(1) i \<open>i < length xs\<close> by simp
  then show ?case by blast
qed simp

lemma percentiles_ok:
  assumes "total_cu data * 100 < 18446744073709551616"
  shows "\<exists>is. list_all2 (\<lambda>p i. first_reaching (sorted_fees data) (cu_target (sorted_fees data) p) i)
      percentile_steps is \<and>
    calculate_supp_percentiles fraction data = Inr
      \<lparr>pc_by_tx = List.map (\<lambda>p. pd_priority (sorted_fees data !
          min (length (sorted_fees data) * p div 100) (length (sorted_fees data) - 1))) percentile_steps,
       pc_by_tx_percentiles = List.map (\<lambda>p. fraction (word_of_nat p)) percentile_steps,
       pc_by_cu = List.map (\<lambda>i. pd_priority (sorted_fees data ! i)) is,
       pc_by_cu_percentiles = List.map (\<lambda>p. fraction (word_of_nat p)) percentile_steps\<rparr>"
proof -
  let ?xs = "sorted_fees data"
  note f = sorted_fees_facts [of data]
  have total: "total_cu ?xs * 100 < 18446744073709551616" using assms f(3) by simp
  have sum: "unat (sum_list (List.map pd_cu_consumed ?xs)) = total_cu ?xs"
    using total unat_sum_list [of "List.map pd_cu_consumed ?xs"] by (simp add: total_cu_def comp_def)
  have first: "unat (pd_cu_consumed (?xs ! 0)) = cu_upto ?xs 0"
    using f(1) by (simp add: cu_upto_def take_Suc hd_conv_nth)
  have "sorted percentile_steps" "\<forall>p \<in> set percentile_steps. p \<le> 100"
    by (auto simp: percentile_steps_def sorted_iff_nth_mono)
  then obtain "is" where r: "fees_by_cu ?xs (sum_list (List.map pd_cu_consumed ?xs)) percentile_steps
        (pd_cu_consumed (?xs ! 0)) 0 =
        Inr (map2 (\<lambda>p i. \<lparr>fp_percentile = word_of_nat p, fp_fees = pd_priority (?xs ! i)\<rparr>) percentile_steps is)"
      "list_all2 (\<lambda>p i. first_reaching ?xs (cu_target ?xs p) i) percentile_steps is"
    using fees_by_cu_ok [OF sum total, of 0 "pd_cu_consumed (?xs ! 0)" percentile_steps] f(1) first
    by auto
  have len: "length percentile_steps = length is" using r(2) by (rule list_all2_lengthD)
  have fees: "List.map fp_fees (map2 (\<lambda>p i. \<lparr>fp_percentile = word_of_nat p, fp_fees = pd_priority (?xs ! i)\<rparr>)
      ps js) = List.map (\<lambda>i. pd_priority (?xs ! i)) js" if "length ps = length js" for ps :: "nat list" and js
    using that by (induction ps js rule: list_induct2) simp_all
  have percents: "List.map (fraction \<circ> fp_percentile) (map2 (\<lambda>p i. \<lparr>fp_percentile = word_of_nat p,
      fp_fees = pd_priority (?xs ! i)\<rparr>) ps js) = List.map (\<lambda>p. fraction (word_of_nat p)) ps"
    if "length ps = length js" for ps :: "nat list" and js
    using that by (induction ps js rule: list_induct2) simp_all
  show ?thesis
    using r f(1) fees [OF len] percents [OF len]
    by (intro exI [of _ "is"]) (simp add: calculate_supp_percentiles_def Let_def fees_by_index_ok comp_def)
qed

section \<open>Fees by account\<close>

lemma push_value_inv: "hm_inv m \<Longrightarrow> hm_inv (push_value v k m)"
  by (simp add: push_value_def hm_inv_put split: option.split)

lemma push_values_inv: "hm_inv m \<Longrightarrow> hm_inv (fold (push_value v) ks m)"
  by (induction ks arbitrary: m) (simp_all add: push_value_inv)

text \<open>The fees of an account; an account without an entry has none.\<close>

definition fees_of :: "fees_by_account \<Rightarrow> pubkey \<Rightarrow> prio_fees_data list" where
  "fees_of m a = unwrap_or (hm_get m a) []"

definition entries_nonempty :: "fees_by_account \<Rightarrow> bool" where
  "entries_nonempty m \<longleftrightarrow> hm_inv m \<and> (\<forall>a. hm_get m a \<noteq> Some [])"

lemma entries_nonempty_get:
  "entries_nonempty m \<Longrightarrow> hm_get m a = (if fees_of m a = [] then None else Some (fees_of m a))"
  by (cases "hm_get m a") (auto simp: entries_nonempty_def fees_of_def)

lemma push_value_entries: "entries_nonempty m \<Longrightarrow> entries_nonempty (push_value v k m)"
  by (auto simp: entries_nonempty_def push_value_inv)
    (auto simp: push_value_def hm.get_put split: option.splits if_splits)

lemma push_value_fees: "hm_inv m \<Longrightarrow>
   fees_of (push_value v k m) a = fees_of m a @ (if a = k then [v] else [])"
  by (simp add: fees_of_def push_value_def hm.get_put split: option.split)

lemma push_values_fees: "hm_inv m \<Longrightarrow>
   fees_of (fold (push_value v) ks m) a = fees_of m a @ replicate (count_list ks a) v"
proof (induction ks arbitrary: m)
  case (Cons k ks)
  then show ?case
    by (auto simp: push_value_inv push_value_fees replicate_app_Cons_same)
qed simp

lemma push_values_entries: "entries_nonempty m \<Longrightarrow> entries_nonempty (fold (push_value v) ks m)"
  by (induction ks arbitrary: m) (simp_all add: push_value_entries)

text \<open>The fees the transactions pay on an account, with one entry for each time it is locked.\<close>

definition write_fees :: "'t alt_interface option \<Rightarrow> transaction_info list \<Rightarrow> pubkey \<Rightarrow> prio_fees_data list"
where
  "write_fees alts txs a = concat (List.map (\<lambda>tx.
     replicate (count_list (fst (locked_accounts alts tx)) a) (prio_fees_data_of tx)) txs)"

definition lock_fees :: "'t alt_interface option \<Rightarrow> transaction_info list \<Rightarrow> pubkey \<Rightarrow> prio_fees_data list"
where
  "lock_fees alts txs a = concat (List.map (\<lambda>tx.
     replicate (count_list (fst (locked_accounts alts tx) @ snd (locked_accounts alts tx)) a)
       (prio_fees_data_of tx)) txs)"

lemma fees_of_transactions:
  "entries_nonempty w \<Longrightarrow> entries_nonempty rw \<Longrightarrow>
   entries_nonempty (fst (fold (add_transaction_fees alts) txs (w, rw))) \<and>
   entries_nonempty (snd (fold (add_transaction_fees alts) txs (w, rw))) \<and>
   fees_of (fst (fold (add_transaction_fees alts) txs (w, rw))) a = fees_of w a @ write_fees alts txs a \<and>
   fees_of (snd (fold (add_transaction_fees alts) txs (w, rw))) a = fees_of rw a @ lock_fees alts txs a"
proof (induction txs arbitrary: w rw)
  case Nil
  then show ?case by (simp add: write_fees_def lock_fees_def)
next
  case (Cons tx txs)
  obtain aw ar where l: "locked_accounts alts tx = (aw, ar)" by fastforce
  let ?v = "prio_fees_data_of tx"
  let ?w = "fold (push_value ?v) aw w" and ?rw = "fold (push_value ?v) ar (fold (push_value ?v) aw rw)"
  have "add_transaction_fees alts tx (w, rw) = (?w, ?rw)"
    by (simp add: add_transaction_fees_def l Let_def)
  moreover have "entries_nonempty ?w" "entries_nonempty ?rw"
    using Cons.prems by (simp_all add: push_values_entries)
  moreover have "hm_inv w" "hm_inv rw" using Cons.prems by (simp_all add: entries_nonempty_def)
  then have "fees_of ?w a = fees_of w a @ replicate (count_list aw a) ?v"
    "fees_of ?rw a = fees_of rw a @ replicate (count_list (aw @ ar) a) ?v"
    by (simp_all add: push_values_fees push_values_inv replicate_add)
  ultimately show ?case
    using Cons.IH [of ?w ?rw] by (simp add: l write_fees_def lock_fees_def)
qed

lemma entries_nonempty_Nil: "entries_nonempty []" "fees_of [] a = []"
  by (simp_all add: entries_nonempty_def fees_of_def)

lemma account_stats_get:
  "account_stats fraction write rw = Inr m \<Longrightarrow>
   (case hm_get rw a of
      None \<Rightarrow> hm_get m a = None
    | Some data \<Rightarrow> \<exists>st. hm_get m a = Some st \<and> calculate_stats fraction data = Inr (as_all_stats st) \<and>
        (case hm_get write a of
           Some wd \<Rightarrow> calculate_stats fraction wd = Inr (as_write_stats st)
         | None \<Rightarrow> as_write_stats st = prio_fees_stats_default))"
proof (induction rw arbitrary: m)
  case (Cons e rw)
  obtain account data where e: "e = (account, data)" by (cases e)
  obtain ws als m' where r: "(case hm_get write account of Some wd \<Rightarrow> calculate_stats fraction wd
        | None \<Rightarrow> Inr prio_fees_stats_default) = Inr ws"
      "calculate_stats fraction data = Inr als" "account_stats fraction write rw = Inr m'"
      "m = (account, \<lparr>as_write_stats = ws, as_all_stats = als\<rparr>) # m'"
    using Cons.prems by (auto simp: e)
  show ?case
  proof (cases "a = account")
    case True
    with r show ?thesis by (cases "hm_get write account") (auto simp: e hm_get_def)
  next
    case False
    then have "hm_get (e # rw) a = hm_get rw a" "hm_get m a = hm_get m' a"
      by (simp_all add: e r(4) hm_get_def)
    with Cons.IH [OF r(3)] show ?thesis by (cases "hm_get rw a") auto
  qed
qed (simp add: hm_get_def)

definition reloaded_tables :: "'t account_prio_store \<Rightarrow> produced_block \<Rightarrow> 't alt_interface option" where
  "reloaded_tables s block = map_option (\<lambda>a. a\<lparr>alt_state := alt_reload a (alt_state a)
     (concat (List.map ti_address_lookup_tables (sorted_transactions block)))\<rparr>) (ap_lookup_tables s)"

lemma account_prio_update_parts:
  assumes "account_prio_update fraction s block = Inr (s', msg)"
  obtains write0 read_write0 where
    "fold (add_transaction_fees (reloaded_tables s block)) (sorted_transactions block) ([], []) =
      (write0, read_write0)"
    and "account_stats fraction (map_vals (\<lambda>_. convert_to_block_prio_data) write0)
      (map_vals (\<lambda>_. convert_to_block_prio_data) read_write0) = Inr (am_accounts_data msg)"
    and "am_slot msg = pb_slot block"
    and "s' = s\<lparr>ap_all := cleanup_accounts
          (saturating_sub (pb_slot block) (word_of_nat (ap_number_of_slots_to_save s))) (ap_all s),
        ap_writeonly := cleanup_accounts
          (saturating_sub (pb_slot block) (word_of_nat (ap_number_of_slots_to_save s)))
          (fold (store_account_fees (pb_slot block)) (map_vals (\<lambda>_. convert_to_block_prio_data) read_write0)
            (fold (store_account_fees (pb_slot block)) (map_vals (\<lambda>_. convert_to_block_prio_data) write0)
              (ap_writeonly s))),
        ap_last_slot := pb_slot block, ap_lookup_tables := reloaded_tables s block\<rparr>"
proof -
  obtain write0 read_write0 where f:
    "fold (add_transaction_fees (reloaded_tables s block)) (sorted_transactions block) ([], []) =
      (write0, read_write0)"
    by fastforce
  with assms show thesis
    by (intro that [OF f]) (auto simp: account_prio_update_def Let_def reloaded_tables_def)
qed

text \<open>The maps of the store.\<close>

definition prio_map_inv :: "(pubkey, account_prio) hashmap \<Rightarrow> bool" where
  "prio_map_inv m \<longleftrightarrow> hm_inv m \<and> (\<forall>a ap. hm_get m a = Some ap \<longrightarrow> bt_inv ap)"

definition slots_of :: "(pubkey, account_prio) hashmap \<Rightarrow> pubkey \<Rightarrow> account_prio" where
  "slots_of m a = unwrap_or (hm_get m a) []"

lemma prio_map_inv_slots: "prio_map_inv m \<Longrightarrow> bt_inv (slots_of m a)"
  by (cases "hm_get m a") (auto simp: prio_map_inv_def slots_of_def)

lemma store_account_fees_eq:
  "store_account_fees sl (a, d) m = hm_put a (bt_put sl d (slots_of m a)) m"
  by (simp add: store_account_fees_def slots_of_def split: option.split)

lemma store_account_fees_inv: "prio_map_inv m \<Longrightarrow> prio_map_inv (store_account_fees sl e m)"
proof (cases e)
  case (Pair a d)
  assume m: "prio_map_inv m"
  have "bt_inv (bt_put sl d (slots_of m a))" using prio_map_inv_slots [OF m] by (rule bt_inv_put)
  with m show ?thesis
    by (auto simp: Pair store_account_fees_eq prio_map_inv_def hm_inv_put hm.get_put)
qed

lemma store_all_inv: "prio_map_inv m \<Longrightarrow> prio_map_inv (fold (store_account_fees sl) es m)"
  by (induction es arbitrary: m) (simp_all add: store_account_fees_inv)

lemma store_all_slots:
  "prio_map_inv m \<Longrightarrow> hm_inv es \<Longrightarrow>
   slots_of (fold (store_account_fees sl) es m) a =
     (case hm_get es a of None \<Rightarrow> slots_of m a | Some d \<Rightarrow> bt_put sl d (slots_of m a))"
proof (induction es arbitrary: m)
  case (Cons e es)
  obtain b d where e: "e = (b, d)" by (cases e)
  let ?m = "store_account_fees sl e m"
  have m: "slots_of ?m c = (if c = b then bt_put sl d (slots_of m b) else slots_of m c)" for c
    using Cons.prems(1) by (simp add: e store_account_fees_eq slots_of_def prio_map_inv_def hm.get_put)
  have "hm_inv es" "hm_get es b = None"
    using Cons.prems(2) by (auto simp: e hm_inv_def map_keys_def hm_get_def map_of_eq_None_iff)
  then show ?case
    using Cons.IH [OF store_account_fees_inv [OF Cons.prems(1)]] m
    by (simp add: e hm_get_def split: option.split)
qed simp

lemma bt_get_dropWhile:
  "bt_inv m \<Longrightarrow> bt_get (dropWhile (\<lambda>e. fst e \<le> b) m) k = (if b < k then bt_get m k else None)"
proof (induction m)
  case (Cons e m)
  have rest: "bt_get m j = None" if "j \<le> fst e" for j
    using Cons.prems that by (auto simp: bt_inv_def map_keys_def bt_get_def map_of_eq_None_iff)
  have "bt_inv m" using Cons.prems by (auto simp: bt_inv_def map_keys_def)
  with Cons.IH rest [of k] show ?case
    by (cases e) (auto simp: bt_get_def)
qed simp

lemma cleanup_slots:
  assumes "prio_map_inv m"
  shows "bt_get (slots_of (cleanup_accounts b m) a) k = (if b < k then bt_get (slots_of m a) k else None)"
proof -
  let ?m = "map_vals (\<lambda>_ ap. dropWhile (\<lambda>e. fst e \<le> b) ap) m"
  have inv: "hm_inv ?m" using assms by (simp add: prio_map_inv_def hm_inv_vals)
  show ?thesis
  proof (cases "hm_get m a")
    case None
    then show ?thesis
      using hm_get_retain [OF inv, of "\<lambda>_ ap. ap \<noteq> []" a]
      by (simp add: cleanup_accounts_def slots_of_def hm_get_vals)
  next
    case (Some ap)
    then have "bt_inv ap" using assms by (simp add: prio_map_inv_def)
    have "slots_of (cleanup_accounts b m) a = dropWhile (\<lambda>e. fst e \<le> b) ap"
      using hm_get_retain [OF inv, of "\<lambda>_ ap. ap \<noteq> []" a] Some
      by (simp add: cleanup_accounts_def slots_of_def hm_get_vals del: dropWhile_eq_Nil_conv)
    moreover have "slots_of m a = ap" by (simp add: slots_of_def Some)
    ultimately show ?thesis using bt_get_dropWhile [OF \<open>bt_inv ap\<close>, of b k] by simp
  qed
qed

lemma cleanup_inv: "prio_map_inv m \<Longrightarrow> prio_map_inv (cleanup_accounts b m)"
proof -
  assume m: "prio_map_inv m"
  let ?m = "map_vals (\<lambda>_ ap. dropWhile (\<lambda>e. fst e \<le> b) ap) m"
  have inv: "hm_inv ?m" using m by (simp add: prio_map_inv_def hm_inv_vals)
  have "bt_inv (dropWhile p ap)" if "bt_inv ap" for p and ap :: account_prio
    using that by (induction ap) (auto simp: bt_inv_def map_keys_def)
  with m inv show "prio_map_inv (cleanup_accounts b m)"
    by (auto simp: prio_map_inv_def cleanup_accounts_def hm_inv_retain hm_get_retain hm_get_vals
        split: option.splits if_splits)
qed

text \<open>What an update does to the two maps and puts into its message, account by account.\<close>

lemma account_prio_update_ok:
  assumes "account_prio_update fraction s block = Inr (s', msg)" and "prio_map_inv (ap_writeonly s)"
    and "alts = reloaded_tables s block" and "txs = sorted_transactions block"
    and "low = saturating_sub (pb_slot block) (word_of_nat (ap_number_of_slots_to_save s))"
  shows "ap_all s' = cleanup_accounts low (ap_all s)" and "prio_map_inv (ap_writeonly s')"
    and "bt_get (slots_of (ap_writeonly s') a) k =
      (if k \<le> low then None
       else if k = pb_slot block \<and> lock_fees alts txs a \<noteq> []
       then Some (convert_to_block_prio_data (lock_fees alts txs a))
       else bt_get (slots_of (ap_writeonly s) a) k)"
    and "lock_fees alts txs a = [] \<Longrightarrow> hm_get (am_accounts_data msg) a = None"
    and "lock_fees alts txs a \<noteq> [] \<Longrightarrow> \<exists>st. hm_get (am_accounts_data msg) a = Some st \<and>
      calculate_stats fraction (convert_to_block_prio_data (lock_fees alts txs a)) = Inr (as_all_stats st) \<and>
      (if write_fees alts txs a = [] then as_write_stats st = prio_fees_stats_default
       else calculate_stats fraction (convert_to_block_prio_data (write_fees alts txs a)) =
         Inr (as_write_stats st))"
proof -
  obtain w0 rw0 where f: "fold (add_transaction_fees alts) txs ([], []) = (w0, rw0)"
    and stats: "account_stats fraction (map_vals (\<lambda>_. convert_to_block_prio_data) w0)
      (map_vals (\<lambda>_. convert_to_block_prio_data) rw0) = Inr (am_accounts_data msg)"
    and s': "s' = s\<lparr>ap_all := cleanup_accounts low (ap_all s),
        ap_writeonly := cleanup_accounts low
          (fold (store_account_fees (pb_slot block)) (map_vals (\<lambda>_. convert_to_block_prio_data) rw0)
            (fold (store_account_fees (pb_slot block)) (map_vals (\<lambda>_. convert_to_block_prio_data) w0)
              (ap_writeonly s))),
        ap_last_slot := pb_slot block, ap_lookup_tables := alts\<rparr>"
    using assms(1) unfolding assms(3-5) by (rule account_prio_update_parts)
  have ne: "entries_nonempty w0" "entries_nonempty rw0"
    and fees: "fees_of w0 b = write_fees alts txs b" "fees_of rw0 b = lock_fees alts txs b" for b
    using fees_of_transactions [OF entries_nonempty_Nil(1) entries_nonempty_Nil(1), of alts txs] f
    by (simp_all add: entries_nonempty_Nil(2))
  note get = entries_nonempty_get [OF ne(1)] entries_nonempty_get [OF ne(2)]
  have sub: "lock_fees alts txs a = [] \<Longrightarrow> write_fees alts txs a = []"
    by (auto simp: lock_fees_def write_fees_def)
  let ?w = "map_vals (\<lambda>_. convert_to_block_prio_data) w0"
  let ?rw = "map_vals (\<lambda>_. convert_to_block_prio_data) rw0"
  let ?m1 = "fold (store_account_fees (pb_slot block)) ?w (ap_writeonly s)"
  have inv: "hm_inv ?w" "hm_inv ?rw" using ne by (simp_all add: entries_nonempty_def hm_inv_vals)
  have m1: "prio_map_inv ?m1" using assms(2) by (rule store_all_inv)
  have m2: "prio_map_inv (fold (store_account_fees (pb_slot block)) ?rw ?m1)"
    using m1 by (rule store_all_inv)
  show "ap_all s' = cleanup_accounts low (ap_all s)" by (simp add: s')
  show "prio_map_inv (ap_writeonly s')" using cleanup_inv [OF m2] by (simp add: s')
  show "bt_get (slots_of (ap_writeonly s') a) k =
      (if k \<le> low then None
       else if k = pb_slot block \<and> lock_fees alts txs a \<noteq> []
       then Some (convert_to_block_prio_data (lock_fees alts txs a))
       else bt_get (slots_of (ap_writeonly s) a) k)"
    using cleanup_slots [OF m2, of low a k] sub
    by (auto simp: s' store_all_slots [OF m1 inv(2)] store_all_slots [OF assms(2) inv(1)] hm_get_vals
        get fees bt_get_put not_le)
  show "lock_fees alts txs a = [] \<Longrightarrow> hm_get (am_accounts_data msg) a = None"
    using account_stats_get [OF stats, of a] by (simp add: hm_get_vals get fees)
  show "lock_fees alts txs a \<noteq> [] \<Longrightarrow> \<exists>st. hm_get (am_accounts_data msg) a = Some st \<and>
      calculate_stats fraction (convert_to_block_prio_data (lock_fees alts txs a)) = Inr (as_all_stats st) \<and>
      (if write_fees alts txs a = [] then as_write_stats st = prio_fees_stats_default
       else calculate_stats fraction (convert_to_block_prio_data (write_fees alts txs a)) =
         Inr (as_write_stats st))"
    using account_stats_get [OF stats, of a] by (auto simp: hm_get_vals get fees split: if_splits)
qed

lemma fold_resolve:
  "fold (\<lambda>lookup (w, r). case f lookup of (aw, ar) \<Rightarrow> (w @ aw, r @ ar)) ls (w0, r0) =
     (w0 @ concat (List.map (fst \<circ> f) ls), r0 @ concat (List.map (snd \<circ> f) ls))"
  by (induction ls arbitrary: w0 r0) (auto split: prod.split)

context address_lookup_table_interface
begin

text \<open>After the reload at the start of an update, the accounts of a transaction are the ones it
  names itself and the ones its lookups really name.\<close>

lemma locked_after_reload:
  assumes "invar t" and "ap_lookup_tables s = Some \<lparr>alt_state = t, alt_reload = reload, alt_resolve = resolve\<rparr>"
    and "tx \<in> set (sorted_transactions block)"
    and "\<forall>m \<in> set (ti_address_lookup_tables tx). valid m"
  shows "locked_accounts (reloaded_tables s block) tx =
    (ti_writable_accounts tx @ concat (List.map (fst \<circ> truth) (ti_address_lookup_tables tx)),
     ti_readable_accounts tx @ concat (List.map (snd \<circ> truth) (ti_address_lookup_tables tx)))"
proof -
  let ?ms = "concat (List.map ti_address_lookup_tables (sorted_transactions block))"
  have "resolve (reload t ?ms) m = truth m" if "m \<in> set (ti_address_lookup_tables tx)" for m
    using that assms(1,3,4) by (intro reload_resolves) auto
  then have "concat (List.map (g \<circ> resolve (reload t ?ms)) (ti_address_lookup_tables tx)) =
      concat (List.map (g \<circ> truth) (ti_address_lookup_tables tx))" for g :: "_ \<Rightarrow> pubkey list"
    by (intro arg_cong [of _ _ concat] map_cong) auto
  then show ?thesis
    by (simp add: locked_accounts_def reloaded_tables_def assms(2) fold_resolve)
qed

end

section \<open>Sequences of blocks\<close>

fun account_priofees_run ::
    "(u32 \<Rightarrow> 'f) \<Rightarrow> 't account_prio_store \<Rightarrow> produced_block list \<Rightarrow> 't account_prio_store outcome" where
  "account_priofees_run fraction s [] = Inr s"
| "account_priofees_run fraction s (b # bs) =
     bind_outcome (account_priofees_step fraction s b) (\<lambda>(s', _). account_priofees_run fraction s' bs)"

lemma run_all_empty:
  "account_priofees_run fraction s bs = Inr s' \<Longrightarrow> ap_all s = [] \<Longrightarrow> prio_map_inv (ap_writeonly s) \<Longrightarrow>
   ap_all s' = [] \<and> prio_map_inv (ap_writeonly s')"
proof (induction bs arbitrary: s)
  case (Cons b bs)
  obtain s1 m where s1: "account_priofees_step fraction s b = Inr (s1, m)"
      "account_priofees_run fraction s1 bs = Inr s'"
    using Cons.prems(1) by auto
  have "ap_all s1 = [] \<and> prio_map_inv (ap_writeonly s1)"
  proof (cases "is_processed (pb_commitment_config b)")
    case True
    then obtain msg where "account_prio_update fraction s b = Inr (s1, msg)"
      using s1(1) by (auto simp: account_priofees_step_def)
    from account_prio_update_ok(1,2) [OF this Cons.prems(3) refl refl refl] Cons.prems(2)
    show ?thesis by (simp add: cleanup_accounts_def map_vals_def map_retain_def)
  next
    case False
    with s1(1) Cons.prems show ?thesis by (simp add: account_priofees_step_def)
  qed
  with Cons.IH [OF s1(2)] show ?case by blast
qed simp

section \<open>Properties\<close>

text \<open>C36: The percentile computation never runs off the end of the transactions and computes what it
  promises: when a hundred times the compute units of the block fit a \<open>u64\<close>, both curves have 21
  non-decreasing points; the fee at p percent of the transactions is the fee at that rank, and the
  fee at p percent of the compute units is the fee of the first transaction, by rising fee, up to
  which the transactions consumed that share.\<close>

theorem percentiles_characterised:
  assumes "total_cu data * 100 < 18446744073709551616"
  shows "\<exists>pc. calculate_supp_percentiles fraction data = Inr pc \<and>
    length (pc_by_tx pc) = 21 \<and> length (pc_by_cu pc) = 21 \<and>
    sorted (pc_by_tx pc) \<and> sorted (pc_by_cu pc) \<and>
    (\<forall>k < 21. pc_by_tx pc ! k = pd_priority (sorted_fees data !
      min (length (sorted_fees data) * (5 * k) div 100) (length (sorted_fees data) - 1))) \<and>
    (\<forall>k < 21. \<exists>i < length (sorted_fees data). pc_by_cu pc ! k = pd_priority (sorted_fees data ! i) \<and>
      total_cu data * (5 * k) div 100 \<le> cu_upto (sorted_fees data) i \<and>
      (\<forall>j < i. cu_upto (sorted_fees data) j < total_cu data * (5 * k) div 100))"
proof -
  let ?xs = "sorted_fees data"
  let ?rank = "\<lambda>p. min (length ?xs * p div 100) (length ?xs - 1)"
  note f = sorted_fees_facts [of data]
  obtain "is" where first: "list_all2 (\<lambda>p i. first_reaching ?xs (cu_target ?xs p) i) percentile_steps is"
    and pc: "calculate_supp_percentiles fraction data = Inr
      \<lparr>pc_by_tx = List.map (\<lambda>p. pd_priority (?xs ! ?rank p)) percentile_steps,
       pc_by_tx_percentiles = List.map (\<lambda>p. fraction (word_of_nat p)) percentile_steps,
       pc_by_cu = List.map (\<lambda>i. pd_priority (?xs ! i)) is,
       pc_by_cu_percentiles = List.map (\<lambda>p. fraction (word_of_nat p)) percentile_steps\<rparr>"
    using percentiles_ok [OF assms, of fraction] by blast
  have steps: "length percentile_steps = 21" "percentile_steps ! k = 5 * k" if "k < 21" for k
    using that by (simp_all add: percentile_steps_def)
  have len: "length percentile_steps = 21" "length is = 21"
    using list_all2_lengthD [OF first] by (simp_all add: percentile_steps_def)
  have reach: "first_reaching ?xs (cu_target ?xs (5 * k)) (is ! k)" if "k < 21" for k
    using list_all2_nthD [OF first, of k] that steps len by simp
  have prio: "pd_priority (?xs ! i) \<le> pd_priority (?xs ! j)" if "i \<le> j" "j < length ?xs" for i j
    using f(2) that by (simp add: sorted_iff_nth_mono)
  have rank: "?rank (5 * k) \<le> ?rank (5 * l) \<and> ?rank (5 * l) < length ?xs" if "k \<le> l" for k l
  proof -
    have "length ?xs * (5 * k) div 100 \<le> length ?xs * (5 * l) div 100"
      using that by (intro div_le_mono mult_le_mono2)
    then show ?thesis using f(1) by (cases ?xs) auto
  qed
  have "sorted (List.map (\<lambda>p. pd_priority (?xs ! ?rank p)) percentile_steps)"
    using rank prio steps(2) len(1) by (auto simp: sorted_iff_nth_mono)
  moreover have "sorted (List.map (\<lambda>i. pd_priority (?xs ! i)) is)"
  proof -
    have "pd_priority (?xs ! (is ! k)) \<le> pd_priority (?xs ! (is ! l))" if "k \<le> l" "l < 21" for k l
    proof (rule prio)
      have "cu_target ?xs (5 * k) \<le> cu_target ?xs (5 * l)" using that(1) by (simp add: cu_target_mono)
      moreover have "k < 21" using that by simp
      ultimately show "is ! k \<le> is ! l"
        using first_reaching_mono [OF reach reach] that(2) by blast
      show "is ! l < length ?xs" using reach [OF that(2)] by (simp add: first_reaching_def)
    qed
    then show ?thesis using len(2) by (simp add: sorted_iff_nth_mono)
  qed
  moreover have "\<exists>i < length ?xs. List.map (\<lambda>i. pd_priority (?xs ! i)) is ! k = pd_priority (?xs ! i) \<and>
      total_cu data * (5 * k) div 100 \<le> cu_upto ?xs i \<and>
      (\<forall>j < i. cu_upto ?xs j < total_cu data * (5 * k) div 100)" if "k < 21" for k
    using reach [OF that] that len(2) f(3)
    by (intro exI [of _ "is ! k"]) (simp add: first_reaching_def cu_target_def)
  moreover have "List.map (\<lambda>p. pd_priority (?xs ! ?rank p)) percentile_steps ! k =
      pd_priority (?xs ! ?rank (5 * k))" if "k < 21" for k
    using that len(1) steps(2) by simp
  ultimately show ?thesis
    unfolding pc using len by simp
qed

text \<open>The sample of a unit test of the code: two transactions of 10000 compute units each.\<close>

lemma percentiles_characterised_witness:
  "\<exists>pc. calculate_supp_percentiles id [\<lparr>pd_priority = 100, pd_cu_consumed = 10000\<rparr>,
      \<lparr>pd_priority = 200, pd_cu_consumed = 10000\<rparr>] = Inr pc \<and> length (pc_by_cu pc) = 21 \<and>
    sorted (pc_by_cu pc)"
  using percentiles_characterised [of "[\<lparr>pd_priority = 100, pd_cu_consumed = 10000\<rparr>,
      \<lparr>pd_priority = 200, pd_cu_consumed = 10000\<rparr>]" id]
  by (auto simp: total_cu_def)

text \<open>The window of recent blocks: a processed block whose compute units are in range is stored
  and announced with its own statistics, the blocks within the retained slots behind it stay as they
  were, and all older ones are gone.\<close>

theorem recent_blocks_window:
  assumes "bt_inv m" and "is_processed (pb_commitment_config block)"
    and "total_cu (bd_transaction_data (block_prio_data_of block)) * 100 < 18446744073709551616"
  shows "\<exists>m' msg. block_priofees_step fraction retain m block = Inr (m', Some msg) \<and> bt_inv m' \<and>
    pm_slot msg = pb_slot block \<and>
    calculate_stats fraction (block_prio_data_of block) = Inr (pm_priofees_stats msg) \<and>
    (\<forall>k. bt_get m' k =
      (if k \<le> saturating_sub (pb_slot block) retain then None
       else if k = pb_slot block then Some (block_prio_data_of block) else bt_get m k))"
proof -
  let ?m = "bt_put (pb_slot block) (block_prio_data_of block) m"
  have inv: "bt_inv ?m" using assms(1) by (rule bt_inv_put)
  obtain stats where "calculate_stats fraction (block_prio_data_of block) = Inr stats"
    using percentiles_ok [OF assms(3), of fraction] by (auto simp: calculate_stats_def)
  moreover have "bt_inv (map_retain (\<lambda>sl _. sl > saturating_sub (pb_slot block) retain) ?m)"
    using inv by (rule bt_inv_retain)
  ultimately show ?thesis
    using assms(2) by (auto simp: block_priofees_step_def Let_def bt_get_retain [OF inv] bt_get_put
        not_le split: option.split)
qed

definition sample_fee_block :: produced_block where
  "sample_fee_block = \<lparr>pb_transactions = [\<lparr>ti_signature = 1, ti_is_vote = False, ti_err = None,
       ti_cu_requested = None, ti_prioritization_fees = Some 7, ti_cu_consumed = Some 100,
       ti_recent_blockhash = 0, ti_message = empty_message, ti_writable_accounts = [4], ti_readable_accounts = [9],
       ti_address_lookup_tables = []\<rparr>],
     pb_leader_id = None, pb_blockhash = 2, pb_block_height = 20, pb_slot = 20, pb_parent_slot = 19,
     pb_block_time = 0, pb_previous_blockhash = 1, pb_rewards = None,
     pb_commitment_config = processed_config\<rparr>"

lemma recent_blocks_window_witness:
  "\<exists>m' msg. block_priofees_step id 5 [] sample_fee_block = Inr (m', Some msg) \<and>
    bt_get m' 20 = Some (block_prio_data_of sample_fee_block)"
proof -
  have "total_cu (bd_transaction_data (block_prio_data_of sample_fee_block)) * 100 < 18446744073709551616"
    by (simp add: total_cu_def block_prio_data_of_def sample_fee_block_def prio_fees_data_of_def)
  with recent_blocks_window [of "[]" sample_fee_block id 5] show ?thesis
    by (auto simp: sample_fee_block_def saturating_sub_def)
qed

text \<open>The message of an update names exactly the accounts that the block's transactions lock, and
  gives each account the statistics over the transactions that lock it and over those that
  write-lock it, one data point for each lock.\<close>

theorem update_message_exact:
  assumes "account_prio_update fraction s block = Inr (s', msg)" and "prio_map_inv (ap_writeonly s)"
    and "alts = reloaded_tables s block" and "txs = sorted_transactions block"
  shows "if lock_fees alts txs a = [] then hm_get (am_accounts_data msg) a = None
    else \<exists>st. hm_get (am_accounts_data msg) a = Some st \<and>
      calculate_stats fraction (convert_to_block_prio_data (lock_fees alts txs a)) = Inr (as_all_stats st) \<and>
      (if write_fees alts txs a = [] then as_write_stats st = prio_fees_stats_default
       else calculate_stats fraction (convert_to_block_prio_data (write_fees alts txs a)) =
         Inr (as_write_stats st))"
  using account_prio_update_ok(4,5) [OF assms refl, of a] by simp

definition sample_prio_store :: "unit account_prio_store" where
  "sample_prio_store = account_prio_store_new 10 None"

definition sample_fee_data :: block_prio_data where
  "sample_fee_data =
     convert_to_block_prio_data [prio_fees_data_of (hd (pb_transactions sample_fee_block))]"

lemma small_stats:
  assumes "total_cu (bd_transaction_data d) * 100 < 18446744073709551616"
  shows "\<exists>st. calculate_stats fraction d = Inr st"
  using percentiles_ok [OF assms, of fraction] by (auto simp: calculate_stats_def)

lemma sample_fee_stats: "\<exists>st. calculate_stats id sample_fee_data = Inr st"
  by (rule small_stats) (simp add: total_cu_def sample_fee_data_def sample_fee_block_def
      prio_fees_data_of_def convert_to_block_prio_data_def Let_def)

lemma sample_reloaded: "reloaded_tables sample_prio_store b = None"
  by (simp add: reloaded_tables_def sample_prio_store_def account_prio_store_new_def)

lemma sample_fees:
  "fold (add_transaction_fees (None :: unit alt_interface option)) (sorted_transactions sample_fee_block) ([], []) =
     ([(4, [prio_fees_data_of (hd (pb_transactions sample_fee_block))])],
      [(4, [prio_fees_data_of (hd (pb_transactions sample_fee_block))]),
       (9, [prio_fees_data_of (hd (pb_transactions sample_fee_block))])])"
  by (simp add: sorted_transactions_def sample_fee_block_def add_transaction_fees_def
      locked_accounts_def push_value_def hm_put_def hm_get_def Let_def)

lemma sample_update:
  "\<exists>s' msg. account_prio_update id sample_prio_store sample_fee_block = Inr (s', msg) \<and>
     ap_writeonly s' = [(4, [(20, sample_fee_data)]), (9, [(20, sample_fee_data)])]"
proof -
  obtain st where "calculate_stats id sample_fee_data = Inr st" using sample_fee_stats by blast
  moreover have "pb_slot sample_fee_block = 20" by (simp add: sample_fee_block_def)
  ultimately show ?thesis
    using sample_fees sample_reloaded [of sample_fee_block]
    by (simp add: account_prio_update_def Let_def reloaded_tables_def map_vals_def
        sample_fee_data_def [symmetric] hm_put_def hm_get_def bt_get_def
        store_account_fees_def cleanup_accounts_def map_retain_def saturating_sub_def
        sample_prio_store_def account_prio_store_new_def)
qed

lemma sample_prio_store_inv: "prio_map_inv (ap_writeonly sample_prio_store)"
  by (simp add: prio_map_inv_def sample_prio_store_def account_prio_store_new_def)

lemma sample_locks:
  "lock_fees (reloaded_tables sample_prio_store sample_fee_block) (sorted_transactions sample_fee_block) 9 \<noteq> []"
  "write_fees (reloaded_tables sample_prio_store sample_fee_block) (sorted_transactions sample_fee_block) 9 = []"
  by (simp_all add: lock_fees_def write_fees_def reloaded_tables_def sample_prio_store_def
      account_prio_store_new_def sorted_transactions_def sample_fee_block_def locked_accounts_def)

lemma update_message_exact_witness:
  "\<exists>s' msg st. account_prio_update id sample_prio_store sample_fee_block = Inr (s', msg) \<and>
    hm_get (am_accounts_data msg) 9 = Some st \<and> as_write_stats st = prio_fees_stats_default"
proof -
  obtain s' msg where "account_prio_update id sample_prio_store sample_fee_block = Inr (s', msg)"
    using sample_update by blast
  with update_message_exact [OF this sample_prio_store_inv refl refl, of 9] sample_locks
  show ?thesis by auto
qed

text \<open>Read locks are stored as write locks: after an update, the entry that the write-only query
  of an account reads for the block's slot holds the data of every transaction that locks the
  account, also when none of them writes it and the update's own message says that there are no
  writes.\<close>

theorem read_locks_stored_as_writes:
  assumes "account_prio_update fraction s block = Inr (s', msg)" and "prio_map_inv (ap_writeonly s)"
    and "saturating_sub (pb_slot block) (word_of_nat (ap_number_of_slots_to_save s)) < pb_slot block"
    and "lock_fees (reloaded_tables s block) (sorted_transactions block) a \<noteq> []"
    and "write_fees (reloaded_tables s block) (sorted_transactions block) a = []"
  shows "\<exists>stored st. bt_get (slots_of (ap_writeonly s') a) (pb_slot block) = Some stored \<and>
    bd_transaction_data stored = lock_fees (reloaded_tables s block) (sorted_transactions block) a \<and>
    hm_get (am_accounts_data msg) a = Some st \<and> as_write_stats st = prio_fees_stats_default"
  using account_prio_update_ok(3,5) [OF assms(1,2) refl refl refl, of a] assms(3-5)
  by (fastforce simp: convert_to_block_prio_data_def Let_def not_le)

lemma read_locks_stored_as_writes_witness:
  "\<exists>s' msg stored. account_prio_update id sample_prio_store sample_fee_block = Inr (s', msg) \<and>
    bt_get (slots_of (ap_writeonly s') 9) 20 = Some stored \<and> bd_transaction_data stored \<noteq> []"
proof -
  obtain s' msg where u: "account_prio_update id sample_prio_store sample_fee_block = Inr (s', msg)"
    using sample_update by blast
  have "saturating_sub (pb_slot sample_fee_block)
      (word_of_nat (ap_number_of_slots_to_save sample_prio_store)) < pb_slot sample_fee_block"
    by (simp add: sample_fee_block_def sample_prio_store_def account_prio_store_new_def saturating_sub_def)
  moreover have "pb_slot sample_fee_block = 20" by (simp add: sample_fee_block_def)
  ultimately show ?thesis
    using read_locks_stored_as_writes [OF u sample_prio_store_inv _ sample_locks] u sample_locks(1)
    by fastforce
qed

text \<open>The statistics over all accesses are always those of an empty block: no block ever reaches
  the map they are read from, so whatever blocks were processed, the \<open>all_stats\<close> of a query are
  computed from no transaction at all.\<close>

theorem all_stats_always_empty:
  assumes "account_priofees_run fraction (account_prio_store_new n alts) blocks = Inr s"
    and "get_latest_stats fraction s account = Inr (sl, st)"
  shows "calculate_stats fraction block_prio_data_default = Inr (as_all_stats st)"
proof -
  have "ap_all s = []"
    using run_all_empty [OF assms(1)] by (simp add: account_prio_store_new_def prio_map_inv_def)
  then show ?thesis
    using assms(2) by (auto simp: get_latest_stats_def latest_data_def)
qed

lemma all_stats_always_empty_witness:
  "\<exists>s sl st. account_priofees_run id sample_prio_store [sample_fee_block] = Inr s \<and>
    get_latest_stats id s 4 = Inr (sl, st) \<and>
    calculate_stats id block_prio_data_default = Inr (as_all_stats st)"
proof -
  obtain s msg where u: "account_prio_update id sample_prio_store sample_fee_block = Inr (s, msg)"
    and w: "ap_writeonly s = [(4, [(20, sample_fee_data)]), (9, [(20, sample_fee_data)])]"
    using sample_update by blast
  then have run: "account_priofees_run id sample_prio_store [sample_fee_block] = Inr s"
    by (simp add: account_priofees_step_def sample_fee_block_def)
  have "ap_all s = []"
    using run_all_empty [OF run] sample_prio_store_inv
    by (simp add: sample_prio_store_def account_prio_store_new_def)
  then have "latest_data (ap_all s) 4 = block_prio_data_default"
    "latest_data (ap_writeonly s) 4 = sample_fee_data"
    by (simp_all add: w latest_data_def hm_get_def bt_last_def)
  moreover have "\<exists>st. calculate_stats id block_prio_data_default = Inr st"
    by (rule small_stats) (simp add: block_prio_data_default_def total_cu_def)
  ultimately obtain sl st where "get_latest_stats id s 4 = Inr (sl, st)"
    using sample_fee_stats by (auto simp: get_latest_stats_def)
  with all_stats_always_empty [OF run [unfolded sample_prio_store_def] this] run show ?thesis
    by blast
qed

end
