(* ===== verification/Fee_Heap.thy ===== *)
theory Fee_Heap
  imports Core_Data "HOL-Library.Multiset"
begin

text \<open>
  \<open>core/src/structures/prioritization_fee_heap.rs\<close>: the bounded queue of pending transactions,
  a map from fees to queues and the set of queued signatures, both behind one mutex, so a method
  is one transition.  \<open>heap_order\<close> is what it promises: the pending transactions by falling fee,
  oldest first among equal fees; the operations refine the operations on that list.
\<close>

section \<open>State and operations\<close>

record prio_heap =
  ph_map :: "(u64, sent_transaction_info list) btreemap"
  ph_signatures :: "signature set"
  ph_max :: nat

definition heap_new :: "nat \<Rightarrow> prio_heap" where
  "heap_new n = \<lparr>ph_map = [], ph_signatures = {}, ph_max = n\<rparr>"

text \<open>Writing back the entry a front element was popped from: an empty queue is removed.\<close>

definition set_queue ::
    "u64 \<Rightarrow> sent_transaction_info list \<Rightarrow> (u64, sent_transaction_info list) btreemap \<Rightarrow>
     (u64, sent_transaction_info list) btreemap" where
  "set_queue fee q m = (if q = [] then bt_del fee m else bt_put fee q m)"

definition heap_pop :: "prio_heap \<Rightarrow> (prio_heap \<times> sent_transaction_info option) outcome" where
  "heap_pop h =
     (case bt_last (ph_map h) of
        None \<Rightarrow> Inr (h, None)
      | Some (fee, []) \<Rightarrow> Inl UnwrapNone
      | Some (fee, element # q) \<Rightarrow>
          Inr (h\<lparr>ph_map := set_queue fee q (ph_map h),
                 ph_signatures := ph_signatures h - {st_signature element}\<rparr>, Some element))"

definition push_tx ::
    "sent_transaction_info \<Rightarrow> (u64, sent_transaction_info list) btreemap \<Rightarrow>
     (u64, sent_transaction_info list) btreemap" where
  "push_tx tx m =
     (case bt_get m (st_prioritization_fee tx) of
        Some q \<Rightarrow> bt_put (st_prioritization_fee tx) (q @ [tx]) m
      | None \<Rightarrow> bt_put (st_prioritization_fee tx) [tx] m)"

definition evict_lowest :: "prio_heap \<Rightarrow> prio_heap outcome" where
  "evict_lowest h =
     (case bt_first (ph_map h) of
        None \<Rightarrow> Inl (ExplicitPanic ''Should not happen'')
      | Some (fee, []) \<Rightarrow> Inl UnwrapNone
      | Some (fee, tx_info # q) \<Rightarrow>
          Inr (h\<lparr>ph_map := set_queue fee q (ph_map h),
                 ph_signatures := ph_signatures h - {st_signature tx_info}\<rparr>))"

definition heap_store :: "prio_heap \<Rightarrow> sent_transaction_info \<Rightarrow> prio_heap outcome" where
  "heap_store h tx =
     (let h' = h\<lparr>ph_signatures := insert (st_signature tx) (ph_signatures h),
                 ph_map := push_tx tx (ph_map h)\<rparr>
      in if card (ph_signatures h') > ph_max h' then evict_lowest h' else Inr h')"

definition heap_insert :: "prio_heap \<Rightarrow> sent_transaction_info \<Rightarrow> prio_heap outcome" where
  "heap_insert h tx =
     (if st_signature tx \<in> ph_signatures h then Inr h
      else if card (ph_signatures h) \<ge> ph_max h then
        (case bt_first (ph_map h) of
           None \<Rightarrow> Inl UnwrapNone
         | Some (lowest, _) \<Rightarrow>
             if st_prioritization_fee tx \<le> lowest then Inr h else heap_store h tx)
      else heap_store h tx)"

definition retained :: "u64 \<Rightarrow> sent_transaction_info \<Rightarrow> bool" where
  "retained current_blockheight x \<longleftrightarrow> st_last_valid_block_height x > current_blockheight"

definition remove_expired_transactions :: "prio_heap \<Rightarrow> u64 \<Rightarrow> prio_heap \<times> nat" where
  "remove_expired_transactions h current =
     (let signatures_to_remove =
            List.map st_signature
              (concat (List.map (\<lambda>(_, q). filter (\<lambda>x. \<not> retained current x) q) (ph_map h)));
          kept = map_vals (\<lambda>_ q. filter (retained current) q) (ph_map h);
          cells_to_remove = List.map fst (filter (\<lambda>(_, q). q = []) kept)
      in (h\<lparr>ph_map := fold bt_del cells_to_remove kept,
            ph_signatures := ph_signatures h - set signatures_to_remove\<rparr>,
          length signatures_to_remove))"

definition heap_size :: "prio_heap \<Rightarrow> nat" where
  "heap_size h = card (ph_signatures h)"

definition heap_clear :: "prio_heap \<Rightarrow> prio_heap \<times> nat" where
  "heap_clear h = (h\<lparr>ph_map := [], ph_signatures := {}\<rparr>, card (ph_signatures h))"

section \<open>The order the heap promises\<close>

definition queue_order :: "(u64, sent_transaction_info list) btreemap \<Rightarrow> sent_transaction_info list"
where
  "queue_order m = concat (List.map snd (rev m))"

definition heap_order :: "prio_heap \<Rightarrow> sent_transaction_info list" where
  "heap_order h = queue_order (ph_map h)"

text \<open>A cell holds the transactions of its fee and is never empty.\<close>

definition cells_ok :: "(u64, sent_transaction_info list) btreemap \<Rightarrow> bool" where
  "cells_ok m \<longleftrightarrow> bt_inv m \<and>
     (\<forall>(fee, q) \<in> set m. q \<noteq> [] \<and> (\<forall>t \<in> set q. st_prioritization_fee t = fee))"

definition heap_inv :: "prio_heap \<Rightarrow> bool" where
  "heap_inv h \<longleftrightarrow> cells_ok (ph_map h) \<and>
     distinct (List.map st_signature (heap_order h)) \<and>
     ph_signatures h = st_signature ` set (heap_order h) \<and>
     length (heap_order h) \<le> ph_max h"

text \<open>The operations on the ordered list.\<close>

definition order_insert ::
    "sent_transaction_info \<Rightarrow> sent_transaction_info list \<Rightarrow> sent_transaction_info list" where
  "order_insert tx xs =
     takeWhile (\<lambda>t. st_prioritization_fee tx \<le> st_prioritization_fee t) xs @ tx #
     dropWhile (\<lambda>t. st_prioritization_fee tx \<le> st_prioritization_fee t) xs"

definition order_evict :: "sent_transaction_info list \<Rightarrow> sent_transaction_info list" where
  "order_evict xs =
     (let above = (\<lambda>t. st_prioritization_fee (last xs) < st_prioritization_fee t)
      in takeWhile above xs @ tl (dropWhile above xs))"

definition order_admit ::
    "nat \<Rightarrow> sent_transaction_info \<Rightarrow> sent_transaction_info list \<Rightarrow> sent_transaction_info list" where
  "order_admit n tx xs =
     (if st_signature tx \<in> st_signature ` set xs then xs
      else if length xs < n then order_insert tx xs
      else if st_prioritization_fee tx \<le> st_prioritization_fee (last xs) then xs
      else order_evict (order_insert tx xs))"

definition falling_fees :: "sent_transaction_info list \<Rightarrow> bool" where
  "falling_fees xs \<longleftrightarrow>
     sorted_wrt (\<lambda>a b. st_prioritization_fee b \<le> st_prioritization_fee a) xs"

section \<open>Lemmas\<close>

lemma queue_order_Nil [simp]: "queue_order [] = []"
  by (simp add: queue_order_def)

lemma queue_order_Cons [simp]: "queue_order ((fee, q) # m) = queue_order m @ q"
  by (simp add: queue_order_def)

lemma set_queue_order: "set (queue_order m) = (\<Union>(fee, q) \<in> set m. set q)"
  by (auto simp: queue_order_def)

lemma cells_ok_Nil [simp]: "cells_ok []"
  by (simp add: cells_ok_def)

lemma cells_ok_Cons:
  "cells_ok ((fee, q) # m) \<longleftrightarrow>
     cells_ok m \<and> q \<noteq> [] \<and> (\<forall>t \<in> set q. st_prioritization_fee t = fee) \<and>
     (\<forall>(f, _) \<in> set m. fee < f)"
  by (auto simp: cells_ok_def bt_inv_def map_keys_def)

lemma cells_above:
  "cells_ok ((fee, q) # m) \<Longrightarrow> t \<in> set (queue_order m) \<Longrightarrow> fee < st_prioritization_fee t"
  by (fastforce simp: cells_ok_def bt_inv_def map_keys_def set_queue_order)

lemma cells_falling: "cells_ok m \<Longrightarrow> falling_fees (queue_order m)"
proof (induction m)
  case (Cons e m)
  obtain fee q where e: "e = (fee, q)" by (cases e)
  have "sorted_wrt (\<lambda>a b. st_prioritization_fee b \<le> st_prioritization_fee a) q"
    using Cons.prems by (intro sorted_wrt_mono_rel [OF _ sorted_wrt_true])
      (auto simp: e cells_ok_Cons)
  then show ?case
    using Cons cells_above [of fee q m]
    by (auto simp: e falling_fees_def sorted_wrt_append cells_ok_Cons less_imp_le)
qed (simp add: falling_fees_def)

lemma push_tx_Cons:
  "bt_inv ((fee, q) # m) \<Longrightarrow> push_tx tx ((fee, q) # m) =
     (if st_prioritization_fee tx < fee then (st_prioritization_fee tx, [tx]) # (fee, q) # m
      else if st_prioritization_fee tx = fee then (fee, q @ [tx]) # m
      else (fee, q) # push_tx tx m)"
  by (auto simp: push_tx_def bt_get_def bt_inv_def map_keys_def split: option.split
      dest!: map_of_SomeD)

lemma push_tx_keys: "fst ` set (push_tx tx m) = insert (st_prioritization_fee tx) (fst ` set m)"
  by (simp add: push_tx_def bt_put_keys [unfolded map_keys_def set_map] split: option.split)

lemma cells_ok_push: "cells_ok m \<Longrightarrow> cells_ok (push_tx tx m)"
proof (induction m)
  case Nil
  then show ?case by (simp add: push_tx_def bt_get_def cells_ok_Cons)
next
  case (Cons e m)
  obtain fee q where e: "e = (fee, q)" by (cases e)
  have "bt_inv ((fee, q) # m)" using Cons.prems by (simp add: e cells_ok_def)
  moreover have "\<forall>(f, _) \<in> set (push_tx tx m). fee < f" if "fee < st_prioritization_fee tx"
    using that Cons.prems push_tx_keys [of tx m] by (force simp: e cells_ok_Cons)
  ultimately show ?case
    using Cons by (auto simp: e push_tx_Cons cells_ok_Cons)
qed

lemma order_insert_least:
  "\<forall>t \<in> set xs. st_prioritization_fee tx \<le> st_prioritization_fee t \<Longrightarrow>
   order_insert tx xs = xs @ [tx]"
  by (simp add: order_insert_def takeWhile_eq_all_conv [THEN iffD2]
      dropWhile_eq_Nil_conv [THEN iffD2])

lemma push_tx_order: "cells_ok m \<Longrightarrow> queue_order (push_tx tx m) = order_insert tx (queue_order m)"
proof (induction m)
  case Nil
  then show ?case by (simp add: push_tx_def bt_get_def order_insert_def)
next
  case (Cons e m)
  let ?f = "st_prioritization_fee tx"
  let ?P = "\<lambda>t. ?f \<le> st_prioritization_fee t"
  obtain fee q where e: "e = (fee, q)" by (cases e)
  have inv: "bt_inv ((fee, q) # m)" using Cons.prems by (simp add: e cells_ok_def)
  have q: "\<forall>t \<in> set q. st_prioritization_fee t = fee" and m: "cells_ok m"
    using Cons.prems by (auto simp: e cells_ok_Cons)
  show ?case
  proof (cases "?f \<le> fee")
    case True
    then have "\<forall>t \<in> set (queue_order m @ q). ?P t"
      using cells_above [of fee q m] Cons.prems q by (fastforce simp: e)
    then have "order_insert tx (queue_order m @ q) = queue_order m @ q @ [tx]"
      by (simp add: order_insert_least)
    with True show ?thesis by (auto simp: e push_tx_Cons [OF inv])
  next
    case False
    with q have "takeWhile ?P q = []" "dropWhile ?P q = q" by (cases q; simp)+
    then have "order_insert tx (queue_order m @ q) = order_insert tx (queue_order m) @ q"
      by (cases "\<forall>t \<in> set (queue_order m). ?P t")
        (auto simp: order_insert_least, auto simp: order_insert_def takeWhile_append dropWhile_append
          takeWhile_eq_all_conv [THEN iffD2])
    with False Cons.IH [OF m] show ?thesis by (auto simp: e push_tx_Cons [OF inv])
  qed
qed

lemma mset_order_insert: "mset (order_insert tx xs) = add_mset tx (mset xs)"
proof -
  let ?P = "\<lambda>t. st_prioritization_fee tx \<le> st_prioritization_fee t"
  have "mset xs = mset (takeWhile ?P xs) + mset (dropWhile ?P xs)"
    by (metis mset_append takeWhile_dropWhile_id)
  then show ?thesis by (simp add: order_insert_def)
qed

lemma length_order_insert: "length (order_insert tx xs) = Suc (length xs)"
  by (metis mset_order_insert size_add_mset size_mset)

lemma set_order_insert: "set (order_insert tx xs) = insert tx (set xs)"
  by (metis mset_order_insert set_mset_add_mset_insert set_mset_mset)

text \<open>Popping the front of the lowest or of the highest cell.\<close>

lemma cells_ok_set_first:
  assumes "cells_ok ((fee, t # q) # m)"
  shows "cells_ok (set_queue fee q ((fee, t # q) # m))"
    and "queue_order (set_queue fee q ((fee, t # q) # m)) = queue_order m @ q"
proof -
  have "bt_del fee ((fee, t # q) # m) = m"
    using assms by (auto simp: bt_del_def cells_ok_Cons filter_id_conv)
  then show "cells_ok (set_queue fee q ((fee, t # q) # m))"
      "queue_order (set_queue fee q ((fee, t # q) # m)) = queue_order m @ q"
    using assms by (auto simp: set_queue_def cells_ok_Cons)
qed

lemma set_queue_last:
  assumes "cells_ok (m @ [(fee, t # q)])"
  shows "set_queue fee q (m @ [(fee, t # q)]) = m @ (if q = [] then [] else [(fee, q)])"
proof -
  have less: "\<forall>(f, _) \<in> set m. f < fee"
    using assms by (auto simp: cells_ok_def bt_inv_def map_keys_def sorted_wrt_append)
  then have "bt_put fee q (m @ [(fee, t # q)]) = m @ [(fee, q)]"
    by (induction m) (auto simp: order_less_not_sym)
  moreover have "bt_del fee (m @ [(fee, p)]) = m" for p :: "sent_transaction_info list"
    using less by (auto simp: bt_del_def filter_id_conv)
  ultimately show ?thesis by (simp add: set_queue_def)
qed

lemma cells_ok_snoc:
  "cells_ok (m @ [(fee, q)]) \<Longrightarrow> q' \<noteq> [] \<Longrightarrow> set q' \<subseteq> set q \<Longrightarrow> cells_ok (m @ [(fee, q')])"
  by (fastforce simp: cells_ok_def bt_inv_def map_keys_def)

lemma cells_ok_butlast: "cells_ok (m @ [e]) \<Longrightarrow> cells_ok m"
  by (auto simp: cells_ok_def bt_inv_def map_keys_def sorted_wrt_append)


section \<open>The operations refine the operations on the order\<close>

lemma heap_inv_cells: "heap_inv h \<Longrightarrow> cells_ok (ph_map h)"
  by (simp add: heap_inv_def)

lemma heap_inv_card: "heap_inv h \<Longrightarrow> card (ph_signatures h) = length (heap_order h)"
  by (metis distinct_card heap_inv_def length_map list.set_map)

lemma heap_invI:
  "cells_ok (ph_map h) \<Longrightarrow> heap_order h = xs \<Longrightarrow> distinct (List.map st_signature xs) \<Longrightarrow>
   ph_signatures h = st_signature ` set xs \<Longrightarrow> length xs \<le> ph_max h \<Longrightarrow> heap_inv h"
  by (simp add: heap_inv_def)

lemma heap_new_inv: "heap_inv (heap_new n)"
  by (simp add: heap_inv_def heap_new_def heap_order_def)

lemma pop_refines:
  assumes "heap_inv h"
  shows "\<exists>h'. heap_pop h = Inr (h', case heap_order h of [] \<Rightarrow> None | t # _ \<Rightarrow> Some t) \<and>
    heap_inv h' \<and> heap_order h' = tl (heap_order h) \<and> ph_max h' = ph_max h"
proof (cases "ph_map h" rule: rev_cases)
  case Nil
  then show ?thesis
    using assms by (auto simp: heap_pop_def bt_last_def heap_order_def)
next
  case (snoc m e)
  obtain fee qs where e: "e = (fee, qs)" by (cases e)
  have cells: "cells_ok (m @ [(fee, qs)])" using heap_inv_cells [OF assms] snoc e by simp
  then have "qs \<noteq> []" by (auto simp: cells_ok_def)
  then obtain t q where qs: "qs = t # q" by (cases qs) auto
  have order: "heap_order h = t # q @ queue_order m"
    by (simp add: heap_order_def snoc e qs queue_order_def)
  let ?h = "h\<lparr>ph_map := set_queue fee q (ph_map h),
    ph_signatures := ph_signatures h - {st_signature t}\<rparr>"
  have order': "heap_order ?h = q @ queue_order m"
    using set_queue_last [of m fee t q] cells
    by (auto simp: heap_order_def snoc e qs queue_order_def)
  have "cells_ok (ph_map ?h)"
    using set_queue_last [of m fee t q] cells cells_ok_snoc [of m fee qs q] cells_ok_butlast [of m]
    by (auto simp: snoc e qs)
  then have "heap_inv ?h"
    using assms by (intro heap_invI [OF _ order'])
      (auto simp: heap_inv_def order image_iff distinct_map inj_on_def)
  moreover have "heap_pop h = Inr (?h, Some t)"
    by (simp add: heap_pop_def bt_last_def snoc e qs)
  ultimately show ?thesis by (simp add: order order')
qed

lemma above_lowest:
  assumes "cells_ok ((fee, q) # m)"
  shows "takeWhile (\<lambda>x. fee < st_prioritization_fee x) (queue_order m @ q) = queue_order m"
    and "dropWhile (\<lambda>x. fee < st_prioritization_fee x) (queue_order m @ q) = q"
proof -
  let ?P = "\<lambda>x. fee < st_prioritization_fee x"
  have "\<forall>x \<in> set (queue_order m). ?P x" using cells_above [OF assms] by blast
  moreover have "takeWhile ?P q = []" "dropWhile ?P q = q"
    using assms by (cases q; simp add: cells_ok_Cons)+
  ultimately show "takeWhile ?P (queue_order m @ q) = queue_order m"
      "dropWhile ?P (queue_order m @ q) = q"
    by (simp_all add: takeWhile_append2 dropWhile_append2)
qed

lemma last_is_lowest:
  "cells_ok ((fee, q) # m) \<Longrightarrow> st_prioritization_fee (last (queue_order ((fee, q) # m))) = fee"
  by (simp add: cells_ok_Cons)

lemma evict_refines:
  assumes "cells_ok (ph_map h)" and "ph_map h \<noteq> []"
    and "distinct (List.map st_signature (heap_order h))"
    and "ph_signatures h = st_signature ` set (heap_order h)"
    and "length (heap_order h) = Suc (ph_max h)"
  shows "\<exists>h'. evict_lowest h = Inr h' \<and> heap_inv h' \<and> heap_order h' = order_evict (heap_order h) \<and>
    ph_max h' = ph_max h"
proof -
  obtain fee t q m where m: "ph_map h = (fee, t # q) # m"
    using assms(1,2) by (cases "ph_map h") (auto simp: cells_ok_Cons neq_Nil_conv)
  note cells = assms(1) [unfolded m]
  let ?h = "h\<lparr>ph_map := set_queue fee q (ph_map h),
    ph_signatures := ph_signatures h - {st_signature t}\<rparr>"
  have order: "heap_order h = queue_order m @ t # q" by (simp add: heap_order_def m)
  have order': "heap_order ?h = queue_order m @ q"
    using cells_ok_set_first(2) [OF cells] by (simp add: heap_order_def m)
  have "st_prioritization_fee (last (heap_order h)) = fee"
    using last_is_lowest [OF cells] by (simp add: heap_order_def m)
  then have "order_evict (heap_order h) = queue_order m @ q"
    using above_lowest [OF cells] by (simp add: order_evict_def order)
  moreover have "heap_inv ?h"
    using cells_ok_set_first(1) [OF cells] assms(3-5)
    by (intro heap_invI [OF _ order']) (auto simp: order m image_iff distinct_map inj_on_def)
  ultimately show ?thesis
    using order' by (simp add: evict_lowest_def bt_first_def m)
qed

lemma store_refines:
  assumes "heap_inv h" and "st_signature tx \<notin> ph_signatures h"
    and "ph_map h \<noteq> [] \<or> 0 < ph_max h"
  shows "\<exists>h'. heap_store h tx = Inr h' \<and> heap_inv h' \<and> ph_max h' = ph_max h \<and>
    heap_order h' = (if length (heap_order h) < ph_max h then order_insert tx (heap_order h)
                     else order_evict (order_insert tx (heap_order h)))"
proof -
  let ?h = "h\<lparr>ph_signatures := insert (st_signature tx) (ph_signatures h),
    ph_map := push_tx tx (ph_map h)\<rparr>"
  note cells = heap_inv_cells [OF assms(1)]
  have order: "heap_order ?h = order_insert tx (heap_order h)"
    by (simp add: heap_order_def push_tx_order [OF cells])
  have d: "distinct (List.map st_signature (heap_order ?h))"
  proof -
    have "mset (List.map st_signature (heap_order ?h)) =
        mset (st_signature tx # List.map st_signature (heap_order h))"
      by (simp only: mset_map order mset_order_insert image_mset_add_mset list.map mset.simps)
    moreover have "distinct (st_signature tx # List.map st_signature (heap_order h))"
      using assms by (simp add: heap_inv_def)
    ultimately show ?thesis by (metis mset_eq_imp_distinct_iff)
  qed
  have sigs: "ph_signatures ?h = st_signature ` set (heap_order ?h)"
    unfolding order set_order_insert using assms(1) by (simp add: heap_inv_def)
  have card: "card (ph_signatures ?h) = Suc (length (heap_order h))"
    using d by (metis distinct_card length_map length_order_insert list.set_map order sigs)
  have cells': "cells_ok (ph_map ?h)" using cells by (simp add: cells_ok_push)
  show ?thesis
  proof (cases "length (heap_order h) < ph_max h")
    case True
    then have "heap_inv ?h"
      using d sigs by (intro heap_invI [OF cells' order]) (auto simp: order length_order_insert)
    with True card order show ?thesis by (simp add: heap_store_def)
  next
    case False
    then have len: "length (heap_order ?h) = Suc (ph_max ?h)"
      unfolding order using assms(1) by (simp add: heap_inv_def length_order_insert)
    then have "ph_map ?h \<noteq> []" by (auto simp: heap_order_def)
    from evict_refines [OF cells' this d sigs len, unfolded order]
    have "\<exists>h'. evict_lowest ?h = Inr h' \<and> heap_inv h' \<and> ph_max h' = ph_max h \<and>
        heap_order h' = order_evict (order_insert tx (heap_order h))" by auto
    moreover have "heap_store h tx = evict_lowest ?h"
      using False card by (simp add: heap_store_def)
    ultimately show ?thesis using False by simp
  qed
qed

lemma lowest_fee:
  assumes "heap_inv h" and "heap_order h \<noteq> []"
  shows "\<exists>q. bt_first (ph_map h) = Some (st_prioritization_fee (last (heap_order h)), q)"
proof -
  obtain fee q m where m: "ph_map h = (fee, q) # m"
    using assms(2) by (cases "ph_map h") (auto simp: heap_order_def)
  then show ?thesis
    using last_is_lowest [of fee q m] heap_inv_cells [OF assms(1)]
    by (simp add: heap_order_def bt_first_def)
qed

lemma insert_refines:
  assumes "heap_inv h" and "0 < ph_max h"
  shows "\<exists>h'. heap_insert h tx = Inr h' \<and> heap_inv h' \<and> ph_max h' = ph_max h \<and>
    heap_order h' = order_admit (ph_max h) tx (heap_order h)"
proof (cases "st_signature tx \<in> ph_signatures h")
  case True
  with assms(1) show ?thesis by (auto simp: heap_insert_def order_admit_def heap_inv_def)
next
  case new: False
  then have out: "st_signature tx \<notin> st_signature ` set (heap_order h)"
    using assms(1) by (simp add: heap_inv_def)
  note store = store_refines [OF assms(1) new disjI2 [OF assms(2)]]
  show ?thesis
  proof (cases "length (heap_order h) < ph_max h")
    case True
    with store new out heap_inv_card [OF assms(1)] show ?thesis
      by (simp add: heap_insert_def order_admit_def)
  next
    case False
    then have "heap_order h \<noteq> []" using assms(2) by auto
    from lowest_fee [OF assms(1) this] False store new out heap_inv_card [OF assms(1)] assms(1)
    show ?thesis by (auto simp: heap_insert_def order_admit_def)
  qed
qed

lemma fold_bt_del: "fold bt_del ks m = filter (\<lambda>e. fst e \<notin> set ks) m"
  by (induction ks arbitrary: m) (auto simp: bt_del_def intro: filter_cong)

lemma remove_empty_cells:
  assumes "bt_inv m"
  shows "fold bt_del (List.map fst (filter (\<lambda>(_, q). q = []) m)) m = filter (\<lambda>(_, q). q \<noteq> []) m"
proof -
  have "fst e \<in> fst ` {x \<in> set m. snd x = []} \<longleftrightarrow> snd e = []" if "e \<in> set m" for e
    using that bt_get_mem [OF assms, of "fst e" "snd e"] bt_get_mem [OF assms, of "fst e" "[]"]
    by (auto simp: image_iff) (metis prod.collapse)
  then show ?thesis
    by (auto simp: fold_bt_del split_def intro!: filter_cong)
qed

lemma queue_order_nonempty: "queue_order (filter (\<lambda>(_, q). q \<noteq> []) m) = queue_order m"
  by (induction m) auto

lemma queue_order_retain:
  "queue_order (map_vals (\<lambda>_ q. filter p q) m) = filter p (queue_order m)"
  by (induction m) (auto simp: map_vals_def)

lemma length_expired:
  "length (concat (List.map (\<lambda>(_, q). filter p q) m)) = length (filter p (queue_order m))"
  by (induction m) auto

lemma expired_signatures:
  "set (List.map f (concat (List.map (\<lambda>(_, q). filter p q) m))) = f ` {t \<in> set (queue_order m). p t}"
  by (induction m) auto

lemma cells_ok_retain:
  "cells_ok m \<Longrightarrow> cells_ok (filter (\<lambda>(_, q). q \<noteq> []) (map_vals (\<lambda>_ q. filter p q) m))"
  by (induction m) (auto simp: cells_ok_Cons map_vals_def)

lemma expire_refines:
  assumes "heap_inv h"
  shows "heap_inv (fst (remove_expired_transactions h c))"
    and "heap_order (fst (remove_expired_transactions h c)) = filter (retained c) (heap_order h)"
    and "snd (remove_expired_transactions h c) =
      length (filter (\<lambda>t. \<not> retained c t) (heap_order h))"
    and "ph_max (fst (remove_expired_transactions h c)) = ph_max h"
proof -
  let ?kept = "map_vals (\<lambda>_ q. filter (retained c) q) (ph_map h)"
  let ?m = "filter (\<lambda>(_, q). q \<noteq> []) ?kept"
  let ?s = "ph_signatures h - st_signature ` {t \<in> set (heap_order h). \<not> retained c t}"
  have inv: "bt_inv ?kept"
    using heap_inv_cells [OF assms] by (simp add: cells_ok_def bt_inv_def)
  have h: "remove_expired_transactions h c = (h\<lparr>ph_map := ?m, ph_signatures := ?s\<rparr>,
      length (filter (\<lambda>t. \<not> retained c t) (heap_order h)))"
    unfolding remove_expired_transactions_def Let_def remove_empty_cells [OF inv]
      expired_signatures length_map length_expired heap_order_def ..
  have order: "heap_order (h\<lparr>ph_map := ?m, ph_signatures := ?s\<rparr>) = filter (retained c) (heap_order h)"
    by (simp add: heap_order_def queue_order_nonempty queue_order_retain)
  have "heap_inv (h\<lparr>ph_map := ?m, ph_signatures := ?s\<rparr>)"
  proof (rule heap_invI [OF _ order])
    show "ph_signatures (h\<lparr>ph_map := ?m, ph_signatures := ?s\<rparr>) =
        st_signature ` set (filter (retained c) (heap_order h))"
      using assms by (auto simp: heap_inv_def distinct_map inj_on_def)
    show "length (filter (retained c) (heap_order h)) \<le> ph_max (h\<lparr>ph_map := ?m, ph_signatures := ?s\<rparr>)"
      using assms by (auto simp: heap_inv_def intro: le_trans [OF length_filter_le])
  qed (use assms cells_ok_retain in \<open>auto simp: heap_inv_def distinct_map_filter\<close>)
  then show "heap_inv (fst (remove_expired_transactions h c))"
    and "heap_order (fst (remove_expired_transactions h c)) = filter (retained c) (heap_order h)"
    and "snd (remove_expired_transactions h c) =
      length (filter (\<lambda>t. \<not> retained c t) (heap_order h))"
    and "ph_max (fst (remove_expired_transactions h c)) = ph_max h"
    using order by (simp_all add: h)
qed

lemma clear_refines:
  assumes "heap_inv h"
  shows "heap_inv (fst (heap_clear h)) \<and> heap_order (fst (heap_clear h)) = [] \<and>
    snd (heap_clear h) = length (heap_order h) \<and> ph_max (fst (heap_clear h)) = ph_max h"
  using heap_inv_card [OF assms] by (simp add: heap_clear_def heap_inv_def heap_order_def)

section \<open>Sequences of operations\<close>

datatype heap_op = OpInsert sent_transaction_info | OpPop | OpExpire u64 | OpClear

datatype heap_reply = NoReply | Popped "sent_transaction_info option" | Removed nat

fun heap_step :: "prio_heap \<Rightarrow> heap_op \<Rightarrow> (prio_heap \<times> heap_reply) outcome" where
  "heap_step h (OpInsert tx) = bind_outcome (heap_insert h tx) (\<lambda>h'. Inr (h', NoReply))"
| "heap_step h OpPop = bind_outcome (heap_pop h) (\<lambda>(h', t). Inr (h', Popped t))"
| "heap_step h (OpExpire c) =
     (case remove_expired_transactions h c of (h', n) \<Rightarrow> Inr (h', Removed n))"
| "heap_step h OpClear = (case heap_clear h of (h', n) \<Rightarrow> Inr (h', Removed n))"

fun heap_run :: "prio_heap \<Rightarrow> heap_op list \<Rightarrow> (prio_heap \<times> heap_reply list) outcome" where
  "heap_run h [] = Inr (h, [])"
| "heap_run h (op # ops) =
     bind_outcome (heap_step h op) (\<lambda>(h', r).
       bind_outcome (heap_run h' ops) (\<lambda>(h'', rs). Inr (h'', r # rs)))"

fun order_step ::
    "nat \<Rightarrow> sent_transaction_info list \<Rightarrow> heap_op \<Rightarrow> sent_transaction_info list \<times> heap_reply" where
  "order_step n xs (OpInsert tx) = (order_admit n tx xs, NoReply)"
| "order_step n xs OpPop = (tl xs, Popped (case xs of [] \<Rightarrow> None | t # _ \<Rightarrow> Some t))"
| "order_step n xs (OpExpire c) =
     (filter (retained c) xs, Removed (length (filter (\<lambda>t. \<not> retained c t) xs)))"
| "order_step n xs OpClear = ([], Removed (length xs))"

fun order_run ::
    "nat \<Rightarrow> sent_transaction_info list \<Rightarrow> heap_op list \<Rightarrow>
     sent_transaction_info list \<times> heap_reply list" where
  "order_run n xs [] = (xs, [])"
| "order_run n xs (op # ops) =
     (case order_step n xs op of (xs', r) \<Rightarrow>
        (case order_run n xs' ops of (xs'', rs) \<Rightarrow> (xs'', r # rs)))"

lemma heap_step_refines:
  assumes "heap_inv h" and "0 < ph_max h"
  shows "\<exists>h' r. heap_step h op = Inr (h', r) \<and> heap_inv h' \<and> ph_max h' = ph_max h \<and>
    order_step (ph_max h) (heap_order h) op = (heap_order h', r)"
proof (cases op)
  case (OpInsert tx)
  with insert_refines [OF assms, of tx] show ?thesis by fastforce
next
  case OpPop
  with pop_refines [OF assms(1)] show ?thesis by fastforce
next
  case (OpExpire c)
  with expire_refines [OF assms(1), of c] show ?thesis by (simp add: split_def)
next
  case OpClear
  with clear_refines [OF assms(1)] show ?thesis by (simp add: split_def)
qed

lemma heap_run_refines:
  "heap_inv h \<Longrightarrow> 0 < ph_max h \<Longrightarrow>
   \<exists>h' rs. heap_run h ops = Inr (h', rs) \<and> heap_inv h' \<and> ph_max h' = ph_max h \<and>
     order_run (ph_max h) (heap_order h) ops = (heap_order h', rs)"
proof (induction ops arbitrary: h)
  case (Cons op ops)
  obtain h1 r where "heap_step h op = Inr (h1, r)" "heap_inv h1" "ph_max h1 = ph_max h"
      "order_step (ph_max h) (heap_order h) op = (heap_order h1, r)"
    using heap_step_refines [OF Cons.prems] by blast
  with Cons.IH [of h1] Cons.prems show ?case by fastforce
qed simp

lemma heap_inv_falling: "heap_inv h \<Longrightarrow> falling_fees (heap_order h)"
  using cells_falling heap_inv_cells by (simp add: heap_order_def)

lemma heap_new_facts [simp]: "heap_order (heap_new n) = []" "ph_max (heap_new n) = n"
  by (simp_all add: heap_new_def heap_order_def)

lemma order_evict_snoc:
  assumes "falling_fees xs" and "xs \<noteq> []"
  obtains ys t zs where "xs = ys @ t # zs" and "order_evict xs = ys @ zs"
    and "st_prioritization_fee t = st_prioritization_fee (last xs)"
proof -
  let ?P = "\<lambda>t. st_prioritization_fee (last xs) < st_prioritization_fee t"
  have "\<exists>x \<in> set xs. \<not> ?P x" using assms(2) by (intro bexI [of _ "last xs"]) auto
  then have "dropWhile ?P xs \<noteq> []" by (simp add: dropWhile_eq_Nil_conv)
  then obtain t zs where tz: "dropWhile ?P xs = t # zs" by (cases "dropWhile ?P xs") auto
  then have split: "xs = takeWhile ?P xs @ t # zs" by (metis takeWhile_dropWhile_id)
  have "\<not> ?P t" using tz by (metis dropWhile_eq_Cons_conv)
  moreover have "st_prioritization_fee (last xs) \<le> st_prioritization_fee t"
  proof (cases "zs = []")
    case True
    then show ?thesis using split by (metis last_snoc order.refl)
  next
    case False
    then have "last xs \<in> set zs" using split by (metis last_appendR last_in_set last.simps list.simps(3))
    moreover have "falling_fees (takeWhile ?P xs @ t # zs)" using assms(1) split by simp
    ultimately show ?thesis by (simp add: falling_fees_def sorted_wrt_append)
  qed
  ultimately have "st_prioritization_fee t = st_prioritization_fee (last xs)" by simp
  moreover have "order_evict xs = takeWhile ?P xs @ zs" by (simp add: order_evict_def tz)
  ultimately show thesis using split that by blast
qed

lemma falling_fees_last:
  "falling_fees xs \<Longrightarrow> x \<in> set xs \<Longrightarrow> st_prioritization_fee (last xs) \<le> st_prioritization_fee x"
  by (induction xs) (auto simp: falling_fees_def)

lemma falling_order_insert: "falling_fees xs \<Longrightarrow> falling_fees (order_insert tx xs)"
  by (induction xs) (auto simp: falling_fees_def order_insert_def dest: set_takeWhileD
      set_dropWhileD)

lemma order_insert_last:
  assumes "x \<in> set xs" and "st_prioritization_fee (last xs) < st_prioritization_fee tx"
  shows "last (order_insert tx xs) = last xs"
proof -
  let ?P = "\<lambda>t. st_prioritization_fee tx \<le> st_prioritization_fee t"
  have "last xs \<in> set xs" using assms(1) by (cases xs rule: rev_cases) auto
  then have "dropWhile ?P xs \<noteq> []" using assms(2) by (meson dropWhile_eq_Nil_conv leD)
  then have "last (dropWhile ?P xs) = last xs" by (metis last_appendR takeWhile_dropWhile_id)
  with \<open>dropWhile ?P xs \<noteq> []\<close> show ?thesis by (metis last_ConsR last_appendR list.simps(3) order_insert_def)
qed

lemma distinct_order_insert: "distinct (order_insert tx xs) \<longleftrightarrow> distinct (tx # xs)"
  by (metis mset.simps(2) mset_eq_imp_distinct_iff mset_order_insert)

section \<open>Properties\<close>

text \<open>C2: Refinement: on a heap of positive capacity, every sequence of insert, pop, expiry and clear
  calls runs without a panic, answers exactly as the operations on the list of pending transactions,
  and leaves a heap whose transactions stand by falling fee, with distinct signatures, no more than
  the capacity.\<close>

theorem heap_refines_order:
  assumes "0 < n"
  shows "\<exists>h rs. heap_run (heap_new n) ops = Inr (h, rs) \<and>
    order_run n [] ops = (heap_order h, rs) \<and> falling_fees (heap_order h) \<and>
    distinct (List.map st_signature (heap_order h)) \<and> heap_size h = length (heap_order h) \<and>
    heap_size h \<le> n"
proof -
  obtain h rs where run: "heap_run (heap_new n) ops = Inr (h, rs)"
      "order_run n [] ops = (heap_order h, rs)" and h: "heap_inv h" "ph_max h = n"
    using heap_run_refines [OF heap_new_inv, of n ops] assms by auto
  from h heap_inv_falling [OF h(1)] heap_inv_card [OF h(1)] run show ?thesis
    by (auto simp: heap_inv_def heap_size_def)
qed

definition sample_tx :: "signature \<Rightarrow> u64 \<Rightarrow> sent_transaction_info" where
  "sample_tx sig fee = \<lparr>st_signature = sig, st_slot = 0, st_transaction = [],
     st_last_valid_block_height = 0, st_prioritization_fee = fee\<rparr>"

lemma heap_refines_order_witness:
  "\<exists>h rs. heap_run (heap_new 2)
      [OpInsert (sample_tx 1 0), OpInsert (sample_tx 2 10), OpInsert (sample_tx 3 5), OpPop]
      = Inr (h, rs) \<and>
    order_run 2 []
      [OpInsert (sample_tx 1 0), OpInsert (sample_tx 2 10), OpInsert (sample_tx 3 5), OpPop]
      = (heap_order h, rs) \<and> heap_size h \<le> 2"
  using heap_refines_order [of 2
      "[OpInsert (sample_tx 1 0), OpInsert (sample_tx 2 10), OpInsert (sample_tx 3 5), OpPop]"]
  by auto

text \<open>\<open>pop\<close> takes out a transaction with the highest fee: it was pending, no pending
  transaction pays more, and its signature is free for insertion again.\<close>

theorem pop_takes_highest_fee:
  assumes "heap_inv h" and "heap_pop h = Inr (h', Some t)"
  shows "t \<in> set (heap_order h) \<and> st_signature t \<notin> ph_signatures h' \<and>
    (\<forall>x \<in> set (heap_order h). st_prioritization_fee x \<le> st_prioritization_fee t) \<and>
    set (heap_order h') = set (heap_order h) - {t}"
proof -
  obtain xs where order: "heap_order h = t # xs" and h': "heap_inv h'" "heap_order h' = xs"
    using pop_refines [OF assms(1)] assms(2) by (cases "heap_order h") auto
  have d: "distinct (List.map st_signature (t # xs))"
    using assms(1) order by (metis heap_inv_def)
  then have "st_signature t \<notin> ph_signatures h'" using h' by (simp add: heap_inv_def)
  then show ?thesis
    using heap_inv_falling [OF assms(1)] order h' d
    by (auto simp: falling_fees_def)
qed

definition sample_heap :: prio_heap where
  "sample_heap = \<lparr>ph_map = [(0, [sample_tx 1 0]), (10, [sample_tx 2 10])],
     ph_signatures = {1, 2}, ph_max = 2\<rparr>"

lemma sample_heap_facts:
  "heap_inv sample_heap" "heap_order sample_heap = [sample_tx 2 10, sample_tx 1 0]"
  "ph_max sample_heap = 2"
  by (auto simp: heap_inv_def sample_heap_def heap_order_def sample_tx_def cells_ok_Cons)

lemma pop_takes_highest_fee_witness:
  "sample_tx 2 10 \<in> set (heap_order sample_heap)"
  using pop_takes_highest_fee [of sample_heap "sample_heap\<lparr>ph_map := [(0, [sample_tx 1 0])],
      ph_signatures := {1}\<rparr>" "sample_tx 2 10"] sample_heap_facts(1)
  by (simp add: heap_pop_def sample_heap_def bt_last_def set_queue_def bt_del_def sample_tx_def
      insert_Diff_if)

text \<open>A full heap keeps the best: a new transaction that pays more than the lowest fee is
  admitted, and exactly one transaction with the lowest fee is evicted for it; nothing that stays
  pays less than the evicted one.\<close>

theorem full_heap_evicts_lowest_fee:
  assumes "heap_inv h" and "0 < ph_max h" and "heap_size h = ph_max h"
    and "st_signature tx \<notin> ph_signatures h" and "low \<in> set (heap_order h)"
    and "st_prioritization_fee low < st_prioritization_fee tx"
  shows "\<exists>h' evicted. heap_insert h tx = Inr h' \<and> evicted \<in> set (heap_order h) \<and>
    set (heap_order h') = insert tx (set (heap_order h)) - {evicted} \<and> tx \<in> set (heap_order h') \<and>
    (\<forall>x \<in> set (heap_order h). st_prioritization_fee evicted \<le> st_prioritization_fee x) \<and>
    heap_size h' = ph_max h"
proof -
  let ?xs = "heap_order h" and ?ins = "order_insert tx (heap_order h)"
  obtain h' where ins: "heap_insert h tx = Inr h'" and h': "heap_inv h'"
    and ord: "heap_order h' = order_admit (ph_max h) tx ?xs"
    using insert_refines [OF assms(1,2)] by blast
  have fall: "falling_fees ?xs" using heap_inv_falling [OF assms(1)] .
  have ne: "?xs \<noteq> []" using assms(5) by auto
  have last_le: "st_prioritization_fee (last ?xs) \<le> st_prioritization_fee x" if "x \<in> set ?xs" for x
    using fall that ne by (metis falling_fees_last)
  have last_ins: "last ?ins = last ?xs"
    using order_insert_last [OF assms(5)] last_le [OF assms(5)] assms(6) by (metis le_less_trans)
  have d: "distinct ?ins" "set ?ins = insert tx (set ?xs)"
    using assms(1,4) by (auto simp: heap_inv_def set_order_insert distinct_order_insert
        distinct_map)
  obtain ys t zs where e: "?ins = ys @ t # zs" "order_evict ?ins = ys @ zs"
    and t: "st_prioritization_fee t = st_prioritization_fee (last ?ins)"
    using order_evict_snoc [of ?ins] falling_order_insert [OF fall] by (metis d(2) empty_not_insert set_empty)
  have fee: "st_prioritization_fee t \<le> st_prioritization_fee low"
    using t last_ins last_le [OF assms(5)] by simp
  have "\<not> st_prioritization_fee tx \<le> st_prioritization_fee (last ?xs)"
    using last_le [OF assms(5)] assms(6) by auto
  then have admit: "heap_order h' = ys @ zs"
    using ord assms(1,3,4) e(2) heap_inv_card [OF assms(1)]
    by (simp add: order_admit_def heap_inv_def heap_size_def)
  have set_eq: "set (ys @ zs) = insert tx (set ?xs) - {t}" "t \<in> insert tx (set ?xs)"
    using d e(1) by auto
  have "t \<noteq> tx" using fee assms(6) by auto
  then have "t \<in> set ?xs" using set_eq(2) by simp
  moreover have "heap_size h' = ph_max h"
    using heap_inv_card [OF h'] heap_inv_card [OF assms(1)] admit assms(3) e(1)
      length_order_insert [of tx ?xs] by (simp add: heap_size_def)
  ultimately show ?thesis
    using ins admit set_eq(1) \<open>t \<noteq> tx\<close> t last_ins last_le by auto
qed

lemma full_heap_evicts_lowest_fee_witness:
  "\<exists>h' evicted. heap_insert sample_heap (sample_tx 3 5) = Inr h' \<and>
    evicted \<in> set (heap_order sample_heap) \<and> sample_tx 3 5 \<in> set (heap_order h')"
proof -
  have "sample_tx 1 0 \<in> set (heap_order sample_heap)" by (simp add: sample_heap_facts)
  with full_heap_evicts_lowest_fee [OF sample_heap_facts(1), of "sample_tx 3 5" "sample_tx 1 0"]
  show ?thesis by (auto simp: sample_heap_def heap_size_def sample_tx_def)
qed

text \<open>Edge case: a heap of capacity zero has no lowest entry to compare with, so its first
  insertion panics on \<open>first_entry().unwrap()\<close>.\<close>

theorem zero_capacity_insert_panics: "heap_insert (heap_new 0) tx = Inl UnwrapNone"
  by (simp add: heap_insert_def heap_new_def bt_first_def)

end
