(* ===== verification/Leader_Lookup.thy ===== *)
theory Leader_Lookup
  imports Data_Cache
begin

text \<open>
  \<open>core/src/structures/leaderschedule.rs\<close>: the two queries on the calculated schedule, the
  leaders of one node for the epoch of a slot and the leaders of a range of slots, and the parsing
  of the vote account query.  A range that leaves the current epoch is answered from the schedule
  of the next one; the second section shows exactly how many leaders come back.
\<close>

section \<open>Queries\<close>

record rpc_get_vote_accounts_config =
  rv_vote_pubkey :: "string option"
  rv_commitment :: "commitment_config option"
  rv_keep_unstaked_delinquents :: "bool option"
  rv_delinquent_slot_distance :: "u64 option"

record get_vote_accounts_config =
  gv_vote_pubkey :: "pubkey option"
  gv_commitment :: "commitment_config option"
  gv_keep_unstaked_delinquents :: "bool option"
  gv_delinquent_slot_distance :: "u64 option"

text \<open>The parser of the base58 form of a public key belongs to the SDK and is an argument.\<close>

definition get_vote_accounts_config_try_from ::
    "(string \<Rightarrow> 'e + pubkey) \<Rightarrow> rpc_get_vote_accounts_config \<Rightarrow> 'e + get_vote_accounts_config"
where
  "get_vote_accounts_config_try_from from_str config =
     (let parsed = (case rv_vote_pubkey config of
            None \<Rightarrow> Inr None
          | Some pk \<Rightarrow> (case from_str pk of Inl e \<Rightarrow> Inl e | Inr k \<Rightarrow> Inr (Some k)))
      in case parsed of
           Inl e \<Rightarrow> Inl e
         | Inr vote_pubkey \<Rightarrow> Inr \<lparr>gv_vote_pubkey = vote_pubkey,
             gv_commitment = rv_commitment config,
             gv_keep_unstaked_delinquents = rv_keep_unstaked_delinquents config,
             gv_delinquent_slot_distance = rv_delinquent_slot_distance config\<rparr>)"

text \<open>The default commitment of the SDK is finalized.\<close>

definition get_leader_schedule_for_slot ::
    "calculated_schedule \<Rightarrow> u64 option \<Rightarrow> commitment_config option \<Rightarrow> data_cache \<Rightarrow>
     (string, nat list) hashmap option" where
  "get_leader_schedule_for_slot cs sl commitment dc =
     (let c = unwrap_or commitment finalized_config;
          s = (case sl of
                 Some s \<Rightarrow> s
               | None \<Rightarrow> bn_slot (get_latest_block_information (dc_block_information_store dc) c));
          e = get_epoch_at_slot (dc_epoch_data dc) s;
          get_schedule = (\<lambda>schedule_data. case schedule_data of
              None \<Rightarrow> None
            | Some current \<Rightarrow>
                if ls_epoch current = ep_epoch e then Some (ls_schedule_by_node current) else None)
      in or_else (get_schedule (cs_current cs)) (get_schedule (cs_next cs)))"

definition max_get_slot_leaders :: nat where
  "max_get_slot_leaders = 5000"

datatype slot_leaders_error = InvalidLimit | EpochUnavailable u64

text \<open>
  The closure over the remaining limit (a \<open>usize\<close>) and the leaders found so far; after each
  extension the number of all leaders found so far is taken off the limit.
\<close>

definition extend_slot_from_epoch ::
    "pubkey list \<Rightarrow> nat \<Rightarrow> u64 \<times> pubkey list \<Rightarrow> u64 \<times> pubkey list" where
  "extend_slot_from_epoch leader_schedule slot_index st =
     (case st of (limit, slot_leaders) \<Rightarrow>
        (let room = unat limit - length slot_leaders;
             slot_leaders' = slot_leaders @ take room (drop slot_index leader_schedule)
         in (limit - word_of_nat (length slot_leaders'), slot_leaders')))"

definition matching_schedules ::
    "calculated_schedule \<Rightarrow> u64 \<Rightarrow> u64 \<Rightarrow> (leader_schedule_data \<times> nat) list" where
  "matching_schedules cs e slot_index =
     List.map_filter
       (\<lambda>(epoch_data, i, ep). case epoch_data of
            None \<Rightarrow> None
          | Some d \<Rightarrow> if ls_epoch d = ep then Some (d, i) else None)
       [(cs_current cs, unat slot_index, e), (cs_next cs, unat slot_index, e), (cs_next cs, 0, e + 1)]"

definition get_slot_leaders ::
    "calculated_schedule \<Rightarrow> slot \<Rightarrow> u64 \<Rightarrow> epoch_schedule \<Rightarrow> slot_leaders_error + pubkey list"
where
  "get_slot_leaders cs start_slot limit es =
     (if unat limit > max_get_slot_leaders then Inl InvalidLimit
      else
        (let (e, slot_index) = es_epoch_and_slot_index es start_slot;
             found = matching_schedules cs e slot_index;
             (_, slot_leaders) =
               fold (\<lambda>(d, i). extend_slot_from_epoch (ls_schedule_by_slot d) i) found (limit, [])
         in if found = [] then Inl (EpochUnavailable e) else Inr slot_leaders))"

section \<open>Lemmas\<close>

lemma epoch_not_next: "(e :: u64) \<noteq> e + 1"
  by simp

lemma extend_first:
  "extend_slot_from_epoch sched i (limit, []) =
     (limit - word_of_nat (length (take (unat limit) (drop i sched))),
      take (unat limit) (drop i sched))"
  by (simp add: extend_slot_from_epoch_def Let_def)

lemma extend_second:
  fixes limit :: u64
  assumes "length found \<le> unat limit"
  shows "snd (extend_slot_from_epoch sched i (limit - word_of_nat (length found), found)) =
    found @ take (unat limit - 2 * length found) (drop i sched)"
proof -
  have "unat (limit - word_of_nat (length found)) - length found = unat limit - 2 * length found"
    by (simp only: unat_u64_sub_of_nat [OF assms] diff_diff_left mult_2)
  then show ?thesis by (simp add: extend_slot_from_epoch_def Let_def)
qed

text \<open>The leaders of an epoch, followed by those of the next one, as the calls add them.\<close>

lemma slot_leaders_spanning:
  assumes "unat limit \<le> max_get_slot_leaders"
    and "es_epoch_and_slot_index es start = (e, i)"
    and "cs_current cs = Some cur" and "ls_epoch cur = e"
    and "cs_next cs = Some nxt" and "ls_epoch nxt = e + 1"
  shows "get_slot_leaders cs start limit es =
    Inr (let first = take (unat limit) (drop (unat i) (ls_schedule_by_slot cur))
         in first @ take (unat limit - 2 * length first) (ls_schedule_by_slot nxt))"
proof -
  let ?first = "take (unat limit) (drop (unat i) (ls_schedule_by_slot cur))"
  have "snd (extend_slot_from_epoch (ls_schedule_by_slot nxt) 0
      (extend_slot_from_epoch (ls_schedule_by_slot cur) (unat i) (limit, []))) =
      ?first @ take (unat limit - 2 * length ?first) (ls_schedule_by_slot nxt)"
    unfolding extend_first by (subst extend_second) simp_all
  then show ?thesis
    using assms by (simp add: get_slot_leaders_def matching_schedules_def List.map_filter_def
        split_def Let_def)
qed

lemma extend_full:
  "length found = unat limit \<Longrightarrow> extend_slot_from_epoch sched i (0, found) = (- limit, found)"
  by (simp add: extend_slot_from_epoch_def Let_def flip: word_unat_eq_iff)

lemma slot_leaders_current:
  assumes "unat limit \<le> max_get_slot_leaders"
    and "es_epoch_and_slot_index es start = (e, i)"
    and "cs_current cs = Some cur" and "ls_epoch cur = e"
    and "unat i + unat limit \<le> length (ls_schedule_by_slot cur)"
  shows "get_slot_leaders cs start limit es =
    Inr (take (unat limit) (drop (unat i) (ls_schedule_by_slot cur)))"
proof -
  let ?first = "take (unat limit) (drop (unat i) (ls_schedule_by_slot cur))"
  have len: "length ?first = unat limit" using assms(5) by simp
  then have first: "extend_slot_from_epoch (ls_schedule_by_slot cur) (unat i) (limit, []) = (0, ?first)"
    unfolding extend_first by simp
  note full = extend_full [OF len]
  show ?thesis
    using assms(1-4) epoch_not_next [of e]
    by (cases "cs_next cs")
      (auto simp: get_slot_leaders_def matching_schedules_def List.map_filter_def Let_def
        first full)
qed

section \<open>Properties\<close>

text \<open>A range of slots that lies inside the current epoch is answered with exactly the leaders
  of its slots, in slot order, whatever the schedule of the next epoch is.\<close>

theorem slot_leaders_within_epoch:
  assumes "unat limit \<le> max_get_slot_leaders"
    and "es_epoch_and_slot_index es start = (e, i)"
    and "cs_current cs = Some cur" and "ls_epoch cur = e"
    and "unat i + unat limit \<le> length (ls_schedule_by_slot cur)"
  shows "get_slot_leaders cs start limit es =
    Inr (List.map (\<lambda>k. ls_schedule_by_slot cur ! (unat i + k)) [0..<unat limit])"
  unfolding slot_leaders_current [OF assms]
  using assms(5) by (auto intro!: nth_equalityI)

definition sample_schedule :: "u64 \<Rightarrow> pubkey list \<Rightarrow> leader_schedule_data" where
  "sample_schedule e leaders = \<lparr>ls_schedule_by_node = [], ls_schedule_by_slot = leaders, ls_epoch = e\<rparr>"

definition sample_calculated :: calculated_schedule where
  "sample_calculated = \<lparr>cs_current = Some (sample_schedule 0 [1, 2, 3, 4, 5, 6]),
     cs_next = Some (sample_schedule 1 [11, 12, 13, 14, 15, 16])\<rparr>"

definition sample_epochs :: epoch_schedule where
  "sample_epochs = \<lparr>es_slots_per_epoch = 6, es_epoch_and_slot_index = (\<lambda>s. (s div 6, s mod 6)),
     es_slots_in_epoch = (\<lambda>_. 6), es_first_slot_in_epoch = (\<lambda>e. e * 6), es_last_slot_in_epoch = (\<lambda>e. e * 6 + 5)\<rparr>"

lemma slot_leaders_within_epoch_witness:
  "get_slot_leaders sample_calculated 2 3 sample_epochs = Inr [3, 4, 5]"
proof -
  have "get_slot_leaders sample_calculated 2 3 sample_epochs =
    Inr (List.map (\<lambda>k. ls_schedule_by_slot (sample_schedule 0 [1, 2, 3, 4, 5, 6]) ! (unat (2 :: u64) + k))
      [0..<unat (3 :: u64)])"
    by (rule slot_leaders_within_epoch [of 3 sample_epochs 2 0 2 sample_calculated
          "sample_schedule 0 [1, 2, 3, 4, 5, 6]"])
      (simp_all add: sample_calculated_def sample_epochs_def sample_schedule_def
        max_get_slot_leaders_def)
  then show ?thesis by (simp add: sample_schedule_def upt_conv_Cons)
qed

text \<open>A range that runs over the end of the current epoch comes back too short: with \<open>rest\<close>
  leaders left in the current epoch and the whole next epoch known, the code takes the leaders
  found so far off a limit that no longer contains them and adds only \<open>limit - 2 * rest\<close> leaders
  of the next epoch instead of \<open>limit - rest\<close>.\<close>

theorem slot_leaders_truncated_at_epoch_end:
  assumes "unat limit \<le> max_get_slot_leaders"
    and "es_epoch_and_slot_index es start = (e, i)"
    and "cs_current cs = Some cur" and "ls_epoch cur = e"
    and "cs_next cs = Some nxt" and "ls_epoch nxt = e + 1"
    and "rest = length (ls_schedule_by_slot cur) - unat i" and "0 < rest" and "rest < unat limit"
    and "unat limit - rest \<le> length (ls_schedule_by_slot nxt)"
  shows "\<exists>leaders. get_slot_leaders cs start limit es = Inr leaders \<and>
    leaders = drop (unat i) (ls_schedule_by_slot cur) @
      take (unat limit - 2 * rest) (ls_schedule_by_slot nxt) \<and>
    length leaders = max rest (unat limit - rest) \<and> length leaders < unat limit"
proof -
  have "take (unat limit) (drop (unat i) (ls_schedule_by_slot cur)) =
      drop (unat i) (ls_schedule_by_slot cur)"
    using assms(7,9) by simp
  then have "get_slot_leaders cs start limit es = Inr (drop (unat i) (ls_schedule_by_slot cur) @
      take (unat limit - 2 * rest) (ls_schedule_by_slot nxt))"
    using slot_leaders_spanning [OF assms(1-6)] assms(7) by (simp add: Let_def)
  then show ?thesis using assms(7-10) by auto
qed

lemma slot_leaders_truncated_at_epoch_end_witness:
  "get_slot_leaders sample_calculated 4 6 sample_epochs = Inr [5, 6, 11, 12]"
proof -
  let ?cur = "sample_schedule 0 [1, 2, 3, 4, 5, 6]"
  let ?nxt = "sample_schedule 1 [11, 12, 13, 14, 15, 16]"
  have "\<exists>leaders. get_slot_leaders sample_calculated 4 6 sample_epochs = Inr leaders \<and>
    leaders = drop (unat (4 :: u64)) (ls_schedule_by_slot ?cur) @
      take (unat (6 :: u64) - 2 * 2) (ls_schedule_by_slot ?nxt) \<and>
    length leaders = max 2 (unat (6 :: u64) - 2) \<and> length leaders < unat (6 :: u64)"
    by (rule slot_leaders_truncated_at_epoch_end [of 6 sample_epochs 4 0 4 sample_calculated ?cur
          ?nxt 2])
      (simp_all add: sample_calculated_def sample_epochs_def sample_schedule_def
        max_get_slot_leaders_def)
  then show ?thesis by (auto simp: sample_schedule_def)
qed

end
