(* ===== verification/Takable.thy ===== *)
theory Takable
  imports Core_Data "HOL-Library.Multiset"
begin

text \<open>
  \<open>stake_vote/src/utils.rs\<close>: a collection whose content a task takes out, works on and merges
  back.  Updates that arrive in between, and updates that belong to the next epoch, wait in a list
  and are applied at the merge.  A \<open>Notify\<close> is represented by its identity; which of the tasks
  waiting on it is woken, and when, is left to the scheduler: the theories that use this one keep
  the waiting tasks in a list from which any task may be resumed.
\<close>

section \<open>The collection\<close>

datatype 'a update_action = NotifyUpdate slot 'a | RemoveUpdate pubkey slot

datatype ('n, 'c) take_result = Taken "'n list" | TakenMap 'c

text \<open>\<open>TakeResult::and_then\<close>: mixed results are unreachable code of the source.\<close>

fun take_and_then ::
    "('n, 'c) take_result \<Rightarrow> ('n, 'd) take_result \<Rightarrow> ('n, 'c \<times> 'd) take_result outcome" where
  "take_and_then (Taken n1) (Taken n2) = Inr (Taken (n1 @ n2))"
| "take_and_then (TakenMap c1) (TakenMap c2) = Inr (TakenMap (c1, c2))"
| "take_and_then _ _ = Inl Unreachable"

record ('n, 't, 'c) takable_map =
  tm_content :: "'c option"
  tm_updates :: "'t update_action list"
  tm_notifier :: 'n

definition takable_new :: "'n \<Rightarrow> 'c \<Rightarrow> ('n, 't, 'c) takable_map" where
  "takable_new notifier content = \<lparr>tm_content = Some content, tm_updates = [], tm_notifier = notifier\<rparr>"

definition takable_add_value ::
    "('c \<Rightarrow> 't update_action \<Rightarrow> 'c) \<Rightarrow> ('n, 't, 'c) takable_map \<Rightarrow> 't update_action \<Rightarrow> bool \<Rightarrow>
     ('n, 't, 'c) takable_map" where
  "takable_add_value add t val force_in_update =
     (case tm_content t of
        Some content \<Rightarrow>
          if force_in_update then t\<lparr>tm_updates := tm_updates t @ [val]\<rparr>
          else t\<lparr>tm_content := Some (add content val)\<rparr>
      | None \<Rightarrow> t\<lparr>tm_updates := tm_updates t @ [val]\<rparr>)"

definition takable_take ::
    "('n, 't, 'c) takable_map \<Rightarrow> ('n, 't, 'c) takable_map \<times> ('n, 'c) take_result" where
  "takable_take t =
     (case tm_content t of
        Some content \<Rightarrow> (t\<lparr>tm_content := None\<rparr>, TakenMap content)
      | None \<Rightarrow> (t, Taken [tm_notifier t]))"

definition takable_merge ::
    "('c \<Rightarrow> 't update_action \<Rightarrow> 'c) \<Rightarrow> ('n, 't, 'c) takable_map \<Rightarrow> 'c \<Rightarrow>
     ('n, 't, 'c) takable_map \<times> (string + unit)" where
  "takable_merge add t content =
     (case tm_content t of
        None \<Rightarrow> (t\<lparr>tm_content := Some (foldl add content (tm_updates t)), tm_updates := []\<rparr>, Inr ())
      | Some _ \<Rightarrow> (t, Inl ''TakableMap with a existing content''))"

definition takable_is_taken :: "('n, 't, 'c) takable_map \<Rightarrow> bool" where
  "takable_is_taken t \<longleftrightarrow> tm_content t = None"

section \<open>Two collections at once\<close>

definition takable_pair_take ::
    "('n, 't, 'c) takable_map \<Rightarrow> ('n, 'u, 'd) takable_map \<Rightarrow>
     (('n, 't, 'c) takable_map \<times> ('n, 'u, 'd) takable_map \<times> ('n, 'c \<times> 'd) take_result) outcome" where
  "takable_pair_take a b =
     (if takable_is_taken a = takable_is_taken b then
        (let (a', r) = takable_take a; (b', s) = takable_take b
         in bind_outcome (take_and_then r s) (\<lambda>rs. Inr (a', b', rs)))
      else if takable_is_taken a then
        (case takable_take a of
           (a', Taken notif) \<Rightarrow> Inr (a', b, Taken notif)
         | (_, TakenMap _) \<Rightarrow> Inl Unreachable)
      else
        (case takable_take b of
           (b', Taken notif) \<Rightarrow> Inr (a, b', Taken notif)
         | (_, TakenMap _) \<Rightarrow> Inl Unreachable))"

definition takable_pair_merge ::
    "('c \<Rightarrow> 't update_action \<Rightarrow> 'c) \<Rightarrow> ('d \<Rightarrow> 'u update_action \<Rightarrow> 'd) \<Rightarrow>
     ('n, 't, 'c) takable_map \<Rightarrow> ('n, 'u, 'd) takable_map \<Rightarrow> 'c \<times> 'd \<Rightarrow>
     ('n, 't, 'c) takable_map \<times> ('n, 'u, 'd) takable_map \<times> (string + unit)" where
  "takable_pair_merge add1 add2 a b content =
     (case takable_merge add1 a (fst content) of
        (a', Inl e) \<Rightarrow> (a', b, Inl e)
      | (a', Inr _) \<Rightarrow> (let (b', r) = takable_merge add2 b (snd content) in (a', b', r)))"

definition takable_pair_is_taken ::
    "('n, 't, 'c) takable_map \<Rightarrow> ('n, 'u, 'd) takable_map \<Rightarrow> bool" where
  "takable_pair_is_taken a b \<longleftrightarrow> takable_is_taken a \<and> takable_is_taken b"

text \<open>
  The content with the request, or a new waiting task for the request; the second component is the
  list of waiting tasks, each with the notifiers it waits for.
\<close>

definition wait_for_merge_or_get_content ::
    "('n, 't, 'c) takable_map \<Rightarrow> 'r \<Rightarrow> ('n list \<times> 'r) list \<Rightarrow>
     ('n, 't, 'c) takable_map \<times> ('n list \<times> 'r) list \<times> ('c \<times> 'r) option" where
  "wait_for_merge_or_get_content t notify_content waiters =
     (case takable_take t of
        (t', TakenMap content) \<Rightarrow> (t', waiters, Some (content, notify_content))
      | (t', Taken notifs) \<Rightarrow> (t', waiters @ [(notifs, notify_content)], None))"

section \<open>Lemmas\<close>

lemma takable_pair_take_total:
  "\<exists>a' b' r. takable_pair_take a b = Inr (a', b', r) \<and>
     (r = TakenMap (the (tm_content a), the (tm_content b)) \<and>
        tm_content a \<noteq> None \<and> tm_content b \<noteq> None \<and>
        a' = a\<lparr>tm_content := None\<rparr> \<and> b' = b\<lparr>tm_content := None\<rparr> \<or>
      (\<exists>ns. r = Taken ns \<and> ns \<noteq> []) \<and> (tm_content a = None \<or> tm_content b = None) \<and> a' = a \<and> b' = b)"
  by (cases "tm_content a"; cases "tm_content b")
    (simp_all add: takable_pair_take_def takable_is_taken_def takable_take_def)

text \<open>The content that a task works on, kept beside the collection it came from.\<close>

datatype 't takable_op = AddValue "'t update_action" bool | TakeContent | MergeContent

fun takable_step ::
    "('c \<Rightarrow> 't update_action \<Rightarrow> 'c) \<Rightarrow> ('n, 't, 'c) takable_map \<times> 'c option \<Rightarrow> 't takable_op \<Rightarrow>
     ('n, 't, 'c) takable_map \<times> 'c option" where
  "takable_step add (t, held) (AddValue v force) = (takable_add_value add t v force, held)"
| "takable_step add (t, held) TakeContent =
     (case takable_take t of
        (t', TakenMap c) \<Rightarrow> (t', Some c)
      | (t', Taken _) \<Rightarrow> (t', held))"
| "takable_step add (t, held) MergeContent =
     (case held of
        Some c \<Rightarrow> (fst (takable_merge add t c), None)
      | None \<Rightarrow> (t, None))"

definition takable_run ::
    "('c \<Rightarrow> 't update_action \<Rightarrow> 'c) \<Rightarrow> ('n, 't, 'c) takable_map \<times> 'c option \<Rightarrow> 't takable_op list \<Rightarrow>
     ('n, 't, 'c) takable_map \<times> 'c option" where
  "takable_run add = foldl (takable_step add)"

fun added_values :: "'t takable_op list \<Rightarrow> 't update_action list" where
  "added_values [] = []"
| "added_values (AddValue v _ # ops) = v # added_values ops"
| "added_values (_ # ops) = added_values ops"

fun nothing_deferred :: "'t takable_op list \<Rightarrow> bool" where
  "nothing_deferred [] = True"
| "nothing_deferred (AddValue _ force # ops) = (\<not> force \<and> nothing_deferred ops)"
| "nothing_deferred (_ # ops) = nothing_deferred ops"

text \<open>Either the collection or the task has the content.\<close>

definition takable_content_of :: "('n, 't, 'c) takable_map \<times> 'c option \<Rightarrow> 'c option" where
  "takable_content_of s = or_else (tm_content (fst s)) (snd s)"

definition takable_once :: "('n, 't, 'c) takable_map \<times> 'c option \<Rightarrow> bool" where
  "takable_once s \<longleftrightarrow> (tm_content (fst s) = None) = (snd s \<noteq> None)"

lemma takable_step_once: "takable_once s \<Longrightarrow> takable_once (takable_step add s x)"
  by (cases s; cases x)
    (auto simp: takable_once_def takable_add_value_def takable_take_def takable_merge_def
      split: option.splits)

text \<open>
  One operation: an added value is applied to the content, or waits in the list; a merge applies
  the list.
\<close>

lemma takable_step_accounts:
  assumes "takable_once s" and "takable_content_of s = Some (foldl add c0 applied)"
  shows "\<exists>applied'. takable_content_of (takable_step add s x) = Some (foldl add c0 applied') \<and>
    mset applied' + mset (tm_updates (fst (takable_step add s x))) =
      mset applied + mset (tm_updates (fst s)) + mset (added_values [x]) \<and>
    (nothing_deferred [x] \<longrightarrow> (tm_content (fst s) = None \<or> tm_updates (fst s) = []) \<longrightarrow>
      applied' @ tm_updates (fst (takable_step add s x)) =
        applied @ tm_updates (fst s) @ added_values [x] \<and>
      (tm_content (fst (takable_step add s x)) = None \<or> tm_updates (fst (takable_step add s x)) = []))"
proof -
  obtain t held where s: "s = (t, held)" by (cases s)
  show ?thesis
  proof (cases x)
    case (AddValue v force)
    show ?thesis
    proof (cases "tm_content t")
      case None
      then show ?thesis
        using assms by (intro exI [of _ applied])
          (simp add: s AddValue takable_add_value_def takable_content_of_def)
    next
      case (Some c)
      then show ?thesis
        using assms by (intro exI [of _ "if force then applied else applied @ [v]"])
          (auto simp: s AddValue takable_add_value_def takable_content_of_def)
    qed
  next
    case TakeContent
    then show ?thesis
      using assms by (intro exI [of _ applied])
        (auto simp: s takable_take_def takable_content_of_def takable_once_def split: option.splits)
  next
    case MergeContent
    show ?thesis
    proof (cases held)
      case None
      then show ?thesis
        using assms by (intro exI [of _ applied]) (auto simp: s MergeContent takable_content_of_def)
    next
      case (Some c)
      with assms have "tm_content t = None" "c = foldl add c0 applied"
        by (auto simp: s takable_once_def takable_content_of_def)
      then show ?thesis
        using Some by (intro exI [of _ "applied @ tm_updates t"])
          (simp add: s MergeContent takable_merge_def takable_content_of_def)
    qed
  qed
qed

lemma added_values_append: "added_values (xs @ ys) = added_values xs @ added_values ys"
  by (induction xs rule: added_values.induct) auto

lemma nothing_deferred_append: "nothing_deferred (xs @ ys) \<longleftrightarrow> nothing_deferred xs \<and> nothing_deferred ys"
  by (induction xs rule: nothing_deferred.induct) auto

lemma takable_run_accounts:
  "takable_once (takable_run add (takable_new n c0, None) ops) \<and>
   (\<exists>applied. takable_content_of (takable_run add (takable_new n c0, None) ops) = Some (foldl add c0 applied) \<and>
     mset applied + mset (tm_updates (fst (takable_run add (takable_new n c0, None) ops))) =
       mset (added_values ops) \<and>
     (nothing_deferred ops \<longrightarrow>
       applied @ tm_updates (fst (takable_run add (takable_new n c0, None) ops)) = added_values ops \<and>
       (tm_content (fst (takable_run add (takable_new n c0, None) ops)) = None \<or>
        tm_updates (fst (takable_run add (takable_new n c0, None) ops)) = [])))"
proof (induction ops rule: rev_induct)
  case Nil
  show ?case
    by (auto simp: takable_run_def takable_new_def takable_once_def takable_content_of_def
        intro: exI [of _ "[]"])
next
  case (snoc x ops)
  let ?s = "takable_run add (takable_new n c0, None) ops"
  obtain applied where once: "takable_once ?s"
    and a: "takable_content_of ?s = Some (foldl add c0 applied)"
      "mset applied + mset (tm_updates (fst ?s)) = mset (added_values ops)"
      "nothing_deferred ops \<Longrightarrow> applied @ tm_updates (fst ?s) = added_values ops \<and>
        (tm_content (fst ?s) = None \<or> tm_updates (fst ?s) = [])"
    using snoc.IH by blast
  have run: "takable_run add (takable_new n c0, None) (ops @ [x]) = takable_step add ?s x"
    by (simp add: takable_run_def)
  obtain applied' where b: "takable_content_of (takable_step add ?s x) = Some (foldl add c0 applied')"
      "mset applied' + mset (tm_updates (fst (takable_step add ?s x))) =
        mset applied + mset (tm_updates (fst ?s)) + mset (added_values [x])"
      "nothing_deferred [x] \<Longrightarrow> tm_content (fst ?s) = None \<or> tm_updates (fst ?s) = [] \<Longrightarrow>
        applied' @ tm_updates (fst (takable_step add ?s x)) =
          applied @ tm_updates (fst ?s) @ added_values [x] \<and>
        (tm_content (fst (takable_step add ?s x)) = None \<or> tm_updates (fst (takable_step add ?s x)) = [])"
    using takable_step_accounts [OF once a(1), of x] by blast
  show ?case
    unfolding run
  proof (intro conjI exI [of _ applied'] impI)
    show "takable_once (takable_step add ?s x)" using once by (rule takable_step_once)
    show "takable_content_of (takable_step add ?s x) = Some (foldl add c0 applied')" by (rule b(1))
    show "mset applied' + mset (tm_updates (fst (takable_step add ?s x))) = mset (added_values (ops @ [x]))"
      using a(2) b(2) by (simp add: added_values_append)
    assume nd: "nothing_deferred (ops @ [x])"
    then have nd': "nothing_deferred ops" "nothing_deferred [x]" by (simp_all add: nothing_deferred_append)
    from b(3) [OF nd'(2)] a(3) [OF nd'(1)]
    show "applied' @ tm_updates (fst (takable_step add ?s x)) = added_values (ops @ [x])"
      and "tm_content (fst (takable_step add ?s x)) = None \<or> tm_updates (fst (takable_step add ?s x)) = []"
      by (auto simp: added_values_append simp flip: append_assoc)
  qed
qed

section \<open>Stores of versioned accounts\<close>

text \<open>
  What the collections of stake and of vote accounts have in common: they hold one entry per
  account, an entry gives way to one of the same or a later slot, and a removal takes an entry that
  is not newer.
\<close>

locale versioned_store =
  fixes add :: "'c \<Rightarrow> 't update_action \<Rightarrow> 'c"
    and view :: "'c \<Rightarrow> pubkey \<Rightarrow> 't option"
    and key :: "'t \<Rightarrow> pubkey"
    and slot_of :: "'t \<Rightarrow> slot"
  assumes view_notify: "view (add c (NotifyUpdate s x)) k =
      (if k = key x \<and> (case view c k of None \<Rightarrow> True | Some y \<Rightarrow> slot_of y \<le> slot_of x)
       then Some x else view c k)"
    and view_remove: "view (add c (RemoveUpdate pk s)) k =
      (if k = pk \<and> (case view c k of None \<Rightarrow> True | Some y \<Rightarrow> slot_of y \<le> s) then None else view c k)"
begin

text \<open>A store that is only told of entries shows the newest one of each account.\<close>

lemma view_unnotified:
  "view (foldl add c (List.map (\<lambda>x. NotifyUpdate (slot_of x) x) xs)) k = None \<Longrightarrow>
   view c k = None \<and> (\<forall>x \<in> set xs. key x \<noteq> k)"
proof (induction xs rule: rev_induct)
  case (snoc x xs)
  let ?c = "foldl add c (List.map (\<lambda>x. NotifyUpdate (slot_of x) x) xs)"
  have "view ?c k = None"
    using snoc.prems by (cases "view ?c k") (simp_all add: view_notify split: if_splits)
  moreover from this have "k \<noteq> key x" using snoc.prems by (simp add: view_notify split: if_splits)
  ultimately show ?case using snoc.IH by auto
qed simp

lemma view_notifications:
  "view (foldl add c (List.map (\<lambda>x. NotifyUpdate (slot_of x) x) xs)) k = Some y \<Longrightarrow>
   (y \<in> set xs \<and> key y = k \<or> view c k = Some y) \<and>
   (\<forall>x \<in> set xs. key x = k \<longrightarrow> slot_of x \<le> slot_of y) \<and>
   (\<forall>z. view c k = Some z \<longrightarrow> slot_of z \<le> slot_of y)"
proof (induction xs arbitrary: y rule: rev_induct)
  case (snoc x xs)
  let ?c = "foldl add c (List.map (\<lambda>x. NotifyUpdate (slot_of x) x) xs)"
  let ?new = "k = key x \<and> (case view ?c k of None \<Rightarrow> True | Some z \<Rightarrow> slot_of z \<le> slot_of x)"
  have step: "(if ?new then Some x else view ?c k) = Some y"
    using snoc.prems by (simp add: view_notify)
  show ?case
  proof (cases ?new)
    case False
    with step have y: "view ?c k = Some y" by simp
    with False have "k = key x \<Longrightarrow> slot_of x \<le> slot_of y" by auto
    with snoc.IH [OF y] show ?thesis by auto
  next
    case True
    with step have y: "y = x" "key x = k" by auto
    show ?thesis
    proof (cases "view ?c k")
      case None
      from view_unnotified [OF this] show ?thesis by (simp add: y)
    next
      case (Some z)
      with True have z: "slot_of z \<le> slot_of x" by simp
      note IH = snoc.IH [OF Some]
      from IH z have "\<forall>x' \<in> set xs. key x' = k \<longrightarrow> slot_of x' \<le> slot_of x" by (meson order_trans)
      moreover from IH z have "\<forall>z'. view c k = Some z' \<longrightarrow> slot_of z' \<le> slot_of x"
        by (meson order_trans)
      ultimately show ?thesis by (simp add: y)
    qed
  qed
qed simp

lemma view_notified:
  assumes "x \<in> set xs" and "key x = k"
  shows "view (foldl add c (List.map (\<lambda>x. NotifyUpdate (slot_of x) x) xs)) k \<noteq> None"
  using assms(1)
proof (induction xs rule: rev_induct)
  case (snoc a as)
  then show ?case using assms(2) by (auto simp: view_notify split: option.splits)
qed simp

text \<open>So the order of arrival does not matter when no two entries of an account have the same slot.\<close>

lemma notifications_commute:
  assumes "set xs = set ys"
    and "\<And>x y. x \<in> set xs \<Longrightarrow> y \<in> set xs \<Longrightarrow> key x = key y \<Longrightarrow> slot_of x = slot_of y \<Longrightarrow> x = y"
    and "view c k = None"
  shows "view (foldl add c (List.map (\<lambda>x. NotifyUpdate (slot_of x) x) xs)) k =
    view (foldl add c (List.map (\<lambda>x. NotifyUpdate (slot_of x) x) ys)) k" (is "?l = ?r")
proof (cases "\<exists>x \<in> set xs. key x = k")
  case True
  then obtain x where x: "x \<in> set xs" "key x = k" by blast
  obtain a b where ab: "?l = Some a" "?r = Some b"
    using view_notified [OF x, of c] view_notified [of x ys k c] x assms(1) by auto
  from view_notifications [OF ab(1)] view_notifications [OF ab(2)] assms(1,3)
  have "a \<in> set xs" "b \<in> set xs" "key a = key b" "slot_of a = slot_of b"
    by (auto intro: order.antisym)
  with assms(2) ab show ?thesis by simp
next
  case False
  have "view (foldl add c (List.map (\<lambda>x. NotifyUpdate (slot_of x) x) zs)) k = None"
    if "set zs = set xs" for zs
    using view_notifications [of c zs k] that False assms(3)
    by (cases "view (foldl add c (List.map (\<lambda>x. NotifyUpdate (slot_of x) x) zs)) k") auto
  then show ?thesis using assms(1) by simp
qed

end

end
