(* ===== verification/Stake_Votes.thy ===== *)
theory Stake_Votes
  imports Takable Leader_Lookup
begin

text \<open>
  \<open>stake_vote/src/account.rs\<close>, \<open>stake.rs\<close>, \<open>vote.rs\<close> and \<open>rpcrequest.rs\<close>: the stake and vote accounts
  streamed from the validator, the two stores that keep them, and the queries for the vote
  accounts, which take the vote store out while they compute.  Decoding account data is the SDK's
  and is an argument; the records of the SDK have the fields that the code reads.
\<close>

section \<open>Accounts from the stream\<close>

record geyser_inner_account =
  gi_pubkey :: "u8 list"
  gi_lamports :: u64
  gi_owner :: "u8 list"
  gi_executable :: bool
  gi_rent_epoch :: u64
  gi_data :: "u8 list"
  gi_write_version :: u64
  gi_txn_signature :: "u8 list option"

record geyser_account =
  ga_account :: "geyser_inner_account option"
  ga_slot :: u64
  ga_is_startup :: bool

record account_pretty =
  gp_is_startup :: bool
  gp_slot :: u64
  gp_pubkey :: pubkey
  gp_lamports :: u64
  gp_owner :: pubkey
  gp_executable :: bool
  gp_rent_epoch :: u64
  gp_data :: "u8 list"
  gp_write_version :: u64
  gp_txn_signature :: string

text \<open>Keys are parsed with \<open>expect\<close>, the inner account's first.\<close>

definition new_from_geyser ::
    "(u8 list \<Rightarrow> pubkey option) \<Rightarrow> (u8 list \<Rightarrow> string) \<Rightarrow> geyser_account \<Rightarrow> account_pretty option outcome"
where
  "new_from_geyser pubkey_from bs58 a =
     (case ga_account a of
        None \<Rightarrow> Inr None
      | Some inner \<Rightarrow>
          (case pubkey_from (gi_pubkey inner) of
             None \<Rightarrow> Inl (ExplicitPanic ''valid pubkey'')
           | Some pk \<Rightarrow>
               (case pubkey_from (gi_owner inner) of
                  None \<Rightarrow> Inl (ExplicitPanic ''valid pubkey'')
                | Some owner \<Rightarrow> Inr (Some
                    \<lparr>gp_is_startup = ga_is_startup a, gp_slot = ga_slot a, gp_pubkey = pk,
                     gp_lamports = gi_lamports inner, gp_owner = owner,
                     gp_executable = gi_executable inner, gp_rent_epoch = gi_rent_epoch inner,
                     gp_data = gi_data inner, gp_write_version = gi_write_version inner,
                     gp_txn_signature = bs58 (unwrap_or (gi_txn_signature inner) [])\<rparr>))))"

record delegation =
  dl_voter_pubkey :: pubkey
  dl_stake :: u64
  dl_activation_epoch :: u64
  dl_deactivation_epoch :: u64

datatype stake_state = StakeUninitialized | StakeInitialized | StakeDelegated delegation | StakeRewardsPool

definition read_stake_from_account_data ::
    "(u8 list \<Rightarrow> string + stake_state) \<Rightarrow> u8 list \<Rightarrow> string + delegation option" where
  "read_stake_from_account_data borsh data =
     (if data = [] then Inl ''Error: read Stake account with empty data''
      else
        (case borsh data of
           Inl e \<Rightarrow> Inl e
         | Inr (StakeDelegated d) \<Rightarrow> Inr (Some d)
         | Inr StakeInitialized \<Rightarrow> Inr None
         | Inr StakeUninitialized \<Rightarrow> Inr None
         | Inr StakeRewardsPool \<Rightarrow> Inr None))"

record vote_state =
  vt_node_pubkey :: pubkey
  vt_commission :: u8
  vt_votes :: "slot list"
  vt_root_slot :: "slot option"
  vt_epoch_credits :: "(u64 \<times> u64 \<times> u64) list"

definition read_vote :: "(u8 list \<Rightarrow> string + vote_state) \<Rightarrow> account_pretty \<Rightarrow> string + vote_state" where
  "read_vote deserialize a =
     (if gp_data a = [] then Inl ''Error: read Vote account with empty data''
      else deserialize (gp_data a))"

section \<open>The stake store\<close>

record stored_stake =
  ss_pubkey :: pubkey
  ss_lamports :: u64
  ss_stake :: delegation
  ss_last_update_slot :: slot
  ss_write_version :: u64

type_synonym stake_map = "(pubkey, stored_stake) hashmap"

text \<open>The notifier of a store is a number.\<close>

type_synonym stake_store = "(nat, stored_stake, stake_map) takable_map"

definition stake_store_new :: "nat \<Rightarrow> stake_store" where
  "stake_store_new notifier = takable_new notifier []"

definition notify_stake :: "stake_map \<Rightarrow> stored_stake \<Rightarrow> stake_map" where
  "notify_stake m stake =
     (case hm_get m (ss_pubkey stake) of
        Some strstake \<Rightarrow>
          if ss_last_update_slot strstake \<le> ss_last_update_slot stake
          then hm_put (ss_pubkey stake) stake m else m
      | None \<Rightarrow> hm_put (ss_pubkey stake) stake m)"

definition remove_stake :: "stake_map \<Rightarrow> pubkey \<Rightarrow> slot \<Rightarrow> stake_map" where
  "remove_stake m account_pk update_slot =
     (if unwrap_or (map_option (\<lambda>s. ss_last_update_slot s \<le> update_slot) (hm_get m account_pk)) False
      then hm_del account_pk m else m)"

fun process_stake_action :: "stake_map \<Rightarrow> stored_stake update_action \<Rightarrow> stake_map" where
  "process_stake_action m (NotifyUpdate _ stake) = notify_stake m stake"
| "process_stake_action m (RemoveUpdate account_pk sl) = remove_stake m account_pk sl"

text \<open>
  A change of an account.  An account without lamports is removed; changes of a slot after the
  current epoch wait for the next merge.
\<close>

definition notify_stake_change ::
    "(u8 list \<Rightarrow> string + stake_state) \<Rightarrow> stake_store \<Rightarrow> account_pretty \<Rightarrow> slot \<Rightarrow>
     stake_store \<times> (string + unit)" where
  "notify_stake_change borsh st account current_end_epoch_slot =
     (if gp_lamports account = 0 then
        (takable_add_value process_stake_action st
           (RemoveUpdate (gp_pubkey account) (gp_slot account))
           (gp_slot account > current_end_epoch_slot), Inr ())
      else
        (case read_stake_from_account_data borsh (gp_data account) of
           Inl _ \<Rightarrow> (st, Inl ''Can't read stake from account data'')
         | Inr None \<Rightarrow> (st, Inr ())
         | Inr (Some delegated_stake) \<Rightarrow>
             (let stake = \<lparr>ss_pubkey = gp_pubkey account, ss_lamports = gp_lamports account,
                    ss_stake = delegated_stake, ss_last_update_slot = gp_slot account,
                    ss_write_version = gp_write_version account\<rparr>
              in (takable_add_value process_stake_action st
                    (NotifyUpdate (ss_last_update_slot stake) stake)
                    (ss_last_update_slot stake > current_end_epoch_slot), Inr ()))))"

text \<open>Accounts loaded over RPC; those that cannot be read or delegate nothing are skipped.\<close>

definition merge_program_account_in_strake_map ::
    "(u8 list \<Rightarrow> string + stake_state) \<Rightarrow> stake_map \<Rightarrow> (pubkey \<times> account) list \<Rightarrow> slot \<Rightarrow> stake_map"
where
  "merge_program_account_in_strake_map borsh m stakes_list last_update_slot =
     foldl (\<lambda>m (pk, delegated_stake, lamports).
         notify_stake m \<lparr>ss_pubkey = pk, ss_lamports = lamports, ss_stake = delegated_stake,
           ss_last_update_slot = last_update_slot, ss_write_version = 0\<rparr>) m
       (List.map_filter (\<lambda>(pk, account).
          case read_stake_from_account_data borsh (ac_data account) of
            Inr opt_stake \<Rightarrow> map_option (\<lambda>stake. (pk, stake, ac_lamports account)) opt_stake
          | Inl _ \<Rightarrow> None) stakes_list)"

section \<open>The vote store\<close>

record stored_vote =
  sv_pubkey :: pubkey
  sv_vote_data :: vote_state
  sv_last_update_slot :: slot
  sv_write_version :: u64

type_synonym vote_map = "(pubkey, stored_vote) hashmap"
type_synonym staked_votes = "(pubkey, u64 \<times> stored_vote) hashmap"

record epoch_vote_stakes =
  ev_vote_stakes :: staked_votes
  ev_epoch :: u64

type_synonym epoch_vote_stakes_cache = "(u64, epoch_vote_stakes) hashmap"

definition vote_stakes_for_epoch :: "epoch_vote_stakes_cache \<Rightarrow> u64 \<Rightarrow> epoch_vote_stakes option" where
  "vote_stakes_for_epoch cache e = hm_get cache e"

definition add_stakes_for_epoch ::
    "epoch_vote_stakes_cache \<Rightarrow> epoch_vote_stakes \<Rightarrow> epoch_vote_stakes_cache" where
  "add_stakes_for_epoch cache vote_stakes = hm_put (ev_epoch vote_stakes) vote_stakes cache"

type_synonym vote_content = "vote_map \<times> epoch_vote_stakes_cache"
type_synonym vote_store = "(nat, stored_vote, vote_content) takable_map"

definition vote_store_new :: "nat \<Rightarrow> vote_store" where
  "vote_store_new notifier = takable_new notifier ([], [])"

definition vote_map_insert_vote :: "vote_map \<Rightarrow> stored_vote \<Rightarrow> vote_map" where
  "vote_map_insert_vote m vote_data =
     (case hm_get m (sv_pubkey vote_data) of
        Some voteacc \<Rightarrow>
          if sv_last_update_slot voteacc \<le> sv_last_update_slot vote_data
          then hm_put (sv_pubkey vote_data) vote_data m else m
      | None \<Rightarrow> hm_put (sv_pubkey vote_data) vote_data m)"

definition remove_vote :: "vote_map \<Rightarrow> pubkey \<Rightarrow> slot \<Rightarrow> vote_map" where
  "remove_vote m account_pk update_slot =
     (if unwrap_or (map_option (\<lambda>v. sv_last_update_slot v \<le> update_slot) (hm_get m account_pk)) True
      then hm_del account_pk m else m)"

fun process_vote_action :: "vote_map \<Rightarrow> stored_vote update_action \<Rightarrow> vote_map" where
  "process_vote_action m (NotifyUpdate _ vote) = vote_map_insert_vote m vote"
| "process_vote_action m (RemoveUpdate account_pk sl) = remove_vote m account_pk sl"

definition vote_content_add :: "vote_content \<Rightarrow> stored_vote update_action \<Rightarrow> vote_content" where
  "vote_content_add c val = (process_vote_action (fst c) val, snd c)"

text \<open>Constants of the RPC interface of the SDK.\<close>

definition max_epoch_credits_history :: nat where
  "max_epoch_credits_history = 5"

definition delinquent_validator_slot_distance :: u64 where
  "delinquent_validator_slot_distance = 128"

definition last_credits :: "(u64 \<times> u64 \<times> u64) list \<Rightarrow> (u64 \<times> u64 \<times> u64) list" where
  "last_credits credits =
     (if length credits > max_epoch_credits_history
      then drop (length credits - max_epoch_credits_history) credits else credits)"

definition notify_vote_change ::
    "(u8 list \<Rightarrow> string + vote_state) \<Rightarrow> vote_store \<Rightarrow> account_pretty \<Rightarrow> slot \<Rightarrow>
     vote_store \<times> (string + unit)" where
  "notify_vote_change deserialize st new_account current_end_epoch_slot =
     (if gp_lamports new_account = 0 then
        (takable_add_value vote_content_add st
           (RemoveUpdate (gp_pubkey new_account) (gp_slot new_account))
           (gp_slot new_account > current_end_epoch_slot), Inr ())
      else
        (case read_vote deserialize new_account of
           Inl _ \<Rightarrow> (st, Inl ''Can't read Vote from account data'')
         | Inr vote_data \<Rightarrow>
             (let new_voteacc = \<lparr>sv_pubkey = gp_pubkey new_account,
                    sv_vote_data = vote_data\<lparr>vt_epoch_credits := last_credits (vt_epoch_credits vote_data)\<rparr>,
                    sv_last_update_slot = gp_slot new_account,
                    sv_write_version = gp_write_version new_account\<rparr>
              in (takable_add_value vote_content_add st
                    (NotifyUpdate (sv_last_update_slot new_voteacc) new_voteacc)
                    (sv_last_update_slot new_voteacc > current_end_epoch_slot), Inr ()))))"

definition merge_program_account_in_vote_map ::
    "(u8 list \<Rightarrow> string + vote_state) \<Rightarrow> vote_map \<Rightarrow> (pubkey \<times> account) list \<Rightarrow> slot \<Rightarrow> vote_map" where
  "merge_program_account_in_vote_map deserialize m pa_list last_update_slot =
     foldl (\<lambda>m (pk, vote).
         vote_map_insert_vote m \<lparr>sv_pubkey = pk, sv_vote_data = vote,
           sv_last_update_slot = last_update_slot, sv_write_version = 0\<rparr>) m
       (List.map_filter (\<lambda>(pk, account).
          case deserialize (ac_data account) of
            Inr vote \<Rightarrow> Some (pk, vote)
          | Inl _ \<Rightarrow> None) pa_list)"

section \<open>Vote account information\<close>

definition convert_to_rpc_vote_account_info ::
    "(pubkey \<Rightarrow> string) \<Rightarrow> stored_vote \<Rightarrow> u64 \<Rightarrow> bool \<Rightarrow> rpc_vote_account_info" where
  "convert_to_rpc_vote_account_info to_str v activated_stake epoch_vote_account =
     \<lparr>va_vote_pubkey = to_str (sv_pubkey v),
      va_node_pubkey = to_str (vt_node_pubkey (sv_vote_data v)),
      va_activated_stake = activated_stake,
      va_commission = vt_commission (sv_vote_data v),
      va_epoch_vote_account = epoch_vote_account,
      va_epoch_credits = vt_epoch_credits (sv_vote_data v),
      va_last_vote = (if vt_votes (sv_vote_data v) = [] then 0 else last (vt_votes (sv_vote_data v))),
      va_root_slot = unwrap_or (vt_root_slot (sv_vote_data v)) 0\<rparr>"

definition vote_account_info ::
    "(pubkey \<Rightarrow> string) \<Rightarrow> staked_votes \<Rightarrow> stored_vote \<Rightarrow> rpc_vote_account_info" where
  "vote_account_info to_str vote_accounts vote =
     (let (stake, epoch_vote_account) =
            unwrap_or (map_option (\<lambda>(stake, _). (stake, True)) (hm_get vote_accounts (sv_pubkey vote)))
              (0, False)
      in convert_to_rpc_vote_account_info to_str vote stake epoch_vote_account)"

definition votes_recently :: "slot \<Rightarrow> u64 \<Rightarrow> rpc_vote_account_info \<Rightarrow> bool" where
  "votes_recently current_slot distance info \<longleftrightarrow>
     (if current_slot \<ge> distance then va_last_vote info > saturating_sub current_slot distance
      else va_last_vote info > 0)"

definition get_rpc_vote_accounts_info ::
    "(pubkey \<Rightarrow> string) \<Rightarrow> slot \<Rightarrow> vote_map \<Rightarrow> staked_votes \<Rightarrow> get_vote_accounts_config \<Rightarrow>
     rpc_vote_account_status" where
  "get_rpc_vote_accounts_info to_str current_slot votes vote_accounts config =
     (let distance = unwrap_or (gv_delinquent_slot_distance config) delinquent_validator_slot_distance;
          infos = List.map (vote_account_info to_str vote_accounts) (map_values votes);
          (current, delinquent) = partition (votes_recently current_slot distance) infos;
          keep_unstaked_delinquents = unwrap_or (gv_keep_unstaked_delinquents config) False
      in \<lparr>vs_current = current,
          vs_delinquent =
            (if \<not> keep_unstaked_delinquents
             then filter (\<lambda>i. va_activated_stake i > 0) delinquent else delinquent)\<rparr>)"

definition get_rpc_vote_account_info_from_current_epoch_stakes ::
    "(pubkey \<Rightarrow> string) \<Rightarrow> epoch_vote_stakes \<Rightarrow> rpc_vote_account_status" where
  "get_rpc_vote_account_info_from_current_epoch_stakes to_str current_epoch_stakes =
     \<lparr>vs_current = List.map (\<lambda>(stake, vote). convert_to_rpc_vote_account_info to_str vote stake True)
        (map_values (ev_vote_stakes current_epoch_stakes)),
      vs_delinquent = []\<rparr>"

section \<open>Queries for the vote accounts\<close>

text \<open>
  The tasks that wait for the vote store, the tasks that compute an answer from its content, and
  the channels of the clients that wait for an answer.
\<close>

record rpc_request_data =
  rq_notify_task :: "(nat list \<times> slot \<times> u64 \<times> get_vote_accounts_config) list"
  rq_exec_task :: "(vote_map \<times> epoch_vote_stakes_cache \<times> rpc_vote_account_status) list"
  rq_pending_rpc_request :: "nat list option"

definition rpc_request_data_new :: rpc_request_data where
  "rpc_request_data_new =
     \<lparr>rq_notify_task = [], rq_exec_task = [], rq_pending_rpc_request = None\<rparr>"

text \<open>The task itself runs to completion on the content it owns.\<close>

definition compute_vote_accounts ::
    "(pubkey \<Rightarrow> string) \<Rightarrow> vote_content \<Rightarrow> slot \<times> u64 \<times> get_vote_accounts_config \<Rightarrow>
     vote_map \<times> epoch_vote_stakes_cache \<times> rpc_vote_account_status" where
  "compute_vote_accounts to_str content request =
     (case (content, request) of
        ((votes, vote_accounts), (current_slot, e, config)) \<Rightarrow>
          (case vote_stakes_for_epoch vote_accounts e of
             Some stakes \<Rightarrow> (votes, vote_accounts,
               get_rpc_vote_accounts_info to_str current_slot votes (ev_vote_stakes stakes) config)
           | None \<Rightarrow> (votes, vote_accounts, \<lparr>vs_current = [], vs_delinquent = []\<rparr>)))"

definition take_vote_accounts_and_process ::
    "(pubkey \<Rightarrow> string) \<Rightarrow> rpc_request_data \<Rightarrow> vote_store \<Rightarrow> slot \<times> u64 \<times> get_vote_accounts_config \<Rightarrow>
     rpc_request_data \<times> vote_store" where
  "take_vote_accounts_and_process to_str rq votestore request =
     (case wait_for_merge_or_get_content votestore request (rq_notify_task rq) of
        (votestore', waiters, Some (content, request')) \<Rightarrow>
          (rq\<lparr>rq_notify_task := waiters,
              rq_exec_task := rq_exec_task rq @ [compute_vote_accounts to_str content request']\<rparr>,
           votestore')
      | (votestore', waiters, None) \<Rightarrow> (rq\<lparr>rq_notify_task := waiters\<rparr>, votestore'))"

definition process_get_vote_accounts ::
    "(pubkey \<Rightarrow> string) \<Rightarrow> rpc_request_data \<Rightarrow> slot \<Rightarrow> u64 \<Rightarrow> get_vote_accounts_config \<Rightarrow> nat \<Rightarrow> vote_store \<Rightarrow>
     rpc_request_data \<times> vote_store" where
  "process_get_vote_accounts to_str rq current_slot e config return_channel votestore =
     (let pending = (case rq_pending_rpc_request rq of
            Some channels \<Rightarrow> channels @ [return_channel]
          | None \<Rightarrow> [return_channel])
      in take_vote_accounts_and_process to_str (rq\<lparr>rq_pending_rpc_request := Some pending\<rparr>) votestore
           (current_slot, e, config))"

text \<open>All pending channels get the answer, the last one pushed at the end.\<close>

definition notify_end_rpc_get_vote_accounts ::
    "rpc_request_data \<Rightarrow> vote_map \<times> epoch_vote_stakes_cache \<times> rpc_vote_account_status \<Rightarrow> vote_store \<Rightarrow>
     (rpc_request_data \<times> vote_store \<times> (nat \<times> rpc_vote_account_status) list) outcome" where
  "notify_end_rpc_get_vote_accounts rq result votestore =
     (case result of
        (votes, vote_accounts, rpc_vote_accounts) \<Rightarrow>
          (let votestore' = fst (takable_merge vote_content_add votestore (votes, vote_accounts))
           in case rq_pending_rpc_request rq of
                None \<Rightarrow> Inr (rq, votestore', [])
              | Some pending \<Rightarrow>
                  (let n = (if length pending > 1 then length pending - 1 else 0);
                       first = take n pending;
                       rest = drop n pending;
                       rq' = rq\<lparr>rq_pending_rpc_request := None\<rparr>
                   in if rest = [] then Inl UnwrapNone
                      else Inr (rq', votestore',
                        List.map (\<lambda>channel. (channel, rpc_vote_accounts)) (first @ [last rest])))))"

section \<open>The stores keep the newest entries\<close>

interpretation stakes: versioned_store process_stake_action hm_get ss_pubkey ss_last_update_slot
proof unfold_locales
  fix c :: stake_map and x :: stored_stake and s k pk
  show "hm_get (process_stake_action c (NotifyUpdate s x)) k =
      (if k = ss_pubkey x \<and>
          (case hm_get c k of None \<Rightarrow> True | Some y \<Rightarrow> ss_last_update_slot y \<le> ss_last_update_slot x)
       then Some x else hm_get c k)"
    by (auto simp: notify_stake_def hm_get_hm_put split: option.splits)
  show "hm_get (process_stake_action c (RemoveUpdate pk s)) k =
      (if k = pk \<and> (case hm_get c k of None \<Rightarrow> True | Some y \<Rightarrow> ss_last_update_slot y \<le> s)
       then None else hm_get c k)"
    by (auto simp: remove_stake_def hm_get_hm_del split: option.splits)
qed

interpretation votes: versioned_store vote_content_add "\<lambda>c. hm_get (fst c)" sv_pubkey sv_last_update_slot
proof unfold_locales
  fix c :: vote_content and x :: stored_vote and s k pk
  show "hm_get (fst (vote_content_add c (NotifyUpdate s x))) k =
      (if k = sv_pubkey x \<and>
          (case hm_get (fst c) k of None \<Rightarrow> True | Some y \<Rightarrow> sv_last_update_slot y \<le> sv_last_update_slot x)
       then Some x else hm_get (fst c) k)"
    by (auto simp: vote_content_add_def vote_map_insert_vote_def hm_get_hm_put split: option.splits)
  show "hm_get (fst (vote_content_add c (RemoveUpdate pk s))) k =
      (if k = pk \<and> (case hm_get (fst c) k of None \<Rightarrow> True | Some y \<Rightarrow> sv_last_update_slot y \<le> s)
       then None else hm_get (fst c) k)"
    by (auto simp: vote_content_add_def remove_vote_def hm_get_hm_del split: option.splits)
qed

lemma foldl_notify_stake:
  "foldl notify_stake m xs =
     foldl process_stake_action m (List.map (\<lambda>x. NotifyUpdate (ss_last_update_slot x) x) xs)"
  by (induction xs arbitrary: m) auto

text \<open>The stream of stake accounts and the tasks that take the stakes out.\<close>

datatype stake_event = StakeChange account_pretty slot | TakeStakes | MergeStakes

fun stake_event_step ::
    "(u8 list \<Rightarrow> string + stake_state) \<Rightarrow> stake_store \<times> stake_map option \<Rightarrow> stake_event \<Rightarrow>
     stake_store \<times> stake_map option" where
  "stake_event_step borsh (st, held) (StakeChange account end_slot) =
     (fst (notify_stake_change borsh st account end_slot), held)"
| "stake_event_step borsh (st, held) TakeStakes =
     (case takable_take st of
        (st', TakenMap c) \<Rightarrow> (st', Some c)
      | (st', Taken _) \<Rightarrow> (st', held))"
| "stake_event_step borsh (st, held) MergeStakes =
     (case held of
        Some c \<Rightarrow> (fst (takable_merge process_stake_action st c), None)
      | None \<Rightarrow> (st, None))"

definition stake_event_run ::
    "(u8 list \<Rightarrow> string + stake_state) \<Rightarrow> stake_store \<times> stake_map option \<Rightarrow> stake_event list \<Rightarrow>
     stake_store \<times> stake_map option" where
  "stake_event_run borsh = foldl (stake_event_step borsh)"

text \<open>What an account of the stream asks for.\<close>

definition stake_action ::
    "(u8 list \<Rightarrow> string + stake_state) \<Rightarrow> account_pretty \<Rightarrow> stored_stake update_action option" where
  "stake_action borsh a =
     (if gp_lamports a = 0 then Some (RemoveUpdate (gp_pubkey a) (gp_slot a))
      else (case read_stake_from_account_data borsh (gp_data a) of
              Inr (Some d) \<Rightarrow> Some (NotifyUpdate (gp_slot a)
                \<lparr>ss_pubkey = gp_pubkey a, ss_lamports = gp_lamports a, ss_stake = d,
                 ss_last_update_slot = gp_slot a, ss_write_version = gp_write_version a\<rparr>)
            | _ \<Rightarrow> None))"

fun stake_ops ::
    "(u8 list \<Rightarrow> string + stake_state) \<Rightarrow> stake_event \<Rightarrow> stored_stake takable_op list" where
  "stake_ops borsh (StakeChange a end_slot) =
     (case stake_action borsh a of None \<Rightarrow> [] | Some act \<Rightarrow> [AddValue act (gp_slot a > end_slot)])"
| "stake_ops borsh TakeStakes = [TakeContent]"
| "stake_ops borsh MergeStakes = [MergeContent]"

fun stake_actions ::
    "(u8 list \<Rightarrow> string + stake_state) \<Rightarrow> stake_event list \<Rightarrow> stored_stake update_action list" where
  "stake_actions borsh [] = []"
| "stake_actions borsh (StakeChange a _ # es) =
     (case stake_action borsh a of None \<Rightarrow> [] | Some act \<Rightarrow> [act]) @ stake_actions borsh es"
| "stake_actions borsh (_ # es) = stake_actions borsh es"

fun within_epoch :: "stake_event \<Rightarrow> bool" where
  "within_epoch (StakeChange a end_slot) \<longleftrightarrow> gp_slot a \<le> end_slot"
| "within_epoch _ \<longleftrightarrow> True"

lemma stake_event_step_ops: "stake_event_step borsh s e = takable_run process_stake_action s (stake_ops borsh e)"
proof (cases s)
  case (Pair st held)
  show ?thesis
    by (cases e; cases "read_stake_from_account_data borsh (gp_data (case e of StakeChange a _ \<Rightarrow> a))")
      (auto simp: Pair takable_run_def notify_stake_change_def stake_action_def Let_def
        split: option.splits take_result.splits sum.splits)
qed

lemma stake_event_run_ops:
  "stake_event_run borsh s es = takable_run process_stake_action s (concat (List.map (stake_ops borsh) es))"
  by (induction es arbitrary: s) (simp_all add: stake_event_run_def stake_event_step_ops takable_run_def)

lemma added_stake_ops: "added_values (concat (List.map (stake_ops borsh) es)) = stake_actions borsh es"
proof (induction es)
  case (Cons e es)
  then show ?case by (cases e) (auto simp: added_values_append split: option.splits)
qed simp

lemma nothing_deferred_stake_ops:
  "list_all within_epoch es \<Longrightarrow> nothing_deferred (concat (List.map (stake_ops borsh) es))"
proof (induction es)
  case (Cons e es)
  then show ?case by (cases e) (auto simp: nothing_deferred_append not_less split: option.splits)
qed simp

section \<open>Events of the vote store\<close>

datatype vote_event =
    VoteQuery slot u64 get_vote_accounts_config nat
  | ExecDone nat
  | NotifyDone nat
  | VoteChange account_pretty slot
  | OtherTakes
  | OtherMerges vote_content

type_synonym vote_state_triple = "rpc_request_data \<times> vote_store \<times> vote_content option"

text \<open>
  Any outstanding task may be the next to finish or to be woken; the bootstrap and the schedule
  computation take the content and bring back a content of their own.
\<close>

definition remove_nth :: "nat \<Rightarrow> 'a list \<Rightarrow> 'a list" where
  "remove_nth i xs = take i xs @ drop (Suc i) xs"

fun vote_event_step ::
    "(pubkey \<Rightarrow> string) \<Rightarrow> (u8 list \<Rightarrow> string + vote_state) \<Rightarrow> vote_state_triple \<Rightarrow> vote_event \<Rightarrow>
     (vote_state_triple \<times> (nat \<times> rpc_vote_account_status) list) outcome" where
  "vote_event_step to_str deserialize (rq, st, held) (VoteQuery sl e config channel) =
     (let (rq', st') = process_get_vote_accounts to_str rq sl e config channel st
      in Inr ((rq', st', held), []))"
| "vote_event_step to_str deserialize (rq, st, held) (ExecDone i) =
     (if i < length (rq_exec_task rq) then
        bind_outcome (notify_end_rpc_get_vote_accounts
            (rq\<lparr>rq_exec_task := remove_nth i (rq_exec_task rq)\<rparr>) (rq_exec_task rq ! i) st)
          (\<lambda>(rq', st', answers). Inr ((rq', st', held), answers))
      else Inr ((rq, st, held), []))"
| "vote_event_step to_str deserialize (rq, st, held) (NotifyDone i) =
     (if i < length (rq_notify_task rq) then
        (let (rq', st') = take_vote_accounts_and_process to_str
               (rq\<lparr>rq_notify_task := remove_nth i (rq_notify_task rq)\<rparr>) st (snd (rq_notify_task rq ! i))
         in Inr ((rq', st', held), []))
      else Inr ((rq, st, held), []))"
| "vote_event_step to_str deserialize (rq, st, held) (VoteChange account end_slot) =
     Inr ((rq, fst (notify_vote_change deserialize st account end_slot), held), [])"
| "vote_event_step to_str deserialize (rq, st, held) OtherTakes =
     (case takable_take st of
        (st', TakenMap c) \<Rightarrow> Inr ((rq, st', Some c), [])
      | (st', Taken _) \<Rightarrow> Inr ((rq, st', held), []))"
| "vote_event_step to_str deserialize (rq, st, held) (OtherMerges c) =
     (case held of
        Some _ \<Rightarrow> Inr ((rq, fst (takable_merge vote_content_add st c), None), [])
      | None \<Rightarrow> Inr ((rq, st, None), []))"

fun vote_event_run ::
    "(pubkey \<Rightarrow> string) \<Rightarrow> (u8 list \<Rightarrow> string + vote_state) \<Rightarrow> vote_state_triple \<Rightarrow> vote_event list \<Rightarrow>
     (vote_state_triple \<times> (nat \<times> rpc_vote_account_status) list) outcome" where
  "vote_event_run to_str deserialize s [] = Inr (s, [])"
| "vote_event_run to_str deserialize s (e # es) =
     bind_outcome (vote_event_step to_str deserialize s e) (\<lambda>(s', answers).
       bind_outcome (vote_event_run to_str deserialize s' es) (\<lambda>(s'', answers').
         Inr (s'', answers @ answers')))"

fun queried_channels :: "vote_event list \<Rightarrow> nat list" where
  "queried_channels [] = []"
| "queried_channels (VoteQuery _ _ _ channel # es) = channel # queried_channels es"
| "queried_channels (_ # es) = queried_channels es"

definition pending_channels :: "rpc_request_data \<Rightarrow> nat list" where
  "pending_channels rq = unwrap_or (rq_pending_rpc_request rq) []"

text \<open>
  Exactly one of the store, a query task and another task has the content, and a query that waits
  for its answer has a task that will give it.
\<close>

definition vote_owners :: "vote_state_triple \<Rightarrow> nat" where
  "vote_owners s = (case s of (rq, st, held) \<Rightarrow>
     (if tm_content st = None then 0 else 1) + (if held = None then 0 else 1) + length (rq_exec_task rq))"

definition vote_query_inv :: "vote_state_triple \<Rightarrow> bool" where
  "vote_query_inv s \<longleftrightarrow> vote_owners s = 1 \<and> rq_pending_rpc_request (fst s) \<noteq> Some [] \<and>
     (rq_pending_rpc_request (fst s) \<noteq> None \<longrightarrow>
      rq_exec_task (fst s) \<noteq> [] \<or> rq_notify_task (fst s) \<noteq> [])"

lemma take_and_process_cases:
  "take_vote_accounts_and_process to_str rq st request =
     (case tm_content st of
        Some c \<Rightarrow> (rq\<lparr>rq_exec_task := rq_exec_task rq @ [compute_vote_accounts to_str c request]\<rparr>,
                  st\<lparr>tm_content := None\<rparr>)
      | None \<Rightarrow> (rq\<lparr>rq_notify_task := rq_notify_task rq @ [([tm_notifier st], request)]\<rparr>, st))"
  by (simp add: take_vote_accounts_and_process_def wait_for_merge_or_get_content_def
      takable_take_def split: option.split)

lemma add_value_content:
  "(tm_content (takable_add_value add t v force) = None) = (tm_content t = None)"
  by (auto simp: takable_add_value_def split: option.splits)

lemma notify_vote_change_content:
  "(tm_content (fst (notify_vote_change deserialize st a end_slot)) = None) = (tm_content st = None)"
  by (auto simp: notify_vote_change_def Let_def add_value_content split: sum.splits)

lemma merge_content: "tm_content (fst (takable_merge add t c)) \<noteq> None"
  by (auto simp: takable_merge_def split: option.splits)

lemma notify_end_ok:
  assumes "rq_pending_rpc_request rq \<noteq> Some []"
  shows "notify_end_rpc_get_vote_accounts rq (votes, cache, status) st =
    Inr (rq\<lparr>rq_pending_rpc_request := None\<rparr>, fst (takable_merge vote_content_add st (votes, cache)),
      List.map (\<lambda>channel. (channel, status)) (pending_channels rq))"
proof (cases "rq_pending_rpc_request rq")
  case None
  then show ?thesis by (simp add: notify_end_rpc_get_vote_accounts_def pending_channels_def)
next
  case (Some pending)
  with assms have ne: "pending \<noteq> []" by simp
  have "take (length pending - 1) pending @ [last (drop (length pending - 1) pending)] = pending"
    using ne by (metis append_butlast_last_id butlast_conv_take diff_less last_drop length_greater_0_conv zero_less_one)
  moreover have "(if length pending > 1 then length pending - 1 else 0) = length pending - 1" by simp
  moreover have "drop (length pending - 1) pending \<noteq> []" using ne by (cases pending) auto
  ultimately show ?thesis
    using Some by (simp add: notify_end_rpc_get_vote_accounts_def pending_channels_def Let_def)
qed

lemma length_remove_nth: "i < length xs \<Longrightarrow> Suc (length (remove_nth i xs)) = length xs"
  by (simp add: remove_nth_def)

lemma vote_query_step_result:
  assumes "vote_query_inv s"
  shows "case vote_event_step to_str deserialize s e of
      Inl _ \<Rightarrow> False
    | Inr (s', answers) \<Rightarrow> vote_query_inv s' \<and>
        mset (List.map fst answers) + mset (pending_channels (fst s')) =
          mset (pending_channels (fst s)) + mset (queried_channels [e])"
proof -
  obtain rq st held where s: "s = (rq, st, held)" by (cases s)
  note defs = vote_query_inv_def vote_owners_def take_and_process_cases pending_channels_def
  show ?thesis
  proof (cases e)
    case (VoteQuery sl ep config channel)
    then show ?thesis
      using assms by (cases "tm_content st"; cases "rq_pending_rpc_request rq"; cases held)
        (simp_all add: s defs process_get_vote_accounts_def)
  next
    case (ExecDone i)
    show ?thesis
    proof (cases "i < length (rq_exec_task rq)")
      case True
      have owner: "tm_content st = None" "held = None" "length (rq_exec_task rq) = 1"
        using assms True by (auto simp: s defs split: if_splits)
      then obtain votes cache status where r: "rq_exec_task rq = [(votes, cache, status)]"
        by (cases "rq_exec_task rq") (auto simp: prod_eq_iff)
      have ne: "rq_pending_rpc_request (rq\<lparr>rq_exec_task := []\<rparr>) \<noteq> Some []"
        using assms by (simp add: s vote_query_inv_def)
      have i: "i = 0" "remove_nth 0 (rq_exec_task rq) = []" using True by (simp_all add: r remove_nth_def)
      show ?thesis
        using owner(1,2) merge_content [of vote_content_add st "(votes, cache)"]
        by (simp add: s ExecDone i r remove_nth_def notify_end_ok [OF ne] defs multiset.map_comp comp_def)
    next
      case False
      then show ?thesis using assms by (simp add: s ExecDone)
    qed
  next
    case (NotifyDone i)
    then show ?thesis
      using assms by (cases "tm_content st"; cases held) (simp_all add: s defs Let_def)
  next
    case (VoteChange a end_slot)
    then show ?thesis
      using assms by (simp add: s defs notify_vote_change_content)
  next
    case OtherTakes
    then show ?thesis
      using assms by (cases "tm_content st"; cases held) (simp_all add: s defs takable_take_def)
  next
    case (OtherMerges c)
    show ?thesis
    proof (cases held)
      case None
      then show ?thesis using assms by (simp add: s OtherMerges)
    next
      case (Some c')
      then have "tm_content st = None" using assms by (simp add: s defs split: if_splits)
      then show ?thesis
        using Some assms merge_content [of vote_content_add st c] by (simp add: s OtherMerges defs)
    qed
  qed
qed

lemma vote_query_step:
  assumes "vote_query_inv s"
  shows "\<exists>s' answers. vote_event_step to_str deserialize s e = Inr (s', answers) \<and> vote_query_inv s' \<and>
    mset (List.map fst answers) + mset (pending_channels (fst s')) =
      mset (pending_channels (fst s)) + mset (queried_channels [e])"
  using vote_query_step_result [OF assms, where to_str = to_str and deserialize = deserialize and e = e]
  by (cases "vote_event_step to_str deserialize s e") auto

lemma queried_channels_Cons: "queried_channels (e # es) = queried_channels [e] @ queried_channels es"
  by (cases e) auto

lemma vote_query_run:
  "vote_query_inv s \<Longrightarrow>
   \<exists>s' answers. vote_event_run to_str deserialize s es = Inr (s', answers) \<and> vote_query_inv s' \<and>
    mset (List.map fst answers) + mset (pending_channels (fst s')) =
      mset (pending_channels (fst s)) + mset (queried_channels es)"
proof (induction es arbitrary: s)
  case (Cons e es)
  obtain s1 a1 where s1: "vote_event_step to_str deserialize s e = Inr (s1, a1)" "vote_query_inv s1"
      "mset (List.map fst a1) + mset (pending_channels (fst s1)) =
        mset (pending_channels (fst s)) + mset (queried_channels [e])"
    using vote_query_step [OF Cons.prems] by blast
  obtain s2 a2 where s2: "vote_event_run to_str deserialize s1 es = Inr (s2, a2)" "vote_query_inv s2"
      "mset (List.map fst a2) + mset (pending_channels (fst s2)) =
        mset (pending_channels (fst s1)) + mset (queried_channels es)"
    using Cons.IH [OF s1(2)] by blast
  have "vote_event_run to_str deserialize s (e # es) = Inr (s2, a1 @ a2)"
    using s1(1) s2(1) by simp
  moreover have "mset (List.map fst (a1 @ a2)) + mset (pending_channels (fst s2)) =
      mset (pending_channels (fst s)) + mset (queried_channels (e # es))"
    using s1(3) s2(3) unfolding queried_channels_Cons [of e es] by (simp add: algebra_simps)
  ultimately show ?case using s2(2) by blast
qed simp

lemma vote_query_inv_new: "vote_query_inv (rpc_request_data_new, vote_store_new n, None)"
  by (simp add: vote_query_inv_def vote_owners_def rpc_request_data_new_def vote_store_new_def
      takable_new_def)

section \<open>Properties\<close>

text \<open>C7: No stake change is lost or applied twice: whenever tasks take the stakes out and bring them
  back, the changes applied to the content together with those still waiting are the changes the
  stream brought; while no change belongs to the next epoch they are also in the stream's order.\<close>

theorem no_stake_change_lost:
  "\<exists>applied. takable_content_of (stake_event_run borsh (stake_store_new n, None) es) =
      Some (foldl process_stake_action [] applied) \<and>
    mset applied + mset (tm_updates (fst (stake_event_run borsh (stake_store_new n, None) es))) =
      mset (stake_actions borsh es) \<and>
    (list_all within_epoch es \<longrightarrow>
      applied @ tm_updates (fst (stake_event_run borsh (stake_store_new n, None) es)) =
        stake_actions borsh es)"
  using takable_run_accounts [of process_stake_action n "[]" "concat (List.map (stake_ops borsh) es)"]
    nothing_deferred_stake_ops [of es borsh]
  unfolding stake_event_run_ops stake_store_new_def added_stake_ops by blast

definition sample_stake_account :: "pubkey \<Rightarrow> u64 \<Rightarrow> slot \<Rightarrow> account_pretty" where
  "sample_stake_account pk lamports sl = \<lparr>gp_is_startup = False, gp_slot = sl, gp_pubkey = pk,
     gp_lamports = lamports, gp_owner = 0, gp_executable = False, gp_rent_epoch = 0, gp_data = [1],
     gp_write_version = 0, gp_txn_signature = []\<rparr>"

definition sample_borsh :: "u8 list \<Rightarrow> string + stake_state" where
  "sample_borsh data = Inr (StakeDelegated \<lparr>dl_voter_pubkey = 5, dl_stake = 10,
     dl_activation_epoch = 0, dl_deactivation_epoch = 9\<rparr>)"

lemma no_stake_change_lost_witness:
  "takable_content_of (stake_event_run sample_borsh (stake_store_new 0, None)
     [StakeChange (sample_stake_account 1 4 3) 9, TakeStakes, StakeChange (sample_stake_account 1 0 4) 9,
      MergeStakes]) = Some []"
proof -
  let ?es = "[StakeChange (sample_stake_account 1 4 3) 9, TakeStakes,
    StakeChange (sample_stake_account 1 0 4) 9, MergeStakes]"
  have "list_all within_epoch ?es" by (simp add: sample_stake_account_def)
  moreover have "tm_updates (fst (stake_event_run sample_borsh (stake_store_new 0, None) ?es)) = []"
    by (simp add: stake_event_run_def stake_store_new_def takable_new_def notify_stake_change_def
        sample_stake_account_def sample_borsh_def read_stake_from_account_data_def
        takable_add_value_def takable_take_def takable_merge_def Let_def)
  ultimately have "takable_content_of (stake_event_run sample_borsh (stake_store_new 0, None) ?es) =
      Some (foldl process_stake_action [] (stake_actions sample_borsh ?es))"
    using no_stake_change_lost [of sample_borsh 0 ?es] by auto
  then show ?thesis
    by (simp add: stake_action_def sample_stake_account_def sample_borsh_def hm_del_def hm_put_def
        read_stake_from_account_data_def notify_stake_def remove_stake_def hm_get_def)
qed

text \<open>Stake accounts loaded over RPC and accounts from the stream can arrive in any order: as long as
  no two entries of one account carry the same slot, the store shows the same entries.\<close>

theorem stake_arrival_order_irrelevant:
  assumes "set xs = set ys"
    and "\<forall>x \<in> set xs. \<forall>y \<in> set xs. ss_pubkey x = ss_pubkey y \<longrightarrow>
      ss_last_update_slot x = ss_last_update_slot y \<longrightarrow> x = y"
  shows "hm_get (foldl notify_stake [] xs) k = hm_get (foldl notify_stake [] ys) k"
  unfolding foldl_notify_stake using assms
  by (intro stakes.notifications_commute) (auto simp: hm_get_Nil)

lemma stake_arrival_order_irrelevant_witness:
  "\<exists>x y. x \<noteq> y \<and> hm_get (foldl notify_stake [] [x, y]) 1 = hm_get (foldl notify_stake [] [y, x]) 1"
proof -
  define x where "x = \<lparr>ss_pubkey = 1, ss_lamports = 4, ss_stake = \<lparr>dl_voter_pubkey = 5, dl_stake = 10,
     dl_activation_epoch = 0, dl_deactivation_epoch = 9\<rparr>, ss_last_update_slot = 0, ss_write_version = 0\<rparr>"
  define y where "y = x\<lparr>ss_last_update_slot := 7\<rparr>"
  have "x \<noteq> y" by (simp add: x_def y_def)
  moreover have "hm_get (foldl notify_stake [] [x, y]) 1 = hm_get (foldl notify_stake [] [y, x]) 1"
    by (rule stake_arrival_order_irrelevant) (auto simp: x_def y_def)
  ultimately show ?thesis by blast
qed


definition plain_query :: get_vote_accounts_config where
  "plain_query = \<lparr>gv_vote_pubkey = None, gv_commitment = None, gv_keep_unstaked_delinquents = None,
     gv_delinquent_slot_distance = None\<rparr>"


text \<open>Two queries that overlap get the same answer, computed for the first one: the second client's
  slot, epoch and configuration are ignored.\<close>

theorem overlapping_queries_share_answer:
  assumes "tm_content st = Some (votes, cache)" and "vote_stakes_for_epoch cache e1 = Some stakes"
    and "ch1 \<noteq> ch2"
  shows "\<exists>s'. vote_event_run to_str deserialize (rpc_request_data_new, st, None)
      [VoteQuery sl1 e1 config1 ch1, VoteQuery sl2 e2 config2 ch2, ExecDone 0] =
      Inr (s', [(ch1, get_rpc_vote_accounts_info to_str sl1 votes (ev_vote_stakes stakes) config1),
                (ch2, get_rpc_vote_accounts_info to_str sl1 votes (ev_vote_stakes stakes) config1)])"
  using assms
  by (simp add: process_get_vote_accounts_def take_and_process_cases rpc_request_data_new_def
      compute_vote_accounts_def notify_end_ok pending_channels_def)

definition sample_vote :: stored_vote where
  "sample_vote = \<lparr>sv_pubkey = 3, sv_vote_data = \<lparr>vt_node_pubkey = 4, vt_commission = 1, vt_votes = [],
     vt_root_slot = None, vt_epoch_credits = []\<rparr>, sv_last_update_slot = 1, sv_write_version = 0\<rparr>"

lemma overlapping_queries_share_answer_witness:
  "\<exists>s' status. vote_event_run (\<lambda>_. ''key'') (\<lambda>_. Inl [])
      (rpc_request_data_new, takable_new 0 ([(3, sample_vote)], [(0, \<lparr>ev_vote_stakes = [], ev_epoch = 0\<rparr>)]), None)
      [VoteQuery 9 0 plain_query 7,
       VoteQuery 9 0 (plain_query\<lparr>gv_keep_unstaked_delinquents := Some True\<rparr>) 8, ExecDone 0] =
      Inr (s', [(7, status), (8, status)]) \<and> vs_delinquent status = []"
proof -
  let ?status = "get_rpc_vote_accounts_info (\<lambda>_. ''key'') 9 [(3, sample_vote)]
    (ev_vote_stakes \<lparr>ev_vote_stakes = [], ev_epoch = 0\<rparr>) plain_query"
  have "vs_delinquent ?status = []"
    by (simp add: get_rpc_vote_accounts_info_def vote_account_info_def plain_query_def map_values_def
        convert_to_rpc_vote_account_info_def sample_vote_def votes_recently_def hm_get_def
        delinquent_validator_slot_distance_def)
  moreover obtain s' where "vote_event_run (\<lambda>_. ''key'') (\<lambda>_. Inl [])
      (rpc_request_data_new, takable_new 0 ([(3, sample_vote)], [(0, \<lparr>ev_vote_stakes = [], ev_epoch = 0\<rparr>)]), None)
      [VoteQuery 9 0 plain_query 7,
       VoteQuery 9 0 (plain_query\<lparr>gv_keep_unstaked_delinquents := Some True\<rparr>) 8, ExecDone 0] =
      Inr (s', [(7, ?status), (8, ?status)])"
    using overlapping_queries_share_answer [of "takable_new 0 ([(3, sample_vote)],
        [(0, \<lparr>ev_vote_stakes = [], ev_epoch = 0\<rparr>)])" "[(3, sample_vote)]"
        "[(0, \<lparr>ev_vote_stakes = [], ev_epoch = 0\<rparr>)]" 0 "\<lparr>ev_vote_stakes = [], ev_epoch = 0\<rparr>" 7 8
        "\<lambda>_. ''key''" "\<lambda>_. Inl []" 9 plain_query 9 0
        "plain_query\<lparr>gv_keep_unstaked_delinquents := Some True\<rparr>"]
    by (auto simp: takable_new_def vote_stakes_for_epoch_def hm_get_def)
  ultimately show ?thesis by blast
qed

text \<open>Current and delinquent vote accounts: every vote account is reported once, as current when its
  last vote is less than the given distance behind the slot and as delinquent otherwise, except
  that delinquent accounts without stake are left out unless they are asked for.\<close>

theorem vote_accounts_split:
  assumes "dist = unwrap_or (gv_delinquent_slot_distance config) delinquent_validator_slot_distance"
    and "infos = List.map (vote_account_info to_str vote_accounts) (map_values votes)"
    and "status = get_rpc_vote_accounts_info to_str sl votes vote_accounts config"
  shows "mset (vs_current status) = {#i \<in># mset infos. unat sl < unat (va_last_vote i) + unat dist \<and>
        0 < unat (va_last_vote i)#} \<and>
    mset (vs_delinquent status) = {#i \<in># mset infos.
        \<not> (unat sl < unat (va_last_vote i) + unat dist \<and> 0 < unat (va_last_vote i)) \<and>
        (gv_keep_unstaked_delinquents config = Some True \<or> va_activated_stake i \<noteq> 0)#}"
proof -
  have recent: "votes_recently sl dist =
      (\<lambda>i. unat sl < unat (va_last_vote i) + unat dist \<and> 0 < unat (va_last_vote i))"
    by (auto simp: fun_eq_iff votes_recently_def word_less_nat_alt word_le_nat_alt u64_simps)
  have parts: "vs_current status = filter (votes_recently sl dist) infos"
    "vs_delinquent status = (if unwrap_or (gv_keep_unstaked_delinquents config) False
       then filter (Not \<circ> votes_recently sl dist) infos
       else filter (\<lambda>i. va_activated_stake i > 0) (filter (Not \<circ> votes_recently sl dist) infos))"
    by (simp_all add: assms get_rpc_vote_accounts_info_def Let_def del: filter_filter)
  have nz: "(va_activated_stake i > 0) = (va_activated_stake i \<noteq> 0)" for i by (simp add: word_gt_0)
  have keep: "unwrap_or (gv_keep_unstaked_delinquents config) False \<longleftrightarrow>
      gv_keep_unstaked_delinquents config = Some True"
    by (cases "gv_keep_unstaked_delinquents config") auto
  show ?thesis
    unfolding parts recent keep by (auto simp: nz intro!: arg_cong [of _ _ mset] filter_cong simp flip: mset_filter)
qed

lemma vote_accounts_split_witness:
  "vs_current (get_rpc_vote_accounts_info (\<lambda>_. []) 9 [(3, sample_vote)] [] plain_query) = []"
proof -
  have "mset (vs_current (get_rpc_vote_accounts_info (\<lambda>_. []) 9 [(3, sample_vote)] [] plain_query)) = {#}"
    using vote_accounts_split [OF refl refl refl, where config = plain_query and to_str = "\<lambda>_. []"
        and vote_accounts = "[]" and votes = "[(3, sample_vote)]" and sl = 9]
    by (simp add: map_values_def vote_account_info_def convert_to_rpc_vote_account_info_def
        sample_vote_def hm_get_def)
  then show ?thesis by simp
qed

end
