(* ===== verification/Epoch_Schedule.thy ===== *)
theory Epoch_Schedule
  imports Stake_Votes "HOL-Library.Product_Lexorder"
begin

text \<open>
  \<open>stake_vote/src/epoch.rs\<close> and the calculations of \<open>leader_schedule.rs\<close>: when an epoch ends, the
  stakes of the vote accounts at its end, the leader schedule they give, and the two forms a
  schedule has, one leader per slot and the slots of each leader.  The weighted shuffle of
  \<open>solana_ledger\<close> and the stake of a delegation at an epoch are arguments.
\<close>

section \<open>The end of an epoch\<close>

record 'h schedule_epoch_data =
  sd_current_epoch :: u64
  sd_slots_in_epoch :: u64
  sd_last_slot_in_epoch :: u64
  sd_current_confirmed_slot :: u64
  sd_new_rate_activation_epoch :: "u64 option"
  sd_new_stake_history :: "'h option"
  sd_next_epoch_change :: "(u64 \<times> u64) option"

definition schedule_epoch_data_new ::
    "u64 \<Rightarrow> u64 \<Rightarrow> u64 \<Rightarrow> u64 \<Rightarrow> u64 option \<Rightarrow> 'h schedule_epoch_data" where
  "schedule_epoch_data_new current_epoch slots_in_epoch last_slot_in_epoch current_confirmed_slot rate =
     \<lparr>sd_current_epoch = current_epoch, sd_slots_in_epoch = slots_in_epoch,
      sd_last_slot_in_epoch = last_slot_in_epoch, sd_current_confirmed_slot = current_confirmed_slot,
      sd_new_rate_activation_epoch = rate, sd_new_stake_history = None, sd_next_epoch_change = None\<rparr>"

text \<open>The arguments of \<open>LeaderScheduleEvent::Init\<close>.\<close>

record 'h schedule_init =
  si_new_epoch :: u64
  si_slots_in_epoch :: u64
  si_new_rate_activation_epoch :: "u64 option"
  si_stake_history :: 'h

definition verify_epoch_change ::
    "'h schedule_epoch_data \<Rightarrow> 'h schedule_epoch_data \<times> 'h schedule_init option" where
  "verify_epoch_change sd =
     (case (sd_new_stake_history sd, sd_next_epoch_change sd) of
        (Some history, Some (next_epoch, last_slot_in_epoch)) \<Rightarrow>
          (sd\<lparr>sd_next_epoch_change := None, sd_current_epoch := next_epoch,
              sd_last_slot_in_epoch := last_slot_in_epoch, sd_new_stake_history := None\<rparr>,
           Some \<lparr>si_new_epoch = next_epoch, si_slots_in_epoch = sd_slots_in_epoch sd,
                 si_new_rate_activation_epoch = sd_new_rate_activation_epoch sd,
                 si_stake_history = history\<rparr>)
      | _ \<Rightarrow> (sd, None))"

definition manage_change_epoch ::
    "epoch_schedule \<Rightarrow> 'h schedule_epoch_data \<Rightarrow> 'h schedule_epoch_data \<times> 'h schedule_init option" where
  "manage_change_epoch es sd =
     (if sd_current_confirmed_slot sd \<ge> sd_last_slot_in_epoch sd then
        (let next_epoch = get_epoch_at_slot es (sd_last_slot_in_epoch sd + 1);
             last_slot_in_epoch = es_last_slot_in_epoch es (ep_epoch next_epoch)
         in verify_epoch_change
              (sd\<lparr>sd_next_epoch_change := Some (ep_epoch next_epoch, last_slot_in_epoch)\<rparr>))
      else (sd, None))"

definition process_new_confirmed_slot ::
    "epoch_schedule \<Rightarrow> 'h schedule_epoch_data \<Rightarrow> u64 \<Rightarrow> 'h schedule_epoch_data \<times> 'h schedule_init option"
where
  "process_new_confirmed_slot es sd new_slot =
     (if sd_current_confirmed_slot sd < new_slot
      then manage_change_epoch es (sd\<lparr>sd_current_confirmed_slot := new_slot\<rparr>) else (sd, None))"

definition set_epoch_stake_history ::
    "'h schedule_epoch_data \<Rightarrow> 'h \<Rightarrow> 'h schedule_epoch_data \<times> 'h schedule_init option" where
  "set_epoch_stake_history sd history = verify_epoch_change (sd\<lparr>sd_new_stake_history := Some history\<rparr>)"

section \<open>Stakes of the vote accounts\<close>

text \<open>\<open>stake_of\<close> is \<open>Delegation::stake\<close>; the sums wrap around.\<close>

definition delegated_stakes ::
    "(delegation \<Rightarrow> u64 \<Rightarrow> 'h \<Rightarrow> u64 option \<Rightarrow> u64) \<Rightarrow> stake_map \<Rightarrow> u64 \<Rightarrow> 'h \<Rightarrow> u64 option \<Rightarrow>
     (pubkey, u64) hashmap" where
  "delegated_stakes stake_of stakes new_epoch history rate =
     fold (\<lambda>stake_account m.
         hm_put (dl_voter_pubkey (ss_stake stake_account))
           (unwrap_or (hm_get m (dl_voter_pubkey (ss_stake stake_account))) 0 +
              stake_of (ss_stake stake_account) new_epoch history rate) m)
       (map_values stakes) []"

definition calculate_epoch_stakes ::
    "(delegation \<Rightarrow> u64 \<Rightarrow> 'h \<Rightarrow> u64 option \<Rightarrow> u64) \<Rightarrow> stake_map \<Rightarrow> vote_map \<Rightarrow> u64 \<Rightarrow> 'h \<Rightarrow> u64 option \<Rightarrow>
     staked_votes" where
  "calculate_epoch_stakes stake_of stakes votes new_epoch history rate =
     (let delegated = delegated_stakes stake_of stakes new_epoch history rate
      in fold (\<lambda>vote_account. hm_put (sv_pubkey vote_account)
             (unwrap_or (hm_get delegated (sv_pubkey vote_account)) 0, vote_account))
           (map_values votes) [])"

section \<open>The leader schedule\<close>

text \<open>
  Sorted by falling stake, then by falling key; equal neighbours are removed.  The comparison makes
  only equal elements equal, so the unstable sort has one result.
\<close>

definition sort_stakes :: "(pubkey \<times> u64) list \<Rightarrow> (pubkey \<times> u64) list" where
  "sort_stakes stakes = remdups_adj (rev (sort_key (\<lambda>(pk, stake). (stake, pk)) stakes))"

definition num_consecutive_leader_slots :: u64 where
  "num_consecutive_leader_slots = 4"

text \<open>The first eight bytes of the seed are the epoch, lowest byte first.\<close>

definition epoch_seed :: "u64 \<Rightarrow> u8 list" where
  "epoch_seed e = List.map (\<lambda>i. ucast (drop_bit (8 * i) e)) [0..<8] @ replicate 24 0"

definition node_stakes :: "staked_votes \<Rightarrow> (pubkey, u64) hashmap" where
  "node_stakes m =
     fold (\<lambda>(node, stake) acc. hm_put node (unwrap_or (hm_get acc node) 0 + stake) acc)
       (List.map_filter (\<lambda>(_, stake, vote_account).
          if stake \<noteq> 0 then Some (vt_node_pubkey (sv_vote_data vote_account), stake) else None) m) []"

definition calculate_leader_schedule ::
    "((pubkey \<times> u64) list \<Rightarrow> u8 list \<Rightarrow> u64 \<Rightarrow> u64 \<Rightarrow> pubkey list) \<Rightarrow> staked_votes \<Rightarrow> u64 \<Rightarrow> u64 \<Rightarrow>
     pubkey list" where
  "calculate_leader_schedule leader_schedule_new stake_vote_map e slots_in_epoch =
     leader_schedule_new (sort_stakes (node_stakes stake_vote_map)) (epoch_seed e) slots_in_epoch
       num_consecutive_leader_slots"

text \<open>The slots of each leader, in the order of the slots.\<close>

definition get_schedule_by_nodes :: "(pubkey \<Rightarrow> string) \<Rightarrow> pubkey list \<Rightarrow> (string, nat list) hashmap" where
  "get_schedule_by_nodes to_str leaders =
     fold (\<lambda>(i, pk) m. hm_put (to_str pk) (unwrap_or (hm_get m (to_str pk)) [] @ [i]) m)
       (List.enumerate 0 leaders) []"

fun insert_slot_leaders ::
    "(string \<Rightarrow> string + pubkey) \<Rightarrow> (string \<times> nat) list \<Rightarrow> (nat, pubkey) btreemap \<Rightarrow>
     string + (nat, pubkey) btreemap" where
  "insert_slot_leaders from_str [] m = Inr m"
| "insert_slot_leaders from_str ((pk, index) # rest) m =
     (case from_str pk of
        Inl err \<Rightarrow> Inl (''Pubkey from leader schedule not a plublic key:'' @ err)
      | Inr pubkey \<Rightarrow> insert_slot_leaders from_str rest (bt_put index pubkey m))"

definition calculate_slot_leaders_from_schedule ::
    "(string \<Rightarrow> string + pubkey) \<Rightarrow> (string, nat list) hashmap \<Rightarrow> string + pubkey list" where
  "calculate_slot_leaders_from_schedule from_str leader_schedule =
     map_sum id map_values
       (insert_slot_leaders from_str
          (concat (List.map (\<lambda>(pk, index_list). List.map (Pair pk) index_list) leader_schedule)) [])"

section \<open>Lemmas\<close>

lemma insert_slot_leaders_ok:
  assumes "\<forall>(s, i) \<in> set es. from_str s = Inr (leaders ! i) \<and> i < length leaders"
  shows "\<exists>m'. insert_slot_leaders from_str es m = Inr m' \<and> (bt_inv m \<longrightarrow> bt_inv m') \<and>
    bt_get m' = (\<lambda>i. if i \<in> snd ` set es then Some (leaders ! i) else bt_get m i)"
  using assms
proof (induction es arbitrary: m)
  case (Cons e es)
  obtain s i where e: "e = (s, i)" by (cases e)
  have prems: "\<forall>(s, i) \<in> set es. from_str s = Inr (leaders ! i) \<and> i < length leaders"
    using Cons.prems by simp
  obtain m' where m': "insert_slot_leaders from_str es (bt_put i (leaders ! i) m) = Inr m'"
      "bt_inv (bt_put i (leaders ! i) m) \<longrightarrow> bt_inv m'"
      "bt_get m' = (\<lambda>j. if j \<in> snd ` set es then Some (leaders ! j) else bt_get (bt_put i (leaders ! i) m) j)"
    using Cons.IH [OF prems] by blast
  have "insert_slot_leaders from_str (e # es) m = Inr m'"
    using m'(1) Cons.prems by (simp add: e)
  moreover have "bt_get m' = (\<lambda>j. if j \<in> snd ` set (e # es) then Some (leaders ! j) else bt_get m j)"
  proof
    fix j
    show "bt_get m' j = (if j \<in> snd ` set (e # es) then Some (leaders ! j) else bt_get m j)"
      unfolding m'(3) by (cases "j = i") (simp_all add: e bt_get_put)
  qed
  moreover have "bt_inv m \<longrightarrow> bt_inv m'" using m'(2) by (simp add: bt_inv_put)
  ultimately show ?case by (intro exI [of _ m'] conjI)
qed simp

text \<open>A map from the first \<open>n\<close> slots is read back in the order of the slots.\<close>

lemma map_values_of_slots:
  assumes "bt_inv m" and "bt_get m = (\<lambda>i. if i < length xs then Some (xs ! i) else None)"
  shows "map_values m = xs"
proof -
  have "set (map_keys m) = dom (bt_get m)" by (simp add: bt_dom)
  also have "\<dots> = {0..<length xs}" unfolding assms(2) by (auto simp: dom_def)
  finally have keys: "set (map_keys m) = {0..<length xs}" .
  have sorted: "sorted (map_keys m)" "distinct (map_keys m)"
    using assms(1) by (simp_all add: bt_inv_def strict_sorted_iff)
  have k: "map_keys m = [0..<length xs]"
    using sorted keys by (intro sorted_distinct_set_unique) auto
  have "map_values m ! i = xs ! i" if "i < length xs" for i
  proof -
    have len: "length m = length xs" using arg_cong [OF k, of length] by simp
    with that have mem: "m ! i \<in> set m" by simp
    have "fst (m ! i) = i"
      using arg_cong [OF k, of "\<lambda>ks. ks ! i"] that len by (simp add: map_keys_def)
    then have "bt_get m i = Some (snd (m ! i))"
      using mem by (intro bt_get_mem [OF assms(1)]) (metis prod.collapse)
    with that assms(2) len show ?thesis by (simp add: map_values_def)
  qed
  moreover have "length (map_values m) = length xs"
    using arg_cong [OF k, of length] by (simp add: map_values_def)
  ultimately show ?thesis by (intro nth_equalityI) auto
qed

text \<open>The grouping by node holds every slot under its leader's name.\<close>

definition group_by_node :: "(pubkey \<Rightarrow> string) \<Rightarrow> (nat \<times> pubkey) list \<Rightarrow> (string, nat list) hashmap" where
  "group_by_node to_str es =
     fold (\<lambda>(i, pk) m. hm_put (to_str pk) (unwrap_or (hm_get m (to_str pk)) [] @ [i]) m) es []"

lemma group_by_node_snoc:
  "group_by_node to_str (es @ [(i, pk)]) =
     hm_put (to_str pk) (unwrap_or (hm_get (group_by_node to_str es) (to_str pk)) [] @ [i])
       (group_by_node to_str es)"
  by (simp add: group_by_node_def)

lemma group_by_node_inv: "hm_inv (group_by_node to_str es)"
proof (induction es rule: rev_induct)
  case (snoc e es)
  then show ?case by (cases e) (simp add: group_by_node_snoc hm_inv_put)
qed (simp add: group_by_node_def)

lemma group_by_node_get:
  "i \<in> set (unwrap_or (hm_get (group_by_node to_str es) s) []) \<longleftrightarrow>
     (\<exists>pk. (i, pk) \<in> set es \<and> s = to_str pk)"
proof (induction es rule: rev_induct)
  case (snoc e es)
  obtain j pk where e: "e = (j, pk)" by (cases e)
  show ?case
  proof (cases "s = to_str pk")
    case True
    then show ?thesis using snoc.IH by (auto simp: e group_by_node_snoc hm_get_hm_put)
  next
    case False
    then show ?thesis using snoc.IH by (auto simp: e group_by_node_snoc hm_get_hm_put)
  qed
qed (simp add: group_by_node_def)

lemma group_by_node_entries:
  assumes "(s, is) \<in> set (group_by_node to_str es)" and "i \<in> set is"
  shows "\<exists>pk. (i, pk) \<in> set es \<and> s = to_str pk"
proof -
  have "hm_get (group_by_node to_str es) s = Some is"
    using group_by_node_inv assms(1) by (rule hm_get_mem)
  with assms(2) group_by_node_get [of i to_str es s] show ?thesis by simp
qed

lemma group_by_node_complete:
  assumes "(i, pk) \<in> set es"
  shows "\<exists>is. (to_str pk, is) \<in> set (group_by_node to_str es) \<and> i \<in> set is"
proof -
  have "i \<in> set (unwrap_or (hm_get (group_by_node to_str es) (to_str pk)) [])"
    using assms group_by_node_get by blast
  then obtain "is" where "hm_get (group_by_node to_str es) (to_str pk) = Some is" "i \<in> set is"
    by (cases "hm_get (group_by_node to_str es) (to_str pk)") auto
  then show ?thesis using hm_get_Some_mem by fast
qed

text \<open>Summing by key: what a key gets does not depend on the order of the entries.\<close>

definition sum_by_key :: "('a \<times> u64) list \<Rightarrow> ('a, u64) hashmap" where
  "sum_by_key es = fold (\<lambda>(k, v) acc. hm_put k (unwrap_or (hm_get acc k) 0 + v) acc) es []"

lemma sum_by_key_snoc:
  "sum_by_key (es @ [(k, v)]) = hm_put k (unwrap_or (hm_get (sum_by_key es) k) 0 + v) (sum_by_key es)"
  by (simp add: sum_by_key_def)

lemma sum_by_key_inv: "hm_inv (sum_by_key es)"
proof (induction es rule: rev_induct)
  case (snoc e es)
  then show ?case by (cases e) (simp add: sum_by_key_snoc hm_inv_put)
qed (simp add: sum_by_key_def)

lemma sum_by_key_get:
  "hm_get (sum_by_key es) k =
     (if k \<in> fst ` set es then Some (sum_list (List.map snd (filter (\<lambda>e. fst e = k) es))) else None)"
proof (induction es rule: rev_induct)
  case (snoc e es)
  obtain j v where e: "e = (j, v)" by (cases e)
  consider "j \<noteq> k" | "j = k" "k \<in> fst ` set es" | "j = k" "k \<notin> fst ` set es" by blast
  then show ?case
  proof cases
    case 1
    then show ?thesis by (simp add: e sum_by_key_snoc hm_get_hm_put snoc.IH)
  next
    case 2
    then show ?thesis by (simp add: e sum_by_key_snoc hm_get_hm_put snoc.IH)
  next
    case 3
    then have "filter (\<lambda>e. fst e = k) es = []" by (force simp: filter_empty_conv)
    with 3 show ?thesis by (simp add: e sum_by_key_snoc hm_get_hm_put snoc.IH)
  qed
qed (simp add: sum_by_key_def)

lemma sum_by_key_perm:
  assumes "mset es = mset es'"
  shows "hm_get (sum_by_key es) = hm_get (sum_by_key es')"
proof -
  have "set es = set es'" using assms by (rule mset_eq_setD)
  moreover have "sum_list (List.map snd (filter (\<lambda>e. fst e = k) es)) =
      sum_list (List.map snd (filter (\<lambda>e. fst e = k) es'))" for k
  proof -
    have "mset (List.map snd (filter (\<lambda>e. fst e = k) es)) = mset (List.map snd (filter (\<lambda>e. fst e = k) es'))"
      using assms by simp
    then show ?thesis by (metis sum_mset_sum_list)
  qed
  ultimately show ?thesis by (simp add: fun_eq_iff sum_by_key_get)
qed

text \<open>Two maps with the same entries, in whatever order they are iterated.\<close>

lemma hashmap_mset_eq:
  assumes "hm_inv m" and "hm_inv m'" and "hm_get m = hm_get m'"
  shows "mset m = mset m'"
proof -
  have "set m = set m'"
    using assms by (metis hm_get_def hm_inv_def map_keys_def map_of_inject_set)
  moreover have "distinct m" "distinct m'"
    using assms(1,2) by (auto simp: hm_inv_def map_keys_def distinct_map)
  ultimately show ?thesis by (simp add: set_eq_iff_mset_eq_distinct)
qed

lemma hashmap_set_eq:
  assumes "hm_inv m" and "hm_inv m'" and "hm_get m = hm_get m'"
  shows "set m = set m'"
  using hashmap_mset_eq [OF assms] by (rule mset_eq_setD)

text \<open>The order of the stakes is total, so the result only depends on the set of entries.\<close>

definition stake_above :: "pubkey \<times> u64 \<Rightarrow> pubkey \<times> u64 \<Rightarrow> bool" where
  "stake_above a b \<longleftrightarrow> snd b < snd a \<or> (snd b = snd a \<and> fst b < fst a)"

lemma remdups_adj_strict:
  fixes f :: "'a \<Rightarrow> 'b::linorder"
  assumes "inj f" and "sorted (List.map f xs)"
  shows "sorted_wrt (\<lambda>a b. f a < f b) (remdups_adj xs)"
  using assms(2)
proof (induction xs rule: remdups_adj.induct)
  case (3 x y xs)
  show ?case
  proof (cases "x = y")
    case False
    have "f x \<noteq> f y" using False assms(1) by (auto dest: injD)
    with "3.prems" have lt: "f x < f y" by (simp add: less_le)
    have "sorted_wrt (\<lambda>a b. f a < f b) (remdups_adj (y # xs))" using "3.IH"(2) [OF False] "3.prems" by simp
    moreover have "\<forall>z \<in> set (remdups_adj (y # xs)). f x < f z"
      using "3.prems" lt by fastforce
    ultimately show ?thesis using False by simp
  qed (use 3 in simp)
qed simp_all

definition stake_rank :: "pubkey \<times> u64 \<Rightarrow> u64 \<times> pubkey" where
  "stake_rank e = (snd e, fst e)"

lemma inj_stake_rank: "inj stake_rank"
  by (auto intro!: injI simp: stake_rank_def prod_eq_iff)

lemma sort_stakes_rev: "sort_stakes stakes = rev (remdups_adj (sort_key stake_rank stakes))"
proof -
  have "(\<lambda>(pk, stake). (stake, pk)) = stake_rank" by (auto simp: stake_rank_def fun_eq_iff)
  then show ?thesis by (simp add: sort_stakes_def remdups_adj_rev)
qed

lemma stake_above_rank: "stake_above a b \<longleftrightarrow> stake_rank b < stake_rank a"
  by (auto simp: stake_above_def stake_rank_def)

lemma sort_stakes_sorted: "sorted_wrt stake_above (sort_stakes stakes)"
proof -
  have "sorted_wrt (\<lambda>a b. stake_rank a < stake_rank b) (remdups_adj (sort_key stake_rank stakes))"
    by (intro remdups_adj_strict inj_stake_rank sorted_sort_key)
  then show ?thesis by (simp add: sort_stakes_rev sorted_wrt_rev stake_above_rank)
qed

lemma sort_stakes_set: "set (sort_stakes stakes) = set stakes"
  by (simp add: sort_stakes_rev)

text \<open>A list that falls strictly is determined by its elements.\<close>

lemma stake_above_unique:
  assumes "sorted_wrt stake_above xs" and "sorted_wrt stake_above ys" and "set xs = set ys"
  shows "xs = ys"
proof -
  have *: "sorted_wrt (<) (List.map stake_rank (rev zs))" if "sorted_wrt stake_above zs" for zs
    using that by (simp add: sorted_wrt_map sorted_wrt_rev stake_above_rank [abs_def])
  have "List.map stake_rank (rev xs) = List.map stake_rank (rev ys)"
    using * [OF assms(1)] * [OF assms(2)] assms(3) by (intro strict_sorted_equal) auto
  then have "rev xs = rev ys" using inj_stake_rank by (simp add: inj_map_eq_map)
  then show ?thesis by simp
qed

text \<open>What a vote account is given.\<close>

lemma node_stakes_eq:
  "node_stakes m = sum_by_key (List.map_filter (\<lambda>(_, stake, vote_account).
     if stake \<noteq> 0 then Some (vt_node_pubkey (sv_vote_data vote_account), stake) else None) m)"
  by (simp add: node_stakes_def sum_by_key_def)

lemma mset_map_filter: "mset xs = mset ys \<Longrightarrow> mset (List.map_filter f xs) = mset (List.map_filter f ys)"
  by (simp add: List.map_filter_def)

lemma delegated_stakes_eq:
  "delegated_stakes stake_of stakes e history rate =
     sum_by_key (List.map (\<lambda>s. (dl_voter_pubkey (ss_stake s), stake_of (ss_stake s) e history rate))
       (map_values stakes))"
  by (simp add: delegated_stakes_def sum_by_key_def fold_map comp_def)

lemma map_of_rev_distinct:
  assumes "distinct (List.map fst xs)"
  shows "map_of (rev xs) = map_of xs"
proof -
  have "distinct (List.map fst (rev xs))" using assms by (simp add: rev_map [symmetric])
  with assms show ?thesis using map_of_inject_set [of "rev xs" xs] by simp
qed

lemma calculate_epoch_stakes_get:
  assumes "hm_inv votes" and "\<forall>k v. hm_get votes k = Some v \<longrightarrow> sv_pubkey v = k"
  shows "hm_get (calculate_epoch_stakes stake_of stakes votes e history rate) pk =
    map_option (\<lambda>v. (unwrap_or (hm_get (delegated_stakes stake_of stakes e history rate) pk) 0, v))
      (hm_get votes pk)"
proof -
  let ?d = "delegated_stakes stake_of stakes e history rate"
  let ?g = "\<lambda>v. (unwrap_or (hm_get ?d (sv_pubkey v)) 0, v)"
  have key: "sv_pubkey v = k" if "(k, v) \<in> set votes" for k v
    using assms hm_get_mem that by metis
  have "calculate_epoch_stakes stake_of stakes votes e history rate =
      fold (\<lambda>(k, v). hm_put k v) (List.map (\<lambda>v. (sv_pubkey v, ?g v)) (map_values votes)) []"
    by (simp add: calculate_epoch_stakes_def Let_def fold_map comp_def)
  also have "List.map (\<lambda>v. (sv_pubkey v, ?g v)) (map_values votes) = map_vals (\<lambda>_. ?g) votes"
    using key by (auto simp: map_values_def map_vals_def)
  finally have "hm_get (calculate_epoch_stakes stake_of stakes votes e history rate) =
      map_of (rev (map_vals (\<lambda>_. ?g) votes))"
    by (simp add: hm.put_all hm.get_empty)
  also have "\<dots> = map_of (map_vals (\<lambda>_. ?g) votes)"
  proof -
    have "distinct (List.map fst (map_vals (\<lambda>_. ?g) votes))"
      using assms(1) by (simp add: hm_inv_def flip: map_keys_def)
    then show ?thesis by (rule map_of_rev_distinct)
  qed
  finally show ?thesis
    using assms(2) by (cases "hm_get votes pk") (auto simp: map_of_vals hm_get_def)
qed

section \<open>Properties\<close>

text \<open>The two forms of a leader schedule carry the same information: grouping the slots by leader,
  as the RPC interface reports them, and reading the leaders of the slots back gives the schedule.\<close>

theorem schedule_by_nodes_roundtrip:
  assumes "\<forall>pk. from_str (to_str pk) = Inr pk"
  shows "calculate_slot_leaders_from_schedule from_str (get_schedule_by_nodes to_str leaders) = Inr leaders"
proof -
  let ?m = "get_schedule_by_nodes to_str leaders"
  let ?es = "concat (List.map (\<lambda>(pk, index_list). List.map (Pair pk) index_list) ?m)"
  have m: "?m = group_by_node to_str (List.enumerate 0 leaders)"
    by (simp add: get_schedule_by_nodes_def group_by_node_def)
  have mem: "(i, pk) \<in> set (List.enumerate 0 leaders) \<longleftrightarrow> i < length leaders \<and> pk = leaders ! i" for i pk
    by (auto simp: in_set_enumerate_eq)
  have "\<forall>(s, i) \<in> set ?es. from_str s = Inr (leaders ! i) \<and> i < length leaders"
  proof (clarify)
    fix s i assume "(s, i) \<in> set ?es"
    then obtain "is" where "(s, is) \<in> set ?m" "i \<in> set is" by auto
    then obtain pk where "(i, pk) \<in> set (List.enumerate 0 leaders)" "s = to_str pk"
      using group_by_node_entries unfolding m by blast
    then show "from_str s = Inr (leaders ! i) \<and> i < length leaders" using mem assms by simp
  qed
  moreover have "snd ` set ?es = {0..<length leaders}"
  proof
    show "snd ` set ?es \<subseteq> {0..<length leaders}" using calculation by fastforce
    show "{0..<length leaders} \<subseteq> snd ` set ?es"
    proof
      fix i assume "i \<in> {0..<length leaders}"
      then have "(i, leaders ! i) \<in> set (List.enumerate 0 leaders)" using mem by simp
      from group_by_node_complete [OF this, of to_str] show "i \<in> snd ` set ?es"
        unfolding m [symmetric] by force
    qed
  qed
  moreover obtain m' where m': "insert_slot_leaders from_str ?es [] = Inr m'" "bt_inv m'"
      "bt_get m' = (\<lambda>i. if i \<in> snd ` set ?es then Some (leaders ! i) else bt_get [] i)"
    using insert_slot_leaders_ok [OF calculation(1), of "[]"] by auto
  ultimately have "bt_get m' = (\<lambda>i. if i < length leaders then Some (leaders ! i) else None)"
    by (simp add: fun_eq_iff)
  then have "map_values m' = leaders" by (rule map_values_of_slots [OF m'(2)])
  then show ?thesis using m'(1) by (simp add: calculate_slot_leaders_from_schedule_def)
qed

lemma schedule_by_nodes_roundtrip_witness:
  "calculate_slot_leaders_from_schedule (\<lambda>s. Inr (word_of_nat (length s)))
     (get_schedule_by_nodes (\<lambda>pk. replicate (unat pk) CHR ''x'') [3, 3, 5, 3]) = Inr [3, 3, 5, 3]"
  by (rule schedule_by_nodes_roundtrip) (simp add: word_unat_eq_iff)

text \<open>Every node computes the same leader schedule: it depends on the staked votes but not on the
  order in which a map is iterated, because the stakes of the nodes, each the sum over its vote
  accounts with stake, are handed over strictly falling.\<close>

theorem leader_schedule_deterministic:
  assumes "hm_inv m" and "hm_inv m'" and "hm_get m = hm_get m'"
    and "es = List.map_filter (\<lambda>(_, stake, v).
      if stake \<noteq> 0 then Some (vt_node_pubkey (sv_vote_data v), stake) else None) m"
  shows "\<exists>stakes. calculate_leader_schedule f m e n = f stakes (epoch_seed e) n num_consecutive_leader_slots \<and>
    calculate_leader_schedule f m' e n = f stakes (epoch_seed e) n num_consecutive_leader_slots \<and>
    sorted_wrt stake_above stakes \<and>
    set stakes = {(node, sum_list (List.map snd (filter (\<lambda>x. fst x = node) es))) | node. node \<in> fst ` set es}"
proof -
  have "hm_get (node_stakes m) = hm_get (node_stakes m')"
    unfolding node_stakes_eq
    by (intro sum_by_key_perm mset_map_filter hashmap_mset_eq assms(1-3))
  then have "set (node_stakes m) = set (node_stakes m')"
    by (intro hashmap_set_eq) (simp_all add: node_stakes_eq sum_by_key_inv)
  then have same: "sort_stakes (node_stakes m') = sort_stakes (node_stakes m)"
    by (intro stake_above_unique sort_stakes_sorted) (simp add: sort_stakes_set)
  have "set (node_stakes m) =
      {(node, sum_list (List.map snd (filter (\<lambda>x. fst x = node) es))) | node. node \<in> fst ` set es}"
  proof -
    have "(k, v) \<in> set (node_stakes m) \<longleftrightarrow> hm_get (sum_by_key es) k = Some v" for k v
      unfolding node_stakes_eq assms(4)
      using hm_get_mem [OF sum_by_key_inv] hm_get_Some_mem by fast
    then have "(k, v) \<in> set (node_stakes m) \<longleftrightarrow>
        k \<in> fst ` set es \<and> v = sum_list (List.map snd (filter (\<lambda>x. fst x = k) es))" for k v
      by (auto simp only: sum_by_key_get split: if_splits)
    then show ?thesis by fast
  qed
  then show ?thesis
    by (intro exI [of _ "sort_stakes (node_stakes m)"] conjI sort_stakes_sorted)
      (simp_all add: calculate_leader_schedule_def sort_stakes_set same)
qed

definition staked_vote :: "pubkey \<Rightarrow> pubkey \<Rightarrow> u64 \<Rightarrow> pubkey \<times> u64 \<times> stored_vote" where
  "staked_vote pk node stake = (pk, stake, \<lparr>sv_pubkey = pk, sv_vote_data = \<lparr>vt_node_pubkey = node,
     vt_commission = 1, vt_votes = [], vt_root_slot = None, vt_epoch_credits = []\<rparr>,
     sv_last_update_slot = 1, sv_write_version = 0\<rparr>)"

lemma leader_schedule_deterministic_witness:
  "calculate_leader_schedule (\<lambda>stakes _ _ _. List.map fst stakes)
     [staked_vote 1 8 5, staked_vote 2 9 7, staked_vote 3 8 4] 3 4 =
   calculate_leader_schedule (\<lambda>stakes _ _ _. List.map fst stakes)
     [staked_vote 3 8 4, staked_vote 2 9 7, staked_vote 1 8 5] 3 4"
proof -
  let ?a = "[staked_vote 1 8 5, staked_vote 2 9 7, staked_vote 3 8 4]"
  let ?b = "[staked_vote 3 8 4, staked_vote 2 9 7, staked_vote 1 8 5]"
  have "hm_inv ?a" "hm_inv ?b" by (simp_all add: hm_inv_def map_keys_def staked_vote_def)
  moreover have "hm_get ?a = hm_get ?b"
    by (auto simp: hm_get_def staked_vote_def fun_eq_iff)
  ultimately show ?thesis
    using leader_schedule_deterministic [OF _ _ _ refl, of ?a ?b "\<lambda>stakes _ _ _. List.map fst stakes" 3 4]
    by auto
qed

text \<open>The stakes at an epoch: a vote account that the store knows gets the sum of the stakes of the
  delegations to it, and no other account is listed.\<close>

theorem epoch_stakes_exact:
  assumes "hm_inv votes" and "\<forall>k v. hm_get votes k = Some v \<longrightarrow> sv_pubkey v = k"
  shows "hm_get (calculate_epoch_stakes stake_of stakes votes e history rate) pk =
    map_option (\<lambda>v. (sum_list (List.map (\<lambda>s. stake_of (ss_stake s) e history rate)
        (filter (\<lambda>s. dl_voter_pubkey (ss_stake s) = pk) (map_values stakes))), v)) (hm_get votes pk)"
proof -
  let ?es = "List.map (\<lambda>s. (dl_voter_pubkey (ss_stake s), stake_of (ss_stake s) e history rate)) (map_values stakes)"
  have sum: "List.map snd (filter (\<lambda>x. fst x = pk) ?es) = List.map (\<lambda>s. stake_of (ss_stake s) e history rate)
      (filter (\<lambda>s. dl_voter_pubkey (ss_stake s) = pk) (map_values stakes))"
    by (simp add: filter_map comp_def)
  have "filter (\<lambda>x. fst x = pk) ?es = []" if "pk \<notin> fst ` set ?es"
    using that by (metis (mono_tags, lifting) filter_False image_eqI)
  then have "unwrap_or (hm_get (sum_by_key ?es) pk) 0 = sum_list (List.map snd (filter (\<lambda>x. fst x = pk) ?es))"
    unfolding sum_by_key_get by (cases "pk \<in> fst ` set ?es") simp_all
  then show ?thesis
    unfolding calculate_epoch_stakes_get [OF assms] delegated_stakes_eq sum by simp
qed

lemma epoch_stakes_exact_witness:
  "hm_get (calculate_epoch_stakes (\<lambda>d _ _ _. dl_stake d)
      (List.map (\<lambda>(pk, n). (pk, \<lparr>ss_pubkey = pk, ss_lamports = n, ss_stake = \<lparr>dl_voter_pubkey = 3,
         dl_stake = n, dl_activation_epoch = 0, dl_deactivation_epoch = 9\<rparr>, ss_last_update_slot = 0,
         ss_write_version = 0\<rparr>)) [(1, 10), (2, 32)])
      [(3, sample_vote)] 1 () None) 3 = Some (42, sample_vote)"
  by (subst epoch_stakes_exact)
    (auto simp: hm_inv_def map_keys_def hm_get_def sample_vote_def map_values_def split: if_splits)

section \<open>Epochs follow each other\<close>

datatype 'h epoch_event = ConfirmedSlot u64 | StakeHistoryReceived 'h

fun epoch_event_step ::
    "epoch_schedule \<Rightarrow> 'h schedule_epoch_data \<Rightarrow> 'h epoch_event \<Rightarrow>
     'h schedule_epoch_data \<times> 'h schedule_init option" where
  "epoch_event_step es sd (ConfirmedSlot sl) = process_new_confirmed_slot es sd sl"
| "epoch_event_step es sd (StakeHistoryReceived history) = set_epoch_stake_history sd history"

fun epoch_event_run ::
    "epoch_schedule \<Rightarrow> 'h schedule_epoch_data \<Rightarrow> 'h epoch_event list \<Rightarrow>
     'h schedule_epoch_data \<times> 'h schedule_init list" where
  "epoch_event_run es sd [] = (sd, [])"
| "epoch_event_run es sd (ev # evs) =
     (let (sd', init) = epoch_event_step es sd ev;
          (sd'', inits) = epoch_event_run es sd' evs
      in (sd'', (case init of None \<Rightarrow> inits | Some i \<Rightarrow> i # inits)))"

definition epoch_data_ok :: "epoch_schedule \<Rightarrow> 'h schedule_epoch_data \<Rightarrow> bool" where
  "epoch_data_ok es sd \<longleftrightarrow>
     sd_last_slot_in_epoch sd = es_last_slot_in_epoch es (sd_current_epoch sd) \<and>
     (case sd_next_epoch_change sd of
        None \<Rightarrow> True
      | Some (e, l) \<Rightarrow> e = sd_current_epoch sd + 1 \<and> l = es_last_slot_in_epoch es e)"

definition history_count :: "'h schedule_epoch_data \<Rightarrow> nat" where
  "history_count sd = (if sd_new_stake_history sd = None then 0 else 1)"

fun histories :: "'h epoch_event list \<Rightarrow> nat" where
  "histories [] = 0"
| "histories (StakeHistoryReceived _ # evs) = Suc (histories evs)"
| "histories (ConfirmedSlot _ # evs) = histories evs"

lemma verify_epoch_change_ok:
  assumes "epoch_data_ok es sd" and "verify_epoch_change sd = (sd', init)"
  shows "epoch_data_ok es sd' \<and>
    (case init of
       None \<Rightarrow> sd_current_epoch sd' = sd_current_epoch sd \<and> history_count sd' = history_count sd
     | Some i \<Rightarrow> si_new_epoch i = sd_current_epoch sd + 1 \<and> sd_current_epoch sd' = sd_current_epoch sd + 1 \<and>
         Suc (history_count sd') = history_count sd)"
  using assms by (auto simp: verify_epoch_change_def epoch_data_ok_def history_count_def
      split: option.splits prod.splits)

lemma epoch_event_step_ok:
  assumes "epoch_data_ok es sd"
    and "fst (es_epoch_and_slot_index es (es_last_slot_in_epoch es (sd_current_epoch sd) + 1)) =
      sd_current_epoch sd + 1"
    and "epoch_event_step es sd ev = (sd', init)"
  shows "epoch_data_ok es sd' \<and>
    (case init of
       None \<Rightarrow> sd_current_epoch sd' = sd_current_epoch sd \<and>
         history_count sd' \<le> history_count sd + histories [ev]
     | Some i \<Rightarrow> si_new_epoch i = sd_current_epoch sd + 1 \<and> sd_current_epoch sd' = sd_current_epoch sd + 1 \<and>
         Suc (history_count sd') \<le> history_count sd + histories [ev])"
proof -
  show ?thesis
  proof (cases ev)
    case (StakeHistoryReceived h)
    have "epoch_data_ok es (sd\<lparr>sd_new_stake_history := Some h\<rparr>)"
      using assms(1) by (auto simp: epoch_data_ok_def split: option.splits)
    moreover have "verify_epoch_change (sd\<lparr>sd_new_stake_history := Some h\<rparr>) = (sd', init)"
      using assms(3) by (simp add: StakeHistoryReceived set_epoch_stake_history_def)
    moreover have c: "history_count (sd\<lparr>sd_new_stake_history := Some h\<rparr>) = 1"
        "sd_current_epoch (sd\<lparr>sd_new_stake_history := Some h\<rparr>) = sd_current_epoch sd"
      by (simp_all add: history_count_def)
    ultimately show ?thesis
      using verify_epoch_change_ok [of es "sd\<lparr>sd_new_stake_history := Some h\<rparr>" sd' init]
      unfolding c by (cases init) (simp_all add: StakeHistoryReceived)
  next
    case (ConfirmedSlot sl)
    let ?sd1 = "sd\<lparr>sd_current_confirmed_slot := sl\<rparr>"
    let ?e = "get_epoch_at_slot es (sd_last_slot_in_epoch sd + 1)"
    let ?sd2 = "?sd1\<lparr>sd_next_epoch_change := Some (ep_epoch ?e, es_last_slot_in_epoch es (ep_epoch ?e))\<rparr>"
    have e: "ep_epoch ?e = sd_current_epoch sd + 1"
      using assms(1,2) by (simp add: epoch_data_ok_def get_epoch_at_slot_def split_def)
    have "epoch_data_ok es ?sd2"
      unfolding epoch_data_ok_def e using assms(1) by (simp add: epoch_data_ok_def)
    moreover have "epoch_data_ok es ?sd1"
      using assms(1) by (cases "sd_next_epoch_change sd") (simp_all add: epoch_data_ok_def split_def)
    ultimately have ok: "epoch_data_ok es ?sd2" "epoch_data_ok es ?sd1" .
    have "sd' = sd \<and> init = None \<or> sd' = ?sd1 \<and> init = None \<or> verify_epoch_change ?sd2 = (sd', init)"
    proof (cases "sd_current_confirmed_slot sd < sl \<and> sd_last_slot_in_epoch sd \<le> sl")
      case True
      then show ?thesis
        using assms(3) by (simp add: ConfirmedSlot process_new_confirmed_slot_def
            manage_change_epoch_def Let_def)
    next
      case False
      then show ?thesis
        using assms(3) by (cases "sd_current_confirmed_slot sd < sl")
          (simp_all add: ConfirmedSlot process_new_confirmed_slot_def manage_change_epoch_def)
    qed
    then consider "sd' = sd" "init = None" | "sd' = ?sd1" "init = None"
      | "verify_epoch_change ?sd2 = (sd', init)" by blast
    then show ?thesis
    proof cases
      case 3
      have "history_count ?sd2 = history_count sd" by (simp add: history_count_def)
      with verify_epoch_change_ok [OF ok(1) 3] show ?thesis
        by (cases init) (simp_all add: ConfirmedSlot)
    qed (use assms(1) ok in \<open>simp_all add: history_count_def\<close>)
  qed
qed

lemma epoch_event_run_ok:
  assumes "epoch_data_ok es sd"
    and "\<forall>k \<le> length evs. fst (es_epoch_and_slot_index es
          (es_last_slot_in_epoch es (sd_current_epoch sd + word_of_nat k) + 1)) =
        sd_current_epoch sd + word_of_nat (Suc k)"
    and "epoch_event_run es sd evs = (sd', inits)"
  shows "epoch_data_ok es sd' \<and> sd_current_epoch sd' = sd_current_epoch sd + word_of_nat (length inits) \<and>
    List.map si_new_epoch inits =
      List.map (\<lambda>i. sd_current_epoch sd + word_of_nat (Suc i)) [0..<length inits] \<and>
    length inits + history_count sd' \<le> history_count sd + histories evs"
  using assms
proof (induction evs arbitrary: sd sd' inits)
  case (Cons ev evs)
  obtain sd1 init where step: "epoch_event_step es sd ev = (sd1, init)" by (cases "epoch_event_step es sd ev")
  obtain inits1 where run: "epoch_event_run es sd1 evs = (sd', inits1)"
      and inits: "inits = (case init of None \<Rightarrow> inits1 | Some i \<Rightarrow> i # inits1)"
    using Cons.prems(3) by (auto simp: step Let_def split: prod.splits)
  have law: "fst (es_epoch_and_slot_index es (es_last_slot_in_epoch es (sd_current_epoch sd) + 1)) =
      sd_current_epoch sd + 1"
    using Cons.prems(2) [rule_format, of 0] by simp
  note one = epoch_event_step_ok [OF Cons.prems(1) law step]
  have h: "histories (ev # evs) = histories [ev] + histories evs" by (cases ev) auto
  show ?case
  proof (cases init)
    case None
    with one have e: "sd_current_epoch sd1 = sd_current_epoch sd"
        "history_count sd1 \<le> history_count sd + histories [ev]" "epoch_data_ok es sd1" by auto
    have "fst (es_epoch_and_slot_index es
          (es_last_slot_in_epoch es (sd_current_epoch sd1 + word_of_nat k) + 1)) =
        sd_current_epoch sd1 + word_of_nat (Suc k)" if "k \<le> length evs" for k
      unfolding e(1) by (rule Cons.prems(2) [rule_format]) (use that in simp)
    then have "\<forall>k \<le> length evs. fst (es_epoch_and_slot_index es
          (es_last_slot_in_epoch es (sd_current_epoch sd1 + word_of_nat k) + 1)) =
        sd_current_epoch sd1 + word_of_nat (Suc k)" by blast
    from Cons.IH [OF e(3) this run] show ?thesis
      using e(2) None unfolding e(1) inits h by auto
  next
    case (Some i)
    with one have e: "sd_current_epoch sd1 = sd_current_epoch sd + 1" "si_new_epoch i = sd_current_epoch sd + 1"
        "Suc (history_count sd1) \<le> history_count sd + histories [ev]" "epoch_data_ok es sd1" by auto
    have "fst (es_epoch_and_slot_index es
          (es_last_slot_in_epoch es (sd_current_epoch sd1 + word_of_nat k) + 1)) =
        sd_current_epoch sd1 + word_of_nat (Suc k)" if "k \<le> length evs" for k
      using Cons.prems(2) [rule_format, of "Suc k"] that unfolding e(1) by (simp add: algebra_simps)
    then have "\<forall>k \<le> length evs. fst (es_epoch_and_slot_index es
          (es_last_slot_in_epoch es (sd_current_epoch sd1 + word_of_nat k) + 1)) =
        sd_current_epoch sd1 + word_of_nat (Suc k)" by blast
    from Cons.IH [OF e(4) this run]
    have r: "epoch_data_ok es sd'" "sd_current_epoch sd' = sd_current_epoch sd1 + word_of_nat (length inits1)"
      "List.map si_new_epoch inits1 =
        List.map (\<lambda>i. sd_current_epoch sd1 + word_of_nat (Suc i)) [0..<length inits1]"
      "length inits1 + history_count sd' \<le> history_count sd1 + histories evs" by auto
    have "List.map si_new_epoch inits =
        List.map (\<lambda>i. sd_current_epoch sd + word_of_nat (Suc i)) (0 # List.map Suc [0..<length inits1])"
      using r(3) by (simp add: inits Some e algebra_simps)
    also have "0 # List.map Suc [0..<length inits1] = [0..<length inits]"
      unfolding inits Some map_Suc_upt by (simp add: upt_conv_Cons del: upt_Suc)
    finally show ?thesis
      using r(1,2,4) e(1,3) unfolding h by (simp add: inits Some algebra_simps)
  qed
qed simp

text \<open>Epochs follow each other without a gap or a repetition: from the bootstrap on, whatever order
  the confirmed slots and the stake histories arrive in, the schedule computations that are started
  are for the next epoch, the one after it, and so on, and none starts without a stake history of
  its own.\<close>

theorem epochs_follow_each_other:
  assumes "\<forall>k \<le> length evs. fst (es_epoch_and_slot_index es
          (es_last_slot_in_epoch es (e0 + word_of_nat k) + 1)) = e0 + word_of_nat (Suc k)"
    and "epoch_event_run es (schedule_epoch_data_new e0 slots (es_last_slot_in_epoch es e0) sl rate) evs =
      (sd', inits)"
  shows "List.map si_new_epoch inits = List.map (\<lambda>i. e0 + word_of_nat (Suc i)) [0..<length inits] \<and>
    sd_current_epoch sd' = e0 + word_of_nat (length inits) \<and>
    sd_last_slot_in_epoch sd' = es_last_slot_in_epoch es (sd_current_epoch sd') \<and>
    length inits \<le> histories evs"
proof -
  let ?sd = "schedule_epoch_data_new e0 slots (es_last_slot_in_epoch es e0) sl rate"
  have ok: "epoch_data_ok es ?sd" "sd_current_epoch ?sd = e0" "history_count ?sd = 0"
    by (simp_all add: epoch_data_ok_def schedule_epoch_data_new_def history_count_def)
  have "\<forall>k \<le> length evs. fst (es_epoch_and_slot_index es
        (es_last_slot_in_epoch es (sd_current_epoch ?sd + word_of_nat k) + 1)) =
      sd_current_epoch ?sd + word_of_nat (Suc k)"
    unfolding ok(2) by (rule assms(1))
  from epoch_event_run_ok [OF ok(1) this assms(2)] show ?thesis
    unfolding ok(2,3) by (simp add: epoch_data_ok_def)
qed

definition short_epochs :: epoch_schedule where
  "short_epochs = \<lparr>es_slots_per_epoch = 1, es_epoch_and_slot_index = (\<lambda>s. (s, 0)),
     es_slots_in_epoch = (\<lambda>_. 1), es_first_slot_in_epoch = id, es_last_slot_in_epoch = id\<rparr>"

lemma epochs_follow_each_other_witness:
  "List.map si_new_epoch (snd (epoch_event_run short_epochs
     (schedule_epoch_data_new 5 1 (es_last_slot_in_epoch short_epochs 5) 5 None)
     [StakeHistoryReceived (), ConfirmedSlot 6, ConfirmedSlot 7, StakeHistoryReceived ()])) = [6, 7]"
proof -
  let ?evs = "[StakeHistoryReceived (), ConfirmedSlot 6, ConfirmedSlot 7, StakeHistoryReceived ()]"
  let ?sd = "schedule_epoch_data_new 5 1 (es_last_slot_in_epoch short_epochs 5) 5 None"
  obtain sd' inits where run: "epoch_event_run short_epochs ?sd ?evs = (sd', inits)"
    by (cases "epoch_event_run short_epochs ?sd ?evs")
  then have "length inits = 2"
    by (simp add: schedule_epoch_data_new_def short_epochs_def set_epoch_stake_history_def
        verify_epoch_change_def process_new_confirmed_slot_def manage_change_epoch_def
        get_epoch_at_slot_def Let_def, auto)
  moreover have "\<forall>k \<le> length ?evs. fst (es_epoch_and_slot_index short_epochs
          (es_last_slot_in_epoch short_epochs (5 + word_of_nat k) + 1)) = 5 + word_of_nat (Suc k)"
    by (simp add: short_epochs_def algebra_simps)
  ultimately show ?thesis
    using epochs_follow_each_other [OF _ run] run by (simp add: numeral_2_eq_2 upt_rec)
qed

end
