(* ===== verification/Stake_Loop.thy ===== *)
theory Stake_Loop
  imports Epoch_Schedule
begin

text \<open>
  \<open>stake_vote/src/bootstrap.rs\<close>, the event loops of \<open>leader_schedule.rs\<close>, the stake files of
  \<open>utils.rs\<close> and the main loop of \<open>lib.rs\<close>.  A spawned task is a value in a list; the step that
  picks a task runs it, its effect on the two stake files included, and hands its event to the
  loop.  The gRPC subscriptions, the RPC node, serde and the SDK are the arguments collected in
  \<open>stake_env\<close>.
\<close>

section \<open>The environment\<close>

record saved_stake =
  sa_epoch :: u64
  sa_stake_vote_map :: "(string, u64 \<times> stored_vote) hashmap"

type_synonym 'e accounts_response = "'e + (pubkey \<times> account) list"

text \<open>
  \<open>en_write_json\<close> serialises and writes a file; it is \<open>None\<close> where the code would panic.  The
  leader schedule of \<open>solana_ledger\<close> is the list of its slot leaders.
\<close>

record 'h stake_env =
  en_to_str :: "pubkey \<Rightarrow> string"
  en_from_str :: "string \<Rightarrow> string + pubkey"
  en_pubkey_from :: "u8 list \<Rightarrow> pubkey option"
  en_bs58 :: "u8 list \<Rightarrow> string"
  en_borsh :: "u8 list \<Rightarrow> string + stake_state"
  en_vote_deserialize :: "u8 list \<Rightarrow> string + vote_state"
  en_read_history :: "u8 list \<Rightarrow> 'h option"
  en_stake_of :: "delegation \<Rightarrow> u64 \<Rightarrow> 'h \<Rightarrow> u64 option \<Rightarrow> u64"
  en_leader_schedule_new :: "(pubkey \<times> u64) list \<Rightarrow> u8 list \<Rightarrow> u64 \<Rightarrow> u64 \<Rightarrow> pubkey list"
  en_write_json :: "saved_stake \<Rightarrow> string option"
  en_read_json :: "string \<Rightarrow> string + saved_stake"
  en_get_stake_account :: "string \<Rightarrow> string + (pubkey \<times> account) list"
  en_get_vote_account :: "string \<Rightarrow> string + (pubkey \<times> account) list"
  en_get_stakehistory_account :: "string \<Rightarrow> string + account"
  en_get_rpc_epoch_info :: "string \<Rightarrow> string + u64"
  en_get_rpc_leader_schedule :: "string \<Rightarrow> slot option \<Rightarrow> string + (string, nat list) hashmap option"
  en_new_rate_activation_epoch :: "u64 option"
  en_stake_program :: pubkey
  en_vote_program :: pubkey
  en_stake_history_id :: pubkey

section \<open>The stake files\<close>

record stake_files =
  sf_current :: "string option"
  sf_next :: "string option"

text \<open>A key that does not parse is unwrapped.\<close>

fun parse_stake_keys ::
    "(string \<Rightarrow> string + pubkey) \<Rightarrow> (string \<times> u64 \<times> stored_vote) list \<Rightarrow> staked_votes \<Rightarrow> staked_votes outcome"
where
  "parse_stake_keys from_str [] m = Inr m"
| "parse_stake_keys from_str ((pk, st) # rest) m =
     (case from_str pk of
        Inl _ \<Rightarrow> Inl UnwrapNone
      | Inr pubkey \<Rightarrow> parse_stake_keys from_str rest (hm_put pubkey st m))"

definition read_schedule_vote_stakes ::
    "'h stake_env \<Rightarrow> string option \<Rightarrow> (string + u64 \<times> staked_votes) outcome" where
  "read_schedule_vote_stakes en file =
     (case file of
        None \<Rightarrow> Inr (Inl ''No such file or directory'')
      | Some content \<Rightarrow>
          (case en_read_json en content of
             Inl e \<Rightarrow> Inr (Inl e)
           | Inr saved \<Rightarrow>
               bind_outcome (parse_stake_keys (en_from_str en) (sa_stake_vote_map saved) [])
                 (\<lambda>m. Inr (Inr (sa_epoch saved, m)))))"

definition save_schedule_vote_stakes ::
    "'h stake_env \<Rightarrow> staked_votes \<Rightarrow> u64 \<Rightarrow> string outcome" where
  "save_schedule_vote_stakes en stake_vote_map e =
     (let save_stakes = \<lparr>sa_epoch = e, sa_stake_vote_map =
            fold (\<lambda>(pk, st). hm_put (en_to_str en pk) st) stake_vote_map []\<rparr>
      in case en_write_json en save_stakes of
           None \<Rightarrow> Inl UnwrapNone
         | Some content \<Rightarrow> Inr content)"

section \<open>Schedules from the files and from RPC\<close>

definition leader_schedule_data_of :: "'h stake_env \<Rightarrow> pubkey list \<Rightarrow> u64 \<Rightarrow> leader_schedule_data" where
  "leader_schedule_data_of en leaders e =
     \<lparr>ls_schedule_by_node = get_schedule_by_nodes (en_to_str en) leaders,
      ls_schedule_by_slot = leaders, ls_epoch = e\<rparr>"

definition bootstrap_current_leader_schedule ::
    "'h stake_env \<Rightarrow> stake_files \<Rightarrow> u64 \<Rightarrow> u64 \<Rightarrow>
     (string + calculated_schedule \<times> epoch_vote_stakes \<times> epoch_vote_stakes) outcome" where
  "bootstrap_current_leader_schedule en files current_epoch_of_loading slots_in_epoch =
     bind_outcome (read_schedule_vote_stakes en (sf_current files)) (\<lambda>r1.
       (case r1 of
          Inl e \<Rightarrow> Inr (Inl e)
        | Inr (current_epoch, current_epoch_stakes) \<Rightarrow>
            bind_outcome (read_schedule_vote_stakes en (sf_next files)) (\<lambda>r2.
              (case r2 of
                 Inl e \<Rightarrow> Inr (Inl e)
               | Inr (next_epoch, next_epoch_stakes) \<Rightarrow>
                   if current_epoch_of_loading \<noteq> current_epoch
                   then Inr (Inl ''Current epoch bootstrap file doesn't correspond to the validator current epoch.'')
                   else
                     (let current_schedule = calculate_leader_schedule (en_leader_schedule_new en)
                            current_epoch_stakes current_epoch slots_in_epoch;
                          next_schedule = calculate_leader_schedule (en_leader_schedule_new en)
                            next_epoch_stakes next_epoch slots_in_epoch
                      in Inr (Inr
                        (\<lparr>cs_current = Some (leader_schedule_data_of en current_schedule current_epoch),
                          cs_next = Some (leader_schedule_data_of en next_schedule next_epoch)\<rparr>,
                         \<lparr>ev_vote_stakes = current_epoch_stakes, ev_epoch = current_epoch\<rparr>,
                         \<lparr>ev_vote_stakes = next_epoch_stakes, ev_epoch = next_epoch\<rparr>)))))))"

text \<open>The call passes its two arguments in the order of the source.\<close>

definition bootstrap_leaderschedule_from_files ::
    "'h stake_env \<Rightarrow> stake_files \<Rightarrow> u64 \<Rightarrow> u64 \<Rightarrow>
     (calculated_schedule \<times> rpc_vote_account_status) option outcome" where
  "bootstrap_leaderschedule_from_files en files current_epoch_of_loading slots_in_epoch =
     bind_outcome (bootstrap_current_leader_schedule en files slots_in_epoch current_epoch_of_loading)
       (\<lambda>r. Inr (case r of
          Inl _ \<Rightarrow> None
        | Inr (leader_schedule, current_epoch_stakes, _) \<Rightarrow>
            Some (leader_schedule,
              get_rpc_vote_account_info_from_current_epoch_stakes (en_to_str en) current_epoch_stakes)))"

definition rpc_schedule ::
    "'h stake_env \<Rightarrow> string \<Rightarrow> slot option \<Rightarrow> u64 \<Rightarrow> string + leader_schedule_data" where
  "rpc_schedule en rpc_url sl e =
     (case en_get_rpc_leader_schedule en rpc_url sl of
        Inl err \<Rightarrow> Inl err
      | Inr None \<Rightarrow> Inl ''RPC return no leader schedule''
      | Inr (Some by_node) \<Rightarrow>
          (case calculate_slot_leaders_from_schedule (en_from_str en) by_node of
             Inl err \<Rightarrow> Inl (''Leader schedule from RPC can't generate slot leaders because:'' @ err)
           | Inr by_slot \<Rightarrow> Inr \<lparr>ls_schedule_by_node = by_node, ls_schedule_by_slot = by_slot, ls_epoch = e\<rparr>))"

definition bootstrap_leaderschedule_from_rpc ::
    "'h stake_env \<Rightarrow> string \<Rightarrow> epoch_schedule \<Rightarrow> string + calculated_schedule" where
  "bootstrap_leaderschedule_from_rpc en rpc_url es =
     (case en_get_rpc_epoch_info en rpc_url of
        Inl err \<Rightarrow> Inl err
      | Inr current_epoch \<Rightarrow>
          (case rpc_schedule en rpc_url None current_epoch of
             Inl err \<Rightarrow> Inl err
           | Inr current \<Rightarrow>
               (case rpc_schedule en rpc_url (Some (es_first_slot_in_epoch es (current_epoch + 1)))
                       (current_epoch + 1) of
                  Inl err \<Rightarrow> Inl err
                | Inr nxt \<Rightarrow> Inr \<lparr>cs_current = Some current, cs_next = Some nxt\<rparr>)))"

definition set_leader_schedule :: "calculated_schedule \<Rightarrow> data_cache \<Rightarrow> data_cache" where
  "set_leader_schedule cs dc = dc\<lparr>dc_leader_schedule := cs\<rparr>"

definition set_identity_stakes ::
    "'h stake_env \<Rightarrow> rpc_vote_account_status \<Rightarrow> data_cache \<Rightarrow> data_cache" where
  "set_identity_stakes en vote_stakes dc =
     dc\<lparr>dc_identity_stakes :=
        update_stakes_for_identity (en_to_str en) (dc_identity_stakes dc) vote_stakes\<rparr>"

definition bootstrat_literpc_leader_schedule ::
    "'h stake_env \<Rightarrow> stake_files \<Rightarrow> string \<Rightarrow> data_cache \<Rightarrow> u64 \<Rightarrow> data_cache outcome" where
  "bootstrat_literpc_leader_schedule en files rpc_url dc current_epoch_of_loading =
     bind_outcome (bootstrap_leaderschedule_from_files en files current_epoch_of_loading
         (es_slots_per_epoch (dc_epoch_data dc)))
       (\<lambda>r. Inr (case r of
          Some (leader_schedule, vote_stakes) \<Rightarrow>
            set_leader_schedule leader_schedule (set_identity_stakes en vote_stakes dc)
        | None \<Rightarrow>
            (case bootstrap_leaderschedule_from_rpc en rpc_url (dc_epoch_data dc) of
               Inr leader_schedule \<Rightarrow> set_leader_schedule leader_schedule dc
             | Inl _ \<Rightarrow> dc)))"

definition bootstrap_schedule_epoch_data :: "'h stake_env \<Rightarrow> data_cache \<Rightarrow> 'h schedule_epoch_data" where
  "bootstrap_schedule_epoch_data en dc =
     (let bootstrap_epoch = get_current_epoch dc confirmed_config
      in schedule_epoch_data_new (ep_epoch bootstrap_epoch) (ep_slots_in_epoch bootstrap_epoch)
           (es_last_slot_in_epoch (dc_epoch_data dc) (ep_epoch bootstrap_epoch))
           (ep_absolute_slot bootstrap_epoch) (en_new_rate_activation_epoch en))"

section \<open>The schedule computation\<close>

record leader_schedule_generated_data =
  lg_schedule :: "pubkey list"
  lg_rpc_data :: leader_schedule_data
  lg_epoch :: u64

datatype 'h leader_schedule_event =
    ScheduleInit "'h schedule_init"
  | MergeStoreAndSaveSchedule stake_map vote_content leader_schedule_generated_data "'h schedule_init"

text \<open>A task that computes a schedule on the stores it took, or waits for the stores.\<close>

datatype 'h schedule_task =
    CalculateSchedule stake_map vote_content "'h schedule_init"
  | AwaitStores "nat list" "'h schedule_init"

datatype 'h leader_schedule_result =
    ScheduleTask "'h schedule_task"
  | ScheduleNext "'h leader_schedule_event"
  | ScheduleEnd leader_schedule_generated_data

definition process_leadershedule_event ::
    "'h leader_schedule_event \<Rightarrow> stake_store \<Rightarrow> vote_store \<Rightarrow>
     (stake_store \<times> vote_store \<times> 'h leader_schedule_result) outcome" where
  "process_leadershedule_event event stakestore votestore =
     (case event of
        ScheduleInit init \<Rightarrow>
          bind_outcome (takable_pair_take stakestore votestore) (\<lambda>(stakestore', votestore', r).
            (case r of
               TakenMap (stakes, content) \<Rightarrow>
                 Inr (stakestore', votestore', ScheduleTask (CalculateSchedule stakes content init))
             | Taken notifs \<Rightarrow>
                 Inr (stakestore', votestore', ScheduleTask (AwaitStores notifs init))))
      | MergeStoreAndSaveSchedule stakes content schedule_data init \<Rightarrow>
          (let (stakestore', r1) = takable_merge process_stake_action stakestore stakes;
               (votestore', r2) = takable_merge vote_content_add votestore content
           in Inr (stakestore', votestore',
                (if r1 = Inr () \<and> r2 = Inr () then ScheduleEnd schedule_data
                 else ScheduleNext (ScheduleInit init)))))"

text \<open>
  The blocking task, with the files it leaves; it panics when the new file cannot be written.  The
  renaming of the old file fails only with the file system.
\<close>

definition run_schedule_task ::
    "'h stake_env \<Rightarrow> stake_files \<Rightarrow> 'h schedule_task \<Rightarrow> stake_files \<times> 'h leader_schedule_event outcome" where
  "run_schedule_task en files task =
     (case task of
        AwaitStores _ init \<Rightarrow> (files, Inr (ScheduleInit init))
      | CalculateSchedule stakes (votes, epoch_cache) init \<Rightarrow>
          (let epoch_vote_stakes = calculate_epoch_stakes (en_stake_of en) stakes votes
                 (si_new_epoch init) (si_stake_history init) (si_new_rate_activation_epoch init);
               next_epoch = si_new_epoch init + 1;
               leader_schedule = calculate_leader_schedule (en_leader_schedule_new en)
                 epoch_vote_stakes next_epoch (si_slots_in_epoch init);
               files1 = (case sf_next files of
                  Some content \<Rightarrow> \<lparr>sf_current = Some content, sf_next = None\<rparr>
                | None \<Rightarrow> files)
           in case save_schedule_vote_stakes en epoch_vote_stakes next_epoch of
                Inl p \<Rightarrow> (files1, Inl p)
              | Inr content \<Rightarrow>
                  (files1\<lparr>sf_next := Some content\<rparr>,
                   Inr (MergeStoreAndSaveSchedule stakes
                     (votes, add_stakes_for_epoch epoch_cache
                        \<lparr>ev_vote_stakes = epoch_vote_stakes, ev_epoch = si_new_epoch init\<rparr>)
                     \<lparr>lg_schedule = leader_schedule,
                      lg_rpc_data = leader_schedule_data_of en leader_schedule next_epoch,
                      lg_epoch = next_epoch\<rparr> init))))"

fun schedule_event_rank :: "'h leader_schedule_event \<Rightarrow> nat" where
  "schedule_event_rank (ScheduleInit _) = 0"
| "schedule_event_rank (MergeStoreAndSaveSchedule _ _ _ _) = 1"

lemma process_leadershedule_rank:
  "process_leadershedule_event event ss vs = Inr (ss', vs', ScheduleNext event') \<Longrightarrow>
   schedule_event_rank event' < schedule_event_rank event"
proof (cases event)
  case (ScheduleInit init)
  assume p: "process_leadershedule_event event ss vs = Inr (ss', vs', ScheduleNext event')"
  obtain a b r where r: "takable_pair_take ss vs = Inr (a, b, r)"
    using takable_pair_take_total [of ss vs] by blast
  have False
  proof (cases r)
    case (Taken ns)
    with p r show ?thesis by (simp add: ScheduleInit process_leadershedule_event_def)
  next
    case (TakenMap c)
    with p r show ?thesis by (cases c) (simp add: ScheduleInit process_leadershedule_event_def)
  qed
  then show ?thesis ..
next
  case (MergeStoreAndSaveSchedule stakes content schedule_data init)
  assume "process_leadershedule_event event ss vs = Inr (ss', vs', ScheduleNext event')"
  then show ?thesis
    by (auto simp: MergeStoreAndSaveSchedule process_leadershedule_event_def Let_def
        split: prod.splits if_splits)
qed

function run_leader_schedule_events ::
    "'h leader_schedule_event \<Rightarrow> 'h schedule_task list \<Rightarrow> stake_store \<Rightarrow> vote_store \<Rightarrow>
     (stake_store \<times> vote_store \<times> 'h schedule_task list \<times> leader_schedule_generated_data option) outcome"
where
  "run_leader_schedule_events event tasks ss vs =
     (case process_leadershedule_event event ss vs of
        Inl p \<Rightarrow> Inl p
      | Inr (ss', vs', ScheduleTask t) \<Rightarrow> Inr (ss', vs', tasks @ [t], None)
      | Inr (ss', vs', ScheduleNext event') \<Rightarrow> run_leader_schedule_events event' tasks ss' vs'
      | Inr (ss', vs', ScheduleEnd schedule) \<Rightarrow> Inr (ss', vs', tasks, Some schedule))"
  by pat_completeness auto
termination
  by (relation "measure (\<lambda>(event, _, _, _). schedule_event_rank event)")
    (auto dest: process_leadershedule_rank)

declare run_leader_schedule_events.simps [simp del]

section \<open>The bootstrap\<close>

datatype bootstrap_event =
    InitBootstrap u64 string
  | BootstrapAccountsFetched "(pubkey \<times> account) list" "(pubkey \<times> account) list" account string
  | StoreExtracted stake_map vote_content "(pubkey \<times> account) list" "(pubkey \<times> account) list" account string
  | AccountsMerged stake_map vote_content string "string + calculated_schedule \<times> rpc_vote_account_status"
  | BootstrapExit

datatype bootstrap_task =
    StartBootstrap string
  | FetchAccounts u64 string
  | AwaitBootstrapStores "nat list" "(pubkey \<times> account) list" "(pubkey \<times> account) list" account string
  | MergeAccounts stake_map vote_content "(pubkey \<times> account) list" "(pubkey \<times> account) list" string u64 u64

datatype bootstrap_result =
    BootstrapTask bootstrap_task
  | BootstrapNext bootstrap_event
  | BootstrapError string
  | BootstrapEnd "string + calculated_schedule \<times> rpc_vote_account_status"

definition bootstrap_accounts ::
    "'h stake_env \<Rightarrow> string \<Rightarrow>
     string + (pubkey \<times> account) list \<times> (pubkey \<times> account) list \<times> account" where
  "bootstrap_accounts en rpc_url =
     (case en_get_stake_account en rpc_url of
        Inl e \<Rightarrow> Inl e
      | Inr stakes \<Rightarrow>
          (case en_get_vote_account en rpc_url of
             Inl e \<Rightarrow> Inl e
           | Inr votes \<Rightarrow>
               (case en_get_stakehistory_account en rpc_url of
                  Inl e \<Rightarrow> Inl e
                | Inr history \<Rightarrow> Inr (stakes, votes, history))))"

definition process_bootstrap_event ::
    "'h stake_env \<Rightarrow> bootstrap_event \<Rightarrow> stake_store \<Rightarrow> vote_store \<Rightarrow> u64 \<Rightarrow> u64 \<Rightarrow>
     (stake_store \<times> vote_store \<times> bootstrap_result) outcome" where
  "process_bootstrap_event en event ss vs slots_in_epoch current_epoch_of_loading =
     (case event of
        InitBootstrap sleep_time rpc_url \<Rightarrow> Inr (ss, vs, BootstrapTask (FetchAccounts sleep_time rpc_url))
      | BootstrapAccountsFetched stakes votes history rpc_url \<Rightarrow>
          bind_outcome (takable_pair_take ss vs) (\<lambda>(ss', vs', r).
            (case r of
               TakenMap (stake_map, content) \<Rightarrow>
                 Inr (ss', vs', BootstrapNext (StoreExtracted stake_map content stakes votes history rpc_url))
             | Taken notifs \<Rightarrow>
                 Inr (ss', vs', BootstrapTask (AwaitBootstrapStores notifs stakes votes history rpc_url))))
      | StoreExtracted stake_map content stakes votes history rpc_url \<Rightarrow>
          (case en_read_history en (ac_data history) of
             None \<Rightarrow> Inr (ss, vs,
               BootstrapError ''Bootstrap error, can't read stake blockstore from account data.'')
           | Some _ \<Rightarrow> Inr (ss, vs, BootstrapTask
               (MergeAccounts stake_map content stakes votes rpc_url current_epoch_of_loading slots_in_epoch)))
      | AccountsMerged stake_map content rpc_url leader_schedule_result \<Rightarrow>
          (let (ss', r1) = takable_merge process_stake_action ss stake_map;
               (vs', r2) = takable_merge vote_content_add vs content
           in Inr (ss', vs',
                (if r1 = Inr () \<and> r2 = Inr () then BootstrapEnd leader_schedule_result
                 else BootstrapNext (InitBootstrap 10 rpc_url))))
      | BootstrapExit \<Rightarrow> Inl (ExplicitPanic ''Bootstrap account can't be done exit''))"

definition run_bootstrap_task ::
    "'h stake_env \<Rightarrow> stake_files \<Rightarrow> bootstrap_task \<Rightarrow> bootstrap_event outcome" where
  "run_bootstrap_task en files task =
     (case task of
        StartBootstrap rpc_url \<Rightarrow> Inr (InitBootstrap 1 rpc_url)
      | FetchAccounts _ rpc_url \<Rightarrow>
          Inr (case bootstrap_accounts en rpc_url of
             Inr (stakes, votes, history) \<Rightarrow> BootstrapAccountsFetched stakes votes history rpc_url
           | Inl _ \<Rightarrow> BootstrapExit)
      | AwaitBootstrapStores _ stakes votes history rpc_url \<Rightarrow>
          Inr (BootstrapAccountsFetched stakes votes history rpc_url)
      | MergeAccounts stake_map (vote_map, epoch_cache) stakes votes rpc_url e slots_in_epoch \<Rightarrow>
          (let stake_map' = merge_program_account_in_strake_map (en_borsh en) stake_map stakes 0;
               vote_map' = merge_program_account_in_vote_map (en_vote_deserialize en) vote_map votes 0
           in bind_outcome (bootstrap_current_leader_schedule en files e slots_in_epoch) (\<lambda>r. Inr
                (case r of
                   Inr (leader_schedule, current_epoch_stakes, next_epoch_stakes) \<Rightarrow>
                     AccountsMerged stake_map'
                       (vote_map', add_stakes_for_epoch (add_stakes_for_epoch epoch_cache current_epoch_stakes)
                          next_epoch_stakes) rpc_url
                       (Inr (leader_schedule,
                          get_rpc_vote_account_info_from_current_epoch_stakes (en_to_str en) current_epoch_stakes))
                 | Inl err \<Rightarrow> AccountsMerged stake_map' (vote_map', epoch_cache) rpc_url (Inl err)))))"

fun bootstrap_event_rank :: "bootstrap_event \<Rightarrow> nat" where
  "bootstrap_event_rank (BootstrapAccountsFetched _ _ _ _) = 1"
| "bootstrap_event_rank (AccountsMerged _ _ _ _) = 1"
| "bootstrap_event_rank _ = 0"

lemma process_bootstrap_rank:
  assumes "process_bootstrap_event en event ss vs slots e = Inr (ss', vs', BootstrapNext event')"
  shows "bootstrap_event_rank event' < bootstrap_event_rank event"
proof (cases event)
  case (BootstrapAccountsFetched stakes votes history rpc_url)
  obtain a b r where r: "takable_pair_take ss vs = Inr (a, b, r)"
    using takable_pair_take_total [of ss vs] by blast
  show ?thesis
  proof (cases r)
    case (Taken ns)
    with assms r show ?thesis by (simp add: BootstrapAccountsFetched process_bootstrap_event_def)
  next
    case (TakenMap c)
    with assms r show ?thesis
      by (cases c) (auto simp: BootstrapAccountsFetched process_bootstrap_event_def)
  qed
qed (use assms in \<open>auto simp: process_bootstrap_event_def Let_def split: prod.splits if_splits option.splits\<close>)

text \<open>The result of the run, or the error it ends with.\<close>

function run_bootstrap_events ::
    "'h stake_env \<Rightarrow> bootstrap_event \<Rightarrow> bootstrap_task list \<Rightarrow> stake_store \<Rightarrow> vote_store \<Rightarrow> u64 \<Rightarrow> u64 \<Rightarrow>
     (stake_store \<times> vote_store \<times> bootstrap_task list \<times>
      (string + (string + calculated_schedule \<times> rpc_vote_account_status) option)) outcome" where
  "run_bootstrap_events en event tasks ss vs slots e =
     (case process_bootstrap_event en event ss vs slots e of
        Inl p \<Rightarrow> Inl p
      | Inr (ss', vs', BootstrapTask t) \<Rightarrow> Inr (ss', vs', tasks @ [t], Inr None)
      | Inr (ss', vs', BootstrapNext event') \<Rightarrow> run_bootstrap_events en event' tasks ss' vs' slots e
      | Inr (ss', vs', BootstrapError err) \<Rightarrow> Inr (ss', vs', tasks, Inl err)
      | Inr (ss', vs', BootstrapEnd r) \<Rightarrow> Inr (ss', vs', tasks, Inr (Some r)))"
  by pat_completeness auto
termination
  by (relation "measure (\<lambda>(_, event, _). bootstrap_event_rank event)")
    (auto dest: process_bootstrap_rank)

declare run_bootstrap_events.simps [simp del]

section \<open>The main loop\<close>

record 'h stake_loop =
  lp_running :: bool
  lp_stakestore :: stake_store
  lp_votestore :: vote_store
  lp_schedule_epoch :: "'h schedule_epoch_data"
  lp_schedule_tasks :: "'h schedule_task list"
  lp_bootstrap_tasks :: "bootstrap_task list"
  lp_rpc :: rpc_request_data
  lp_bootstrap_done :: bool
  lp_account_update_notification :: "nat option"
  lp_data_cache :: data_cache
  lp_files :: stake_files

definition stake_loop_new :: "'h stake_env \<Rightarrow> string \<Rightarrow> data_cache \<Rightarrow> stake_files \<Rightarrow> 'h stake_loop" where
  "stake_loop_new en rpc_url dc files =
     \<lparr>lp_running = True, lp_stakestore = stake_store_new 0, lp_votestore = vote_store_new 1,
      lp_schedule_epoch = bootstrap_schedule_epoch_data en dc, lp_schedule_tasks = [],
      lp_bootstrap_tasks = [StartBootstrap rpc_url], lp_rpc = rpc_request_data_new,
      lp_bootstrap_done = False, lp_account_update_notification = None, lp_data_cache = dc,
      lp_files = files\<rparr>"

definition loop_start_schedule ::
    "'h stake_loop \<Rightarrow> 'h leader_schedule_event \<Rightarrow>
     ('h stake_loop \<times> leader_schedule_generated_data option) outcome" where
  "loop_start_schedule lp event =
     bind_outcome (run_leader_schedule_events event (lp_schedule_tasks lp) (lp_stakestore lp) (lp_votestore lp))
       (\<lambda>(ss, vs, tasks, r).
          Inr (lp\<lparr>lp_stakestore := ss, lp_votestore := vs, lp_schedule_tasks := tasks\<rparr>, r))"

definition loop_slot :: "'h stake_loop \<Rightarrow> 'h stake_loop outcome" where
  "loop_slot lp =
     (let new_slot = get_current_confirmed_slot (lp_data_cache lp);
          (sd, schedule_event) = process_new_confirmed_slot (dc_epoch_data (lp_data_cache lp))
            (lp_schedule_epoch lp) new_slot;
          lp1 = lp\<lparr>lp_schedule_epoch := sd\<rparr>
      in case schedule_event of
           Some init \<Rightarrow>
             if lp_bootstrap_done lp1 then
               bind_outcome (loop_start_schedule lp1 (ScheduleInit init))
                 (\<lambda>(lp2, _). Inr (lp2\<lparr>lp_account_update_notification := Some 0\<rparr>))
             else Inr lp1
         | None \<Rightarrow> Inr lp1)"

text \<open>The answer of the vote store's part of the loop.\<close>

definition loop_vote ::
    "'h stake_env \<Rightarrow> 'h stake_loop \<Rightarrow> vote_event \<Rightarrow>
     ('h stake_loop \<times> (nat \<times> rpc_vote_account_status) list) outcome" where
  "loop_vote en lp event =
     bind_outcome (vote_event_step (en_to_str en) (en_vote_deserialize en)
         (lp_rpc lp, lp_votestore lp, None) event)
       (\<lambda>((rq, vs, _), answers). Inr (lp\<lparr>lp_rpc := rq, lp_votestore := vs\<rparr>, answers))"

definition loop_vote_request ::
    "'h stake_env \<Rightarrow> 'h stake_loop \<Rightarrow> get_vote_accounts_config \<Rightarrow> nat \<Rightarrow>
     ('h stake_loop \<times> (nat \<times> rpc_vote_account_status) list) outcome" where
  "loop_vote_request en lp config return_channel =
     (let c = unwrap_or (gv_commitment config) confirmed_config;
          sl = bn_slot (get_latest_block_information
                 (dc_block_information_store (lp_data_cache lp)) c);
          current_epoch = get_current_epoch (lp_data_cache lp) c
      in loop_vote en lp (VoteQuery sl (ep_epoch current_epoch) config return_channel))"

text \<open>A stake history message is a key and data; other messages of the stream are ignored.\<close>

definition loop_stake_history ::
    "'h stake_env \<Rightarrow> 'h stake_loop \<Rightarrow> u8 list \<Rightarrow> u8 list \<Rightarrow> 'h stake_loop outcome" where
  "loop_stake_history en lp account_pubkey account_bytes =
     (case en_pubkey_from en account_pubkey of
        None \<Rightarrow> Inl (ExplicitPanic ''valid pubkey'')
      | Some acc_id \<Rightarrow>
          if acc_id = en_stake_history_id en then
            (case en_read_history en account_bytes of
               None \<Rightarrow> Inr lp
             | Some stake_history \<Rightarrow>
                 (let (sd, schedule_event) = set_epoch_stake_history (lp_schedule_epoch lp) stake_history;
                      lp1 = lp\<lparr>lp_schedule_epoch := sd\<rparr>
                  in case schedule_event of
                       Some init \<Rightarrow>
                         if lp_bootstrap_done lp1
                         then bind_outcome (loop_start_schedule lp1 (ScheduleInit init)) (\<lambda>(lp2, _). Inr lp2)
                         else Inr lp1
                     | None \<Rightarrow> Inr lp1))
          else Inr lp)"

definition loop_account :: "'h stake_env \<Rightarrow> 'h stake_loop \<Rightarrow> geyser_account \<Rightarrow> 'h stake_loop outcome" where
  "loop_account en lp a =
     bind_outcome (new_from_geyser (en_pubkey_from en) (en_bs58 en) a) (\<lambda>r.
       (case r of
          None \<Rightarrow> Inr lp
        | Some account \<Rightarrow>
            (let end_slot = sd_last_slot_in_epoch (lp_schedule_epoch lp)
             in if gp_owner account = en_stake_program en then
                  Inr (lp\<lparr>lp_account_update_notification := map_option Suc (lp_account_update_notification lp),
                          lp_stakestore := fst (notify_stake_change (en_borsh en) (lp_stakestore lp) account end_slot)\<rparr>)
                else if gp_owner account = en_vote_program en then
                  Inr (lp\<lparr>lp_votestore :=
                    fst (notify_vote_change (en_vote_deserialize en) (lp_votestore lp) account end_slot)\<rparr>)
                else Inr lp)))"

text \<open>A task that panics ends without an event.\<close>

definition loop_bootstrap_task :: "'h stake_env \<Rightarrow> 'h stake_loop \<Rightarrow> nat \<Rightarrow> 'h stake_loop outcome" where
  "loop_bootstrap_task en lp i =
     (if i < length (lp_bootstrap_tasks lp) then
        (let tasks = remove_nth i (lp_bootstrap_tasks lp)
         in case run_bootstrap_task en (lp_files lp) (lp_bootstrap_tasks lp ! i) of
              Inl _ \<Rightarrow> Inr (lp\<lparr>lp_bootstrap_tasks := tasks\<rparr>)
            | Inr event \<Rightarrow>
                bind_outcome (run_bootstrap_events en event tasks (lp_stakestore lp) (lp_votestore lp)
                    (sd_slots_in_epoch (lp_schedule_epoch lp)) (sd_current_epoch (lp_schedule_epoch lp)))
                  (\<lambda>(ss, vs, tasks', r).
                    (let lp1 = lp\<lparr>lp_stakestore := ss, lp_votestore := vs, lp_bootstrap_tasks := tasks'\<rparr>
                     in Inr (case r of
                          Inr (Some boot_res) \<Rightarrow>
                            (let dc = (case boot_res of
                                   Inr (current_schedule_data, vote_stakes) \<Rightarrow>
                                     set_leader_schedule current_schedule_data
                                       (set_identity_stakes en vote_stakes (lp_data_cache lp1))
                                 | Inl _ \<Rightarrow> lp_data_cache lp1)
                             in lp1\<lparr>lp_data_cache := dc,
                                    lp_schedule_epoch := bootstrap_schedule_epoch_data en dc,
                                    lp_bootstrap_done := True\<rparr>)
                        | Inr None \<Rightarrow> lp1
                        | Inl _ \<Rightarrow> lp1))))
      else Inr lp)"

definition publish_schedule :: "leader_schedule_generated_data \<Rightarrow> data_cache \<Rightarrow> data_cache" where
  "publish_schedule new_leader_schedule dc =
     dc\<lparr>dc_leader_schedule := \<lparr>cs_current = cs_next (dc_leader_schedule dc),
                              cs_next = Some (lg_rpc_data new_leader_schedule)\<rparr>\<rparr>"

definition loop_schedule_task :: "'h stake_env \<Rightarrow> 'h stake_loop \<Rightarrow> nat \<Rightarrow> 'h stake_loop outcome" where
  "loop_schedule_task en lp i =
     (if i < length (lp_schedule_tasks lp) then
        (let (files, r) = run_schedule_task en (lp_files lp) (lp_schedule_tasks lp ! i);
             lp1 = lp\<lparr>lp_schedule_tasks := remove_nth i (lp_schedule_tasks lp), lp_files := files\<rparr>
         in case r of
              Inl _ \<Rightarrow> Inr lp1
            | Inr event \<Rightarrow>
                bind_outcome (loop_start_schedule lp1 event) (\<lambda>(lp2, schedule).
                  Inr (case schedule of
                         None \<Rightarrow> lp2
                       | Some new_leader_schedule \<Rightarrow>
                           lp2\<lparr>lp_data_cache := publish_schedule new_leader_schedule (lp_data_cache lp2)\<rparr>)))
      else Inr lp)"

text \<open>The branches of \<open>select!\<close>; \<open>BlocksChanged\<close> is the work of the other tasks on the data cache.\<close>

datatype loop_event =
    LoopSlot
  | LoopCountTimer
  | LoopVoteRequest get_vote_accounts_config nat
  | LoopExecDone nat
  | LoopNotifyDone nat
  | LoopStakeHistory "u8 list" "u8 list"
  | LoopAccount geyser_account
  | LoopBootstrapTask nat
  | LoopScheduleTask nat
  | LoopStreamClosed
  | BlocksChanged block_information_store

definition no_answers :: "'h stake_loop outcome \<Rightarrow> ('h stake_loop \<times> (nat \<times> rpc_vote_account_status) list) outcome"
where
  "no_answers r = bind_outcome r (\<lambda>lp. Inr (lp, []))"

fun loop_step ::
    "'h stake_env \<Rightarrow> 'h stake_loop \<Rightarrow> loop_event \<Rightarrow>
     ('h stake_loop \<times> (nat \<times> rpc_vote_account_status) list) outcome" where
  "loop_step en lp LoopSlot = no_answers (loop_slot lp)"
| "loop_step en lp LoopCountTimer = Inr (lp\<lparr>lp_account_update_notification := None\<rparr>, [])"
| "loop_step en lp (LoopVoteRequest config channel) = loop_vote_request en lp config channel"
| "loop_step en lp (LoopExecDone i) = loop_vote en lp (ExecDone i)"
| "loop_step en lp (LoopNotifyDone i) = loop_vote en lp (NotifyDone i)"
| "loop_step en lp (LoopStakeHistory pk bytes) = no_answers (loop_stake_history en lp pk bytes)"
| "loop_step en lp (LoopAccount a) = no_answers (loop_account en lp a)"
| "loop_step en lp (LoopBootstrapTask i) = no_answers (loop_bootstrap_task en lp i)"
| "loop_step en lp (LoopScheduleTask i) = no_answers (loop_schedule_task en lp i)"
| "loop_step en lp LoopStreamClosed = Inr (lp\<lparr>lp_running := False\<rparr>, [])"
| "loop_step en lp (BlocksChanged blocks) =
     Inr (lp\<lparr>lp_data_cache := (lp_data_cache lp)\<lparr>dc_block_information_store := blocks\<rparr>\<rparr>, [])"

fun loop_run ::
    "'h stake_env \<Rightarrow> 'h stake_loop \<Rightarrow> loop_event list \<Rightarrow>
     ('h stake_loop \<times> (nat \<times> rpc_vote_account_status) list) outcome" where
  "loop_run en lp [] = Inr (lp, [])"
| "loop_run en lp (e # es) =
     (if lp_running lp then
        bind_outcome (loop_step en lp e) (\<lambda>(lp1, answers).
          bind_outcome (loop_run en lp1 es) (\<lambda>(lp2, answers'). Inr (lp2, answers @ answers')))
      else Inr (lp, []))"

end
