(* ===== verification/Stake_Safety.thy ===== *)
theory Stake_Safety
  imports Stake_Loop
begin

text \<open>
  Safety of the main loop of \<open>stake_vote\<close>: who holds the content of the two stores.  The content is
  in a store, with a task that computes on it, or, after an error that drops it, nowhere.
\<close>

section \<open>Counting the owners\<close>

definition content_count :: "('n, 't, 'c) takable_map \<Rightarrow> nat" where
  "content_count t = (if tm_content t = None then 0 else 1)"

fun calculates :: "'h schedule_task \<Rightarrow> bool" where
  "calculates (CalculateSchedule _ _ _) = True"
| "calculates (AwaitStores _ _) = False"

fun merges :: "bootstrap_task \<Rightarrow> bool" where
  "merges (MergeAccounts _ _ _ _ _ _ _) = True"
| "merges _ = False"

definition calc_tasks :: "'h schedule_task list \<Rightarrow> nat" where
  "calc_tasks tasks = length (filter calculates tasks)"

definition merge_tasks :: "bootstrap_task list \<Rightarrow> nat" where
  "merge_tasks tasks = length (filter merges tasks)"

fun schedule_event_holds :: "'h leader_schedule_event \<Rightarrow> nat" where
  "schedule_event_holds (MergeStoreAndSaveSchedule _ _ _ _) = 1"
| "schedule_event_holds (ScheduleInit _) = 0"

fun bootstrap_event_holds :: "bootstrap_event \<Rightarrow> nat" where
  "bootstrap_event_holds (StoreExtracted _ _ _ _ _ _) = 1"
| "bootstrap_event_holds (AccountsMerged _ _ _ _) = 1"
| "bootstrap_event_holds _ = 0"

definition stake_owners :: "'h stake_loop \<Rightarrow> nat" where
  "stake_owners lp = content_count (lp_stakestore lp) + calc_tasks (lp_schedule_tasks lp) +
     merge_tasks (lp_bootstrap_tasks lp)"

definition vote_store_owners :: "'h stake_loop \<Rightarrow> nat" where
  "vote_store_owners lp = content_count (lp_votestore lp) + calc_tasks (lp_schedule_tasks lp) +
     merge_tasks (lp_bootstrap_tasks lp) + length (rq_exec_task (lp_rpc lp))"

lemma calc_tasks_simps [simp]:
  "calc_tasks [] = 0" "calc_tasks (t # ts) = (if calculates t then 1 else 0) + calc_tasks ts"
  "calc_tasks (ts @ us) = calc_tasks ts + calc_tasks us"
  by (simp_all add: calc_tasks_def)

lemma merge_tasks_simps [simp]:
  "merge_tasks [] = 0" "merge_tasks (t # ts) = (if merges t then 1 else 0) + merge_tasks ts"
  "merge_tasks (ts @ us) = merge_tasks ts + merge_tasks us"
  by (simp_all add: merge_tasks_def)

lemma calc_tasks_remove_nth:
  "i < length ts \<Longrightarrow> calc_tasks (remove_nth i ts) + (if calculates (ts ! i) then 1 else 0) = calc_tasks ts"
  using id_take_nth_drop [of i ts] calc_tasks_simps(3) [of "take i ts" "ts ! i # drop (Suc i) ts"]
  by (simp add: remove_nth_def)

lemma merge_tasks_remove_nth:
  "i < length ts \<Longrightarrow> merge_tasks (remove_nth i ts) + (if merges (ts ! i) then 1 else 0) = merge_tasks ts"
  using id_take_nth_drop [of i ts] merge_tasks_simps(3) [of "take i ts" "ts ! i # drop (Suc i) ts"]
  by (simp add: remove_nth_def)

lemma content_count_simps [simp]:
  "content_count (t\<lparr>tm_content := None\<rparr>) = 0"
  "content_count (takable_add_value add t v force) = content_count t"
  "content_count (fst (takable_merge add t c)) = 1"
  using merge_content [of add t c] by (simp_all add: content_count_def add_value_content)

lemma content_count_notify [simp]:
  "content_count (fst (notify_stake_change borsh st a end_slot)) = content_count st"
  "content_count (fst (notify_vote_change deserialize vs a end_slot)) = content_count vs"
  by (auto simp: notify_stake_change_def notify_vote_change_def Let_def split: sum.split option.split)

lemma takable_merge_ok:
  assumes "tm_content t = None"
  shows "takable_merge add t c =
    (t\<lparr>tm_content := Some (foldl add c (tm_updates t)), tm_updates := []\<rparr>, Inr ())"
  using assms by (simp add: takable_merge_def)

section \<open>The runs of events\<close>

lemma run_schedule_init:
  "\<exists>ss' vs' t. run_leader_schedule_events (ScheduleInit init) tasks ss vs = Inr (ss', vs', tasks @ [t], None) \<and>
    content_count ss' + (if calculates t then 1 else 0) = content_count ss \<and>
    content_count vs' + (if calculates t then 1 else 0) = content_count vs"
proof -
  obtain ss' vs' r where r: "takable_pair_take ss vs = Inr (ss', vs', r)"
    and c: "r = TakenMap (the (tm_content ss), the (tm_content vs)) \<and>
        tm_content ss \<noteq> None \<and> tm_content vs \<noteq> None \<and>
        ss' = ss\<lparr>tm_content := None\<rparr> \<and> vs' = vs\<lparr>tm_content := None\<rparr> \<or>
      (\<exists>ns. r = Taken ns \<and> ns \<noteq> []) \<and> (tm_content ss = None \<or> tm_content vs = None) \<and> ss' = ss \<and> vs' = vs"
    using takable_pair_take_total [of ss vs] by blast
  from c show ?thesis
  proof
    assume "r = TakenMap (the (tm_content ss), the (tm_content vs)) \<and>
        tm_content ss \<noteq> None \<and> tm_content vs \<noteq> None \<and>
        ss' = ss\<lparr>tm_content := None\<rparr> \<and> vs' = vs\<lparr>tm_content := None\<rparr>"
    with r show ?thesis
      by (simp add: run_leader_schedule_events.simps process_leadershedule_event_def content_count_def)
  next
    assume "(\<exists>ns. r = Taken ns \<and> ns \<noteq> []) \<and> (tm_content ss = None \<or> tm_content vs = None) \<and> ss' = ss \<and> vs' = vs"
    then obtain ns where "r = Taken ns" "ss' = ss" "vs' = vs" by blast
    with r show ?thesis
      by (intro exI [of _ ss] exI [of _ vs] exI [of _ "AwaitStores ns init"])
        (simp add: run_leader_schedule_events.simps process_leadershedule_event_def)
  qed
qed

lemma run_schedule_merge:
  assumes "tm_content ss = None" and "tm_content vs = None"
  shows "run_leader_schedule_events (MergeStoreAndSaveSchedule stakes content sd init) tasks ss vs =
    Inr (fst (takable_merge process_stake_action ss stakes), fst (takable_merge vote_content_add vs content),
      tasks, Some sd)"
  using assms
  by (simp add: run_leader_schedule_events.simps process_leadershedule_event_def takable_merge_ok)

lemma run_schedule_counts:
  assumes "run_leader_schedule_events event tasks ss vs = Inr (ss', vs', tasks', r)"
    and "content_count ss + schedule_event_holds event \<le> 1" and "content_count vs + schedule_event_holds event \<le> 1"
  shows "content_count ss' + calc_tasks tasks' = content_count ss + calc_tasks tasks + schedule_event_holds event \<and>
    content_count vs' + calc_tasks tasks' = content_count vs + calc_tasks tasks + schedule_event_holds event"
proof (cases event)
  case (ScheduleInit init)
  obtain ss1 vs1 t where "run_leader_schedule_events event tasks ss vs = Inr (ss1, vs1, tasks @ [t], None)"
      "content_count ss1 + (if calculates t then 1 else 0) = content_count ss"
      "content_count vs1 + (if calculates t then 1 else 0) = content_count vs"
    using run_schedule_init unfolding ScheduleInit by blast
  with assms(1) show ?thesis by (simp add: ScheduleInit split: if_splits)
next
  case (MergeStoreAndSaveSchedule stakes content sd init)
  with assms(2,3) have none: "tm_content ss = None" "tm_content vs = None"
    by (simp_all add: content_count_def split: if_splits)
  have "content_count ss = 0" "content_count vs = 0" by (simp_all add: content_count_def none)
  with assms(1) show ?thesis
    by (auto simp: MergeStoreAndSaveSchedule run_schedule_merge [OF none])
qed

lemma run_bootstrap_counts:
  assumes "run_bootstrap_events en event tasks ss vs slots e = Inr (ss', vs', tasks', r)"
    and "content_count ss + bootstrap_event_holds event \<le> 1" and "content_count vs + bootstrap_event_holds event \<le> 1"
  shows "content_count ss' + merge_tasks tasks' \<le> content_count ss + merge_tasks tasks + bootstrap_event_holds event \<and>
    content_count vs' + merge_tasks tasks' \<le> content_count vs + merge_tasks tasks + bootstrap_event_holds event"
  using assms
proof (induction en event tasks ss vs slots e rule: run_bootstrap_events.induct)
  case (1 en event tasks ss vs slots e)
  note run = "1.prems"(1) [unfolded run_bootstrap_events.simps [of en event]]
  show ?case
  proof (cases event)
    case (InitBootstrap sleep url)
    with run show ?thesis by (auto simp: process_bootstrap_event_def)
  next
    case BootstrapExit
    with run show ?thesis by (simp add: process_bootstrap_event_def)
  next
    case (StoreExtracted stake_map content stakes votes history url)
    with run show ?thesis by (auto simp: process_bootstrap_event_def split: option.splits)
  next
    case (AccountsMerged stake_map content url result)
    with "1.prems"(2,3) have none: "tm_content ss = None" "tm_content vs = None"
      by (simp_all add: content_count_def split: if_splits)
    with run show ?thesis
      by (auto simp: AccountsMerged process_bootstrap_event_def takable_merge_ok content_count_def)
  next
    case (BootstrapAccountsFetched stakes votes history url)
    obtain ss1 vs1 t where t: "takable_pair_take ss vs = Inr (ss1, vs1, t)"
      and c: "t = TakenMap (the (tm_content ss), the (tm_content vs)) \<and>
          tm_content ss \<noteq> None \<and> tm_content vs \<noteq> None \<and>
          ss1 = ss\<lparr>tm_content := None\<rparr> \<and> vs1 = vs\<lparr>tm_content := None\<rparr> \<or>
        (\<exists>ns. t = Taken ns \<and> ns \<noteq> []) \<and> (tm_content ss = None \<or> tm_content vs = None) \<and> ss1 = ss \<and> vs1 = vs"
      using takable_pair_take_total [of ss vs] by blast
    from c show ?thesis
    proof
      assume m: "t = TakenMap (the (tm_content ss), the (tm_content vs)) \<and>
          tm_content ss \<noteq> None \<and> tm_content vs \<noteq> None \<and>
          ss1 = ss\<lparr>tm_content := None\<rparr> \<and> vs1 = vs\<lparr>tm_content := None\<rparr>"
      let ?ev = "StoreExtracted (the (tm_content ss)) (the (tm_content vs)) stakes votes history url"
      have p: "process_bootstrap_event en event ss vs slots e = Inr (ss1, vs1, BootstrapNext ?ev)"
        using t m by (simp add: BootstrapAccountsFetched process_bootstrap_event_def)
      have one: "content_count ss = 1" "content_count vs = 1" "content_count ss1 = 0" "content_count vs1 = 0"
        using m by (simp_all add: content_count_def)
      have next_run: "run_bootstrap_events en ?ev tasks ss1 vs1 slots e = Inr (ss', vs', tasks', r)"
        using run by (simp add: p)
      show ?thesis
        using "1.IH" [OF p refl refl refl next_run] one by (simp add: BootstrapAccountsFetched)
    next
      assume "(\<exists>ns. t = Taken ns \<and> ns \<noteq> []) \<and> (tm_content ss = None \<or> tm_content vs = None) \<and> ss1 = ss \<and> vs1 = vs"
      with run t show ?thesis by (auto simp: BootstrapAccountsFetched process_bootstrap_event_def)
    qed
  qed
qed

lemma run_schedule_task_holds:
  "run_schedule_task en files task = (files', Inr event) \<Longrightarrow>
   schedule_event_holds event = (if calculates task then 1 else 0)"
  by (cases task) (auto simp: run_schedule_task_def Let_def split: sum.splits prod.splits)

lemma run_bootstrap_task_holds:
  "run_bootstrap_task en files task = Inr event \<Longrightarrow>
   bootstrap_event_holds event \<le> (if merges task then 1 else 0)"
proof (cases task)
  case (MergeAccounts stake_map content stakes votes url e slots)
  assume run: "run_bootstrap_task en files task = Inr event"
  obtain vote_map cache where c: "content = (vote_map, cache)" by (cases content)
  show ?thesis
  proof (cases "bootstrap_current_leader_schedule en files e slots")
    case (Inl p)
    with run show ?thesis by (simp add: MergeAccounts c run_bootstrap_task_def Let_def)
  next
    case (Inr r)
    with run show ?thesis
      by (cases r; cases "snd (projr r)") (auto simp: MergeAccounts c run_bootstrap_task_def Let_def split: prod.splits)
  qed
qed (auto simp: run_bootstrap_task_def split: sum.splits)

lemma vote_step_counts:
  assumes "vote_event_step to_str deserialize (rq, st, None) e = Inr ((rq', st', held), answers)"
    and "content_count st + length (rq_exec_task rq) \<le> 1" and "rq_pending_rpc_request rq \<noteq> Some []"
    and "(\<exists>sl ep config ch. e = VoteQuery sl ep config ch) \<or> (\<exists>i. e = ExecDone i) \<or> (\<exists>i. e = NotifyDone i)"
  shows "content_count st' + length (rq_exec_task rq') = content_count st + length (rq_exec_task rq) \<and>
    rq_pending_rpc_request rq' \<noteq> Some [] \<and> (answers \<noteq> [] \<longrightarrow> rq_exec_task rq \<noteq> [])"
  using assms(4)
proof (elim disjE exE)
  fix sl ep config ch assume "e = VoteQuery sl ep config ch"
  with assms(1,3) show ?thesis
    by (cases "tm_content st"; cases "rq_pending_rpc_request rq")
      (auto simp: process_get_vote_accounts_def take_and_process_cases content_count_def)
next
  fix i assume e: "e = NotifyDone i"
  with assms(1,3) show ?thesis
    by (cases "tm_content st")
      (auto simp: take_and_process_cases content_count_def Let_def split: if_splits)
next
  fix i assume e: "e = ExecDone i"
  show ?thesis
  proof (cases "i < length (rq_exec_task rq)")
    case True
    with assms(2) have len: "length (rq_exec_task rq) = 1" and c: "content_count st = 0" by auto
    then obtain votes cache status where r: "rq_exec_task rq = [(votes, cache, status)]"
      by (cases "rq_exec_task rq") (auto simp: prod_eq_iff)
    have ne: "rq_pending_rpc_request (rq\<lparr>rq_exec_task := []\<rparr>) \<noteq> Some []" using assms(3) by simp
    have i: "i = 0" using True by (simp add: r)
    show ?thesis
      using assms(1) c by (auto simp: e i r remove_nth_def notify_end_ok [OF ne])
  next
    case False
    with assms(1,3) show ?thesis by (simp add: e)
  qed
qed

section \<open>The owners in the loop\<close>

definition owners_ok :: "'h stake_loop \<Rightarrow> bool" where
  "owners_ok lp \<longleftrightarrow> stake_owners lp \<le> 1 \<and> vote_store_owners lp \<le> 1 \<and>
     rq_pending_rpc_request (lp_rpc lp) \<noteq> Some []"

definition owners_kept :: "'h stake_loop \<Rightarrow> 'h stake_loop \<Rightarrow> bool" where
  "owners_kept lp lp' \<longleftrightarrow> stake_owners lp' \<le> stake_owners lp \<and>
     vote_store_owners lp' \<le> vote_store_owners lp \<and> rq_pending_rpc_request (lp_rpc lp') \<noteq> Some []"

lemmas owner_defs = stake_owners_def vote_store_owners_def

lemma loop_start_schedule_counts:
  assumes "loop_start_schedule lp event = Inr (lp', r)"
    and "stake_owners lp + schedule_event_holds event \<le> 1"
    and "vote_store_owners lp + schedule_event_holds event \<le> 1"
  shows "stake_owners lp' = stake_owners lp + schedule_event_holds event \<and>
    vote_store_owners lp' = vote_store_owners lp + schedule_event_holds event \<and> lp_rpc lp' = lp_rpc lp"
proof -
  obtain ss vs tasks where run: "run_leader_schedule_events event (lp_schedule_tasks lp) (lp_stakestore lp)
      (lp_votestore lp) = Inr (ss, vs, tasks, r)"
    and lp': "lp' = lp\<lparr>lp_stakestore := ss, lp_votestore := vs, lp_schedule_tasks := tasks\<rparr>"
    using assms(1) by (auto simp: loop_start_schedule_def split: prod.splits)
  have "content_count (lp_stakestore lp) + schedule_event_holds event \<le> 1"
    "content_count (lp_votestore lp) + schedule_event_holds event \<le> 1"
    using assms(2,3) by (simp_all add: owner_defs)
  from run_schedule_counts [OF run this] show ?thesis by (simp add: lp' owner_defs)
qed

lemma loop_slot_owners:
  assumes "owners_ok lp" and "loop_slot lp = Inr lp'"
  shows "owners_kept lp lp'"
proof -
  obtain sd ev where p: "process_new_confirmed_slot (dc_epoch_data (lp_data_cache lp)) (lp_schedule_epoch lp)
      (get_current_confirmed_slot (lp_data_cache lp)) = (sd, ev)" by fastforce
  let ?lp1 = "lp\<lparr>lp_schedule_epoch := sd\<rparr>"
  have eq: "stake_owners ?lp1 = stake_owners lp" "vote_store_owners ?lp1 = vote_store_owners lp"
    by (simp_all add: owner_defs)
  show ?thesis
  proof (cases "\<exists>init. ev = Some init \<and> lp_bootstrap_done lp")
    case True
    then obtain init where i: "ev = Some init" "lp_bootstrap_done lp" by blast
    obtain lp2 r where s: "loop_start_schedule ?lp1 (ScheduleInit init) = Inr (lp2, r)"
      and lp': "lp' = lp2\<lparr>lp_account_update_notification := Some 0\<rparr>"
      using assms(2) by (auto simp: loop_slot_def p i Let_def)
    have o1: "stake_owners lp' = stake_owners lp2" "vote_store_owners lp' = vote_store_owners lp2"
      by (simp_all add: lp' owner_defs)
    show ?thesis
      using loop_start_schedule_counts [OF s] assms(1)
      by (simp add: eq o1 owners_ok_def owners_kept_def) (simp add: lp')
  next
    case False
    then have "lp' = ?lp1" using assms(2) by (auto simp: loop_slot_def p Let_def split: option.splits)
    then show ?thesis using assms(1) by (simp add: eq owners_ok_def owners_kept_def)
  qed
qed

lemma loop_stake_history_owners:
  assumes "owners_ok lp" and "loop_stake_history en lp pk bytes = Inr lp'"
  shows "owners_kept lp lp'"
proof (cases "\<exists>history. en_pubkey_from en pk = Some (en_stake_history_id en) \<and> en_read_history en bytes = Some history")
  case True
  then obtain history where h: "en_pubkey_from en pk = Some (en_stake_history_id en)"
      "en_read_history en bytes = Some history" by blast
  obtain sd ev where p: "set_epoch_stake_history (lp_schedule_epoch lp) history = (sd, ev)" by fastforce
  let ?lp1 = "lp\<lparr>lp_schedule_epoch := sd\<rparr>"
  have eq: "stake_owners ?lp1 = stake_owners lp" "vote_store_owners ?lp1 = vote_store_owners lp"
    by (simp_all add: owner_defs)
  show ?thesis
  proof (cases "\<exists>init. ev = Some init \<and> lp_bootstrap_done lp")
    case True
    then obtain init r where s: "loop_start_schedule ?lp1 (ScheduleInit init) = Inr (lp', r)"
      using assms(2) by (auto simp: loop_stake_history_def h p Let_def)
    show ?thesis
      using loop_start_schedule_counts [OF s] assms(1) by (simp add: eq owners_ok_def owners_kept_def)
  next
    case False
    then have "lp' = ?lp1"
      using assms(2) by (auto simp: loop_stake_history_def h p Let_def split: option.splits)
    then show ?thesis using assms(1) by (simp add: eq owners_ok_def owners_kept_def)
  qed
next
  case False
  then have "lp' = lp" using assms(2) by (auto simp: loop_stake_history_def split: option.splits if_splits)
  then show ?thesis using assms(1) by (simp add: owners_ok_def owners_kept_def)
qed

lemma loop_account_owners:
  assumes "owners_ok lp" and "loop_account en lp a = Inr lp'"
  shows "owners_kept lp lp'"
proof -
  obtain r where r: "new_from_geyser (en_pubkey_from en) (en_bs58 en) a = Inr r"
    using assms(2) by (auto simp: loop_account_def)
  show ?thesis
    using assms
    by (cases r) (auto simp: loop_account_def r Let_def owners_ok_def owners_kept_def owner_defs split: if_splits)
qed

lemma loop_vote_owners:
  assumes "owners_ok lp" and "loop_vote en lp e = Inr (lp', answers)"
    and "(\<exists>sl ep config ch. e = VoteQuery sl ep config ch) \<or> (\<exists>i. e = ExecDone i) \<or> (\<exists>i. e = NotifyDone i)"
  shows "owners_kept lp lp' \<and> (answers \<noteq> [] \<longrightarrow> rq_exec_task (lp_rpc lp) \<noteq> [])"
proof -
  obtain rq vs held where v: "vote_event_step (en_to_str en) (en_vote_deserialize en)
      (lp_rpc lp, lp_votestore lp, None) e = Inr ((rq, vs, held), answers)"
    and lp': "lp' = lp\<lparr>lp_rpc := rq, lp_votestore := vs\<rparr>"
    using assms(2) by (auto simp: loop_vote_def split: prod.splits)
  have ok: "content_count (lp_votestore lp) + length (rq_exec_task (lp_rpc lp)) \<le> 1"
    "rq_pending_rpc_request (lp_rpc lp) \<noteq> Some []"
    using assms(1) by (simp_all add: owners_ok_def owner_defs)
  show ?thesis
    using vote_step_counts [OF v ok assms(3)] by (auto simp: lp' owners_kept_def owner_defs)
qed

lemma loop_bootstrap_task_owners:
  assumes "owners_ok lp" and "loop_bootstrap_task en lp i = Inr lp'"
  shows "owners_kept lp lp'"
proof (cases "i < length (lp_bootstrap_tasks lp)")
  case True
  let ?task = "lp_bootstrap_tasks lp ! i"
  let ?tasks = "remove_nth i (lp_bootstrap_tasks lp)"
  note rm = merge_tasks_remove_nth [OF True]
  show ?thesis
  proof (cases "run_bootstrap_task en (lp_files lp) ?task")
    case (Inl p)
    with True assms(2) have "lp' = lp\<lparr>lp_bootstrap_tasks := ?tasks\<rparr>"
      by (simp add: loop_bootstrap_task_def Let_def)
    with rm assms(1) show ?thesis by (simp add: owners_ok_def owners_kept_def owner_defs)
  next
    case (Inr event)
    obtain ss vs tasks r where run: "run_bootstrap_events en event ?tasks (lp_stakestore lp) (lp_votestore lp)
        (sd_slots_in_epoch (lp_schedule_epoch lp)) (sd_current_epoch (lp_schedule_epoch lp)) =
        Inr (ss, vs, tasks, r)"
      using assms(2) True Inr
      by (cases "run_bootstrap_events en event ?tasks (lp_stakestore lp) (lp_votestore lp)
          (sd_slots_in_epoch (lp_schedule_epoch lp)) (sd_current_epoch (lp_schedule_epoch lp))")
        (auto simp: loop_bootstrap_task_def Let_def simp del: bind_outcome_Inr)
    have fields: "lp_stakestore lp' = ss" "lp_votestore lp' = vs" "lp_bootstrap_tasks lp' = tasks"
        "lp_schedule_tasks lp' = lp_schedule_tasks lp" "lp_rpc lp' = lp_rpc lp"
      using assms(2) by (auto simp: loop_bootstrap_task_def Let_def True Inr run split: sum.splits option.splits)
    note holds = run_bootstrap_task_holds [OF Inr]
    have "content_count (lp_stakestore lp) + bootstrap_event_holds event \<le> 1"
      "content_count (lp_votestore lp) + bootstrap_event_holds event \<le> 1"
      using assms(1) rm holds by (simp_all add: owners_ok_def owner_defs split: if_splits)
    from run_bootstrap_counts [OF run this] show ?thesis
      using rm holds assms(1)
      by (auto simp: owners_ok_def owners_kept_def owner_defs fields split: if_splits)
  qed
next
  case False
  with assms show ?thesis by (auto simp: loop_bootstrap_task_def owners_ok_def owners_kept_def)
qed

lemma loop_schedule_task_owners:
  assumes "owners_ok lp" and "loop_schedule_task en lp i = Inr lp'"
  shows "owners_kept lp lp'"
proof (cases "i < length (lp_schedule_tasks lp)")
  case True
  let ?task = "lp_schedule_tasks lp ! i"
  note rm = calc_tasks_remove_nth [OF True]
  obtain files r where f: "run_schedule_task en (lp_files lp) ?task = (files, r)" by fastforce
  let ?lp1 = "lp\<lparr>lp_schedule_tasks := remove_nth i (lp_schedule_tasks lp), lp_files := files\<rparr>"
  have eq: "stake_owners ?lp1 + (if calculates ?task then 1 else 0) = stake_owners lp"
    "vote_store_owners ?lp1 + (if calculates ?task then 1 else 0) = vote_store_owners lp"
    using rm by (simp_all add: owner_defs)
  show ?thesis
  proof (cases r)
    case (Inl p)
    with True assms(2) f have "lp' = ?lp1" by (simp add: loop_schedule_task_def Let_def)
    with eq assms(1) show ?thesis by (simp add: owners_ok_def owners_kept_def)
  next
    case (Inr event)
    obtain lp2 s where s: "loop_start_schedule ?lp1 event = Inr (lp2, s)"
      and same: "stake_owners lp' = stake_owners lp2" "vote_store_owners lp' = vote_store_owners lp2"
        "lp_rpc lp' = lp_rpc lp2"
      using assms(2) True f Inr
      by (auto simp: loop_schedule_task_def Let_def owner_defs split: option.splits)
    have holds: "schedule_event_holds event = (if calculates ?task then 1 else 0)"
      using run_schedule_task_holds f Inr by blast
    have "stake_owners ?lp1 + schedule_event_holds event \<le> 1"
      "vote_store_owners ?lp1 + schedule_event_holds event \<le> 1"
      using eq holds assms(1) by (simp_all add: owners_ok_def)
    from loop_start_schedule_counts [OF s this] show ?thesis
      using eq holds assms(1) by (simp add: owners_ok_def owners_kept_def same)
  qed
next
  case False
  with assms show ?thesis by (auto simp: loop_schedule_task_def owners_ok_def owners_kept_def)
qed

lemma loop_step_owners:
  assumes "owners_ok lp" and "loop_step en lp e = Inr (lp', answers)"
  shows "owners_kept lp lp' \<and> (answers \<noteq> [] \<longrightarrow> rq_exec_task (lp_rpc lp) \<noteq> [])"
proof (cases e)
  case (LoopVoteRequest config channel)
  then obtain ev where "loop_vote en lp ev = Inr (lp', answers)"
      "\<exists>sl ep config ch. ev = VoteQuery sl ep config ch"
    using assms(2) by (auto simp: loop_vote_request_def Let_def)
  then show ?thesis using loop_vote_owners [OF assms(1)] by blast
next
  case (LoopExecDone i)
  with assms(2) show ?thesis using loop_vote_owners [OF assms(1)] by auto
next
  case (LoopNotifyDone i)
  with assms(2) show ?thesis using loop_vote_owners [OF assms(1)] by auto
next
  case LoopCountTimer
  with assms show ?thesis by (auto simp: owners_kept_def owners_ok_def owner_defs)
next
  case LoopStreamClosed
  with assms show ?thesis by (auto simp: owners_kept_def owners_ok_def owner_defs)
next
  case (BlocksChanged blocks)
  with assms show ?thesis by (auto simp: owners_kept_def owners_ok_def owner_defs)
next
  case LoopSlot
  with assms(2) show ?thesis using loop_slot_owners [OF assms(1)] by (auto simp: no_answers_def)
next
  case (LoopStakeHistory pk bytes)
  with assms(2) show ?thesis using loop_stake_history_owners [OF assms(1)] by (auto simp: no_answers_def)
next
  case (LoopAccount a)
  with assms(2) show ?thesis using loop_account_owners [OF assms(1)] by (auto simp: no_answers_def)
next
  case (LoopBootstrapTask i)
  with assms(2) show ?thesis using loop_bootstrap_task_owners [OF assms(1)] by (auto simp: no_answers_def)
next
  case (LoopScheduleTask i)
  with assms(2) show ?thesis using loop_schedule_task_owners [OF assms(1)] by (auto simp: no_answers_def)
qed

lemma owners_kept_ok: "owners_ok lp \<Longrightarrow> owners_kept lp lp' \<Longrightarrow> owners_ok lp'"
  by (simp add: owners_ok_def owners_kept_def)

lemma loop_run_owners:
  "owners_ok lp \<Longrightarrow> loop_run en lp es = Inr (lp', answers) \<Longrightarrow>
   owners_kept lp lp' \<and> (vote_store_owners lp = 0 \<longrightarrow> answers = [])"
proof (induction es arbitrary: lp answers)
  case (Cons e es)
  show ?case
  proof (cases "lp_running lp")
    case True
    then obtain lp1 a1 a2 where s: "loop_step en lp e = Inr (lp1, a1)" "loop_run en lp1 es = Inr (lp', a2)"
        "answers = a1 @ a2"
      using Cons.prems(2) by auto
    have k: "owners_kept lp lp1" "a1 \<noteq> [] \<longrightarrow> rq_exec_task (lp_rpc lp) \<noteq> []"
      using loop_step_owners [OF Cons.prems(1) s(1)] by simp_all
    with Cons.IH [OF owners_kept_ok [OF Cons.prems(1) k(1)] s(2)] show ?thesis
      by (auto simp: owners_kept_def s(3)) (simp add: vote_store_owners_def)
  next
    case False
    with Cons.prems show ?thesis by (auto simp: owners_kept_def owners_ok_def)
  qed
qed (auto simp: owners_kept_def owners_ok_def)

lemma owners_ok_new: "owners_ok (stake_loop_new en rpc_url dc files)"
  by (simp add: owners_ok_def owner_defs stake_loop_new_def rpc_request_data_new_def content_count_def)

lemmas loop_reachable_owners = loop_run_owners [OF owners_ok_new]

section \<open>A finished computation\<close>

lemma calc_task_owner:
  assumes "owners_ok lp" and "i < length (lp_schedule_tasks lp)" and "calculates (lp_schedule_tasks lp ! i)"
  shows "tm_content (lp_stakestore lp) = None \<and> tm_content (lp_votestore lp) = None \<and>
    rq_exec_task (lp_rpc lp) = []"
proof -
  have "1 \<le> calc_tasks (lp_schedule_tasks lp)" using calc_tasks_remove_nth [OF assms(2)] assms(3) by simp
  moreover have "stake_owners lp \<le> 1" "vote_store_owners lp \<le> 1" using assms(1) by (simp_all add: owners_ok_def)
  ultimately have "content_count (lp_stakestore lp) = 0" "content_count (lp_votestore lp) = 0"
    "length (rq_exec_task (lp_rpc lp)) = 0"
    unfolding owner_defs by linarith+
  then show ?thesis by (simp add: content_count_def split: if_splits)
qed

lemma run_calculation:
  assumes "save_schedule_vote_stakes en (calculate_epoch_stakes (en_stake_of en) stakes votes
      (si_new_epoch init) (si_stake_history init) (si_new_rate_activation_epoch init)) (si_new_epoch init + 1) =
      Inr content"
  shows "\<exists>files1 cache1 sd. run_schedule_task en files (CalculateSchedule stakes (votes, cache) init) =
      (files1\<lparr>sf_next := Some content\<rparr>, Inr (MergeStoreAndSaveSchedule stakes (votes, cache1) sd init)) \<and>
    lg_rpc_data sd = leader_schedule_data_of en (calculate_leader_schedule (en_leader_schedule_new en)
      (calculate_epoch_stakes (en_stake_of en) stakes votes (si_new_epoch init) (si_stake_history init)
        (si_new_rate_activation_epoch init)) (si_new_epoch init + 1) (si_slots_in_epoch init))
      (si_new_epoch init + 1)"
  by (simp add: run_schedule_task_def Let_def assms) blast

lemma finished_calculation:
  assumes "owners_ok lp" and i: "i < length (lp_schedule_tasks lp)"
    and task: "lp_schedule_tasks lp ! i = CalculateSchedule stakes (votes, cache) init"
    and stakes': "epoch_stakes = calculate_epoch_stakes (en_stake_of en) stakes votes
      (si_new_epoch init) (si_stake_history init) (si_new_rate_activation_epoch init)"
    and saved: "save_schedule_vote_stakes en epoch_stakes (si_new_epoch init + 1) = Inr content"
  shows "\<exists>lp'. loop_schedule_task en lp i = Inr lp' \<and>
    dc_leader_schedule (lp_data_cache lp') =
      \<lparr>cs_current = cs_next (dc_leader_schedule (lp_data_cache lp)),
       cs_next = Some (leader_schedule_data_of en (calculate_leader_schedule (en_leader_schedule_new en)
         epoch_stakes (si_new_epoch init + 1) (si_slots_in_epoch init)) (si_new_epoch init + 1))\<rparr> \<and>
    tm_content (lp_stakestore lp') =
      Some (foldl process_stake_action stakes (tm_updates (lp_stakestore lp))) \<and>
    tm_updates (lp_stakestore lp') = [] \<and> sf_next (lp_files lp') = Some content"
proof -
  have none: "tm_content (lp_stakestore lp) = None" "tm_content (lp_votestore lp) = None"
    using calc_task_owner [OF assms(1) i] by (simp_all add: task)
  obtain files1 cache1 sd where r: "run_schedule_task en (lp_files lp) (CalculateSchedule stakes (votes, cache) init) =
      (files1\<lparr>sf_next := Some content\<rparr>, Inr (MergeStoreAndSaveSchedule stakes (votes, cache1) sd init))"
    and sd: "lg_rpc_data sd = leader_schedule_data_of en (calculate_leader_schedule (en_leader_schedule_new en)
      epoch_stakes (si_new_epoch init + 1) (si_slots_in_epoch init)) (si_new_epoch init + 1)"
    using run_calculation [OF saved [unfolded stakes'], of "lp_files lp" cache] unfolding stakes' by blast
  let ?lp1 = "lp\<lparr>lp_schedule_tasks := remove_nth i (lp_schedule_tasks lp), lp_files := files1\<lparr>sf_next := Some content\<rparr>\<rparr>"
  have s: "loop_start_schedule ?lp1 (MergeStoreAndSaveSchedule stakes (votes, cache1) sd init) =
      Inr (?lp1\<lparr>lp_stakestore := fst (takable_merge process_stake_action (lp_stakestore lp) stakes),
             lp_votestore := fst (takable_merge vote_content_add (lp_votestore lp) (votes, cache1))\<rparr>, Some sd)"
    by (simp add: loop_start_schedule_def run_schedule_merge [OF none])
  show ?thesis
    by (simp add: loop_schedule_task_def i task r s Let_def publish_schedule_def sd takable_merge_ok [OF none(1)])
qed

section \<open>The entries of a stake file\<close>

lemma save_entries:
  assumes keys: "\<And>pk. from_str (to_str pk) = Inr pk" and "distinct (map_keys stakes)"
  shows "fold (\<lambda>(pk, st). hm_put (to_str pk) st) stakes [] = List.map (\<lambda>(pk, st). (to_str pk, st)) stakes"
proof -
  have inj: "to_str x = to_str y \<longleftrightarrow> x = y" for x y using keys by (metis sum.inject(2))
  have "fold (\<lambda>(pk, st). hm_put (to_str pk) st) ys (List.map (\<lambda>(pk, st). (to_str pk, st)) xs) =
      List.map (\<lambda>(pk, st). (to_str pk, st)) (xs @ ys)" if "distinct (map_keys (xs @ ys))" for xs ys
    using that
  proof (induction ys arbitrary: xs)
    case (Cons y ys)
    obtain k v where y: "y = (k, v)" by (cases y)
    have "to_str k \<notin> fst ` set (List.map (\<lambda>(pk, st). (to_str pk, st)) xs)"
      using Cons.prems by (force simp: y map_keys_def inj)
    then have "hm_put (to_str k) v (List.map (\<lambda>(pk, st). (to_str pk, st)) xs) =
        List.map (\<lambda>(pk, st). (to_str pk, st)) (xs @ [y])"
      by (simp add: hm_put_fresh y)
    with Cons.IH [of "xs @ [y]"] Cons.prems show ?case by (simp add: y)
  qed simp
  from this [of "[]" stakes] assms(2) show ?thesis by simp
qed

lemma parse_entries:
  assumes keys: "\<And>pk. from_str (to_str pk) = Inr pk" and "distinct (map_keys (m @ stakes))"
  shows "parse_stake_keys from_str (List.map (\<lambda>(pk, st). (to_str pk, st)) stakes) m = Inr (m @ stakes)"
  using assms(2)
proof (induction stakes arbitrary: m)
  case (Cons y ys)
  obtain k v where y: "y = (k, v)" by (cases y)
  have "hm_put k v m = m @ [y]"
    using Cons.prems by (subst hm_put_fresh) (auto simp: y map_keys_def)
  with Cons.IH [of "m @ [y]"] Cons.prems show ?case by (simp add: y keys)
qed simp

lemma read_entries:
  assumes keys: "\<And>pk. from_str (to_str pk) = Inr pk" and "distinct (map_keys stakes)"
    and "mset entries = mset (List.map (\<lambda>(pk, st). (to_str pk, st)) stakes)"
  shows "\<exists>stakes'. parse_stake_keys from_str entries [] = Inr stakes' \<and> mset stakes' = mset stakes \<and> hm_inv stakes'"
proof -
  let ?un = "\<lambda>(s, st). (projr (from_str s), st)"
  let ?f = "\<lambda>(pk, st). (to_str pk, st)"
  define stakes' where "stakes' = List.map ?un entries"
  have un: "?un (?f x) = x" for x by (cases x) (simp add: keys)
  have "set entries = ?f ` set stakes" using mset_eq_setD [OF assms(3)] by simp
  then have fun_id: "?f (?un x) = x" if "x \<in> set entries" for x using that by (auto simp: keys)
  have "List.map ?f stakes' = List.map (\<lambda>x. ?f (?un x)) entries" unfolding stakes'_def by simp
  also have "\<dots> = entries" by (intro map_idI fun_id)
  finally have e: "entries = List.map ?f stakes'" ..
  have "mset stakes' = image_mset ?un (image_mset ?f (mset stakes))"
    using assms(3) by (simp add: stakes'_def)
  then have ms: "mset stakes' = mset stakes" by (simp add: multiset.map_comp comp_def keys case_prod_beta')
  then have "mset (map_keys stakes') = mset (map_keys stakes)" by (simp add: map_keys_def)
  then have d: "distinct (map_keys stakes')" using assms(2) by (metis distinct_count_atmost_1 set_mset_mset)
  have "parse_stake_keys from_str entries [] = Inr stakes'"
    using parse_entries [where m = "[]" and stakes = stakes' and from_str = from_str and to_str = to_str, OF keys] d by (simp add: e)
  with ms d show ?thesis by (simp add: hm_inv_def)
qed

section \<open>A sample run\<close>

definition sample_env :: "unit stake_env" where
  "sample_env = \<lparr>en_to_str = (\<lambda>pk. replicate (unat pk) CHR ''k''), en_from_str = (\<lambda>s. Inr (of_nat (List.length s))),
     en_pubkey_from = (\<lambda>_. Some 7), en_bs58 = (\<lambda>_. ''sig''), en_borsh = (\<lambda>_. Inl ''no stake''),
     en_vote_deserialize = (\<lambda>_. Inl ''no vote''), en_read_history = (\<lambda>data. if data = [] then None else Some ()),
     en_stake_of = (\<lambda>d _ _ _. dl_stake d), en_leader_schedule_new = (\<lambda>_ _ _ _. [4, 4]),
     en_write_json = (\<lambda>s. if sa_stake_vote_map s = [] then Some (replicate (unat (sa_epoch s)) CHR ''e'') else None),
     en_read_json = (\<lambda>s. Inr \<lparr>sa_epoch = of_nat (List.length s), sa_stake_vote_map = []\<rparr>),
     en_get_stake_account = (\<lambda>_. Inr []), en_get_vote_account = (\<lambda>_. Inr []),
     en_get_stakehistory_account = (\<lambda>url. Inr \<lparr>ac_lamports = 1, ac_data = (if url = [] then [] else [1]),
       ac_owner = 0, ac_executable = False, ac_rent_epoch = 0\<rparr>),
     en_get_rpc_epoch_info = (\<lambda>_. Inl ''down''), en_get_rpc_leader_schedule = (\<lambda>_ _. Inl ''down''),
     en_new_rate_activation_epoch = None, en_stake_program = 1, en_vote_program = 2, en_stake_history_id = 7\<rparr>"

definition sample_loop_block :: "slot \<Rightarrow> block_information" where
  "sample_loop_block sl = \<lparr>bn_slot = sl, bn_block_height = sl, bn_last_valid_blockheight = sl + 150,
     bn_cleanup_slot = sl + 1000, bn_blockhash = 1, bn_commitment_config = confirmed_config, bn_block_time = 0\<rparr>"

definition sample_loop_cache :: data_cache where
  "sample_loop_cache = sample_cache\<lparr>dc_block_information_store := block_store_new (sample_loop_block 3),
     dc_epoch_data := \<lparr>es_slots_per_epoch = 10, es_epoch_and_slot_index = (\<lambda>sl. (sl div 10, sl mod 10)),
       es_slots_in_epoch = (\<lambda>_. 10), es_first_slot_in_epoch = (\<lambda>e. e * 10), es_last_slot_in_epoch = (\<lambda>e. e * 10 + 9)\<rparr>\<rparr>"

definition sample_loop_events :: "loop_event list" where
  "sample_loop_events = [LoopBootstrapTask 0, LoopBootstrapTask 0, LoopBootstrapTask 0,
     BlocksChanged (block_store_new (sample_loop_block 12)), LoopSlot, LoopStakeHistory [7] [1]]"

lemma sample_loop_run:
  "case loop_run sample_env (stake_loop_new sample_env ''url'' sample_loop_cache
       \<lparr>sf_current = None, sf_next = None\<rparr>) sample_loop_events of
     Inl _ \<Rightarrow> False
   | Inr (lp, answers) \<Rightarrow> answers = [] \<and>
       lp_schedule_tasks lp = [CalculateSchedule [] ([], []) \<lparr>si_new_epoch = 1, si_slots_in_epoch = 10,
         si_new_rate_activation_epoch = None, si_stake_history = ()\<rparr>]"
  by code_simp

section \<open>Properties\<close>

text \<open>C10: At any time at most one of the stores, the task that computes a schedule, the task that merges
  the bootstrap accounts and (for the votes) the task that answers a query has the content; so a
  task that computes a schedule finds both stores empty when it brings the content back.\<close>

theorem stores_have_one_owner:
  assumes "loop_run en (stake_loop_new en rpc_url dc files) es = Inr (lp, answers)"
  shows "stake_owners lp \<le> 1 \<and> vote_store_owners lp \<le> 1 \<and>
    (\<forall>i < length (lp_schedule_tasks lp). calculates (lp_schedule_tasks lp ! i) \<longrightarrow>
       tm_content (lp_stakestore lp) = None \<and> tm_content (lp_votestore lp) = None \<and>
       rq_exec_task (lp_rpc lp) = [])"
proof -
  have ok: "owners_ok lp"
    using loop_reachable_owners [OF assms] owners_kept_ok [OF owners_ok_new] by blast
  then show ?thesis using calc_task_owner [OF ok] by (auto simp: owners_ok_def)
qed

lemma stores_have_one_owner_witness:
  "\<exists>lp. loop_run sample_env (stake_loop_new sample_env ''url'' sample_loop_cache
     \<lparr>sf_current = None, sf_next = None\<rparr>) sample_loop_events = Inr (lp, []) \<and>
     stake_owners lp = 1 \<and> tm_content (lp_stakestore lp) = None"
proof -
  obtain lp where lp: "loop_run sample_env (stake_loop_new sample_env ''url'' sample_loop_cache
     \<lparr>sf_current = None, sf_next = None\<rparr>) sample_loop_events = Inr (lp, [])"
    and t: "calculates (lp_schedule_tasks lp ! 0)" "length (lp_schedule_tasks lp) = 1"
    using sample_loop_run by (auto split: sum.splits)
  have "1 \<le> calc_tasks (lp_schedule_tasks lp)"
    using calc_tasks_remove_nth [of 0 "lp_schedule_tasks lp"] t by simp
  with stores_have_one_owner [OF lp] t show ?thesis
    by (intro exI [of _ lp] conjI lp) (simp_all add: stake_owners_def)
qed



text \<open>When the stake history fetched at start cannot be read, the error path drops the stakes and
  votes that were taken out of the stores: from then on neither the stores nor any task has
  them, no further event brings them back, and no query for vote accounts is ever answered.\<close>

theorem unreadable_history_loses_stores:
  assumes "loop_run en (stake_loop_new en rpc_url dc files) es0 = Inr (lp, answers0)" and "lp_running lp"
    and "i < length (lp_bootstrap_tasks lp)" and "lp_bootstrap_tasks lp ! i = FetchAccounts sleep url"
    and "bootstrap_accounts en url = Inr (stakes, votes, history)"
    and "en_read_history en (ac_data history) = None"
    and "tm_content (lp_stakestore lp) \<noteq> None" and "tm_content (lp_votestore lp) \<noteq> None"
    and "loop_run en lp (LoopBootstrapTask i # es) = Inr (lp', answers)"
  shows "stake_owners lp' = 0 \<and> vote_store_owners lp' = 0 \<and> answers = []"
proof -
  have ok: "owners_ok lp"
    using loop_reachable_owners [OF assms(1)] owners_kept_ok [OF owners_ok_new] by blast
  obtain sm vm where c: "tm_content (lp_stakestore lp) = Some sm" "tm_content (lp_votestore lp) = Some vm"
    using assms(7,8) by blast
  let ?lp1 = "lp\<lparr>lp_stakestore := (lp_stakestore lp)\<lparr>tm_content := None\<rparr>,
    lp_votestore := (lp_votestore lp)\<lparr>tm_content := None\<rparr>,
    lp_bootstrap_tasks := remove_nth i (lp_bootstrap_tasks lp)\<rparr>"
  have "loop_bootstrap_task en lp i = Inr ?lp1"
    using assms(3-6) c
    by (cases vm) (simp add: loop_bootstrap_task_def run_bootstrap_task_def run_bootstrap_events.simps
        process_bootstrap_event_def takable_pair_take_def takable_take_def takable_is_taken_def Let_def)
  then have run: "loop_run en ?lp1 es = Inr (lp', answers)"
    using assms(2,9) by (auto simp: no_answers_def)
  have z: "stake_owners ?lp1 = 0" "vote_store_owners ?lp1 = 0"
    using ok merge_tasks_remove_nth [OF assms(3)]
    by (simp_all add: owners_ok_def owner_defs content_count_def c assms(4))
  then have "owners_ok ?lp1" using ok by (simp add: owners_ok_def)
  from loop_run_owners [OF this run] z show ?thesis by (simp add: owners_kept_def)
qed

lemma unreadable_history_loses_stores_witness:
  "\<exists>lp lp'. loop_run sample_env (stake_loop_new sample_env [] sample_loop_cache
     \<lparr>sf_current = None, sf_next = None\<rparr>) [LoopBootstrapTask 0] = Inr (lp, []) \<and>
     loop_run sample_env lp [LoopBootstrapTask 0, LoopVoteRequest plain_query 5] = Inr (lp', []) \<and>
     stake_owners lp' = 0"
proof -
  let ?P = "\<lambda>lp. lp_running lp \<and> lp_bootstrap_tasks lp = [FetchAccounts 1 []] \<and>
    tm_content (lp_stakestore lp) \<noteq> None \<and> tm_content (lp_votestore lp) \<noteq> None"
  have r1: "case loop_run sample_env (stake_loop_new sample_env [] sample_loop_cache
     \<lparr>sf_current = None, sf_next = None\<rparr>) [LoopBootstrapTask 0] of
     Inl _ \<Rightarrow> False
   | Inr (lp, answers) \<Rightarrow> answers = [] \<and> ?P lp \<and>
      (case loop_run sample_env lp [LoopBootstrapTask 0, LoopVoteRequest plain_query 5] of
         Inl _ \<Rightarrow> False | Inr _ \<Rightarrow> True)"
    by code_simp
  obtain lp where lp: "loop_run sample_env (stake_loop_new sample_env [] sample_loop_cache
     \<lparr>sf_current = None, sf_next = None\<rparr>) [LoopBootstrapTask 0] = Inr (lp, [])" and p: "?P lp"
    and next_ok: "case loop_run sample_env lp [LoopBootstrapTask 0, LoopVoteRequest plain_query 5] of
         Inl _ \<Rightarrow> False | Inr _ \<Rightarrow> True"
    using r1 by (auto split: sum.splits)
  obtain lp' answers where r2: "loop_run sample_env lp [LoopBootstrapTask 0, LoopVoteRequest plain_query 5] =
      Inr (lp', answers)"
    using next_ok by (auto split: sum.splits)
  have fetched: "bootstrap_accounts sample_env [] = Inr ([], [], \<lparr>ac_lamports = 1, ac_data = [], ac_owner = 0,
      ac_executable = False, ac_rent_epoch = 0\<rparr>)"
    by code_simp
  have "0 < length (lp_bootstrap_tasks lp)" "lp_bootstrap_tasks lp ! 0 = FetchAccounts 1 []" "lp_running lp"
    using p by simp_all
  moreover have "en_read_history sample_env (ac_data \<lparr>ac_lamports = 1, ac_data = [], ac_owner = 0,
      ac_executable = False, ac_rent_epoch = 0\<rparr>) = None"
    by (simp add: sample_env_def)
  moreover have "tm_content (lp_stakestore lp) \<noteq> None" "tm_content (lp_votestore lp) \<noteq> None" using p by simp_all
  ultimately have "stake_owners lp' = 0 \<and> vote_store_owners lp' = 0 \<and> answers = []"
    using unreadable_history_loses_stores [OF lp _ _ _ fetched _ _ _ r2] by blast
  with lp r2 show ?thesis by blast
qed

text \<open>The schedules loaded from the files at start are computed with the epoch and the number of
  slots swapped: the files are accepted only when the epoch they hold equals the number of slots
  of an epoch, and the leaders are then computed for as many slots as the epoch's number.\<close>

theorem files_epoch_compared_with_slots:
  assumes "bootstrap_leaderschedule_from_files en files current_epoch slots_in_epoch = Inr (Some (cs, status))"
  shows "\<exists>stakes d. read_schedule_vote_stakes en (sf_current files) = Inr (Inr (slots_in_epoch, stakes)) \<and>
    cs_current cs = Some d \<and> ls_epoch d = slots_in_epoch \<and>
    ls_schedule_by_slot d =
      calculate_leader_schedule (en_leader_schedule_new en) stakes slots_in_epoch current_epoch"
proof -
  obtain cur nxt where b: "bootstrap_current_leader_schedule en files slots_in_epoch current_epoch =
      Inr (Inr (cs, cur, nxt))"
    using assms
    by (cases "bootstrap_current_leader_schedule en files slots_in_epoch current_epoch")
      (auto simp: bootstrap_leaderschedule_from_files_def simp del: bind_outcome_Inr split: sum.splits)
  note defs = bootstrap_current_leader_schedule_def
  obtain ce stakes where r1: "read_schedule_vote_stakes en (sf_current files) = Inr (Inr (ce, stakes))"
    using b by (cases "read_schedule_vote_stakes en (sf_current files)")
      (auto simp: defs simp del: bind_outcome_Inr split: sum.splits)
  obtain ne stakes' where r2: "read_schedule_vote_stakes en (sf_next files) = Inr (Inr (ne, stakes'))"
    using b by (cases "read_schedule_vote_stakes en (sf_next files)")
      (auto simp: defs r1 simp del: bind_outcome_Inr split: sum.splits)
  show ?thesis
    using b by (auto simp: defs r1 r2 leader_schedule_data_of_def Let_def split: if_splits)
qed

lemma files_epoch_compared_with_slots_witness:
  "\<exists>cs status stakes. bootstrap_leaderschedule_from_files sample_env
      \<lparr>sf_current = Some (replicate 10 CHR ''e''), sf_next = Some (replicate 11 CHR ''e'')\<rparr> 3 10 = Inr (Some (cs, status)) \<and>
    read_schedule_vote_stakes sample_env (Some (replicate 10 CHR ''e'')) = Inr (Inr (10, stakes))"
proof -
  let ?files = "\<lparr>sf_current = Some (replicate 10 CHR ''e''), sf_next = Some (replicate 11 CHR ''e'')\<rparr>"
  have "case bootstrap_leaderschedule_from_files sample_env ?files 3 10 of Inr (Some _) \<Rightarrow> True | _ \<Rightarrow> False"
    by code_simp
  then obtain cs status where r: "bootstrap_leaderschedule_from_files sample_env ?files 3 10 = Inr (Some (cs, status))"
    by (auto split: sum.splits option.splits)
  from files_epoch_compared_with_slots [OF r] r show ?thesis by auto
qed

text \<open>C39: A stake file that was saved reads back as the same epoch and the same stakes, for any encoding
  that returns the entries of the saved map in some order.\<close>

theorem stake_file_roundtrip:
  assumes json: "\<And>s content. en_write_json en s = Some content \<Longrightarrow>
      \<exists>s'. en_read_json en content = Inr s' \<and> sa_epoch s' = sa_epoch s \<and>
        mset (sa_stake_vote_map s') = mset (sa_stake_vote_map s)"
    and keys: "\<And>pk. en_from_str en (en_to_str en pk) = Inr pk"
    and "hm_inv stakes" and saved: "save_schedule_vote_stakes en stakes e = Inr content"
  shows "\<exists>stakes'. read_schedule_vote_stakes en (Some content) = Inr (Inr (e, stakes')) \<and>
    mset stakes' = mset stakes \<and> hm_inv stakes'"
proof -
  have d: "distinct (map_keys stakes)" using assms(3) by (simp add: hm_inv_def)
  obtain s' where s': "en_read_json en content = Inr s'" "sa_epoch s' = e"
      "mset (sa_stake_vote_map s') = mset (List.map (\<lambda>(pk, st). (en_to_str en pk, st)) stakes)"
    using saved json save_entries [where from_str = "en_from_str en" and to_str = "en_to_str en", OF keys d]
    by (fastforce simp: save_schedule_vote_stakes_def Let_def split: option.splits)
  show ?thesis
    using read_entries [where from_str = "en_from_str en" and to_str = "en_to_str en", OF keys d s'(3)] s'(1,2) by (auto simp: read_schedule_vote_stakes_def)
qed

definition sample_file_env :: "unit stake_env" where
  "sample_file_env = sample_env\<lparr>
     en_write_json := (\<lambda>s. if sa_stake_vote_map s = [(''kkk'', 5, sample_vote)]
       then Some (replicate (unat (sa_epoch s)) CHR ''e'') else None),
     en_read_json := (\<lambda>s. Inr \<lparr>sa_epoch = of_nat (List.length s), sa_stake_vote_map = [(''kkk'', 5, sample_vote)]\<rparr>)\<rparr>"

lemma stake_file_roundtrip_witness:
  "\<exists>content. save_schedule_vote_stakes sample_file_env [(3, 5, sample_vote)] 2 = Inr content \<and>
    read_schedule_vote_stakes sample_file_env (Some content) = Inr (Inr (2, [(3, 5, sample_vote)]))"
proof -
  have json: "\<exists>s'. en_read_json sample_file_env content = Inr s' \<and> sa_epoch s' = sa_epoch s \<and>
        mset (sa_stake_vote_map s') = mset (sa_stake_vote_map s)"
    if "en_write_json sample_file_env s = Some content" for s content
    using that by (auto simp: sample_file_env_def sample_env_def split: if_splits)
  have keys: "en_from_str sample_file_env (en_to_str sample_file_env pk) = Inr pk" for pk
    by (simp add: sample_file_env_def sample_env_def)
  have saved: "save_schedule_vote_stakes sample_file_env [(3, 5, sample_vote)] 2 = Inr (replicate 2 CHR ''e'')"
    by code_simp
  from stake_file_roundtrip [OF json keys _ saved] saved show ?thesis
    by (auto simp: hm_inv_def map_keys_def)
qed

end
