(* ===== verification/Tx_Pipeline.thy ===== *)
theory Tx_Pipeline
  imports Data_Cache
begin

text \<open>
  The path of a transaction from the client to the TPU: \<open>services/src/transaction_service.rs\<close>,
  \<open>tx_sender.rs\<close> and \<open>transaction_replayer.rs\<close>.  The two channels are queues, a spawned task
  takes one step per message, and the replayer's \<open>sleep_until\<close> is a state of its own.  What the
  outside sees (an accepted or refused request, a transaction handed to the TPU, a notification)
  labels the step.  Decoding a transaction, the compute budget program and the multiplication of
  a duration with a float are arguments; instants and durations are milliseconds.
\<close>

section \<open>Transactions and replays\<close>

record transaction_notification =
  tn_signature :: signature
  tn_recent_slot :: u64
  tn_forwarded_slot :: u64
  tn_forwarded_local_time :: instant
  tn_processed_slot :: "u64 option"
  tn_cu_consumed :: "u64 option"
  tn_cu_requested :: "u64 option"
  tn_quic_response :: int

record transaction_replay =
  rp_transaction :: sent_transaction_info
  rp_replay_count :: nat
  rp_max_replay :: nat
  rp_replay_at :: instant

record tx_env =
  tv_deserialize :: "wire \<Rightarrow> string + versioned_transaction"
  tv_serialize :: "versioned_transaction \<Rightarrow> string + wire"
  tv_compute_budget :: "u8 list \<Rightarrow> compute_budget_instruction option"
  tv_compute_budget_id :: pubkey
  tv_signature_string :: "signature \<Rightarrow> string"
  tv_mul_f32 :: "nat \<Rightarrow> nat \<Rightarrow> nat"
  tv_retry_offset :: nat
  tv_max_retries :: nat
  tv_max_nb_txs_in_queue :: nat
  tv_has_notifier :: bool

record tx_pipeline =
  tl_cache :: data_cache
  tl_now :: instant
  tl_transaction_channel :: "sent_transaction_info list"
  tl_sender_running :: bool
  tl_notifications :: "transaction_notification list"
  tl_replay_channel :: "transaction_replay list"
  tl_replayer_running :: bool
  tl_sleeping :: "transaction_replay option"

definition tx_pipeline_new :: "data_cache \<Rightarrow> instant \<Rightarrow> tx_pipeline" where
  "tx_pipeline_new dc now = \<lparr>tl_cache = dc, tl_now = now, tl_transaction_channel = [],
     tl_sender_running = True, tl_notifications = [], tl_replay_channel = [],
     tl_replayer_running = True, tl_sleeping = None\<rparr>"

section \<open>The requests\<close>

text \<open>The last instruction that sets a price wins; an index outside the static keys panics.\<close>

fun transaction_prioritization_fee ::
    "tx_env \<Rightarrow> pubkey list \<Rightarrow> compiled_instruction list \<Rightarrow> u64 \<Rightarrow> u64 outcome" where
  "transaction_prioritization_fee env keys [] fee = Inr fee"
| "transaction_prioritization_fee env keys (ix # ixs) fee =
     bind_outcome (instruction_program keys ix) (\<lambda>pid.
       transaction_prioritization_fee env keys ixs
         (if pid = tv_compute_budget_id env then
            (case tv_compute_budget env (ix_data ix) of
               Some (SetComputeUnitPrice fees) \<Rightarrow> fees
             | _ \<Rightarrow> fee)
          else fee))"

definition check_wire_transaction ::
    "tx_env \<Rightarrow> block_information_store \<Rightarrow> wire \<Rightarrow> (string + sent_transaction_info) outcome" where
  "check_wire_transaction env store raw_tx =
     (case tv_deserialize env raw_tx of
        Inl err \<Rightarrow> Inr (Inl err)
      | Inr tx \<Rightarrow>
          bind_outcome (index_checked (vt_signatures tx) 0) (\<lambda>signature.
            (case get_block_info store (mc_recent_blockhash (message_core_of (vt_message tx))) of
               None \<Rightarrow> Inr (Inl ''Blockhash not found in block store'')
             | Some b \<Rightarrow>
                 if get_last_blockheight store > bn_last_valid_blockheight b
                 then Inr (Inl ''Blockhash is expired'')
                 else
                   bind_outcome (transaction_prioritization_fee env (mc_account_keys (message_core_of (vt_message tx)))
                       (mc_instructions (message_core_of (vt_message tx))) 0)
                     (\<lambda>fee. Inr (Inr \<lparr>st_signature = signature, st_slot = bn_slot b,
                        st_transaction = raw_tx,
                        st_last_valid_block_height = bn_last_valid_blockheight b,
                        st_prioritization_fee = fee\<rparr>)))))"

definition enqueue_transaction ::
    "tx_env \<Rightarrow> sent_transaction_info \<Rightarrow> nat \<Rightarrow> tx_pipeline \<Rightarrow> tx_pipeline" where
  "enqueue_transaction env info max_replay s =
     (let s = s\<lparr>tl_transaction_channel := tl_transaction_channel s @ [info]\<rparr>
      in if tl_replayer_running s then
           s\<lparr>tl_replay_channel := tl_replay_channel s @
             [\<lparr>rp_transaction = info, rp_replay_count = 0, rp_max_replay = max_replay,
               rp_replay_at = tl_now s + tv_retry_offset env\<rparr>]\<rparr>
         else s)"

definition send_wire_transaction ::
    "tx_env \<Rightarrow> tx_pipeline \<Rightarrow> wire \<Rightarrow> nat option \<Rightarrow> (tx_pipeline \<times> (string + string)) outcome" where
  "send_wire_transaction env s raw_tx max_retries =
     bind_outcome (check_wire_transaction env (dc_block_information_store (tl_cache s)) raw_tx) (\<lambda>r.
       Inr (case r of
          Inl err \<Rightarrow> (s, Inl err)
        | Inr info \<Rightarrow>
            if tl_sender_running s
            then (enqueue_transaction env info (unwrap_or max_retries (tv_max_retries env)) s,
                  Inr (tv_signature_string env (st_signature info)))
            else (s, Inl ''Internal error sending transaction on send channel error'')))"

definition send_transaction ::
    "tx_env \<Rightarrow> tx_pipeline \<Rightarrow> versioned_transaction \<Rightarrow> nat option \<Rightarrow>
     (tx_pipeline \<times> (string + string)) outcome" where
  "send_transaction env s tx max_retries =
     (case tv_serialize env tx of
        Inl err \<Rightarrow> Inr (s, Inl err)
      | Inr raw_tx \<Rightarrow> send_wire_transaction env s raw_tx max_retries)"

section \<open>The sender\<close>

definition forward_txs :: "sent_transaction_info \<Rightarrow> data_cache \<Rightarrow> data_cache" where
  "forward_txs info dc =
     dc\<lparr>dc_txs := fst (tx_insert (dc_txs dc) (st_signature info)
          \<lparr>tp_status = None, tp_last_valid_blockheight = st_last_valid_block_height info,
           tp_sent_by_lite_rpc = True\<rparr>)\<rparr>"

definition notification_of :: "tx_pipeline \<Rightarrow> sent_transaction_info \<Rightarrow> transaction_notification" where
  "notification_of s info = \<lparr>tn_signature = st_signature info, tn_recent_slot = st_slot info,
     tn_forwarded_slot = sc_current_slot (dc_slot_cache (tl_cache s)),
     tn_forwarded_local_time = tl_now s, tn_processed_slot = None, tn_cu_consumed = None,
     tn_cu_requested = None, tn_quic_response = 0\<rparr>"

definition sender_forward :: "tx_env \<Rightarrow> sent_transaction_info \<Rightarrow> tx_pipeline \<Rightarrow> tx_pipeline" where
  "sender_forward env info s =
     (let s = s\<lparr>tl_cache := forward_txs info (tl_cache s)\<rparr>
      in if tv_has_notifier env
         then s\<lparr>tl_notifications := tl_notifications s @ [notification_of s info]\<rparr> else s)"

text \<open>Without notifications, or without a notifier, nothing is sent and nothing is dropped.\<close>

definition notify_transaction_messages ::
    "tx_env \<Rightarrow> tx_pipeline \<Rightarrow> tx_pipeline \<times> transaction_notification list" where
  "notify_transaction_messages env s =
     (if tl_notifications s = [] then (s, [])
      else if tv_has_notifier env then (s\<lparr>tl_notifications := []\<rparr>, tl_notifications s)
      else (s, []))"

section \<open>The replayer\<close>

text \<open>The labels of the steps; a transaction handed to the TPU carries the instant.\<close>

datatype tx_label =
    Accepted instant sent_transaction_info nat
  | Refused string
  | Forwarded instant sent_transaction_info
  | Notified "transaction_notification list"
  | Replayed instant transaction_replay
  | Dropped transaction_replay
  | Silent

text \<open>The part of the loop after the wait.\<close>

definition replay_transaction ::
    "tx_env \<Rightarrow> transaction_replay \<Rightarrow> tx_pipeline \<Rightarrow> tx_label \<times> tx_pipeline" where
  "replay_transaction env r s =
     (if check_if_confirmed_or_expired_blockheight (tl_cache s) (rp_transaction r) then (Dropped r, s)
      else
        (Replayed (tl_now s) r,
         if rp_replay_count r < rp_max_replay r then
           s\<lparr>tl_replay_channel := tl_replay_channel s @
             [r\<lparr>rp_replay_count := rp_replay_count r + 1,
                rp_replay_at := tl_now s + tv_mul_f32 env (tv_retry_offset env) (rp_replay_count r + 1)\<rparr>]\<rparr>
         else s))"

definition replayer_receive ::
    "tx_env \<Rightarrow> transaction_replay \<Rightarrow> tx_pipeline \<Rightarrow> tx_label \<times> tx_pipeline" where
  "replayer_receive env r s =
     (if tl_now s < rp_replay_at r then
        if rp_replay_at r > tl_now s + tv_retry_offset env
        then (Silent, s\<lparr>tl_replay_channel := tl_replay_channel s @ [r]\<rparr>)
        else (Silent, s\<lparr>tl_sleeping := Some r\<rparr>)
      else replay_transaction env r s)"

section \<open>The steps of the pipeline\<close>

text \<open>
  A request waits for room in the bounded channel.  \<open>Cache\<close> is a turn of the caching service, and
  the service ends when one of its tasks ends.
\<close>

inductive tx_step :: "tx_env \<Rightarrow> tx_pipeline \<Rightarrow> tx_label \<Rightarrow> tx_pipeline \<Rightarrow> bool" for env where
  Accept: "length (tl_transaction_channel s) < tv_max_nb_txs_in_queue env \<Longrightarrow> tl_sender_running s \<Longrightarrow>
    check_wire_transaction env (dc_block_information_store (tl_cache s)) raw_tx = Inr (Inr info) \<Longrightarrow>
    tx_step env s (Accepted (tl_now s) info (unwrap_or max_retries (tv_max_retries env)))
      (enqueue_transaction env info (unwrap_or max_retries (tv_max_retries env)) s)"
| Refuse: "send_wire_transaction env s raw_tx max_retries = Inr (s, Inl err) \<Longrightarrow> tx_step env s (Refused err) s"
| Forward: "tl_sender_running s \<Longrightarrow> tl_transaction_channel s = info # rest \<Longrightarrow>
    tx_step env s (Forwarded (tl_now s) info) (sender_forward env info (s\<lparr>tl_transaction_channel := rest\<rparr>))"
| NotifyTick: "tl_sender_running s \<Longrightarrow> notify_transaction_messages env s = (s', ns) \<Longrightarrow>
    tx_step env s (Notified ns) s'"
| Receive: "tl_replayer_running s \<Longrightarrow> tl_sleeping s = None \<Longrightarrow> tl_replay_channel s = r # rest \<Longrightarrow>
    replayer_receive env r (s\<lparr>tl_replay_channel := rest\<rparr>) = (l, s') \<Longrightarrow> tx_step env s l s'"
| Wake: "tl_replayer_running s \<Longrightarrow> tl_sleeping s = Some r \<Longrightarrow> rp_replay_at r \<le> tl_now s \<Longrightarrow>
    replay_transaction env r (s\<lparr>tl_sleeping := None\<rparr>) = (l, s') \<Longrightarrow> tx_step env s l s'"
| Clock: "tx_step env s Silent (s\<lparr>tl_now := tl_now s + d\<rparr>)"
| Cache: "tx_step env s Silent (s\<lparr>tl_cache := fst (cache_step to_str from_str is_closed ttl (tl_cache s) e)\<rparr>)"
| Stop: "tx_step env s Silent (s\<lparr>tl_sender_running := False, tl_replayer_running := False\<rparr>)"

inductive_cases replayed_stepE: "tx_step env s (Replayed t r) s'"
inductive_cases forwarded_stepE: "tx_step env s (Forwarded t info) s'"
inductive_cases accepted_stepE: "tx_step env s (Accepted t info m) s'"

inductive tx_run :: "tx_env \<Rightarrow> tx_pipeline \<Rightarrow> tx_label list \<Rightarrow> tx_pipeline \<Rightarrow> bool" for env s where
  Start: "tx_run env s [] s"
| Next: "tx_run env s ls t \<Longrightarrow> tx_step env t l u \<Longrightarrow> tx_run env s (ls @ [l]) u"

section \<open>How often a transaction is replayed\<close>

definition pending_replays :: "tx_pipeline \<Rightarrow> transaction_replay list" where
  "pending_replays s = tl_replay_channel s @ (case tl_sleeping s of None \<Rightarrow> [] | Some r \<Rightarrow> [r])"

definition remaining_replays :: "sent_transaction_info \<Rightarrow> transaction_replay \<Rightarrow> nat" where
  "remaining_replays info r =
     (if rp_transaction r = info then rp_max_replay r - rp_replay_count r + 1 else 0)"

definition pending_for :: "sent_transaction_info \<Rightarrow> tx_pipeline \<Rightarrow> nat" where
  "pending_for info s = sum_list (List.map (remaining_replays info) (pending_replays s))"

fun granted :: "sent_transaction_info \<Rightarrow> tx_label \<Rightarrow> nat" where
  "granted info (Accepted _ i max_replay) = (if i = info then max_replay + 1 else 0)"
| "granted info _ = 0"

fun replays :: "sent_transaction_info \<Rightarrow> tx_label \<Rightarrow> nat" where
  "replays info (Replayed _ r) = (if rp_transaction r = info then 1 else 0)"
| "replays info _ = 0"

definition replays_of :: "sent_transaction_info \<Rightarrow> tx_label list \<Rightarrow> nat" where
  "replays_of info ls = sum_list (List.map (replays info) ls)"

definition granted_to :: "sent_transaction_info \<Rightarrow> tx_label list \<Rightarrow> nat" where
  "granted_to info ls = sum_list (List.map (granted info) ls)"

definition counts_ok :: "tx_pipeline \<Rightarrow> bool" where
  "counts_ok s \<longleftrightarrow> (\<forall>r \<in> set (pending_replays s). rp_replay_count r \<le> rp_max_replay r)"

lemma replay_transaction_counts:
  assumes "replay_transaction env r s = (l, s')" and "counts_ok s" and "rp_replay_count r \<le> rp_max_replay r"
    and "tl_sleeping s = None"
  shows "counts_ok s' \<and> replays info l + pending_for info s' \<le> pending_for info s + remaining_replays info r \<and>
    granted info l = 0"
  using assms
  by (auto simp: replay_transaction_def counts_ok_def pending_for_def pending_replays_def
      remaining_replays_def split: if_splits option.splits)

lemma sender_forward_simps [simp]:
  "tl_replay_channel (sender_forward env info s) = tl_replay_channel s"
  "tl_sleeping (sender_forward env info s) = tl_sleeping s"
  "tl_transaction_channel (sender_forward env info s) = tl_transaction_channel s"
  "tl_now (sender_forward env info s) = tl_now s"
  "tl_cache (sender_forward env info s) = forward_txs info (tl_cache s)"
  by (simp_all add: sender_forward_def Let_def)

lemma notify_simps:
  assumes "notify_transaction_messages env s = (s', ns)"
  shows "tl_replay_channel s' = tl_replay_channel s" "tl_sleeping s' = tl_sleeping s"
    "tl_transaction_channel s' = tl_transaction_channel s" "tl_now s' = tl_now s" "tl_cache s' = tl_cache s"
  using assms by (auto simp: notify_transaction_messages_def split: if_splits)

lemma tx_step_counts:
  assumes "tx_step env s l s'" and "counts_ok s"
  shows "counts_ok s' \<and> replays info l + pending_for info s' \<le> pending_for info s + granted info l"
  using assms
proof (induction rule: tx_step.induct)
  case (Accept s raw_tx i max_retries)
  then show ?case
    by (auto simp: enqueue_transaction_def Let_def counts_ok_def pending_for_def pending_replays_def
        remaining_replays_def split: option.splits)
next
  case (Receive s r rest l s')
  have base: "counts_ok (s\<lparr>tl_replay_channel := rest\<rparr>)" "rp_replay_count r \<le> rp_max_replay r"
    "pending_for info (s\<lparr>tl_replay_channel := rest\<rparr>) + remaining_replays info r = pending_for info s"
    using Receive.prems Receive.hyps(2,3) by (auto simp: counts_ok_def pending_for_def pending_replays_def)
  show ?case
  proof (cases "tl_now s < rp_replay_at r")
    case True
    with Receive.hyps Receive.prems show ?thesis
      by (auto simp: replayer_receive_def counts_ok_def pending_for_def pending_replays_def split: if_splits)
  next
    case False
    with Receive.hyps have "replay_transaction env r (s\<lparr>tl_replay_channel := rest\<rparr>) = (l, s')"
      by (simp add: replayer_receive_def)
    from replay_transaction_counts [OF this base(1,2), of info] base(3) Receive.hyps(2) show ?thesis by simp
  qed
next
  case (Wake s r l s')
  have base: "counts_ok (s\<lparr>tl_sleeping := None\<rparr>)" "rp_replay_count r \<le> rp_max_replay r"
    "pending_for info (s\<lparr>tl_sleeping := None\<rparr>) + remaining_replays info r = pending_for info s"
    using Wake.prems Wake.hyps(2) by (auto simp: counts_ok_def pending_for_def pending_replays_def)
  from replay_transaction_counts [OF Wake.hyps(4) base(1,2), of info] base(3) show ?case by simp
qed (auto simp: counts_ok_def pending_for_def pending_replays_def notify_simps)

lemma tx_run_counts:
  assumes "tx_run env s ls s'" and "counts_ok s"
  shows "counts_ok s' \<and> replays_of info ls + pending_for info s' \<le> pending_for info s + granted_to info ls"
  using assms
proof (induction rule: tx_run.induct)
  case (Next ls t l u)
  then have "counts_ok t" "replays_of info ls + pending_for info t \<le> pending_for info s + granted_to info ls"
    by simp_all
  moreover from tx_step_counts [OF Next.hyps(2) this(1), of info]
  have "counts_ok u" "replays info l + pending_for info u \<le> pending_for info t + granted info l" by simp_all
  ultimately show ?case by (simp add: replays_of_def granted_to_def)
qed (simp add: replays_of_def granted_to_def)

section \<open>The queue in front of the sender\<close>

fun accepted_info :: "tx_label \<Rightarrow> sent_transaction_info option" where
  "accepted_info (Accepted _ i _) = Some i"
| "accepted_info _ = None"

fun forwarded_info :: "tx_label \<Rightarrow> sent_transaction_info option" where
  "forwarded_info (Forwarded _ i) = Some i"
| "forwarded_info _ = None"

fun notified :: "tx_label \<Rightarrow> transaction_notification list" where
  "notified (Notified ns) = ns"
| "notified _ = []"

definition accepted_infos :: "tx_label list \<Rightarrow> sent_transaction_info list" where
  "accepted_infos ls = List.map_filter accepted_info ls"

definition forwarded_infos :: "tx_label list \<Rightarrow> sent_transaction_info list" where
  "forwarded_infos ls = List.map_filter forwarded_info ls"

definition notified_list :: "tx_label list \<Rightarrow> transaction_notification list" where
  "notified_list ls = concat (List.map notified ls)"

lemma map_filter_snoc:
  "List.map_filter f (xs @ [x]) = List.map_filter f xs @ (case f x of None \<Rightarrow> [] | Some y \<Rightarrow> [y])"
  by (induction xs) (auto split: option.split)

lemma replay_transaction_queue:
  assumes "replay_transaction env r s = (l, s')"
  shows "tl_transaction_channel s' = tl_transaction_channel s" "tl_notifications s' = tl_notifications s"
    "tl_cache s' = tl_cache s" "tl_now s' = tl_now s" "accepted_info l = None" "forwarded_info l = None"
    "notified l = []"
  using assms by (auto simp: replay_transaction_def split: if_splits)

lemma replayer_receive_queue:
  assumes "replayer_receive env r s = (l, s')"
  shows "tl_transaction_channel s' = tl_transaction_channel s" "tl_notifications s' = tl_notifications s"
    "tl_cache s' = tl_cache s" "tl_now s' = tl_now s" "accepted_info l = None" "forwarded_info l = None"
    "notified l = []"
  using assms by (auto simp: replayer_receive_def dest: replay_transaction_queue split: if_splits)

definition channel_ok :: "tx_env \<Rightarrow> tx_label list \<Rightarrow> tx_pipeline \<Rightarrow> bool" where
  "channel_ok env ls s \<longleftrightarrow>
     accepted_infos ls = forwarded_infos ls @ tl_transaction_channel s \<and>
     length (tl_transaction_channel s) \<le> tv_max_nb_txs_in_queue env \<and>
     (tv_has_notifier env \<longrightarrow>
      List.map tn_signature (notified_list ls @ tl_notifications s) =
        List.map st_signature (forwarded_infos ls))"

lemmas channel_defs = channel_ok_def accepted_infos_def forwarded_infos_def notified_list_def map_filter_snoc

lemma tx_step_channel:
  assumes "tx_step env s l s'" and "channel_ok env ls s"
  shows "channel_ok env (ls @ [l]) s'"
  using assms
proof (induction rule: tx_step.induct)
  case (Receive s r rest l s')
  from replayer_receive_queue [OF Receive.hyps(4)] Receive.prems show ?case by (simp add: channel_defs)
next
  case (Wake s r l s')
  from replay_transaction_queue [OF Wake.hyps(4)] Wake.prems show ?case by (simp add: channel_defs)
next
  case (Forward s info rest)
  then show ?case by (auto simp: channel_defs sender_forward_def notification_of_def Let_def)
qed (auto simp: channel_defs enqueue_transaction_def notify_transaction_messages_def Let_def split: if_splits)

lemma tx_run_channel: "tx_run env s ls s' \<Longrightarrow> channel_ok env [] s \<Longrightarrow> channel_ok env ls s'"
  by (induction rule: tx_run.induct) (auto intro: tx_step_channel)

section \<open>When a transaction is replayed\<close>

text \<open>A replay that waits was put in by the acceptance of the transaction or by the replay before.\<close>

definition scheduled_by :: "tx_env \<Rightarrow> tx_label list \<Rightarrow> transaction_replay \<Rightarrow> bool" where
  "scheduled_by env ls r \<longleftrightarrow>
     rp_replay_count r = 0 \<and> (\<exists>t. Accepted t (rp_transaction r) (rp_max_replay r) \<in> set ls \<and>
       rp_replay_at r = t + tv_retry_offset env) \<or>
     (\<exists>t r'. Replayed t r' \<in> set ls \<and> rp_transaction r' = rp_transaction r \<and>
       rp_replay_count r = Suc (rp_replay_count r') \<and>
       rp_replay_at r = t + tv_mul_f32 env (tv_retry_offset env) (rp_replay_count r))"

definition schedule_ok :: "tx_env \<Rightarrow> tx_label list \<Rightarrow> tx_pipeline \<Rightarrow> bool" where
  "schedule_ok env ls s \<longleftrightarrow> (\<forall>r \<in> set (pending_replays s). scheduled_by env ls r)"

lemma scheduled_by_mono: "scheduled_by env ls r \<Longrightarrow> scheduled_by env (ls @ [l]) r"
  by (fastforce simp: scheduled_by_def)

lemma replay_transaction_schedule:
  assumes "replay_transaction env r s = (l, s')" and "schedule_ok env ls s" and "tl_sleeping s = None"
  shows "schedule_ok env (ls @ [l]) s'"
  using assms scheduled_by_mono [of env ls _ l]
  by (auto simp: replay_transaction_def schedule_ok_def pending_replays_def split: if_splits)
    (auto simp: scheduled_by_def)

lemma tx_step_schedule:
  assumes "tx_step env s l s'" and "schedule_ok env ls s"
  shows "schedule_ok env (ls @ [l]) s'"
  using assms
proof (induction rule: tx_step.induct)
  case (Accept s raw_tx i max_retries)
  let ?m = "unwrap_or max_retries (tv_max_retries env)"
  have "scheduled_by env (ls @ [Accepted (tl_now s) i ?m]) \<lparr>rp_transaction = i, rp_replay_count = 0,
      rp_max_replay = ?m, rp_replay_at = tl_now s + tv_retry_offset env\<rparr>"
    by (auto simp: scheduled_by_def)
  with Accept.prems show ?case
    by (auto simp: enqueue_transaction_def Let_def schedule_ok_def pending_replays_def
        intro: scheduled_by_mono)
next
  case (Receive s r rest l s')
  have base: "schedule_ok env ls (s\<lparr>tl_replay_channel := rest\<rparr>)" "scheduled_by env ls r"
    using Receive.prems Receive.hyps(2,3) by (auto simp: schedule_ok_def pending_replays_def)
  show ?case
  proof (cases "tl_now s < rp_replay_at r")
    case True
    with Receive.hyps base show ?thesis
      by (auto simp: replayer_receive_def schedule_ok_def pending_replays_def split: if_splits)
        (use scheduled_by_mono in blast)+
  next
    case False
    with Receive.hyps have "replay_transaction env r (s\<lparr>tl_replay_channel := rest\<rparr>) = (l, s')"
      by (simp add: replayer_receive_def)
    from replay_transaction_schedule [OF this base(1)] Receive.hyps(2) show ?thesis by simp
  qed
next
  case (Wake s r l s')
  have "schedule_ok env ls (s\<lparr>tl_sleeping := None\<rparr>)"
    using Wake.prems Wake.hyps(2) by (auto simp: schedule_ok_def pending_replays_def)
  from replay_transaction_schedule [OF Wake.hyps(4) this] show ?case by simp
qed (auto simp: schedule_ok_def pending_replays_def notify_simps intro: scheduled_by_mono)

lemma tx_run_schedule: "tx_run env s ls s' \<Longrightarrow> schedule_ok env [] s \<Longrightarrow> schedule_ok env ls s'"
  by (induction rule: tx_run.induct) (auto intro: tx_step_schedule)

text \<open>What a replay step starts from.\<close>

lemma tx_step_replayed:
  assumes "tx_step env s (Replayed t r) s'"
  shows "r \<in> set (pending_replays s) \<and> rp_replay_at r \<le> t \<and> t = tl_now s \<and>
    \<not> check_if_confirmed_or_expired_blockheight (tl_cache s) (rp_transaction r)"
  using assms
  by (elim replayed_stepE)
    (auto simp: replayer_receive_def replay_transaction_def pending_replays_def split: if_splits)

section \<open>Confirmed and expired transactions\<close>

definition tx_done :: "data_cache \<Rightarrow> sent_transaction_info \<Rightarrow> bool" where
  "tx_done dc info \<longleftrightarrow> data_cache_inv dc \<and>
     (st_last_valid_block_height info < get_last_blockheight (dc_block_information_store dc) \<or>
      (\<exists>p. hm_get (dc_txs dc) (st_signature info) = Some p \<and> tp_status p \<noteq> None \<and>
        st_last_valid_block_height info \<le> tp_last_valid_blockheight p))"

lemma tx_done_check: "tx_done dc info \<Longrightarrow> check_if_confirmed_or_expired_blockheight dc info"
  by (auto simp: tx_done_def check_if_confirmed_or_expired_blockheight_def is_transaction_confirmed_def)

lemma cache_transaction_entry:
  assumes "data_cache_inv dc" and "hm_get (dc_txs dc) k = Some p" and "tp_status p \<noteq> None"
  shows "\<exists>p'. hm_get (dc_txs (fst (cache_transaction block tx dc))) k = Some p' \<and> tp_status p' \<noteq> None \<and>
    tp_last_valid_blockheight p' = tp_last_valid_blockheight p"
proof -
  obtain status lv where "dc_txs (fst (cache_transaction block tx dc)) =
      fst (tx_update_status (dc_txs dc) (ti_signature tx) status lv)"
    using cache_transaction_simps(3) by blast
  moreover have "hm_inv (dc_txs dc)" using assms(1) by (simp add: data_cache_inv_def)
  ultimately show ?thesis using assms(2,3) by (auto simp: tx_update_status_get)
qed

lemma cache_transactions_entry:
  "data_cache_inv dc \<Longrightarrow> hm_get (dc_txs dc) k = Some p \<Longrightarrow> tp_status p \<noteq> None \<Longrightarrow>
   \<exists>p'. hm_get (dc_txs (fst (cache_transactions block txs dc))) k = Some p' \<and> tp_status p' \<noteq> None \<and>
    tp_last_valid_blockheight p' = tp_last_valid_blockheight p"
proof (induction txs arbitrary: dc p)
  case (Cons tx txs)
  obtain p1 where p1: "hm_get (dc_txs (fst (cache_transaction block tx dc))) k = Some p1" "tp_status p1 \<noteq> None"
      "tp_last_valid_blockheight p1 = tp_last_valid_blockheight p"
    using cache_transaction_entry [OF Cons.prems] by blast
  from Cons.IH [OF cache_transaction_inv [OF Cons.prems(1)] p1(1,2)] p1(3) show ?case
    by (auto simp: fst_cache_transactions_Cons)
qed auto

lemma cache_transactions_blocks:
  "dc_block_information_store (fst (cache_transactions block txs dc)) = dc_block_information_store dc"
  by (induction txs arbitrary: dc) (simp_all add: fst_cache_transactions_Cons cache_transaction_simps)

lemma tx_done_cache_step:
  assumes "tx_done dc info"
  shows "tx_done (fst (cache_step to_str from_str is_closed ttl dc e)) info"
proof (cases e)
  case (BlockReceived block)
  let ?dc = "dc\<lparr>dc_block_information_store := fst (add_block (dc_block_information_store dc) (from_block block))\<rparr>"
  have i: "data_cache_inv ?dc" using assms by (simp add: tx_done_def add_block_data_cache_inv)
  have "st_last_valid_block_height info < get_last_blockheight (dc_block_information_store ?dc) \<or>
      (\<exists>p. hm_get (dc_txs (fst (cache_transactions block (pb_transactions block) ?dc))) (st_signature info) = Some p \<and>
        tp_status p \<noteq> None \<and> st_last_valid_block_height info \<le> tp_last_valid_blockheight p)"
    using assms cache_transactions_entry [OF i, of "st_signature info"]
    by (fastforce simp: tx_done_def get_last_blockheight_def add_block_last_blockheight less_max_iff_disj)
  with i show ?thesis
    by (simp add: BlockReceived tx_done_def cache_block_def cache_transactions_inv cache_transactions_blocks)
next
  case (BlockInfoReceived b)
  with assms show ?thesis
    by (auto simp: tx_done_def add_block_data_cache_inv get_last_blockheight_def add_block_last_blockheight
        less_max_iff_disj)
next
  case (CleanTick now)
  let ?s = "dc_block_information_store dc"
  let ?h = "bn_block_height (get_latest_block_information ?s finalized_config)"
  have inv: "data_cache_inv dc" using assms by (simp add: tx_done_def)
  have le: "?h \<le> get_last_blockheight ?s"
    using inv by (simp add: data_cache_inv_def block_store_inv_def get_latest_block_information_def
        get_last_blockheight_def)
  have same: "get_last_blockheight (block_store_clean ?s) = get_last_blockheight ?s"
    by (simp add: block_store_clean_def get_last_blockheight_def)
  have entries: "hm_get (tx_clean ?h (dc_txs dc)) k = (case hm_get (dc_txs dc) k of None \<Rightarrow> None
      | Some p \<Rightarrow> if ?h \<le> tp_last_valid_blockheight p then Some p else None)" for k
    using inv by (auto simp: tx_clean_def data_cache_inv_def hm_get_retain split: option.split)
  show ?thesis
    using assms le data_cache_clean_inv [OF inv, of is_closed now ttl]
    by (auto simp: CleanTick tx_done_def data_cache_clean_def Let_def same entries split: option.split)
next
  case (SlotReceived n)
  with assms show ?thesis by (simp add: tx_done_def data_cache_inv_def)
next
  case (ClusterInfoReceived nodes)
  with assms show ?thesis by (simp add: tx_done_def data_cache_inv_def load_cluster_inv)
next
  case (VoteAccountsReceived votes)
  with assms show ?thesis by (simp add: tx_done_def data_cache_inv_def)
qed

lemma tx_done_forward:
  assumes "tx_done dc info" and "st_signature i \<noteq> st_signature info"
  shows "tx_done (forward_txs i dc) info"
  using assms
  by (auto simp: tx_done_def forward_txs_def tx_insert_def data_cache_inv_def hm_get_hm_put inv_intros)

lemma tx_step_done:
  assumes "tx_step env s l s'" and "tx_done (tl_cache s) info"
    and "\<And>i. forwarded_info l = Some i \<Longrightarrow> st_signature i \<noteq> st_signature info"
  shows "tx_done (tl_cache s') info"
  using assms
proof (induction rule: tx_step.induct)
  case (Accept s raw_tx i max_retries)
  then show ?case by (simp add: enqueue_transaction_def Let_def)
next
  case (Receive s r rest l s')
  from replayer_receive_queue [OF Receive.hyps(4)] Receive.prems show ?case by simp
next
  case (Wake s r l s')
  from replay_transaction_queue [OF Wake.hyps(4)] Wake.prems show ?case by simp
next
  case (Cache s to_str from_str is_closed ttl e)
  then show ?case by (simp add: tx_done_cache_step)
qed (auto simp: notify_simps tx_done_forward)

lemma tx_run_done:
  assumes "tx_run env s ls s'" and "tx_done (tl_cache s) info"
    and "\<And>i. i \<in> set (forwarded_infos ls) \<Longrightarrow> st_signature i \<noteq> st_signature info"
  shows "tx_done (tl_cache s') info \<and> replays_of info ls = 0"
  using assms
proof (induction rule: tx_run.induct)
  case (Next ls t l u)
  have "st_signature i \<noteq> st_signature info" if "i \<in> set (forwarded_infos ls)" for i
    using Next.prems(2) that by (simp add: forwarded_infos_def map_filter_snoc)
  with Next have d: "tx_done (tl_cache t) info" "replays_of info ls = 0" by simp_all
  have "st_signature i \<noteq> st_signature info" if "forwarded_info l = Some i" for i
    using Next.prems(2) [of i] that by (simp add: forwarded_infos_def map_filter_snoc)
  with tx_step_done [OF Next.hyps(2) d(1)] have "tx_done (tl_cache u) info" by blast
  moreover have "replays info l = 0"
  proof (cases l)
    case (Replayed t' r)
    with tx_step_replayed [of env t t' r u] Next.hyps(2) tx_done_check [OF d(1)] show ?thesis by auto
  qed auto
  ultimately show ?case using d(2) by (simp add: replays_of_def)
qed (simp add: replays_of_def)

section \<open>Composing runs\<close>

lemma tx_run_trans: "tx_run env t ls' u \<Longrightarrow> tx_run env s ls t \<Longrightarrow> tx_run env s (ls @ ls') u"
proof (induction rule: tx_run.induct)
  case (Next ls' v l u)
  then show ?case using tx_run.Next [of env s "ls @ ls'" v l u] by simp
qed simp

lemma tx_run_step: "tx_step env s l t \<Longrightarrow> tx_run env t ls u \<Longrightarrow> tx_run env s (l # ls) u"
  using tx_run_trans [of env t ls u s "[l]"] tx_run.Next [OF tx_run.Start] by fastforce

text \<open>One replay of the only waiting transaction, after waiting until it is due.\<close>

lemma replay_once:
  assumes "tl_replayer_running s" and "tl_sleeping s = None" and "tl_replay_channel s = [r]"
    and "\<not> check_if_confirmed_or_expired_blockheight (tl_cache s) (rp_transaction r)"
    and "rp_replay_at r \<le> t" and "tl_now s \<le> t"
  shows "tx_run env s [Silent, Replayed t r] (snd (replay_transaction env r
    (s\<lparr>tl_replay_channel := [], tl_now := t\<rparr>)))"
proof -
  have c: "tx_step env s Silent (s\<lparr>tl_now := t\<rparr>)"
    using tx_step.Clock [of env s "t - tl_now s"] assms(6) by simp
  have "tx_step env (s\<lparr>tl_now := t\<rparr>) (Replayed t r)
      (snd (replay_transaction env r (s\<lparr>tl_replay_channel := [], tl_now := t\<rparr>)))"
    using assms by (intro tx_step.Receive [where r = r and rest = "[]"])
      (simp_all add: replayer_receive_def replay_transaction_def)
  then show ?thesis by (intro tx_run_step [OF c] tx_run_step [OF _ tx_run.Start])
qed

lemma replays_until_bound:
  assumes "tl_replayer_running s" and "tl_sleeping s = None" and "tl_replay_channel s = [r]"
    and "\<not> check_if_confirmed_or_expired_blockheight (tl_cache s) (rp_transaction r)"
    and "rp_replay_count r \<le> rp_max_replay r"
  shows "\<exists>ls s'. tx_run env s ls s' \<and>
    replays_of (rp_transaction r) ls = rp_max_replay r - rp_replay_count r + 1"
  using assms
proof (induction "rp_max_replay r - rp_replay_count r" arbitrary: s r)
  case 0
  let ?t = "max (tl_now s) (rp_replay_at r)"
  from replay_once [OF 0(2-5), of ?t env]
  have "tx_run env s [Silent, Replayed ?t r] (snd (replay_transaction env r
    (s\<lparr>tl_replay_channel := [], tl_now := ?t\<rparr>)))" by simp
  moreover have "replays_of (rp_transaction r) [Silent, Replayed ?t r] = 1" by (simp add: replays_of_def)
  ultimately show ?case using 0(1,6) by fastforce
next
  case (Suc n)
  let ?t = "max (tl_now s) (rp_replay_at r)"
  let ?r = "r\<lparr>rp_replay_count := rp_replay_count r + 1,
    rp_replay_at := ?t + tv_mul_f32 env (tv_retry_offset env) (rp_replay_count r + 1)\<rparr>"
  let ?s = "s\<lparr>tl_now := ?t, tl_replay_channel := [?r]\<rparr>"
  have lt: "rp_replay_count r < rp_max_replay r" using Suc.hyps(2) by simp
  have one: "tx_run env s [Silent, Replayed ?t r] ?s"
    using replay_once [OF Suc.prems(1-4), of ?t env] Suc.prems(4)
    by (simp add: replay_transaction_def lt)
  have n: "n = rp_max_replay ?r - rp_replay_count ?r" "rp_replay_count ?r \<le> rp_max_replay ?r"
    using Suc.hyps(2) by simp_all
  obtain ls s' where rest: "tx_run env ?s ls s'"
      "replays_of (rp_transaction ?r) ls = rp_max_replay ?r - rp_replay_count ?r + 1"
    using Suc.hyps(1) [of ?r ?s] n Suc.prems by auto
  have "replays_of (rp_transaction r) ([Silent, Replayed ?t r] @ ls) = rp_max_replay r - rp_replay_count r + 1"
    using rest(2) Suc.hyps(2) by (simp add: replays_of_def)
  with tx_run_trans [OF rest(1) one] show ?case by blast
qed

section \<open>The checks of a request\<close>

lemma index_checked_0: "index_checked xs 0 = Inr y \<longleftrightarrow> (\<exists>rest. xs = y # rest)"
  by (cases xs) (auto simp: index_checked_def)

lemma check_wire_accepts:
  "check_wire_transaction env store raw_tx = Inr (Inr info) \<longleftrightarrow>
     (\<exists>tx b rest fee. tv_deserialize env raw_tx = Inr tx \<and>
       vt_signatures tx = st_signature info # rest \<and>
       get_block_info store (mc_recent_blockhash (message_core_of (vt_message tx))) = Some b \<and>
       get_last_blockheight store \<le> bn_last_valid_blockheight b \<and>
       transaction_prioritization_fee env (mc_account_keys (message_core_of (vt_message tx))) (mc_instructions (message_core_of (vt_message tx))) 0 = Inr fee \<and>
       info = \<lparr>st_signature = st_signature info, st_slot = bn_slot b, st_transaction = raw_tx,
         st_last_valid_block_height = bn_last_valid_blockheight b, st_prioritization_fee = fee\<rparr>)"
  (is "?L \<longleftrightarrow> ?R")
proof (cases "tv_deserialize env raw_tx")
  case (Inl err)
  then show ?thesis by (simp add: check_wire_transaction_def)
next
  case (Inr tx)
  show ?thesis
  proof (cases "vt_signatures tx")
    case Nil
    with Inr show ?thesis by (simp add: check_wire_transaction_def index_checked_def)
  next
    case (Cons sig rest)
    with Inr show ?thesis
      by (cases "get_block_info store (mc_recent_blockhash (message_core_of (vt_message tx)))")
        (auto simp: check_wire_transaction_def index_checked_def)
  qed
qed

lemma send_wire_accepts:
  "send_wire_transaction env s raw_tx mr = Inr (s', Inr sig_str) \<longleftrightarrow>
     (\<exists>info. check_wire_transaction env (dc_block_information_store (tl_cache s)) raw_tx = Inr (Inr info) \<and>
       tl_sender_running s \<and> s' = enqueue_transaction env info (unwrap_or mr (tv_max_retries env)) s \<and>
       sig_str = tv_signature_string env (st_signature info))"
proof (cases "check_wire_transaction env (dc_block_information_store (tl_cache s)) raw_tx")
  case (Inl p)
  then show ?thesis by (simp add: send_wire_transaction_def)
next
  case (Inr r)
  then show ?thesis by (cases r) (auto simp: send_wire_transaction_def)
qed

lemma fee_panics:
  "transaction_prioritization_fee env keys ixs fee = Inl p \<Longrightarrow> \<exists>ix \<in> set ixs. length keys \<le> unat (ix_program_id_index ix)"
  by (induction env keys ixs fee rule: transaction_prioritization_fee.induct)
    (fastforce simp: instruction_program_def index_checked_def split: if_splits)+

lemma check_wire_panics:
  assumes "check_wire_transaction env store raw_tx = Inl p"
  shows "\<exists>tx. tv_deserialize env raw_tx = Inr tx \<and> (vt_signatures tx = [] \<or>
    (\<exists>ix \<in> set (mc_instructions (message_core_of (vt_message tx))). length (mc_account_keys (message_core_of (vt_message tx))) \<le> unat (ix_program_id_index ix)))"
proof (cases "tv_deserialize env raw_tx")
  case (Inl err)
  with assms show ?thesis by (simp add: check_wire_transaction_def)
next
  case (Inr tx)
  show ?thesis
  proof (cases "vt_signatures tx")
    case Nil
    with Inr show ?thesis by blast
  next
    case (Cons sig rest)
    with Inr assms
    have "\<exists>p. transaction_prioritization_fee env (mc_account_keys (message_core_of (vt_message tx))) (mc_instructions (message_core_of (vt_message tx))) 0 = Inl p"
      by (cases "get_block_info store (mc_recent_blockhash (message_core_of (vt_message tx)))";
          cases "transaction_prioritization_fee env (mc_account_keys (message_core_of (vt_message tx))) (mc_instructions (message_core_of (vt_message tx))) 0")
        (auto simp: check_wire_transaction_def index_checked_def split: if_splits)
    with Inr fee_panics show ?thesis by blast
  qed
qed

section \<open>Properties\<close>

definition sample_versioned :: versioned_transaction where
  "sample_versioned = \<lparr>vt_signatures = [77], vt_message = MessageLegacy
     \<lparr>mc_header = \<lparr>mh_num_required_signatures = 1, mh_num_readonly_signed_accounts = 0,
        mh_num_readonly_unsigned_accounts = 0\<rparr>, mc_account_keys = [5], mc_recent_blockhash = 1,
      mc_instructions = [\<lparr>ix_program_id_index = 0, ix_accounts = [], ix_data = [3]\<rparr>]\<rparr>\<rparr>"

definition sample_tx_env :: tx_env where
  "sample_tx_env = \<lparr>tv_deserialize = (\<lambda>raw. if raw = [] then Inl ''empty'' else Inr sample_versioned),
     tv_serialize = (\<lambda>_. Inr [1]), tv_compute_budget = (\<lambda>_. Some (SetComputeUnitPrice 9)), tv_compute_budget_id = 5,
     tv_signature_string = (\<lambda>_. ''sig''), tv_mul_f32 = (*), tv_retry_offset = 10, tv_max_retries = 1,
     tv_max_nb_txs_in_queue = 2, tv_has_notifier = True\<rparr>"

definition sample_info :: sent_transaction_info where
  "sample_info = \<lparr>st_signature = 77, st_slot = 5, st_transaction = [1], st_last_valid_block_height = 305,
     st_prioritization_fee = 9\<rparr>"

lemma sample_checked:
  "check_wire_transaction sample_tx_env (dc_block_information_store sample_cache) [1] = Inr (Inr sample_info)"
  by (simp add: check_wire_transaction_def sample_tx_env_def sample_versioned_def sample_cache_def
      sample_info_def sample_block_def get_block_info_def instruction_program_def block_store_new_def get_last_blockheight_def
      hm_put_def hm_get_def)

lemma sample_accept:
  "tx_step sample_tx_env (tx_pipeline_new sample_cache 0) (Accepted 0 sample_info 1)
     (enqueue_transaction sample_tx_env sample_info 1 (tx_pipeline_new sample_cache 0))"
  using tx_step.Accept [of "tx_pipeline_new sample_cache 0" sample_tx_env "[1]" sample_info "Some 1"]
    sample_checked by (simp add: tx_pipeline_new_def sample_tx_env_def)

lemma sample_unconfirmed: "\<not> check_if_confirmed_or_expired_blockheight sample_cache sample_info"
  by (simp add: check_if_confirmed_or_expired_blockheight_def sample_cache_def sample_info_def
      block_store_new_def get_last_blockheight_def sample_block_def is_transaction_confirmed_def)

text \<open>C16: A transaction is never replayed more often than its requests allow: over any interleaving of
  clients, sender, replayer, clock and cache, the replays of a transaction are at most one more
  than the number of retries, summed over the requests that were accepted for it.\<close>

theorem replays_bounded:
  assumes "tx_run env (tx_pipeline_new dc now) ls s"
  shows "replays_of info ls \<le> granted_to info ls"
  using tx_run_counts [OF assms, of info]
  by (simp add: tx_pipeline_new_def counts_ok_def pending_replays_def pending_for_def)

lemma replays_bounded_witness:
  "\<exists>s. tx_run sample_tx_env (tx_pipeline_new sample_cache 0) [Accepted 0 sample_info 1] s \<and>
     replays_of sample_info [Accepted 0 sample_info 1] \<le> 2"
proof -
  have r: "tx_run sample_tx_env (tx_pipeline_new sample_cache 0) [Accepted 0 sample_info 1]
     (enqueue_transaction sample_tx_env sample_info 1 (tx_pipeline_new sample_cache 0))"
    by (intro tx_run_step [OF sample_accept] tx_run.Start)
  from replays_bounded [OF r, of sample_info] r show ?thesis by (auto simp: granted_to_def)
qed

text \<open>The bound is reached, one more than the documented number of replays: a transaction that is
  neither confirmed nor expired is replayed once when it is due and then once for each allowed
  retry.\<close>

theorem replays_reach_bound:
  assumes "tx_step env (tx_pipeline_new dc now) (Accepted now info max_replay) s"
    and "\<not> check_if_confirmed_or_expired_blockheight dc info"
  shows "\<exists>ls s'. tx_run env s ls s' \<and> replays_of info ls = max_replay + 1"
proof -
  have s: "s = enqueue_transaction env info max_replay (tx_pipeline_new dc now)"
    using assms(1)
    by (elim accepted_stepE)
      (auto simp: replayer_receive_def replay_transaction_def tx_pipeline_new_def split: if_splits)
  let ?r = "\<lparr>rp_transaction = info, rp_replay_count = 0, rp_max_replay = max_replay,
    rp_replay_at = now + tv_retry_offset env\<rparr>"
  from replays_until_bound [of s ?r env] assms(2) show ?thesis
    by (simp add: s enqueue_transaction_def tx_pipeline_new_def Let_def)
qed

lemma replays_reach_bound_witness:
  "\<exists>s ls s'. tx_run sample_tx_env s ls s' \<and> replays_of sample_info ls = 2"
  using replays_reach_bound [OF sample_accept sample_unconfirmed] by (metis one_add_one)



text \<open>Replays are spaced: a replay never happens before its instant, which is the retry offset after
  the request for the first one and the offset times the number of the replay after the previous
  replay of the same transaction for the others.\<close>

theorem replays_spaced:
  assumes "tx_run env (tx_pipeline_new dc now) ls s" and "tx_step env s (Replayed t r) s'"
  shows "(rp_replay_count r = 0 \<and> (\<exists>t0. Accepted t0 (rp_transaction r) (rp_max_replay r) \<in> set ls \<and>
      t0 + tv_retry_offset env \<le> t)) \<or>
    (\<exists>t0 r0. Replayed t0 r0 \<in> set ls \<and> rp_transaction r0 = rp_transaction r \<and>
      rp_replay_count r = Suc (rp_replay_count r0) \<and>
      t0 + tv_mul_f32 env (tv_retry_offset env) (rp_replay_count r) \<le> t)"
proof -
  have "schedule_ok env ls s"
    using tx_run_schedule [OF assms(1)]
    by (simp add: tx_pipeline_new_def schedule_ok_def pending_replays_def)
  then have "scheduled_by env ls r" "rp_replay_at r \<le> t"
    using tx_step_replayed [OF assms(2)] by (auto simp: schedule_ok_def)
  then show ?thesis unfolding scheduled_by_def by metis
qed

lemma replays_spaced_witness:
  "\<exists>s r s'. tx_step sample_tx_env s (Replayed 10 r) s' \<and> rp_transaction r = sample_info"
proof -
  let ?s1 = "enqueue_transaction sample_tx_env sample_info 1 (tx_pipeline_new sample_cache 0)"
  let ?s2 = "?s1\<lparr>tl_now := 10\<rparr>"
  let ?r = "\<lparr>rp_transaction = sample_info, rp_replay_count = 0, rp_max_replay = 1, rp_replay_at = 10\<rparr>"
  have c: "tx_step sample_tx_env ?s1 Silent ?s2"
    using tx_step.Clock [of sample_tx_env ?s1 10]
    by (simp add: enqueue_transaction_def tx_pipeline_new_def Let_def)
  have r: "tx_run sample_tx_env (tx_pipeline_new sample_cache 0) [Accepted 0 sample_info 1, Silent] ?s2"
    by (intro tx_run_step [OF sample_accept] tx_run_step [OF c] tx_run.Start)
  have q: "tl_replay_channel ?s2 = [?r]" "tl_sleeping ?s2 = None" "tl_replayer_running ?s2"
    by (simp_all add: enqueue_transaction_def tx_pipeline_new_def Let_def sample_tx_env_def)
  have "fst (replayer_receive sample_tx_env ?r (?s2\<lparr>tl_replay_channel := []\<rparr>)) = Replayed 10 ?r"
    using sample_unconfirmed
    by (simp add: replayer_receive_def replay_transaction_def enqueue_transaction_def tx_pipeline_new_def Let_def)
  then obtain s' where "tx_step sample_tx_env ?s2 (Replayed 10 ?r) s'"
    using tx_step.Receive [OF q(3,2,1)] by (metis prod.collapse)
  with replays_spaced [OF r this] show ?thesis
    by (intro exI [of _ ?s2] exI [of _ ?r] exI [of _ s']) simp
qed


definition confirmed_sample_cache :: data_cache where
  "confirmed_sample_cache = fst (cache_step (\<lambda>_. []) (\<lambda>_. None) (\<lambda>_. False) 10
     (forward_txs sample_info sample_cache) (BlockReceived (sample_produced [sample_transaction 77])))"

lemma forwarded_inv: "data_cache_inv dc \<Longrightarrow> data_cache_inv (forward_txs info dc)"
  by (simp add: data_cache_inv_def forward_txs_def tx_insert_def inv_intros)

lemma confirmed_sample:
  "data_cache_inv confirmed_sample_cache" "is_transaction_confirmed (dc_txs confirmed_sample_cache) 77"
  "tx_get (dc_txs confirmed_sample_cache) 77 = Some p \<Longrightarrow> 305 \<le> tp_last_valid_blockheight p"
proof -
  show "data_cache_inv confirmed_sample_cache"
    by (simp add: confirmed_sample_cache_def cache_block_inv forwarded_inv sample_cache_inv)
  show "is_transaction_confirmed (dc_txs confirmed_sample_cache) 77"
    by code_simp
  have "map_option tp_last_valid_blockheight (tx_get (dc_txs confirmed_sample_cache) 77) = Some 305"
    by code_simp
  then show "tx_get (dc_txs confirmed_sample_cache) 77 = Some p \<Longrightarrow> 305 \<le> tp_last_valid_blockheight p"
    by auto
qed


text \<open>Sending a transaction again forgets that it was confirmed: forwarding replaces the entry of the
  transaction store by one without status, so a confirmed transaction that has not expired counts
  as unconfirmed and is replayed.\<close>

theorem resend_forgets_confirmation:
  assumes "tx_step env s (Forwarded t info) s'"
    and "get_last_blockheight (dc_block_information_store (tl_cache s)) \<le> st_last_valid_block_height info"
  shows "\<not> check_if_confirmed_or_expired_blockheight (tl_cache s') info"
proof -
  have "tl_cache s' = forward_txs info (tl_cache s)"
    using assms(1)
    by (elim forwarded_stepE)
      (auto simp: replayer_receive_def replay_transaction_def split: if_splits)
  with assms(2) show ?thesis
    by (auto simp: check_if_confirmed_or_expired_blockheight_def forward_txs_def tx_insert_def
        is_transaction_confirmed_def hm_get_hm_put)
qed

lemma resend_forgets_confirmation_witness:
  "is_transaction_confirmed (dc_txs confirmed_sample_cache) 77 \<and>
   (\<exists>s s'. tl_cache s = confirmed_sample_cache \<and> tx_step sample_tx_env s (Forwarded 0 sample_info) s' \<and>
     \<not> check_if_confirmed_or_expired_blockheight (tl_cache s') sample_info)"
proof -
  let ?s = "(tx_pipeline_new confirmed_sample_cache 0)\<lparr>tl_transaction_channel := [sample_info]\<rparr>"
  obtain s' where f: "tx_step sample_tx_env ?s (Forwarded 0 sample_info) s'"
    using tx_step.Forward [of ?s sample_info "[]" sample_tx_env] by (auto simp: tx_pipeline_new_def)
  have "get_last_blockheight (dc_block_information_store confirmed_sample_cache) \<le> 305" by code_simp
  then have "get_last_blockheight (dc_block_information_store (tl_cache ?s)) \<le> st_last_valid_block_height sample_info"
    by (simp add: tx_pipeline_new_def sample_info_def)
  from resend_forgets_confirmation [OF f this] f confirmed_sample(2) show ?thesis
    by (intro conjI exI [of _ ?s] exI [of _ s']) (simp_all add: tx_pipeline_new_def)
qed

text \<open>A request is accepted exactly when it decodes to a signed transaction whose block hash is known
  and not expired, whose instructions name static keys, and the sender still runs; a refused
  request changes nothing; and a request panics only on a transaction without signatures or with
  an instruction whose program is not a static key.\<close>

theorem requests_handled:
  "(send_wire_transaction env s raw_tx mr = Inr (s', Inr sig_str) \<longleftrightarrow>
     (\<exists>info. check_wire_transaction env (dc_block_information_store (tl_cache s)) raw_tx = Inr (Inr info) \<and>
       tl_sender_running s \<and> s' = enqueue_transaction env info (unwrap_or mr (tv_max_retries env)) s \<and>
       sig_str = tv_signature_string env (st_signature info))) \<and>
   (check_wire_transaction env store raw_tx = Inr (Inr info) \<longleftrightarrow>
     (\<exists>tx b rest fee. tv_deserialize env raw_tx = Inr tx \<and>
       vt_signatures tx = st_signature info # rest \<and>
       get_block_info store (mc_recent_blockhash (message_core_of (vt_message tx))) = Some b \<and>
       get_last_blockheight store \<le> bn_last_valid_blockheight b \<and>
       transaction_prioritization_fee env (mc_account_keys (message_core_of (vt_message tx))) (mc_instructions (message_core_of (vt_message tx))) 0 = Inr fee \<and>
       info = \<lparr>st_signature = st_signature info, st_slot = bn_slot b, st_transaction = raw_tx,
         st_last_valid_block_height = bn_last_valid_blockheight b, st_prioritization_fee = fee\<rparr>)) \<and>
   (send_wire_transaction env s raw_tx mr = Inr (s', Inl err) \<longrightarrow> s' = s) \<and>
   (send_wire_transaction env s raw_tx mr = Inl p \<longrightarrow>
     (\<exists>tx. tv_deserialize env raw_tx = Inr tx \<and> (vt_signatures tx = [] \<or>
       (\<exists>ix \<in> set (mc_instructions (message_core_of (vt_message tx))). length (mc_account_keys (message_core_of (vt_message tx))) \<le> unat (ix_program_id_index ix)))))"
  (is "?A \<and> ?B \<and> ?C \<and> ?D")
proof (intro conjI)
  show ?A by (rule send_wire_accepts)
  show ?C
    by (cases "check_wire_transaction env (dc_block_information_store (tl_cache s)) raw_tx")
      (auto simp: send_wire_transaction_def split: sum.splits if_splits)
  show ?B by (rule check_wire_accepts)
  show ?D
    using check_wire_panics [of env "dc_block_information_store (tl_cache s)" raw_tx p]
    by (cases "check_wire_transaction env (dc_block_information_store (tl_cache s)) raw_tx")
      (auto simp: send_wire_transaction_def)
qed

lemma requests_handled_witness:
  "\<exists>s'. send_wire_transaction sample_tx_env (tx_pipeline_new sample_cache 0) [1] None = Inr (s', Inr ''sig'')"
  using requests_handled [of sample_tx_env "tx_pipeline_new sample_cache 0" "[1]" None _ "''sig''"]
    sample_checked by (auto simp: tx_pipeline_new_def sample_tx_env_def)

end
