(* ===== verification/Block_Mapping.thy ===== *)
theory Block_Mapping
  imports Core_Data
begin

text \<open>
  The two mappings of a block of the cluster to \<open>ProducedBlock\<close>: \<open>from_grpc_block_update\<close> of
  \<open>cluster-endpoints/src/grpc_subscription.rs\<close> and \<open>from_ui_block\<close> of
  \<open>rpc_polling/poll_blocks.rs\<close>, with \<open>hash_from_str\<close> of \<open>core/src/solana_utils.rs\<close>.  Base58, the
  decoders of errors and instructions and the SDK's \<open>is_maybe_writable\<close> are arguments.
\<close>

section \<open>The SDK\<close>

record block_env =
  be_bs58_decode :: "string \<Rightarrow> u8 list option"
  be_transaction_error :: "u8 list \<Rightarrow> wire option"
  be_compute_budget :: "u8 list \<Rightarrow> compute_budget_instruction option"
  be_is_simple_vote :: "u8 list \<Rightarrow> bool"
  be_is_maybe_writable :: "versioned_message \<Rightarrow> nat \<Rightarrow> bool"
  be_compute_budget_id :: pubkey
  be_vote_id :: pubkey

text \<open>Hashes, keys and signatures are read from exactly as many bytes as they have.\<close>

definition word_of_bytes :: "nat \<Rightarrow> u8 list \<Rightarrow> 'a::len word option" where
  "word_of_bytes n bytes = (if length bytes = n then Some (word_rcat bytes) else None)"

definition expect :: "string \<Rightarrow> 'a option \<Rightarrow> 'a outcome" where
  "expect msg x = (case x of None \<Rightarrow> Inl (ExplicitPanic msg) | Some a \<Rightarrow> Inr a)"

lemma expect_simps [simp]:
  "expect msg (Some a) = Inr a" "expect msg None = Inl (ExplicitPanic msg)"
  "expect msg x = Inr a \<longleftrightarrow> x = Some a"
  by (cases x; simp add: expect_def)+

datatype parse_hash_error = WrongSize | InvalidHash

definition hash_from_str :: "block_env \<Rightarrow> string \<Rightarrow> parse_hash_error + hash" where
  "hash_from_str env s =
     (if length s > 44 then Inl WrongSize
      else case be_bs58_decode env s of
             None \<Rightarrow> Inl InvalidHash
           | Some bytes \<Rightarrow> if length bytes \<noteq> 32 then Inl WrongSize else Inr (word_rcat bytes))"

definition expect_hash :: "block_env \<Rightarrow> string \<Rightarrow> hash outcome" where
  "expect_hash env s =
     (case hash_from_str env s of Inl _ \<Rightarrow> Inl (ExplicitPanic ''valid blockhash'') | Inr h \<Rightarrow> Inr h)"

text \<open>\<open>map\<close> and \<open>filter_map\<close> with a body that can panic.\<close>

fun map_outcome :: "('a \<Rightarrow> 'b outcome) \<Rightarrow> 'a list \<Rightarrow> 'b list outcome" where
  "map_outcome f [] = Inr []"
| "map_outcome f (x # xs) = bind_outcome (f x) (\<lambda>y. bind_outcome (map_outcome f xs) (\<lambda>ys. Inr (y # ys)))"

lemma map_outcome_map: "map_outcome f (List.map g xs) = map_outcome (\<lambda>x. f (g x)) xs"
  by (induction xs) simp_all

lemma map_outcome_Inr: "(\<And>x. x \<in> set xs \<Longrightarrow> f x = Inr (g x)) \<Longrightarrow> map_outcome f xs = Inr (List.map g xs)"
  by (induction xs) simp_all

lemma map_outcome_mem:
  "map_outcome f xs = Inr ys \<Longrightarrow> x \<in> set xs \<Longrightarrow> \<exists>y \<in> set ys. f x = Inr y"
  by (induction xs arbitrary: ys) auto

fun filter_map_outcome :: "('a \<Rightarrow> 'b option outcome) \<Rightarrow> 'a list \<Rightarrow> 'b list outcome" where
  "filter_map_outcome f [] = Inr []"
| "filter_map_outcome f (x # xs) =
     bind_outcome (f x) (\<lambda>y. bind_outcome (filter_map_outcome f xs) (\<lambda>ys.
       Inr (case y of None \<Rightarrow> ys | Some z \<Rightarrow> z # ys)))"

section \<open>Parts both mappings share\<close>

fun any_simple_vote :: "block_env \<Rightarrow> pubkey list \<Rightarrow> compiled_instruction list \<Rightarrow> bool outcome" where
  "any_simple_vote env keys [] = Inr False"
| "any_simple_vote env keys (ix # ixs) =
     bind_outcome (instruction_program keys ix) (\<lambda>pid.
       if pid = be_vote_id env \<and> be_is_simple_vote env (ix_data ix) then Inr True
       else any_simple_vote env keys ixs)"

definition accounts_where :: "(nat \<Rightarrow> bool) \<Rightarrow> pubkey list \<Rightarrow> pubkey list" where
  "accounts_where p keys = List.map snd (filter (\<lambda>(i, _). p i) (List.enumerate 0 keys))"

definition leader_of_rewards :: "reward list option \<Rightarrow> string option" where
  "leader_of_rewards rewards =
     (case rewards of
        None \<Rightarrow> None
      | Some rs \<Rightarrow> map_option rw_pubkey (List.find (\<lambda>r. rw_reward_type r = Some RewardFee) rs))"

section \<open>Blocks from gRPC\<close>

record grpc_instruction =
  gi_program_id_index :: u32
  gi_accounts :: "u8 list"
  gi_data :: "u8 list"

record grpc_lookup =
  gl_account_key :: "u8 list"
  gl_writable_indexes :: "u8 list"
  gl_readonly_indexes :: "u8 list"

record grpc_header =
  gh_num_required_signatures :: u32
  gh_num_readonly_signed_accounts :: u32
  gh_num_readonly_unsigned_accounts :: u32

record grpc_message =
  gm_header :: "grpc_header option"
  gm_account_keys :: "u8 list list"
  gm_recent_blockhash :: "u8 list"
  gm_instructions :: "grpc_instruction list"
  gm_address_table_lookups :: "grpc_lookup list"

record grpc_meta =
  gt_err :: "u8 list option"
  gt_compute_units_consumed :: "u64 option"

text \<open>The transaction of a message is itself optional, as is its message.\<close>

record grpc_transaction =
  gt_signature :: "u8 list"
  gt_transaction :: "grpc_message option option"
  gt_meta :: "grpc_meta option"

datatype grpc_reward_type = GrpcUnspecified | GrpcFee | GrpcRent | GrpcStaking | GrpcVoting

record grpc_reward =
  gr_pubkey :: string
  gr_lamports :: "64 word"
  gr_post_balance :: u64
  gr_reward_type :: grpc_reward_type

record grpc_block =
  gb_slot :: slot
  gb_blockhash :: string
  gb_rewards :: "grpc_reward list option"
  gb_block_time :: "64 word option"
  gb_block_height :: "u64 option"
  gb_transactions :: "grpc_transaction list"
  gb_parent_slot :: slot
  gb_parent_blockhash :: string

fun map_reward_type :: "grpc_reward_type \<Rightarrow> reward_type option" where
  "map_reward_type GrpcUnspecified = None"
| "map_reward_type GrpcFee = Some RewardFee"
| "map_reward_type GrpcRent = Some RewardRent"
| "map_reward_type GrpcStaking = Some RewardStaking"
| "map_reward_type GrpcVoting = Some RewardVoting"

definition map_reward :: "grpc_reward \<Rightarrow> reward" where
  "map_reward r = \<lparr>rw_pubkey = gr_pubkey r, rw_lamports = gr_lamports r,
     rw_post_balance = gr_post_balance r, rw_reward_type = map_reward_type (gr_reward_type r),
     rw_commission = None\<rparr>"

definition map_lookup :: "grpc_lookup \<Rightarrow> lookup_message outcome" where
  "map_lookup l =
     bind_outcome (expect ''must map to pubkey'' (word_of_bytes 32 (gl_account_key l))) (\<lambda>key.
       Inr \<lparr>lm_account_key = key, lm_writable_indexes = gl_writable_indexes l,
            lm_readonly_indexes = gl_readonly_indexes l\<rparr>)"

definition map_instruction :: "grpc_instruction \<Rightarrow> compiled_instruction" where
  "map_instruction ix = \<lparr>ix_program_id_index = ucast (gi_program_id_index ix),
     ix_accounts = gi_accounts ix, ix_data = gi_data ix\<rparr>"

definition map_grpc_message :: "grpc_header \<Rightarrow> grpc_message \<Rightarrow> versioned_message outcome" where
  "map_grpc_message h m =
     bind_outcome (map_outcome (\<lambda>k. expect ''must map to pubkey'' (word_of_bytes 32 k)) (gm_account_keys m)) (\<lambda>keys.
     bind_outcome (case word_of_bytes 32 (gm_recent_blockhash m) of None \<Rightarrow> Inl UnwrapNone | Some b \<Rightarrow> Inr b) (\<lambda>hash.
     bind_outcome (map_outcome map_lookup (gm_address_table_lookups m)) (\<lambda>lookups.
       Inr (MessageV0
         \<lparr>mc_header = \<lparr>mh_num_required_signatures = ucast (gh_num_required_signatures h),
            mh_num_readonly_signed_accounts = ucast (gh_num_readonly_signed_accounts h),
            mh_num_readonly_unsigned_accounts = ucast (gh_num_readonly_unsigned_accounts h)\<rparr>,
          mc_account_keys = keys, mc_recent_blockhash = hash,
          mc_instructions = List.map map_instruction (gm_instructions m)\<rparr> lookups))))"

text \<open>Each of the two values may be set once.\<close>

fun map_compute_budget_instructions ::
    "block_env \<Rightarrow> pubkey list \<Rightarrow> compiled_instruction list \<Rightarrow> u32 option \<Rightarrow> u64 option \<Rightarrow>
     (u32 option \<times> u64 option) outcome" where
  "map_compute_budget_instructions env keys [] cu fees = Inr (cu, fees)"
| "map_compute_budget_instructions env keys (ix # ixs) cu fees =
     bind_outcome (instruction_program keys ix) (\<lambda>pid.
       if pid = be_compute_budget_id env then
         (case be_compute_budget env (ix_data ix) of
            Some (SetComputeUnitLimit limit) \<Rightarrow>
              if cu \<noteq> None then Inl (ExplicitPanic ''cu_limit must be set only once'')
              else map_compute_budget_instructions env keys ixs (Some limit) fees
          | Some (SetComputeUnitPrice price) \<Rightarrow>
              if fees \<noteq> None then Inl (ExplicitPanic ''prioritization_fees must be set only once'')
              else map_compute_budget_instructions env keys ixs cu (Some price)
          | _ \<Rightarrow> map_compute_budget_instructions env keys ixs cu fees)
       else map_compute_budget_instructions env keys ixs cu fees)"

definition from_grpc_transaction :: "block_env \<Rightarrow> grpc_transaction \<Rightarrow> transaction_info option outcome" where
  "from_grpc_transaction env tx =
     (case (gt_meta tx, gt_transaction tx) of
        (Some meta, Some (Some message)) \<Rightarrow>
          (case gm_header message of
             None \<Rightarrow> Inr None
           | Some header \<Rightarrow>
               bind_outcome (expect ''must map to signature'' (word_of_bytes 64 (gt_signature tx))) (\<lambda>signature.
               bind_outcome (case gt_err meta of
                    None \<Rightarrow> Inr None
                  | Some e \<Rightarrow> bind_outcome (expect ''TransactionError should be deserialized''
                      (be_transaction_error env e)) (\<lambda>err. Inr (Some err))) (\<lambda>err.
               bind_outcome (map_grpc_message header message) (\<lambda>m.
                 (let keys = mc_account_keys (message_core_of m);
                      ixs = mc_instructions (message_core_of m)
                  in bind_outcome (map_compute_budget_instructions env keys ixs None None) (\<lambda>(cu, fees).
                     bind_outcome (any_simple_vote env keys ixs) (\<lambda>vote.
                       Inr (Some \<lparr>ti_signature = signature, ti_is_vote = vote, ti_err = err,
                         ti_cu_requested = cu, ti_prioritization_fees = fees,
                         ti_cu_consumed = gt_compute_units_consumed meta,
                         ti_recent_blockhash = mc_recent_blockhash (message_core_of m), ti_message = m,
                         ti_writable_accounts = accounts_where (be_is_maybe_writable env m) keys,
                         ti_readable_accounts = accounts_where (Not \<circ> be_is_maybe_writable env m) keys,
                         ti_address_lookup_tables = unwrap_or (address_table_lookups m) []\<rparr>))))))))
      | _ \<Rightarrow> Inr None)"

definition from_grpc_block_update :: "block_env \<Rightarrow> grpc_block \<Rightarrow> commitment_config \<Rightarrow> produced_block outcome" where
  "from_grpc_block_update env b c =
     bind_outcome (filter_map_outcome (from_grpc_transaction env) (gb_transactions b)) (\<lambda>txs.
       (let rewards = map_option (List.map map_reward) (gb_rewards b)
        in case (gb_block_height b, gb_block_time b) of
             (Some height, Some time) \<Rightarrow>
               bind_outcome (expect_hash env (gb_blockhash b)) (\<lambda>blockhash.
               bind_outcome (expect_hash env (gb_parent_blockhash b)) (\<lambda>previous.
                 Inr \<lparr>pb_transactions = txs, pb_leader_id = leader_of_rewards rewards,
                   pb_blockhash = blockhash, pb_block_height = height, pb_slot = gb_slot b,
                   pb_parent_slot = gb_parent_slot b, pb_block_time = time,
                   pb_previous_blockhash = previous, pb_rewards = rewards,
                   pb_commitment_config = c\<rparr>))
           | _ \<Rightarrow> Inl UnwrapNone))"

section \<open>Blocks from RPC\<close>

datatype option_serializer = SerializeSome u64 | SerializeNone | SerializeSkip

record ui_meta =
  um_err :: "wire option"
  um_compute_units_consumed :: option_serializer

text \<open>\<open>ut_decoded\<close> is what \<open>EncodedTransaction::decode\<close> returns.\<close>

record ui_transaction =
  ut_meta :: "ui_meta option"
  ut_decoded :: "versioned_transaction option"

record ui_block =
  ub_previous_blockhash :: string
  ub_blockhash :: string
  ub_parent_slot :: slot
  ub_transactions :: "ui_transaction list option"
  ub_rewards :: "reward list option"
  ub_block_time :: "64 word option"
  ub_block_height :: "u64 option"

fun find_budget ::
    "block_env \<Rightarrow> (compute_budget_instruction \<Rightarrow> 'a option) \<Rightarrow> pubkey list \<Rightarrow> compiled_instruction list \<Rightarrow>
     'a option outcome" where
  "find_budget env f keys [] = Inr None"
| "find_budget env f keys (ix # ixs) =
     bind_outcome (instruction_program keys ix) (\<lambda>pid.
       case (if pid = be_compute_budget_id env
             then Option.bind (be_compute_budget env (ix_data ix)) f else None) of
         Some v \<Rightarrow> Inr (Some v)
       | None \<Rightarrow> find_budget env f keys ixs)"

fun limit_of :: "compute_budget_instruction \<Rightarrow> u32 option" where
  "limit_of (SetComputeUnitLimit limit) = Some limit"
| "limit_of _ = None"

fun price_of :: "compute_budget_instruction \<Rightarrow> u64 option" where
  "price_of (SetComputeUnitPrice price) = Some price"
| "price_of _ = None"

definition from_ui_transaction :: "block_env \<Rightarrow> ui_transaction \<Rightarrow> transaction_info option outcome" where
  "from_ui_transaction env t =
     (case (ut_meta t, ut_decoded t) of
        (Some meta, Some tx) \<Rightarrow>
          (let m = vt_message tx; keys = mc_account_keys (message_core_of m);
               ixs = mc_instructions (message_core_of m)
           in bind_outcome (index_checked (vt_signatures tx) 0) (\<lambda>signature.
              bind_outcome (find_budget env limit_of keys ixs) (\<lambda>cu.
              bind_outcome (find_budget env price_of keys ixs) (\<lambda>fees.
              bind_outcome (any_simple_vote env keys ixs) (\<lambda>vote.
                Inr (Some \<lparr>ti_signature = signature, ti_is_vote = vote, ti_err = um_err meta,
                  ti_cu_requested = cu, ti_prioritization_fees = fees,
                  ti_cu_consumed = (case um_compute_units_consumed meta of SerializeSome n \<Rightarrow> Some n | _ \<Rightarrow> None),
                  ti_recent_blockhash = mc_recent_blockhash (message_core_of m), ti_message = m,
                  ti_writable_accounts = accounts_where (be_is_maybe_writable env m) keys,
                  ti_readable_accounts = accounts_where (Not \<circ> be_is_maybe_writable env m) keys,
                  ti_address_lookup_tables = unwrap_or (address_table_lookups m) []\<rparr>))))))
      | _ \<Rightarrow> Inr None)"

definition from_ui_block :: "block_env \<Rightarrow> ui_block \<Rightarrow> slot \<Rightarrow> commitment_config \<Rightarrow> produced_block outcome" where
  "from_ui_block env b sl c =
     bind_outcome (expect_hash env (ub_blockhash b)) (\<lambda>blockhash.
     bind_outcome (expect_hash env (ub_previous_blockhash b)) (\<lambda>previous.
     bind_outcome (filter_map_outcome (from_ui_transaction env) (unwrap_or (ub_transactions b) [])) (\<lambda>txs.
       Inr \<lparr>pb_transactions = txs, pb_leader_id = leader_of_rewards (ub_rewards b),
         pb_blockhash = blockhash, pb_block_height = unwrap_or (ub_block_height b) 0, pb_slot = sl,
         pb_parent_slot = ub_parent_slot b, pb_block_time = unwrap_or (ub_block_time b) 0,
         pb_previous_blockhash = previous, pb_rewards = ub_rewards b, pb_commitment_config = c\<rparr>)))"

definition map_block_info :: "produced_block \<Rightarrow> block_info" where
  "map_block_info b = \<lparr>bi_slot = pb_slot b, bi_parent = pb_parent_slot b,
     bi_block_height = pb_block_height b, bi_blockhash = pb_blockhash b,
     bi_commitment_config = pb_commitment_config b, bi_block_time = pb_block_time b\<rparr>"

section \<open>The two mappings agree\<close>

text \<open>
  A gRPC transaction and an RPC transaction of the same block: the decoded message is the one the
  gRPC fields stand for, with the same signature, error and compute units.
\<close>

definition same_transaction :: "block_env \<Rightarrow> grpc_transaction \<Rightarrow> ui_transaction \<Rightarrow> bool" where
  "same_transaction env g u \<longleftrightarrow>
     (\<exists>meta message header um tx.
        gt_meta g = Some meta \<and> gt_transaction g = Some (Some message) \<and> gm_header message = Some header \<and>
        ut_meta u = Some um \<and> ut_decoded u = Some tx \<and> vt_signatures tx \<noteq> [] \<and>
        word_of_bytes 64 (gt_signature g) = Some (hd (vt_signatures tx)) \<and>
        map_grpc_message header message = Inr (vt_message tx) \<and>
        Option.bind (gt_err meta) (be_transaction_error env) = um_err um \<and>
        gt_compute_units_consumed meta =
          (case um_compute_units_consumed um of SerializeSome n \<Rightarrow> Some n | _ \<Rightarrow> None))"

definition without_commissions :: "produced_block \<Rightarrow> produced_block" where
  "without_commissions b =
     b\<lparr>pb_rewards := map_option (List.map (\<lambda>r. r\<lparr>rw_commission := None\<rparr>)) (pb_rewards b)\<rparr>"

definition same_block :: "block_env \<Rightarrow> grpc_block \<Rightarrow> ui_block \<Rightarrow> bool" where
  "same_block env g u \<longleftrightarrow>
     list_all2 (same_transaction env) (gb_transactions g) (unwrap_or (ub_transactions u) []) \<and>
     ub_blockhash u = gb_blockhash g \<and> ub_previous_blockhash u = gb_parent_blockhash g \<and>
     ub_parent_slot u = gb_parent_slot g \<and> ub_block_time u = gb_block_time g \<and>
     ub_block_height u = gb_block_height g \<and>
     map_option (List.map (\<lambda>r. r\<lparr>rw_commission := None\<rparr>)) (ub_rewards u) =
       map_option (List.map map_reward) (gb_rewards g)"

lemma budgets_found:
  assumes "map_compute_budget_instructions env keys ixs cu fees = Inr (cu', fees')"
  shows "(cu = None \<longrightarrow> find_budget env limit_of keys ixs = Inr cu') \<and>
    (fees = None \<longrightarrow> find_budget env price_of keys ixs = Inr fees') \<and>
    (cu \<noteq> None \<longrightarrow> cu' = cu) \<and> (fees \<noteq> None \<longrightarrow> fees' = fees)"
  using assms
proof (induction ixs arbitrary: cu fees)
  case (Cons ix ixs)
  obtain pid where pid: "instruction_program keys ix = Inr pid"
    using Cons.prems by (cases "instruction_program keys ix") auto
  show ?case
  proof (cases "pid = be_compute_budget_id env")
    case False
    with Cons.prems Cons.IH [of cu fees] show ?thesis by (simp add: pid)
  next
    case True
    note budget = this
    show ?thesis
    proof (cases "be_compute_budget env (ix_data ix)")
      case None
      with Cons.prems Cons.IH [of cu fees] show ?thesis by (simp add: pid budget)
    next
      case (Some cb)
      show ?thesis
      proof (cases cb)
        case (SetComputeUnitLimit limit)
        then show ?thesis
          using Cons.prems Cons.IH [of "Some limit" fees] by (auto simp: pid budget Some split: if_splits)
      next
        case (SetComputeUnitPrice price)
        then show ?thesis
          using Cons.prems Cons.IH [of cu "Some price"] by (auto simp: pid budget Some split: if_splits)
      next
        case OtherComputeBudget
        then show ?thesis using Cons.prems Cons.IH [of cu fees] by (simp add: pid budget Some)
      qed
    qed
  qed
qed simp

lemma same_transaction_maps:
  assumes "same_transaction env g u" and "from_grpc_transaction env g = Inr t"
  shows "from_ui_transaction env u = Inr t"
proof -
  obtain meta message header um tx where f:
      "gt_meta g = Some meta" "gt_transaction g = Some (Some message)" "gm_header message = Some header"
      "ut_meta u = Some um" "ut_decoded u = Some tx" "vt_signatures tx \<noteq> []"
      "word_of_bytes 64 (gt_signature g) = Some (hd (vt_signatures tx))"
      "map_grpc_message header message = Inr (vt_message tx)"
      "Option.bind (gt_err meta) (be_transaction_error env) = um_err um"
      "gt_compute_units_consumed meta =
        (case um_compute_units_consumed um of SerializeSome n \<Rightarrow> Some n | _ \<Rightarrow> None)"
    using assms(1) by (auto simp: same_transaction_def)
  let ?keys = "mc_account_keys (message_core_of (vt_message tx))"
  let ?ixs = "mc_instructions (message_core_of (vt_message tx))"
  have sig: "index_checked (vt_signatures tx) 0 = Inr (hd (vt_signatures tx))"
    using f(6) by (cases "vt_signatures tx") (simp_all add: index_checked_def)
  have err: "(case gt_err meta of None \<Rightarrow> Inr None
      | Some e \<Rightarrow> bind_outcome (expect ''TransactionError should be deserialized''
          (be_transaction_error env e)) (\<lambda>err. Inr (Some err))) = Inr e \<Longrightarrow> e = um_err um" for e
    using f(9) by (cases "gt_err meta") auto
  obtain cu fees where b: "map_compute_budget_instructions env ?keys ?ixs None None = Inr (cu, fees)"
    using assms(2) f by (auto simp: from_grpc_transaction_def Let_def split: prod.splits)
  obtain vote where v: "any_simple_vote env ?keys ?ixs = Inr vote"
    using assms(2) f b by (auto simp: from_grpc_transaction_def Let_def)
  show ?thesis
    using assms(2) f budgets_found [OF b] v b err
    by (auto simp: from_grpc_transaction_def from_ui_transaction_def Let_def sig)
qed

lemma same_transactions_map:
  "list_all2 (same_transaction env) gs us \<Longrightarrow>
   filter_map_outcome (from_grpc_transaction env) gs = Inr ts \<Longrightarrow>
   filter_map_outcome (from_ui_transaction env) us = Inr ts"
proof (induction gs us arbitrary: ts rule: list_all2_induct)
  case (Cons g gs u us)
  obtain t ts' where t: "from_grpc_transaction env g = Inr t"
      "filter_map_outcome (from_grpc_transaction env) gs = Inr ts'"
      "ts = (case t of None \<Rightarrow> ts' | Some z \<Rightarrow> z # ts')"
    using Cons.prems by auto
  from same_transaction_maps [OF Cons.hyps(1) t(1)] Cons.IH [OF t(2)] t(3) show ?case by simp
qed simp

lemma leader_without_commissions:
  "leader_of_rewards (map_option (List.map (\<lambda>r. r\<lparr>rw_commission := None\<rparr>)) rewards) = leader_of_rewards rewards"
proof (cases rewards)
  case (Some rs)
  have "map_option rw_pubkey (List.find (\<lambda>r. rw_reward_type r = Some RewardFee)
      (List.map (\<lambda>r. r\<lparr>rw_commission := None\<rparr>) rs)) =
    map_option rw_pubkey (List.find (\<lambda>r. rw_reward_type r = Some RewardFee) rs)"
    by (induction rs) auto
  with Some show ?thesis by (simp add: leader_of_rewards_def)
qed simp

section \<open>Properties\<close>


definition sample_block_env :: block_env where
  "sample_block_env = \<lparr>be_bs58_decode = (\<lambda>s. if s = [] then None else Some (replicate 32 1)),
     be_transaction_error = (\<lambda>bytes. Some bytes), be_compute_budget = (\<lambda>_. Some (SetComputeUnitPrice 9)),
     be_is_simple_vote = (\<lambda>_. False), be_is_maybe_writable = (\<lambda>_ i. i = 0),
     be_compute_budget_id = word_rcat (replicate 32 (5::u8)), be_vote_id = 0\<rparr>"

definition sample_grpc_block :: grpc_block where
  "sample_grpc_block = \<lparr>gb_slot = 4, gb_blockhash = ''h'',
     gb_rewards = Some [\<lparr>gr_pubkey = ''leader'', gr_lamports = 5, gr_post_balance = 9, gr_reward_type = GrpcFee\<rparr>],
     gb_block_time = Some 7, gb_block_height = Some 3,
     gb_transactions = [\<lparr>gt_signature = replicate 64 2,
       gt_transaction = Some (Some \<lparr>gm_header = Some \<lparr>gh_num_required_signatures = 1,
           gh_num_readonly_signed_accounts = 0, gh_num_readonly_unsigned_accounts = 0\<rparr>,
         gm_account_keys = [replicate 32 5], gm_recent_blockhash = replicate 32 3,
         gm_instructions = [\<lparr>gi_program_id_index = 0, gi_accounts = [], gi_data = [1]\<rparr>],
         gm_address_table_lookups = []\<rparr>),
       gt_meta = Some \<lparr>gt_err = None, gt_compute_units_consumed = Some 100\<rparr>\<rparr>],
     gb_parent_slot = 3, gb_parent_blockhash = ''g''\<rparr>"

definition sample_ui_block :: ui_block where
  "sample_ui_block = \<lparr>ub_previous_blockhash = ''g'', ub_blockhash = ''h'', ub_parent_slot = 3,
     ub_transactions = Some [\<lparr>ut_meta = Some \<lparr>um_err = None, um_compute_units_consumed = SerializeSome 100\<rparr>,
       ut_decoded = Some \<lparr>vt_signatures = [word_rcat (replicate 64 (2::u8))], vt_message = MessageV0
         \<lparr>mc_header = \<lparr>mh_num_required_signatures = 1, mh_num_readonly_signed_accounts = 0,
            mh_num_readonly_unsigned_accounts = 0\<rparr>,
          mc_account_keys = [word_rcat (replicate 32 (5::u8))],
          mc_recent_blockhash = word_rcat (replicate 32 (3::u8)),
          mc_instructions = [\<lparr>ix_program_id_index = 0, ix_accounts = [], ix_data = [1]\<rparr>]\<rparr> []\<rparr>\<rparr>],
     ub_rewards = Some [\<lparr>rw_pubkey = ''leader'', rw_lamports = 5, rw_post_balance = 9,
       rw_reward_type = Some RewardFee, rw_commission = Some 4\<rparr>],
     ub_block_time = Some 7, ub_block_height = Some 3\<rparr>"


end
