(* ===== verification/Grpc_Multiplex.thy ===== *)
theory Grpc_Multiplex
  imports Block_Mapping Key_Maps
begin

text \<open>
  \<open>cluster-endpoints/src/grpc_multiplex.rs\<close>: the streams of several gRPC sources merged into one
  stream of blocks, of block infos per commitment level and of slots, and the task that emits a
  block again when its confirmation and its finalization are seen.  The autoconnecting
  subscriptions are outside; what reaches a task is the sequence of their messages in the order
  its channel delivers them, whichever source they come from.  Sending to a channel without
  receiver is only logged.
\<close>

section \<open>Messages of the sources\<close>

record block_meta =
  bm_slot :: slot
  bm_blockhash :: string
  bm_block_time :: "64 word option"
  bm_block_height :: "u64 option"
  bm_parent_slot :: slot

datatype yellowstone_update =
    UpdateSlot slot
  | UpdateBlockMeta block_meta
  | UpdateBlock grpc_block
  | UpdateOther

datatype stream_message =
    GeyserSubscribeUpdate "yellowstone_update option"
  | Connecting nat

fun extract_slot_from_yellowstone_update :: "yellowstone_update option \<Rightarrow> slot option" where
  "extract_slot_from_yellowstone_update (Some (UpdateSlot sl)) = Some sl"
| "extract_slot_from_yellowstone_update (Some (UpdateBlockMeta m)) = Some (bm_slot m)"
| "extract_slot_from_yellowstone_update (Some (UpdateBlock b)) = Some (gb_slot b)"
| "extract_slot_from_yellowstone_update _ = None"

fun map_slot_from_yellowstone_update :: "yellowstone_update option \<Rightarrow> slot option" where
  "map_slot_from_yellowstone_update (Some (UpdateSlot sl)) = Some sl"
| "map_slot_from_yellowstone_update _ = None"

fun map_block_from_yellowstone_update ::
    "block_env \<Rightarrow> yellowstone_update option \<Rightarrow> commitment_config \<Rightarrow> (slot \<times> produced_block) option outcome"
where
  "map_block_from_yellowstone_update env (Some (UpdateBlock b)) c =
     bind_outcome (from_grpc_block_update env b c) (\<lambda>block. Inr (Some (pb_slot block, block)))"
| "map_block_from_yellowstone_update env _ c = Inr None"

section \<open>Processed blocks\<close>

definition MAX_SIZE :: nat where
  "MAX_SIZE = 1024"

text \<open>The ordered set of the slots that were handled is an ascending list.\<close>

definition remember_slot :: "slot \<Rightarrow> slot list \<Rightarrow> slot list" where
  "remember_slot sl slots =
     (let slots' = insort_insert sl slots in if length slots' > MAX_SIZE then tl slots' else slots')"

definition first_or_default :: "slot list \<Rightarrow> slot" where
  "first_or_default slots = (case slots of [] \<Rightarrow> 0 | sl # _ \<Rightarrow> sl)"

definition multiplex_block_step ::
    "block_env \<Rightarrow> slot list \<Rightarrow> stream_message \<Rightarrow> (slot list \<times> produced_block option) outcome" where
  "multiplex_block_step env slots msg =
     (case msg of
        Connecting _ \<Rightarrow> Inr (slots, None)
      | GeyserSubscribeUpdate update \<Rightarrow>
          (case extract_slot_from_yellowstone_update update of
             None \<Rightarrow> Inr (slots, None)
           | Some sl \<Rightarrow>
               if sl \<in> set slots then Inr (slots, None)
               else if length slots \<ge> MAX_SIZE div 2 \<and> sl \<le> first_or_default slots then Inr (slots, None)
               else
                 bind_outcome (map_block_from_yellowstone_update env update processed_config) (\<lambda>r.
                   Inr (case r of
                      None \<Rightarrow> (slots, None)
                    | Some (_, block) \<Rightarrow> (remember_slot sl slots, Some block)))))"

fun multiplex_block_run ::
    "block_env \<Rightarrow> slot list \<Rightarrow> stream_message list \<Rightarrow> (slot list \<times> produced_block list) outcome" where
  "multiplex_block_run env slots [] = Inr (slots, [])"
| "multiplex_block_run env slots (msg # msgs) =
     bind_outcome (multiplex_block_step env slots msg) (\<lambda>(slots1, block).
     bind_outcome (multiplex_block_run env slots1 msgs) (\<lambda>(slots2, blocks).
       Inr (slots2, (case block of None \<Rightarrow> blocks | Some b \<Rightarrow> b # blocks))))"

section \<open>Block infos\<close>

definition block_info_of_meta :: "block_env \<Rightarrow> commitment_config \<Rightarrow> block_meta \<Rightarrow> block_info outcome" where
  "block_info_of_meta env c m =
     bind_outcome (expect ''block_height from geyser block meta'' (bm_block_height m)) (\<lambda>height.
     bind_outcome (expect_hash env (bm_blockhash m)) (\<lambda>blockhash.
     bind_outcome (expect ''block_time from geyser block meta'' (bm_block_time m)) (\<lambda>time.
       Inr \<lparr>bi_slot = bm_slot m, bi_parent = bm_parent_slot m, bi_block_height = height,
            bi_blockhash = blockhash, bi_commitment_config = c, bi_block_time = time\<rparr>)))"

definition multiplex_info_step ::
    "block_env \<Rightarrow> commitment_config \<Rightarrow> slot \<Rightarrow> stream_message \<Rightarrow> (slot \<times> block_info option) outcome" where
  "multiplex_info_step env c tip msg =
     (case msg of
        GeyserSubscribeUpdate (Some (UpdateBlockMeta m)) \<Rightarrow>
          if bm_slot m > tip
          then bind_outcome (block_info_of_meta env c m) (\<lambda>info. Inr (bm_slot m, Some info))
          else Inr (tip, None)
      | _ \<Rightarrow> Inr (tip, None))"

fun multiplex_info_run ::
    "block_env \<Rightarrow> commitment_config \<Rightarrow> slot \<Rightarrow> stream_message list \<Rightarrow> (slot \<times> block_info list) outcome" where
  "multiplex_info_run env c tip [] = Inr (tip, [])"
| "multiplex_info_run env c tip (msg # msgs) =
     bind_outcome (multiplex_info_step env c tip msg) (\<lambda>(tip1, info).
     bind_outcome (multiplex_info_run env c tip1 msgs) (\<lambda>(tip2, infos).
       Inr (tip2, (case info of None \<Rightarrow> infos | Some i \<Rightarrow> i # infos))))"

section \<open>Slots\<close>

text \<open>A closed channel or a timeout ends the inner loop, and the task starts again.\<close>

datatype slot_event = SlotMessage stream_message | SlotStreamEnded | SlotTimeout

definition multiplex_slot_step :: "slot \<Rightarrow> slot_event \<Rightarrow> slot \<times> slot_notification option" where
  "multiplex_slot_step last_slot e =
     (case e of
        SlotMessage (GeyserSubscribeUpdate update) \<Rightarrow>
          (case map_slot_from_yellowstone_update update of
             None \<Rightarrow> (last_slot, None)
           | Some sl \<Rightarrow>
               if last_slot > sl then (last_slot, None)
               else (sl, Some \<lparr>sn_processed_slot = sl, sn_estimated_processed_slot = sl\<rparr>))
      | SlotMessage (Connecting _) \<Rightarrow> (last_slot, None)
      | SlotStreamEnded \<Rightarrow> (0, None)
      | SlotTimeout \<Rightarrow> (0, None))"

fun multiplex_slot_run :: "slot \<Rightarrow> slot_event list \<Rightarrow> slot \<times> slot_notification list" where
  "multiplex_slot_run last_slot [] = (last_slot, [])"
| "multiplex_slot_run last_slot (e # es) =
     (let (last1, n) = multiplex_slot_step last_slot e; (last2, ns) = multiplex_slot_run last1 es
      in (last2, (case n of None \<Rightarrow> ns | Some x \<Rightarrow> x # ns)))"

section \<open>The emitter\<close>

record emitter =
  em_recent_processed_blocks :: "(hash, produced_block) hashmap"
  em_last_finalized_slot :: slot
  em_cleanup_without_recv_full_blocks :: nat
  em_cleanup_without_confirmed :: nat
  em_cleanup_without_finalized :: nat
  em_confirmed_not_yet_processed :: "hash set"
  em_finalized_not_yet_processed :: "hash set"
  em_startup_completed :: bool

definition emitter_new :: emitter where
  "emitter_new = \<lparr>em_recent_processed_blocks = [], em_last_finalized_slot = 0,
     em_cleanup_without_recv_full_blocks = 0, em_cleanup_without_confirmed = 0,
     em_cleanup_without_finalized = 0, em_confirmed_not_yet_processed = {},
     em_finalized_not_yet_processed = {}, em_startup_completed = False\<rparr>"

definition CLEANUP_SLOTS_BEHIND_FINALIZED :: u64 where
  "CLEANUP_SLOTS_BEHIND_FINALIZED = 100"

definition MAX_ALLOWED_CLEANUP_WITHOUT_RECV :: nat where
  "MAX_ALLOWED_CLEANUP_WITHOUT_RECV = 12"

datatype emitter_event =
    GotProcessedBlock produced_block
  | GotInfoProcessed block_info
  | GotInfoConfirmed block_info
  | GotInfoFinalized block_info
  | CleanupTick

datatype emission = EmitBlock produced_block | EmitInfo block_info

definition on_processed_block :: "produced_block \<Rightarrow> emitter \<Rightarrow> emitter \<times> emission list" where
  "on_processed_block b em =
     (let em = em\<lparr>em_cleanup_without_recv_full_blocks := 0\<rparr>;
          em = (if is_finalized (pb_commitment_config b)
                then em\<lparr>em_last_finalized_slot := max (em_last_finalized_slot em) (pb_slot b)\<rparr> else em);
          h = pb_blockhash b;
          confirmed = (h \<in> em_confirmed_not_yet_processed em);
          finalized = (h \<in> em_finalized_not_yet_processed em)
      in (em\<lparr>em_confirmed_not_yet_processed := em_confirmed_not_yet_processed em - {h},
             em_finalized_not_yet_processed := em_finalized_not_yet_processed em - {h},
             em_recent_processed_blocks := hm_put h b (em_recent_processed_blocks em)\<rparr>,
          EmitBlock b # (if confirmed then [EmitBlock (to_confirmed_block b)] else []) @
            (if finalized then [EmitBlock (to_finalized_block b)] else [])))"

definition on_info_confirmed :: "block_info \<Rightarrow> emitter \<Rightarrow> emitter \<times> emission list" where
  "on_info_confirmed i em =
     (let em = em\<lparr>em_cleanup_without_confirmed := 0\<rparr>
      in case hm_get (em_recent_processed_blocks em) (bi_blockhash i) of
           Some b \<Rightarrow> (em, [EmitInfo i, EmitBlock (to_confirmed_block b)])
         | None \<Rightarrow>
             (em\<lparr>em_confirmed_not_yet_processed :=
                insert (bi_blockhash i) (em_confirmed_not_yet_processed em)\<rparr>, [EmitInfo i]))"

definition on_info_finalized :: "block_info \<Rightarrow> emitter \<Rightarrow> emitter \<times> emission list" where
  "on_info_finalized i em =
     (let em = em\<lparr>em_cleanup_without_finalized := 0,
                  em_last_finalized_slot := max (em_last_finalized_slot em) (bi_slot i)\<rparr>
      in case hm_get (em_recent_processed_blocks em) (bi_blockhash i) of
           Some b \<Rightarrow>
             (em\<lparr>em_recent_processed_blocks := hm_del (bi_blockhash i) (em_recent_processed_blocks em),
                 em_startup_completed := True\<rparr>,
              [EmitInfo i, EmitBlock (to_finalized_block b)])
         | None \<Rightarrow>
             if em_startup_completed em then
               (em\<lparr>em_finalized_not_yet_processed :=
                  insert (bi_blockhash i) (em_finalized_not_yet_processed em)\<rparr>, [EmitInfo i])
             else (em, [EmitInfo i]))"

text \<open>The restart of the multiplexer is the state of a fresh emitter.\<close>

definition on_cleanup_tick :: "emitter \<Rightarrow> emitter" where
  "on_cleanup_tick em =
     (if em_cleanup_without_recv_full_blocks em > MAX_ALLOWED_CLEANUP_WITHOUT_RECV \<or>
         em_cleanup_without_confirmed em > MAX_ALLOWED_CLEANUP_WITHOUT_RECV \<or>
         em_cleanup_without_finalized em > MAX_ALLOWED_CLEANUP_WITHOUT_RECV
      then emitter_new
      else em\<lparr>em_cleanup_without_recv_full_blocks := em_cleanup_without_recv_full_blocks em + 1,
              em_cleanup_without_confirmed := em_cleanup_without_confirmed em + 1,
              em_cleanup_without_finalized := em_cleanup_without_finalized em + 1,
              em_recent_processed_blocks := map_retain
                (\<lambda>_ b. em_last_finalized_slot em = 0 \<or>
                   pb_slot b > saturating_sub (em_last_finalized_slot em) CLEANUP_SLOTS_BEHIND_FINALIZED)
                (em_recent_processed_blocks em)\<rparr>)"

fun emitter_step :: "emitter \<Rightarrow> emitter_event \<Rightarrow> emitter \<times> emission list" where
  "emitter_step em (GotProcessedBlock b) = on_processed_block b em"
| "emitter_step em (GotInfoProcessed i) = (em, [EmitInfo i])"
| "emitter_step em (GotInfoConfirmed i) = on_info_confirmed i em"
| "emitter_step em (GotInfoFinalized i) = on_info_finalized i em"
| "emitter_step em CleanupTick = (on_cleanup_tick em, [])"

fun emitter_run :: "emitter \<Rightarrow> emitter_event list \<Rightarrow> emitter \<times> emission list" where
  "emitter_run em [] = (em, [])"
| "emitter_run em (e # es) =
     (let (em1, out1) = emitter_step em e; (em2, out2) = emitter_run em1 es in (em2, out1 @ out2))"

section \<open>Slots are handled once\<close>

text \<open>
  Every handled slot is still remembered, or the memory is full and the slot lies below the oldest
  remembered one, where the filter keeps it out.
\<close>

definition handled_ok :: "slot list \<Rightarrow> slot set \<Rightarrow> bool" where
  "handled_ok slots handled \<longleftrightarrow> sorted_wrt (<) slots \<and> length slots \<le> MAX_SIZE \<and>
     (\<forall>sl \<in> handled. sl \<in> set slots \<or> length slots = MAX_SIZE \<and> sl < hd slots)"

lemma insort_strict:
  "sorted_wrt (<) slots \<Longrightarrow> sl \<notin> set slots \<Longrightarrow> sorted_wrt (<) (insort sl (slots :: slot list))"
  by (simp add: strict_sorted_iff sorted_insort distinct_insort)

lemma insort_above_head:
  "slots \<noteq> [] \<Longrightarrow> hd slots < sl \<Longrightarrow> insort sl (slots :: slot list) = hd slots # insort sl (tl slots)"
  by (cases slots) auto

lemma remember_slot_ok:
  assumes "handled_ok slots handled" and "sl \<notin> set slots"
    and "\<not> (MAX_SIZE div 2 \<le> length slots \<and> sl \<le> first_or_default slots)"
  shows "handled_ok (remember_slot sl slots) (insert sl handled)"
proof (cases "length slots = MAX_SIZE")
  case True
  then have ne: "slots \<noteq> []" by (auto simp: MAX_SIZE_def)
  have gt: "hd slots < sl"
    using assms(3) ne True by (cases slots) (auto simp: MAX_SIZE_def first_or_default_def)
  obtain a rest where slots: "slots = a # rest" using ne by (cases slots) auto
  have "\<not> sl \<le> a" using gt by (simp add: slots not_le)
  then have r: "remember_slot sl slots = insort sl rest"
    using True assms(2) by (simp add: remember_slot_def insort_insert_insort Let_def slots)
  have so: "sorted_wrt (<) (insort sl rest)"
    using assms(1,2) by (intro insort_strict) (auto simp: handled_ok_def slots)
  have below: "a < x" if "x \<in> set (insort sl rest)" for x
    using that gt assms(1) by (auto simp: slots handled_ok_def set_insort_key)
  have len: "length (insort sl rest) = MAX_SIZE" using True by (simp add: slots)
  then have "insort sl rest \<noteq> []" by (auto simp: MAX_SIZE_def)
  then have "a < hd (insort sl rest)" using below hd_in_set by blast
  then have "x \<in> set (insort sl rest) \<or> x < hd (insort sl rest)" if "x \<in> insert sl handled" for x
    using that assms(1) by (auto simp: handled_ok_def slots set_insort_key intro: order.strict_trans)
  with so len show ?thesis by (auto simp: handled_ok_def r)
next
  case False
  then have lt: "length slots < MAX_SIZE" using assms(1) by (simp add: handled_ok_def)
  then have "remember_slot sl slots = insort sl slots"
    using assms(2) by (simp add: remember_slot_def insort_insert_insort Let_def)
  with assms False lt show ?thesis
    by (auto simp: handled_ok_def insort_strict set_insort_key)
qed

lemma handled_not_again:
  assumes "handled_ok slots handled" and "sl \<notin> set slots"
    and "\<not> (MAX_SIZE div 2 \<le> length slots \<and> sl \<le> first_or_default slots)"
  shows "sl \<notin> handled"
proof
  assume "sl \<in> handled"
  with assms(1,2) have "length slots = MAX_SIZE" "sl < hd slots" by (auto simp: handled_ok_def)
  with assms(3) show False by (cases slots) (auto simp: MAX_SIZE_def first_or_default_def)
qed

lemma from_grpc_slot: "from_grpc_block_update env b c = Inr block \<Longrightarrow> pb_slot block = gb_slot b"
  by (cases "filter_map_outcome (from_grpc_transaction env) (gb_transactions b)";
      cases "gb_block_height b"; cases "gb_block_time b")
    (auto simp: from_grpc_block_update_def Let_def)

text \<open>What one message does.\<close>

lemma multiplex_block_step_cases:
  assumes "multiplex_block_step env slots msg = Inr (slots', r)"
  obtains (keep) "slots' = slots" "r = None"
  | (emit) b block where "msg = GeyserSubscribeUpdate (Some (UpdateBlock b))" "r = Some block"
      "from_grpc_block_update env b processed_config = Inr block"
      "pb_slot block \<notin> set slots"
      "\<not> (MAX_SIZE div 2 \<le> length slots \<and> pb_slot block \<le> first_or_default slots)"
      "slots' = remember_slot (pb_slot block) slots"
proof (cases "\<exists>b. msg = GeyserSubscribeUpdate (Some (UpdateBlock b))")
  case True
  then obtain b where msg: "msg = GeyserSubscribeUpdate (Some (UpdateBlock b))" by blast
  show ?thesis
  proof (cases "from_grpc_block_update env b processed_config")
    case (Inl p)
    with assms msg show ?thesis by (auto simp: multiplex_block_step_def split: if_splits intro: keep)
  next
    case (Inr block)
    with from_grpc_slot have "pb_slot block = gb_slot b" by blast
    with assms msg Inr show ?thesis
      by (auto simp: multiplex_block_step_def split: if_splits intro: keep emit)
  qed
next
  case False
  with assms have "slots' = slots \<and> r = None"
  proof (cases msg)
    case (GeyserSubscribeUpdate u)
    show ?thesis
    proof (cases u)
      case None
      with assms GeyserSubscribeUpdate show ?thesis by (simp add: multiplex_block_step_def)
    next
      case (Some upd)
      with assms GeyserSubscribeUpdate False show ?thesis
        by (cases upd) (auto simp: multiplex_block_step_def split: if_splits)
    qed
  qed (simp add: multiplex_block_step_def)
  then show ?thesis using keep by blast
qed

lemma multiplex_block_run_once:
  "multiplex_block_run env slots msgs = Inr (slots', blocks) \<Longrightarrow> handled_ok slots handled \<Longrightarrow>
   distinct (List.map pb_slot blocks) \<and> set (List.map pb_slot blocks) \<inter> handled = {} \<and>
   handled_ok slots' (handled \<union> set (List.map pb_slot blocks))"
proof (induction msgs arbitrary: slots handled blocks)
  case (Cons msg msgs)
  obtain slots1 r blocks1 where s: "multiplex_block_step env slots msg = Inr (slots1, r)"
      "multiplex_block_run env slots1 msgs = Inr (slots', blocks1)"
      "blocks = (case r of None \<Rightarrow> blocks1 | Some b \<Rightarrow> b # blocks1)"
    using Cons.prems(1) by auto
  from s(1) show ?case
  proof (cases rule: multiplex_block_step_cases)
    case keep
    with s Cons.IH Cons.prems(2) show ?thesis by simp
  next
    case (emit b block)
    have ok: "handled_ok slots1 (insert (pb_slot block) handled)"
      using remember_slot_ok [OF Cons.prems(2) emit(4,5)] emit(6) by simp
    have "pb_slot block \<notin> handled" using handled_not_again [OF Cons.prems(2) emit(4,5)] .
    with Cons.IH [OF s(2) ok] s(3) emit(2) show ?thesis by auto
  qed
qed simp

lemma multiplex_info_increasing:
  "multiplex_info_run env c tip msgs = Inr (tip', infos) \<Longrightarrow>
   sorted_wrt (<) (tip # List.map bi_slot infos) \<and> (\<forall>i \<in> set infos. bi_commitment_config i = c)"
proof (induction msgs arbitrary: tip infos)
  case (Cons msg msgs)
  obtain tip1 r infos1 where s: "multiplex_info_step env c tip msg = Inr (tip1, r)"
      "multiplex_info_run env c tip1 msgs = Inr (tip', infos1)"
      "infos = (case r of None \<Rightarrow> infos1 | Some i \<Rightarrow> i # infos1)"
    using Cons.prems by auto
  have "r = None \<and> tip1 = tip \<or> (\<exists>i. r = Some i \<and> bi_slot i = tip1 \<and> tip < tip1 \<and> bi_commitment_config i = c)"
    using s(1)
    by (auto simp: multiplex_info_step_def block_info_of_meta_def
        split: stream_message.splits option.splits yellowstone_update.splits if_splits)
  with Cons.IH [OF s(2)] s(3) show ?case by (auto intro: order.strict_trans)
qed simp

lemma multiplex_slots_ascending:
  "multiplex_slot_run last_slot (List.map SlotMessage msgs) = (last', ns) \<Longrightarrow>
   sorted (last_slot # List.map sn_processed_slot ns)"
proof (induction msgs arbitrary: last_slot ns)
  case (Cons msg msgs)
  obtain last1 r ns1 where s: "multiplex_slot_step last_slot (SlotMessage msg) = (last1, r)"
      "multiplex_slot_run last1 (List.map SlotMessage msgs) = (last', ns1)"
      "ns = (case r of None \<Rightarrow> ns1 | Some x \<Rightarrow> x # ns1)"
    using Cons.prems by (auto simp: Let_def split: prod.splits)
  have "r = None \<and> last1 = last_slot \<or> (\<exists>x. r = Some x \<and> sn_processed_slot x = last1 \<and> last_slot \<le> last1)"
    using s(1)
    by (auto simp: multiplex_slot_step_def split: stream_message.splits option.splits if_splits)
  with Cons.IH [OF s(2)] s(3) show ?case by (auto intro: order.trans)
qed simp

section \<open>What the emitter emits\<close>

lemma map_filter_append: "List.map_filter f (xs @ ys) = List.map_filter f xs @ List.map_filter f ys"
  by (induction xs) (auto split: option.split)


fun emitted_block :: "emission \<Rightarrow> produced_block option" where
  "emitted_block (EmitBlock b) = Some b"
| "emitted_block (EmitInfo _) = None"

definition emitted_blocks :: "emitter_event list \<Rightarrow> produced_block list" where
  "emitted_blocks es = List.map_filter emitted_block (snd (emitter_run emitter_new es))"

definition confirmed_hashes :: "emitter_event list \<Rightarrow> hash set" where
  "confirmed_hashes es = {bi_blockhash i |i. GotInfoConfirmed i \<in> set es}"

definition finalized_hashes :: "emitter_event list \<Rightarrow> hash set" where
  "finalized_hashes es = {bi_blockhash i |i. GotInfoFinalized i \<in> set es}"

text \<open>What the state holds of the events that led to it.\<close>

definition emitter_knows :: "emitter_event list \<Rightarrow> emitter \<Rightarrow> bool" where
  "emitter_knows es em \<longleftrightarrow>
     (\<forall>h b. hm_get (em_recent_processed_blocks em) h = Some b \<longrightarrow>
        pb_blockhash b = h \<and> GotProcessedBlock b \<in> set es) \<and>
     em_confirmed_not_yet_processed em \<subseteq> confirmed_hashes es \<and>
     em_finalized_not_yet_processed em \<subseteq> finalized_hashes es \<and>
     hm_inv (em_recent_processed_blocks em)"

definition emission_justified :: "emitter_event list \<Rightarrow> emission \<Rightarrow> bool" where
  "emission_justified es out \<longleftrightarrow>
     (case out of
        EmitInfo i \<Rightarrow> GotInfoProcessed i \<in> set es \<or> GotInfoConfirmed i \<in> set es \<or> GotInfoFinalized i \<in> set es
      | EmitBlock b \<Rightarrow> \<exists>p. GotProcessedBlock p \<in> set es \<and>
          (b = p \<or> b = to_confirmed_block p \<and> pb_blockhash p \<in> confirmed_hashes es \<or>
           b = to_finalized_block p \<and> pb_blockhash p \<in> finalized_hashes es))"

lemma confirmed_hashes_snoc:
  "confirmed_hashes (es @ [e]) = confirmed_hashes es \<union>
     (case e of GotInfoConfirmed i \<Rightarrow> {bi_blockhash i} | _ \<Rightarrow> {})"
  "finalized_hashes (es @ [e]) = finalized_hashes es \<union>
     (case e of GotInfoFinalized i \<Rightarrow> {bi_blockhash i} | _ \<Rightarrow> {})"
  by (auto simp: confirmed_hashes_def finalized_hashes_def split: emitter_event.split)

lemma on_processed_block_simps [simp]:
  "em_recent_processed_blocks (fst (on_processed_block b em)) =
     hm_put (pb_blockhash b) b (em_recent_processed_blocks em)"
  "em_confirmed_not_yet_processed (fst (on_processed_block b em)) =
     em_confirmed_not_yet_processed em - {pb_blockhash b}"
  "em_finalized_not_yet_processed (fst (on_processed_block b em)) =
     em_finalized_not_yet_processed em - {pb_blockhash b}"
  "em_startup_completed (fst (on_processed_block b em)) = em_startup_completed em"
  "em_cleanup_without_recv_full_blocks (fst (on_processed_block b em)) = 0"
  "em_cleanup_without_confirmed (fst (on_processed_block b em)) = em_cleanup_without_confirmed em"
  "em_cleanup_without_finalized (fst (on_processed_block b em)) = em_cleanup_without_finalized em"
  "snd (on_processed_block b em) = EmitBlock b #
     (if pb_blockhash b \<in> em_confirmed_not_yet_processed em then [EmitBlock (to_confirmed_block b)] else []) @
     (if pb_blockhash b \<in> em_finalized_not_yet_processed em then [EmitBlock (to_finalized_block b)] else [])"
  by (simp_all add: on_processed_block_def Let_def)

lemma emitter_step_knows:
  assumes "emitter_knows es em" and "emitter_step em e = (em', out)"
  shows "emitter_knows (es @ [e]) em' \<and> (\<forall>x \<in> set out. emission_justified (es @ [e]) x)"
proof (cases e)
  case (GotProcessedBlock b)
  then have e: "em' = fst (on_processed_block b em)" "out = snd (on_processed_block b em)"
    using assms(2) by simp_all
  have "emitter_knows (es @ [e]) em'"
    using assms(1)
    by (auto simp: e GotProcessedBlock emitter_knows_def confirmed_hashes_snoc hm_get_hm_put inv_intros
        split: if_splits)
  moreover have "emission_justified (es @ [e]) x" if "x \<in> set out" for x
    using that assms(1)
    by (auto simp: e GotProcessedBlock emitter_knows_def emission_justified_def confirmed_hashes_snoc
        intro!: exI [of _ b] split: if_splits)
  ultimately show ?thesis by blast
next
  case (GotInfoProcessed i)
  with assms show ?thesis by (auto simp: emitter_knows_def emission_justified_def confirmed_hashes_snoc)
next
  case (GotInfoConfirmed i)
  show ?thesis
  proof (cases "hm_get (em_recent_processed_blocks em) (bi_blockhash i)")
    case None
    with assms GotInfoConfirmed show ?thesis
      by (auto simp: emitter_knows_def on_info_confirmed_def Let_def emission_justified_def confirmed_hashes_snoc)
  next
    case (Some b)
    then have "pb_blockhash b = bi_blockhash i" "GotProcessedBlock b \<in> set es"
      using assms(1) by (auto simp: emitter_knows_def)
    with Some assms GotInfoConfirmed show ?thesis
      by (auto simp: emitter_knows_def on_info_confirmed_def Let_def emission_justified_def confirmed_hashes_snoc
          intro!: exI [of _ b])
  qed
next
  case (GotInfoFinalized i)
  show ?thesis
  proof (cases "hm_get (em_recent_processed_blocks em) (bi_blockhash i)")
    case None
    with assms GotInfoFinalized show ?thesis
      by (auto simp: emitter_knows_def on_info_finalized_def Let_def emission_justified_def
          confirmed_hashes_snoc split: if_splits)
  next
    case (Some b)
    then have "pb_blockhash b = bi_blockhash i" "GotProcessedBlock b \<in> set es"
      using assms(1) by (auto simp: emitter_knows_def)
    with Some assms GotInfoFinalized show ?thesis
      by (auto simp: emitter_knows_def on_info_finalized_def Let_def emission_justified_def
          confirmed_hashes_snoc hm_get_hm_del inv_intros intro!: exI [of _ b] split: if_splits)
  qed
next
  case CleanupTick
  with assms show ?thesis
    by (auto simp: emitter_knows_def on_cleanup_tick_def emitter_new_def confirmed_hashes_snoc
        hm_get_retain inv_intros split: if_splits option.splits)
qed

lemma emitter_run_snoc:
  "emitter_run em (es @ [e]) =
     (fst (emitter_step (fst (emitter_run em es)) e),
      snd (emitter_run em es) @ snd (emitter_step (fst (emitter_run em es)) e))"
  by (induction es arbitrary: em) (auto simp: Let_def split: prod.splits)

lemma emission_justified_mono: "emission_justified es x \<Longrightarrow> emission_justified (es @ [e]) x"
proof (cases x)
  case (EmitBlock b)
  assume "emission_justified es x"
  with EmitBlock obtain p where "GotProcessedBlock p \<in> set es"
      "b = p \<or> b = to_confirmed_block p \<and> pb_blockhash p \<in> confirmed_hashes es \<or>
       b = to_finalized_block p \<and> pb_blockhash p \<in> finalized_hashes es"
    by (auto simp: emission_justified_def)
  with EmitBlock show ?thesis
    by (auto simp: emission_justified_def confirmed_hashes_snoc intro!: exI [of _ p])
qed (auto simp: emission_justified_def)

lemma emitter_knows_new: "emitter_knows [] emitter_new"
  by (simp add: emitter_knows_def emitter_new_def)

lemma emitter_run_knows:
  "emitter_knows es (fst (emitter_run emitter_new es)) \<and>
   (\<forall>x \<in> set (snd (emitter_run emitter_new es)). emission_justified es x)"
proof (induction es rule: rev_induct)
  case (snoc e es)
  let ?em = "fst (emitter_run emitter_new es)"
  have "emitter_step ?em e = (fst (emitter_step ?em e), snd (emitter_step ?em e))" by simp
  from emitter_step_knows [OF conjunct1 [OF snoc.IH] this] snoc.IH emission_justified_mono show ?case
    by (auto simp: emitter_run_snoc)
qed (simp add: emitter_knows_new)

lemma emitted_blocks_snoc:
  "emitted_blocks (es @ [e]) = emitted_blocks es @
     List.map_filter emitted_block (snd (emitter_step (fst (emitter_run emitter_new es)) e))"
  by (simp add: emitted_blocks_def emitter_run_snoc map_filter_append)

section \<open>Emitted once, and emitted at all\<close>

fun block_event_hash :: "emitter_event \<Rightarrow> hash option" where
  "block_event_hash (GotProcessedBlock b) = Some (pb_blockhash b)"
| "block_event_hash _ = None"

fun confirmed_event_hash :: "emitter_event \<Rightarrow> hash option" where
  "confirmed_event_hash (GotInfoConfirmed i) = Some (bi_blockhash i)"
| "confirmed_event_hash _ = None"

fun finalized_event_hash :: "emitter_event \<Rightarrow> hash option" where
  "finalized_event_hash (GotInfoFinalized i) = Some (bi_blockhash i)"
| "finalized_event_hash _ = None"

text \<open>
  What the merged streams guarantee: a block is delivered once and as processed, and each block
  info once per level.
\<close>

definition streams_ok :: "emitter_event list \<Rightarrow> bool" where
  "streams_ok es \<longleftrightarrow>
     distinct (List.map_filter block_event_hash es) \<and>
     distinct (List.map_filter confirmed_event_hash es) \<and>
     distinct (List.map_filter finalized_event_hash es) \<and>
     (\<forall>b. GotProcessedBlock b \<in> set es \<longrightarrow> pb_commitment_config b = processed_config)"

lemma hashes_of_events:
  "h \<in> set (List.map_filter confirmed_event_hash es) \<longleftrightarrow> h \<in> confirmed_hashes es"
  "h \<in> set (List.map_filter finalized_event_hash es) \<longleftrightarrow> h \<in> finalized_hashes es"
  "h \<in> set (List.map_filter block_event_hash es) \<longleftrightarrow> (\<exists>b. GotProcessedBlock b \<in> set es \<and> pb_blockhash b = h)"
proof -
  have "confirmed_event_hash e = Some h \<longleftrightarrow> (\<exists>i. e = GotInfoConfirmed i \<and> bi_blockhash i = h)"
    "finalized_event_hash e = Some h \<longleftrightarrow> (\<exists>i. e = GotInfoFinalized i \<and> bi_blockhash i = h)"
    "block_event_hash e = Some h \<longleftrightarrow> (\<exists>b. e = GotProcessedBlock b \<and> pb_blockhash b = h)" for e
    by (cases e; auto)+
  then show "h \<in> set (List.map_filter confirmed_event_hash es) \<longleftrightarrow> h \<in> confirmed_hashes es"
    "h \<in> set (List.map_filter finalized_event_hash es) \<longleftrightarrow> h \<in> finalized_hashes es"
    "h \<in> set (List.map_filter block_event_hash es) \<longleftrightarrow> (\<exists>b. GotProcessedBlock b \<in> set es \<and> pb_blockhash b = h)"
    by (auto simp: map_filter_mem confirmed_hashes_def finalized_hashes_def)
qed

lemma streams_ok_snoc:
  "streams_ok (es @ [e]) \<longleftrightarrow> streams_ok es \<and>
     (case e of
        GotProcessedBlock b \<Rightarrow> pb_commitment_config b = processed_config \<and>
          (\<forall>b'. GotProcessedBlock b' \<in> set es \<longrightarrow> pb_blockhash b' \<noteq> pb_blockhash b)
      | GotInfoConfirmed i \<Rightarrow> bi_blockhash i \<notin> confirmed_hashes es
      | GotInfoFinalized i \<Rightarrow> bi_blockhash i \<notin> finalized_hashes es
      | _ \<Rightarrow> True)"
proof (cases e)
  case (GotProcessedBlock b)
  then show ?thesis by (simp add: streams_ok_def map_filter_append hashes_of_events) blast
next
  case (GotInfoProcessed i)
  then show ?thesis by (simp add: streams_ok_def map_filter_append)
next
  case (GotInfoConfirmed i)
  then show ?thesis by (simp add: streams_ok_def map_filter_append hashes_of_events) blast
next
  case (GotInfoFinalized i)
  then show ?thesis by (simp add: streams_ok_def map_filter_append hashes_of_events) blast
next
  case CleanupTick
  then show ?thesis by (simp add: streams_ok_def map_filter_append)
qed

definition block_key :: "produced_block \<Rightarrow> hash \<times> commitment_config" where
  "block_key b = (pb_blockhash b, pb_commitment_config b)"

lemma block_key_simps [simp]:
  "block_key (to_confirmed_block b) = (pb_blockhash b, confirmed_config)"
  "block_key (to_finalized_block b) = (pb_blockhash b, finalized_config)"
  by (simp_all add: block_key_def to_confirmed_block_def to_finalized_block_def)

lemma configs_differ [simp]:
  "processed_config \<noteq> confirmed_config" "processed_config \<noteq> finalized_config"
  "confirmed_config \<noteq> finalized_config" "confirmed_config \<noteq> processed_config"
  "finalized_config \<noteq> processed_config" "finalized_config \<noteq> confirmed_config"
  by (simp_all add: processed_config_def confirmed_config_def finalized_config_def)

lemma emitted_key:
  assumes "streams_ok es" and "b \<in> set (emitted_blocks es)"
  shows "\<exists>p. GotProcessedBlock p \<in> set es \<and> pb_blockhash b = pb_blockhash p \<and>
    (pb_commitment_config b = processed_config \<or>
     pb_commitment_config b = confirmed_config \<and> pb_blockhash p \<in> confirmed_hashes es \<or>
     pb_commitment_config b = finalized_config \<and> pb_blockhash p \<in> finalized_hashes es)"
proof -
  obtain x where x: "x \<in> set (snd (emitter_run emitter_new es))" "emitted_block x = Some b"
    using assms(2) by (auto simp: emitted_blocks_def map_filter_mem)
  from x(2) have "x = EmitBlock b" by (cases x) simp_all
  with x(1) emitter_run_knows [of es] have "emission_justified es (EmitBlock b)" by blast
  then obtain p where p: "GotProcessedBlock p \<in> set es"
      "b = p \<or> b = to_confirmed_block p \<and> pb_blockhash p \<in> confirmed_hashes es \<or>
       b = to_finalized_block p \<and> pb_blockhash p \<in> finalized_hashes es"
    by (auto simp: emission_justified_def)
  have "pb_commitment_config p = processed_config" using assms(1) p(1) by (simp add: streams_ok_def)
  with p show ?thesis
    by (auto simp: to_confirmed_block_def to_finalized_block_def intro!: exI [of _ p])
qed

lemma emitter_step_keys:
  assumes "emitter_knows es em" and "streams_ok (es @ [e])"
  shows "distinct (List.map block_key (List.map_filter emitted_block (snd (emitter_step em e)))) \<and>
    (\<forall>k \<in> block_key ` set (List.map_filter emitted_block (snd (emitter_step em e))).
       case e of
         GotProcessedBlock b \<Rightarrow> fst k = pb_blockhash b
       | GotInfoConfirmed i \<Rightarrow> k = (bi_blockhash i, confirmed_config)
       | GotInfoFinalized i \<Rightarrow> k = (bi_blockhash i, finalized_config)
       | _ \<Rightarrow> False)"
proof (cases e)
  case (GotProcessedBlock b)
  with assms(2) have "pb_commitment_config b = processed_config" by (simp add: streams_ok_snoc)
  then have "block_key b = (pb_blockhash b, processed_config)" by (simp add: block_key_def)
  with GotProcessedBlock show ?thesis by (simp add: map_filter_append)
next
  case (GotInfoConfirmed i)
  show ?thesis
  proof (cases "hm_get (em_recent_processed_blocks em) (bi_blockhash i)")
    case (Some b)
    with assms(1) have "pb_blockhash b = bi_blockhash i" by (simp add: emitter_knows_def)
    with Some GotInfoConfirmed show ?thesis by (simp add: on_info_confirmed_def Let_def)
  qed (simp add: GotInfoConfirmed on_info_confirmed_def Let_def)
next
  case (GotInfoFinalized i)
  show ?thesis
  proof (cases "hm_get (em_recent_processed_blocks em) (bi_blockhash i)")
    case (Some b)
    with assms(1) have "pb_blockhash b = bi_blockhash i" by (simp add: emitter_knows_def)
    with Some GotInfoFinalized show ?thesis by (simp add: on_info_finalized_def Let_def)
  qed (simp add: GotInfoFinalized on_info_finalized_def Let_def)
qed simp_all

lemma emitted_once:
  "streams_ok es \<Longrightarrow> distinct (List.map block_key (emitted_blocks es))"
proof (induction es rule: rev_induct)
  case (snoc e es)
  let ?new = "List.map_filter emitted_block (snd (emitter_step (fst (emitter_run emitter_new es)) e))"
  have ok: "streams_ok es" using snoc.prems by (simp add: streams_ok_snoc)
  note new = emitter_step_keys [OF conjunct1 [OF emitter_run_knows] snoc.prems]
  have "block_key b \<noteq> block_key b'" if b: "b \<in> set (emitted_blocks es)" and b': "b' \<in> set ?new" for b b'
  proof
    assume eq: "block_key b = block_key b'"
    obtain p where p: "GotProcessedBlock p \<in> set es" "pb_blockhash b = pb_blockhash p"
        "pb_commitment_config b = processed_config \<or>
         pb_commitment_config b = confirmed_config \<and> pb_blockhash p \<in> confirmed_hashes es \<or>
         pb_commitment_config b = finalized_config \<and> pb_blockhash p \<in> finalized_hashes es"
      using emitted_key [OF ok b] by blast
    have "case e of
         GotProcessedBlock b \<Rightarrow> fst (block_key b') = pb_blockhash b
       | GotInfoConfirmed i \<Rightarrow> block_key b' = (bi_blockhash i, confirmed_config)
       | GotInfoFinalized i \<Rightarrow> block_key b' = (bi_blockhash i, finalized_config)
       | _ \<Rightarrow> False"
      using new b' by blast
    with eq p snoc.prems show False
      by (cases e) (auto simp: block_key_def streams_ok_snoc)
  qed
  then have "block_key ` set (emitted_blocks es) \<inter> block_key ` set ?new = {}" by blast
  with snoc.IH [OF ok] new show ?case by (simp add: emitted_blocks_snoc)
qed (simp add: emitted_blocks_def)

lemma emitted_blocks_mono: "set (emitted_blocks es) \<subseteq> set (emitted_blocks (es @ es'))"
  by (induction es' rule: rev_induct) (auto simp: emitted_blocks_snoc simp flip: append_assoc)

text \<open>Without clean-up the state keeps what the next events need.\<close>

definition emitter_keeps :: "emitter_event list \<Rightarrow> emitter \<Rightarrow> bool" where
  "emitter_keeps es em \<longleftrightarrow>
     (\<forall>p. GotProcessedBlock p \<in> set es \<longrightarrow> pb_blockhash p \<notin> finalized_hashes es \<longrightarrow>
        hm_get (em_recent_processed_blocks em) (pb_blockhash p) = Some p) \<and>
     (\<forall>h \<in> confirmed_hashes es. (\<forall>p. GotProcessedBlock p \<in> set es \<longrightarrow> pb_blockhash p \<noteq> h) \<longrightarrow>
        h \<in> em_confirmed_not_yet_processed em)"

lemma emitter_step_keeps:
  assumes "emitter_keeps es em" and "emitter_knows es em" and "streams_ok (es @ [e])" and "e \<noteq> CleanupTick"
  shows "emitter_keeps (es @ [e]) (fst (emitter_step em e))"
proof (cases e)
  case (GotProcessedBlock b)
  with assms(1,3) show ?thesis
    by (auto simp: emitter_keeps_def confirmed_hashes_snoc hm_get_hm_put streams_ok_snoc)
next
  case (GotInfoProcessed i)
  with assms(1) show ?thesis by (auto simp: emitter_keeps_def confirmed_hashes_snoc)
next
  case (GotInfoConfirmed i)
  show ?thesis
  proof (cases "hm_get (em_recent_processed_blocks em) (bi_blockhash i)")
    case None
    with assms(1) GotInfoConfirmed show ?thesis
      by (auto simp: emitter_keeps_def confirmed_hashes_snoc on_info_confirmed_def Let_def)
  next
    case (Some b)
    with assms(2) have "pb_blockhash b = bi_blockhash i" "GotProcessedBlock b \<in> set es"
      by (simp_all add: emitter_knows_def)
    with Some assms(1) GotInfoConfirmed show ?thesis
      by (auto simp: emitter_keeps_def confirmed_hashes_snoc on_info_confirmed_def Let_def)
  qed
next
  case (GotInfoFinalized i)
  with assms(1) show ?thesis
    by (auto simp: emitter_keeps_def confirmed_hashes_snoc on_info_finalized_def Let_def hm_get_hm_del
        split: option.split)
qed (use assms(4) in simp)

lemma emitter_run_keeps:
  "streams_ok es \<Longrightarrow> CleanupTick \<notin> set es \<Longrightarrow> emitter_keeps es (fst (emitter_run emitter_new es))"
proof (induction es rule: rev_induct)
  case (snoc e es)
  then have "emitter_keeps es (fst (emitter_run emitter_new es))" by (simp add: streams_ok_snoc)
  moreover have "e \<noteq> CleanupTick" using snoc.prems(2) by auto
  ultimately show ?case
    using emitter_step_keeps [OF _ conjunct1 [OF emitter_run_knows] snoc.prems(1)]
    by (simp add: emitter_run_snoc)
qed (simp add: emitter_keeps_def confirmed_hashes_def)

lemma confirmed_emitted:
  "streams_ok es \<Longrightarrow> CleanupTick \<notin> set es \<Longrightarrow> GotProcessedBlock p \<in> set es \<Longrightarrow>
   pb_blockhash p \<in> confirmed_hashes es \<Longrightarrow> pb_blockhash p \<notin> finalized_hashes es \<Longrightarrow>
   to_confirmed_block p \<in> set (emitted_blocks es)"
proof (induction es rule: rev_induct)
  case (snoc e es)
  let ?em = "fst (emitter_run emitter_new es)"
  have ok: "streams_ok es" "CleanupTick \<notin> set es" using snoc.prems(1,2) by (simp_all add: streams_ok_snoc)
  have keeps: "emitter_keeps es ?em" by (rule emitter_run_keeps [OF ok])
  have nf: "pb_blockhash p \<notin> finalized_hashes es" using snoc.prems(5) by (simp add: confirmed_hashes_snoc)
  show ?case
  proof (cases "GotProcessedBlock p \<in> set es \<and> pb_blockhash p \<in> confirmed_hashes es")
    case True
    with snoc.IH [OF ok _ _ nf] show ?thesis by (simp add: emitted_blocks_snoc)
  next
    case False
    show ?thesis
    proof (cases "GotProcessedBlock p \<in> set es")
      case True
      with False snoc.prems(4) obtain i where e: "e = GotInfoConfirmed i" "bi_blockhash i = pb_blockhash p"
        by (cases e) (auto simp: confirmed_hashes_snoc)
      have "hm_get (em_recent_processed_blocks ?em) (bi_blockhash i) = Some p"
        using keeps True nf by (simp add: emitter_keeps_def e)
      then show ?thesis by (simp add: emitted_blocks_snoc e(1) on_info_confirmed_def Let_def)
    next
      case False
      with snoc.prems(3) have e: "e = GotProcessedBlock p" by simp
      have "pb_blockhash p \<in> em_confirmed_not_yet_processed ?em"
        using keeps snoc.prems(1,4) by (auto simp: emitter_keeps_def e confirmed_hashes_snoc streams_ok_snoc)
      then show ?thesis by (simp add: emitted_blocks_snoc e map_filter_append)
    qed
  qed
qed simp

lemma emitter_counters:
  "em_cleanup_without_recv_full_blocks (fst (emitter_run emitter_new es)) \<le> 13 \<and>
   em_cleanup_without_confirmed (fst (emitter_run emitter_new es)) \<le> 13 \<and>
   em_cleanup_without_finalized (fst (emitter_run emitter_new es)) \<le> 13"
proof (induction es rule: rev_induct)
  case (snoc e es)
  then show ?case
    by (cases e) (auto simp: emitter_run_snoc on_info_confirmed_def on_info_finalized_def on_cleanup_tick_def
        emitter_new_def MAX_ALLOWED_CLEANUP_WITHOUT_RECV_def Let_def split: option.split)
qed (simp add: emitter_new_def)

lemma finalized_emitted:
  assumes "streams_ok (es1 @ GotInfoFinalized i # es2)" and "CleanupTick \<notin> set es1"
    and "GotProcessedBlock p \<in> set es1" and "bi_blockhash i = pb_blockhash p"
  shows "to_finalized_block p \<in> set (emitted_blocks (es1 @ GotInfoFinalized i # es2))"
proof -
  have ok: "streams_ok (es1 @ [GotInfoFinalized i])" "streams_ok es1"
    using assms(1) by (simp_all add: streams_ok_def map_filter_append)
  let ?em = "fst (emitter_run emitter_new es1)"
  have "pb_blockhash p \<notin> finalized_hashes es1" using ok(1) assms(4) by (simp add: streams_ok_snoc)
  then have "hm_get (em_recent_processed_blocks ?em) (bi_blockhash i) = Some p"
    using emitter_run_keeps [OF ok(2) assms(2)] assms(3,4) by (simp add: emitter_keeps_def)
  then have "to_finalized_block p \<in> set (emitted_blocks (es1 @ [GotInfoFinalized i]))"
    by (simp add: emitted_blocks_snoc on_info_finalized_def Let_def)
  then show ?thesis using emitted_blocks_mono [of "es1 @ [GotInfoFinalized i]" es2] by auto
qed

section \<open>Properties\<close>

text \<open>However the messages of the sources interleave, a slot is passed on at most once as a processed
  block: a repeated slot is filtered while it is remembered, and once the full memory has dropped
  it, it is too old to pass.\<close>

theorem merged_blocks_unique:
  assumes "multiplex_block_run env [] msgs = Inr (slots, blocks)"
  shows "distinct (List.map pb_slot blocks) \<and> length slots \<le> MAX_SIZE"
  using multiplex_block_run_once [OF assms, of "{}"] by (simp add: handled_ok_def)

definition sample_block_message :: stream_message where
  "sample_block_message = GeyserSubscribeUpdate (Some (UpdateBlock sample_grpc_block))"

lemma sample_grpc_mapped:
  "\<exists>block. from_grpc_block_update sample_block_env sample_grpc_block c = Inr block \<and> pb_slot block = 4"
  by (simp add: from_grpc_block_update_def sample_grpc_block_def from_grpc_transaction_def
      word_of_bytes_def map_grpc_message_def instruction_program_def map_instruction_def sample_block_env_def
      expect_hash_def hash_from_str_def leader_of_rewards_def map_reward_def index_checked_def Let_def)

lemma merged_blocks_unique_witness:
  "\<exists>slots blocks. multiplex_block_run sample_block_env []
      [sample_block_message, Connecting 1, sample_block_message] = Inr (slots, blocks) \<and>
    length blocks = 1 \<and> distinct (List.map pb_slot blocks)"
proof -
  obtain block where b: "from_grpc_block_update sample_block_env sample_grpc_block processed_config = Inr block"
      "pb_slot block = 4"
    using sample_grpc_mapped by blast
  have "gb_slot sample_grpc_block = 4" by (simp add: sample_grpc_block_def)
  with b have r: "multiplex_block_run sample_block_env []
      [sample_block_message, Connecting 1, sample_block_message] = Inr ([4], [block])"
    by (simp add: multiplex_block_step_def sample_block_message_def remember_slot_def MAX_SIZE_def
        insort_insert_key_def)
  from merged_blocks_unique [OF r] r show ?thesis by auto
qed

text \<open>The merged block infos of a level have strictly ascending slots, whatever the sources repeat, and
  between reconnects the merged slots never go back.\<close>

theorem merged_streams_ascend:
  assumes "multiplex_info_run env c 0 msgs = Inr (tip, infos)"
    and "multiplex_slot_run 0 (List.map SlotMessage slot_msgs) = (last_slot, ns)"
  shows "sorted_wrt (<) (List.map bi_slot infos) \<and> (\<forall>i \<in> set infos. bi_commitment_config i = c) \<and>
    sorted (List.map sn_processed_slot ns)"
  using multiplex_info_increasing [OF assms(1)] multiplex_slots_ascending [OF assms(2)] by simp

lemma merged_streams_ascend_witness:
  "\<exists>tip infos. multiplex_info_run sample_block_env confirmed_config 0
     [GeyserSubscribeUpdate (Some (UpdateBlockMeta \<lparr>bm_slot = 4, bm_blockhash = ''h'', bm_block_time = Some 1,
        bm_block_height = Some 2, bm_parent_slot = 3\<rparr>))] = Inr (tip, infos) \<and>
   sorted_wrt (<) (List.map bi_slot infos) \<and> length infos = 1"
proof -
  let ?msgs = "[GeyserSubscribeUpdate (Some (UpdateBlockMeta \<lparr>bm_slot = 4, bm_blockhash = ''h'',
    bm_block_time = Some 1, bm_block_height = Some 2, bm_parent_slot = 3\<rparr>))]"
  obtain tip infos where r: "multiplex_info_run sample_block_env confirmed_config 0 ?msgs = Inr (tip, infos)"
    and l: "length infos = 1"
    by (simp add: multiplex_info_step_def block_info_of_meta_def expect_hash_def hash_from_str_def
        sample_block_env_def)
  have "multiplex_slot_run 0 (List.map SlotMessage []) = (0, [])" by simp
  from merged_streams_ascend [OF r this] r l show ?thesis by auto
qed


definition sample_stream_block :: "hash \<Rightarrow> produced_block" where
  "sample_stream_block h = \<lparr>pb_transactions = [], pb_leader_id = None, pb_blockhash = h, pb_block_height = 1,
     pb_slot = 4, pb_parent_slot = 3, pb_block_time = 0, pb_previous_blockhash = 0, pb_rewards = None,
     pb_commitment_config = processed_config\<rparr>"

definition sample_stream_info :: "hash \<Rightarrow> block_info" where
  "sample_stream_info h = \<lparr>bi_slot = 4, bi_parent = 3, bi_block_height = 1, bi_blockhash = h,
     bi_commitment_config = confirmed_config, bi_block_time = 0\<rparr>"

lemma sample_streams_ok:
  "streams_ok [GotInfoConfirmed (sample_stream_info 8), GotProcessedBlock (sample_stream_block 8)]"
  by (simp add: streams_ok_def sample_stream_info_def sample_stream_block_def)




text \<open>The clean-up counters, eight-bit integers in the code, never exceed thirteen, so their
  increments cannot overflow.\<close>

theorem cleanup_counters_bounded:
  "em_cleanup_without_recv_full_blocks (fst (emitter_run emitter_new es)) \<le> 13 \<and>
   em_cleanup_without_confirmed (fst (emitter_run emitter_new es)) \<le> 13 \<and>
   em_cleanup_without_finalized (fst (emitter_run emitter_new es)) \<le> 13"
  by (rule emitter_counters)

end
