(* ===== verification/Rpc_Polling.thy ===== *)
theory Rpc_Polling
  imports Data_Cache Block_Mapping "HOL-Library.Multiset"
begin

text \<open>
  \<open>cluster-endpoints/src/rpc_polling\<close>: the slots and blocks of a cluster that is polled over
  RPC.  \<open>poll_slots.rs\<close> is two tasks with a channel between them, \<open>poll_blocks.rs\<close> a pool of
  workers, a replay task and a slot poller around two queues.  Every await of a task ends a step,
  and the event of the step carries what the RPC node answered and whether the receiving channels
  still have receivers; the order of the events is arbitrary.
\<close>

section \<open>Polling of slots\<close>

record slot_poller =
  sp_last_slot :: slot
  sp_errors :: nat
  sp_polling :: bool
  sp_updates :: "slot list"
  sp_current_slot :: slot
  sp_estimated_slot :: slot
  sp_estimating :: bool
  sp_notifications :: "slot_notification list"

definition slot_poller_new :: "slot \<Rightarrow> slot_poller" where
  "slot_poller_new sl = \<lparr>sp_last_slot = 0, sp_errors = 0, sp_polling = True, sp_updates = [],
     sp_current_slot = sl, sp_estimated_slot = sl, sp_estimating = True, sp_notifications = []\<rparr>"

text \<open>The poller of one commitment level; the channel is open while the estimator runs.\<close>

definition poll_commitment_slots :: "slot option \<Rightarrow> slot_poller \<Rightarrow> slot_poller" where
  "poll_commitment_slots reply st =
     (if \<not> sp_polling st then st
      else case reply of
        Some sl \<Rightarrow>
          if sp_last_slot st < sl then
            (if sp_estimating st
             then st\<lparr>sp_updates := sp_updates st @ [sl], sp_last_slot := sl, sp_errors := 0\<rparr>
             else st\<lparr>sp_polling := False\<rparr>)
          else st\<lparr>sp_errors := 0\<rparr>
      | None \<Rightarrow>
          if 10 < sp_errors st + 1
          then st\<lparr>sp_errors := sp_errors st + 1, sp_polling := False\<rparr>
          else st\<lparr>sp_errors := sp_errors st + 1\<rparr>)"

text \<open>A broadcast without receivers ends the task.\<close>

definition notify_slot :: "bool \<Rightarrow> slot_poller \<Rightarrow> slot_poller" where
  "notify_slot receivers st =
     (if receivers
      then st\<lparr>sp_notifications := sp_notifications st @
             [\<lparr>sn_processed_slot = sp_current_slot st,
               sn_estimated_processed_slot = sp_estimated_slot st\<rparr>]\<rparr>
      else st\<lparr>sp_estimating := False\<rparr>)"

definition on_slot_update :: "bool \<Rightarrow> slot_poller \<Rightarrow> slot_poller" where
  "on_slot_update receivers st =
     (if \<not> sp_estimating st then st
      else case sp_updates st of
        [] \<Rightarrow> st
      | sl # rest \<Rightarrow>
          let st = st\<lparr>sp_updates := rest\<rparr>
          in if sp_current_slot st < sl then
               (let st = st\<lparr>sp_current_slot := sl\<rparr>;
                    st = (if sp_estimated_slot st < sp_current_slot st
                          then st\<lparr>sp_estimated_slot := sl\<rparr> else st)
                in notify_slot receivers st)
             else st)"

text \<open>The timeout of 400 ms on the channel, which only an open and empty channel lets pass.\<close>

definition on_slot_timeout :: "bool \<Rightarrow> slot_poller \<Rightarrow> slot_poller" where
  "on_slot_timeout receivers st =
     (if sp_estimating st \<and> sp_updates st = [] \<and> sp_polling st \<and>
         sp_estimated_slot st < sp_current_slot st + 32
      then notify_slot receivers (st\<lparr>sp_estimated_slot := sp_estimated_slot st + 1\<rparr>)
      else st)"

datatype slot_poll_event =
    SlotReply "slot option"
  | SlotUpdate bool
  | SlotTimeout bool

fun poll_slots_step :: "slot_poller \<Rightarrow> slot_poll_event \<Rightarrow> slot_poller" where
  "poll_slots_step st (SlotReply reply) = poll_commitment_slots reply st"
| "poll_slots_step st (SlotUpdate receivers) = on_slot_update receivers st"
| "poll_slots_step st (SlotTimeout receivers) = on_slot_timeout receivers st"

definition poll_slots :: "slot \<Rightarrow> slot_poll_event list \<Rightarrow> slot_poller" where
  "poll_slots sl es = foldl poll_slots_step (slot_poller_new sl) es"

section \<open>Polling of blocks\<close>

type_synonym block_job = "slot \<times> commitment_config"

datatype poll_worker = WorkerIdle | WorkerFetching block_job | WorkerEnded
datatype replay_task = ReplayIdle | ReplaySleeping block_job instant | ReplayEnded
datatype poller_task = PollerStarting | PollerRunning | PollerEnded

record block_poller =
  bp_now :: instant
  bp_recent_slot :: slot
  bp_schedule :: "block_job list"
  bp_retry :: "(block_job \<times> instant) list"
  bp_workers :: "poll_worker list"
  bp_replay :: replay_task
  bp_poller :: poller_task
  bp_blocks :: "produced_block list"
  bp_infos :: "block_info list"

definition block_poller_new :: "nat \<Rightarrow> instant \<Rightarrow> block_poller" where
  "block_poller_new num_parallel_tasks now = \<lparr>bp_now = now, bp_recent_slot = 0, bp_schedule = [],
     bp_retry = [], bp_workers = replicate num_parallel_tasks WorkerIdle, bp_replay = ReplayIdle,
     bp_poller = PollerStarting, bp_blocks = [], bp_infos = []\<rparr>"

text \<open>The scheduling queue is open while a worker holds its receiver.\<close>

definition queue_open :: "block_poller \<Rightarrow> bool" where
  "queue_open st \<longleftrightarrow> (\<exists>w \<in> set (bp_workers st). w \<noteq> WorkerEnded)"

definition set_worker :: "nat \<Rightarrow> poll_worker \<Rightarrow> block_poller \<Rightarrow> block_poller" where
  "set_worker i w st = st\<lparr>bp_workers := (bp_workers st)[i := w]\<rparr>"

definition worker_take :: "nat \<Rightarrow> block_poller \<Rightarrow> block_poller" where
  "worker_take i st =
     (if i < length (bp_workers st) \<and> bp_workers st ! i = WorkerIdle then
        (case bp_schedule st of
           [] \<Rightarrow> st
         | job # rest \<Rightarrow> set_worker i (WorkerFetching job) (st\<lparr>bp_schedule := rest\<rparr>))
      else st)"

definition process_block :: "block_env \<Rightarrow> ui_block option \<Rightarrow> block_job \<Rightarrow> produced_block option outcome" where
  "process_block env reply job =
     (case reply of
        None \<Rightarrow> Inr None
      | Some block \<Rightarrow>
          bind_outcome (from_ui_block env block (fst job) (snd job)) (\<lambda>b. Inr (Some b)))"

text \<open>The retry queue is open while the replay task runs.\<close>

definition retry_job :: "nat \<Rightarrow> block_job \<Rightarrow> instant \<Rightarrow> block_poller \<Rightarrow> block_poller" where
  "retry_job i job at st =
     (if bp_replay st = ReplayEnded then set_worker i WorkerEnded st
      else set_worker i WorkerIdle (st\<lparr>bp_retry := bp_retry st @ [(job, at)]\<rparr>))"

definition worker_send ::
    "nat \<Rightarrow> block_job \<Rightarrow> produced_block \<Rightarrow> bool \<Rightarrow> bool \<Rightarrow> block_poller \<Rightarrow> block_poller" where
  "worker_send i job block block_receivers info_receivers st =
     (if \<not> block_receivers then set_worker i WorkerEnded st
      else let st = st\<lparr>bp_blocks := bp_blocks st @ [block]\<rparr> in
        if \<not> info_receivers then set_worker i WorkerEnded st
        else let st = st\<lparr>bp_infos := bp_infos st @ [map_block_info block]\<rparr> in
          if cc_commitment (snd job) \<noteq> LevelFinalized
          then retry_job i (fst job, finalized_config) (bp_now st + 2000) st
          else set_worker i WorkerIdle st)"

definition worker_reply ::
    "block_env \<Rightarrow> nat \<Rightarrow> ui_block option \<Rightarrow> bool \<Rightarrow> bool \<Rightarrow> block_poller \<Rightarrow> block_poller" where
  "worker_reply env i reply block_receivers info_receivers st =
     (if i < length (bp_workers st) then
        (case bp_workers st ! i of
           WorkerFetching job \<Rightarrow>
             (case process_block env reply job of
                Inl p \<Rightarrow> set_worker i WorkerEnded st
              | Inr None \<Rightarrow> retry_job i job (bp_now st + 10) st
              | Inr (Some block) \<Rightarrow> worker_send i job block block_receivers info_receivers st)
         | _ \<Rightarrow> st)
      else st)"

text \<open>A closed and empty retry queue is the \<open>unreachable!\<close> after the loop.\<close>

definition replay_take :: "block_poller \<Rightarrow> block_poller" where
  "replay_take st =
     (if bp_replay st = ReplayIdle then
        (case bp_retry st of
           [] \<Rightarrow> if queue_open st then st else st\<lparr>bp_replay := ReplayEnded\<rparr>
         | (job, at) # rest \<Rightarrow>
             let st = st\<lparr>bp_retry := rest\<rparr> in
             if 128 < saturating_sub (bp_recent_slot st) (fst job) then st
             else st\<lparr>bp_replay := ReplaySleeping job at\<rparr>)
      else st)"

definition replay_wake :: "block_poller \<Rightarrow> block_poller" where
  "replay_wake st =
     (case bp_replay st of
        ReplaySleeping job at \<Rightarrow>
          if bp_now st < at then st
          else if queue_open st
          then st\<lparr>bp_schedule := bp_schedule st @ [job], bp_replay := ReplayIdle\<rparr>
          else st\<lparr>bp_replay := ReplayEnded\<rparr>
      | _ \<Rightarrow> st)"

definition poller_start :: "slot option \<Rightarrow> block_poller \<Rightarrow> block_poller" where
  "poller_start reply st =
     (if bp_poller st = PollerStarting then
        (case reply of
           Some sl \<Rightarrow> st\<lparr>bp_recent_slot := sl, bp_poller := PollerRunning\<rparr>
         | None \<Rightarrow> st\<lparr>bp_poller := PollerEnded\<rparr>)
      else st)"

definition slot_range :: "slot \<Rightarrow> slot \<Rightarrow> slot list" where
  "slot_range a b = List.map word_of_nat [unat a ..< unat b]"

definition poller_notified :: "slot_notification option \<Rightarrow> block_poller \<Rightarrow> block_poller" where
  "poller_notified msg st =
     (if bp_poller st = PollerRunning then
        (case msg of
           None \<Rightarrow> st\<lparr>bp_poller := PollerEnded\<rparr>
         | Some n \<Rightarrow>
             let last_slot = bp_recent_slot st; estimated = sn_estimated_processed_slot n in
             if last_slot < estimated then
               (let st = st\<lparr>bp_recent_slot := estimated\<rparr>;
                    slots = slot_range (last_slot + 1) (estimated + 1)
                in if queue_open st \<or> slots = []
                   then st\<lparr>bp_schedule := bp_schedule st @ List.map (\<lambda>sl. (sl, confirmed_config)) slots\<rparr>
                   else st\<lparr>bp_poller := PollerEnded\<rparr>)
             else st)
      else st)"

datatype block_poll_event =
    PollTick nat
  | WorkerTake nat
  | WorkerReply nat "ui_block option" bool bool
  | ReplayTake
  | ReplayWake
  | PollerStart "slot option"
  | PollerNotified "slot_notification option"

fun poll_block_step :: "block_env \<Rightarrow> block_poller \<Rightarrow> block_poll_event \<Rightarrow> block_poller" where
  "poll_block_step env st (PollTick d) = st\<lparr>bp_now := bp_now st + d\<rparr>"
| "poll_block_step env st (WorkerTake i) = worker_take i st"
| "poll_block_step env st (WorkerReply i reply br ir) = worker_reply env i reply br ir st"
| "poll_block_step env st ReplayTake = replay_take st"
| "poll_block_step env st ReplayWake = replay_wake st"
| "poll_block_step env st (PollerStart reply) = poller_start reply st"
| "poll_block_step env st (PollerNotified msg) = poller_notified msg st"

definition poll_block :: "block_env \<Rightarrow> nat \<Rightarrow> instant \<Rightarrow> block_poll_event list \<Rightarrow> block_poller" where
  "poll_block env num_parallel_tasks now es =
     foldl (poll_block_step env) (block_poller_new num_parallel_tasks now) es"

section \<open>The estimated slot\<close>

definition later_notification :: "slot_notification \<Rightarrow> slot_notification \<Rightarrow> bool" where
  "later_notification n m \<longleftrightarrow>
     sn_processed_slot n \<le> sn_processed_slot m \<and>
     sn_estimated_processed_slot n \<le> sn_estimated_processed_slot m \<and> n \<noteq> m"

definition near_notification :: "slot_notification \<Rightarrow> bool" where
  "near_notification n \<longleftrightarrow>
     sn_processed_slot n \<le> sn_estimated_processed_slot n \<and>
     unat (sn_estimated_processed_slot n) \<le> unat (sn_processed_slot n) + 32"

definition current_notification :: "slot_poller \<Rightarrow> slot_notification" where
  "current_notification st = \<lparr>sn_processed_slot = sp_current_slot st,
     sn_estimated_processed_slot = sp_estimated_slot st\<rparr>"

definition small_slot :: "slot \<Rightarrow> bool" where
  "small_slot sl \<longleftrightarrow> unat sl + 33 < 18446744073709551616"

definition slot_poller_ok :: "slot_poller \<Rightarrow> bool" where
  "slot_poller_ok st \<longleftrightarrow>
     near_notification (current_notification st) \<and> small_slot (sp_current_slot st) \<and>
     (\<forall>sl \<in> set (sp_updates st). small_slot sl) \<and>
     (\<forall>n \<in> set (sp_notifications st). near_notification n \<and>
        sn_processed_slot n \<le> sp_current_slot st \<and>
        sn_estimated_processed_slot n \<le> sp_estimated_slot st) \<and>
     sorted_wrt later_notification (sp_notifications st)"

lemma notify_slot_ok:
  assumes "slot_poller_ok st" and "near_notification (current_notification st')"
    and "small_slot (sp_current_slot st')" and "sp_current_slot st \<le> sp_current_slot st'"
    and "sp_estimated_slot st \<le> sp_estimated_slot st'"
    and "sp_current_slot st < sp_current_slot st' \<or> sp_estimated_slot st < sp_estimated_slot st'"
    and "set (sp_updates st') \<subseteq> set (sp_updates st)"
    and "sp_notifications st' = sp_notifications st"
  shows "slot_poller_ok (notify_slot receivers st')"
proof -
  have "later_notification n (current_notification st')" if "n \<in> set (sp_notifications st)" for n
    using that assms(1,4-6)
    by (force simp: later_notification_def current_notification_def slot_poller_ok_def
        intro: order.trans)
  with assms show ?thesis
    by (auto simp: notify_slot_def slot_poller_ok_def current_notification_def sorted_wrt_append
        intro: order.trans)
qed

lemma poll_slots_step_ok:
  assumes ok: "slot_poller_ok st" and small: "\<And>sl. e = SlotReply (Some sl) \<Longrightarrow> small_slot sl"
  shows "slot_poller_ok (poll_slots_step st e)"
proof (cases e)
  case (SlotReply reply)
  with ok small show ?thesis
    by (auto simp: poll_commitment_slots_def slot_poller_ok_def current_notification_def split: option.split)
next
  case (SlotUpdate receivers)
  show ?thesis
  proof (cases "sp_updates st")
    case (Cons sl rest)
    show ?thesis
    proof (cases "sp_current_slot st < sl")
      case True
      have sl: "small_slot sl" using ok Cons by (simp add: slot_poller_ok_def)
      have near: "unat (sp_estimated_slot st) \<le> unat (sp_current_slot st) + 32"
        using ok by (simp add: slot_poller_ok_def near_notification_def current_notification_def)
      then have "unat (sp_estimated_slot st) \<le> unat sl + 32"
        using True by (simp add: word_less_nat_alt)
      then show ?thesis
        using ok True sl Cons
        by (simp add: SlotUpdate on_slot_update_def Let_def)
          (intro conjI impI notify_slot_ok [OF ok];
            auto simp: near_notification_def current_notification_def not_less)
    qed (use ok Cons in \<open>auto simp: SlotUpdate on_slot_update_def slot_poller_ok_def current_notification_def\<close>)
  qed (use ok in \<open>simp add: SlotUpdate on_slot_update_def\<close>)
next
  case (SlotTimeout receivers)
  show ?thesis
  proof (cases "sp_estimating st \<and> sp_updates st = [] \<and> sp_polling st \<and>
      sp_estimated_slot st < sp_current_slot st + 32")
    case True
    have near: "sp_current_slot st \<le> sp_estimated_slot st"
        "unat (sp_current_slot st) + 33 < 18446744073709551616"
        "unat (sp_estimated_slot st) \<le> unat (sp_current_slot st) + 32"
      using ok by (simp_all add: slot_poller_ok_def near_notification_def current_notification_def small_slot_def)
    have "unat (sp_current_slot st + 32) = unat (sp_current_slot st) + 32"
      using near(2) by (simp add: unat_u64_add)
    with True have lt: "unat (sp_estimated_slot st) < unat (sp_current_slot st) + 32"
      by (simp add: word_less_nat_alt)
    have suc: "unat (sp_estimated_slot st + 1) = unat (sp_estimated_slot st) + 1"
      using near(2) lt by (simp add: unat_u64_add)
    then have "sp_estimated_slot st < sp_estimated_slot st + 1" by (simp add: word_less_nat_alt)
    with True near lt suc ok show ?thesis
      by (simp add: SlotTimeout on_slot_timeout_def)
        (intro notify_slot_ok [OF ok];
          auto simp: near_notification_def current_notification_def slot_poller_ok_def
            intro: order.trans less_imp_le)
  qed (use ok in \<open>auto simp: SlotTimeout on_slot_timeout_def\<close>)
qed

lemma poll_slots_run_ok:
  "slot_poller_ok st \<Longrightarrow> (\<And>sl. SlotReply (Some sl) \<in> set es \<Longrightarrow> small_slot sl) \<Longrightarrow>
   slot_poller_ok (foldl poll_slots_step st es)"
proof (induction es arbitrary: st)
  case (Cons e es)
  have "slot_poller_ok (poll_slots_step st e)"
    using Cons.prems by (intro poll_slots_step_ok) auto
  then show ?case using Cons.IH Cons.prems(2) by simp
qed simp

text \<open>Whatever the RPC node answers and however answers, updates and timeouts interleave, the
  slot notifications ascend (both slots grow or stay, and no notification repeats the one before),
  the processed slot never exceeds the estimated one, and the estimate runs at most 32 slots ahead
  of the last slot seen, for slots that stay below the limit of a u64.\<close>

theorem estimated_slots_bounded:
  assumes "small_slot start" and "\<forall>sl. SlotReply (Some sl) \<in> set es \<longrightarrow> small_slot sl"
  shows "sorted_wrt later_notification (sp_notifications (poll_slots start es)) \<and>
     (\<forall>n \<in> set (sp_notifications (poll_slots start es)). near_notification n)"
proof -
  have "slot_poller_ok (slot_poller_new start)"
    using assms(1) by (simp add: slot_poller_ok_def slot_poller_new_def near_notification_def current_notification_def)
  then have "slot_poller_ok (poll_slots start es)"
    unfolding poll_slots_def using assms(2) by (blast intro: poll_slots_run_ok)
  then show ?thesis by (auto simp: slot_poller_ok_def)
qed

lemma estimated_slots_bounded_witness:
  "sorted_wrt later_notification (sp_notifications (poll_slots 7
       [SlotTimeout True, SlotReply (Some 9), SlotUpdate True, SlotTimeout True])) \<and>
   sp_notifications (poll_slots 7
       [SlotTimeout True, SlotReply (Some 9), SlotUpdate True, SlotTimeout True]) =
     [\<lparr>sn_processed_slot = 7, sn_estimated_processed_slot = 8\<rparr>,
      \<lparr>sn_processed_slot = 9, sn_estimated_processed_slot = 9\<rparr>,
      \<lparr>sn_processed_slot = 9, sn_estimated_processed_slot = 10\<rparr>]"
proof -
  have "small_slot 7" "small_slot 9" by (simp_all add: small_slot_def)
  then show ?thesis
    using estimated_slots_bounded [of 7 "[SlotTimeout True, SlotReply (Some 9), SlotUpdate True, SlotTimeout True]"]
    by (simp add: poll_slots_def slot_poller_new_def on_slot_timeout_def poll_commitment_slots_def
        on_slot_update_def notify_slot_def)
qed

text \<open>The poller of a commitment level gives up exactly at the eleventh error in a row.  The
  task that estimates the slot survives it and stays as it is: with the channel closed neither an
  update nor a timeout comes, so no slot is notified any more.\<close>

theorem slot_polling_gives_up:
  assumes "sp_polling st"
  shows "(sp_polling (foldl poll_slots_step st (replicate n (SlotReply None))) \<longleftrightarrow> sp_errors st + n \<le> 10 \<or> n = 0) \<and>
    (\<forall>es. sp_updates st = [] \<longrightarrow> foldl poll_slots_step (st\<lparr>sp_polling := False\<rparr>) es = st\<lparr>sp_polling := False\<rparr>)"
proof
  have stuck: "\<not> sp_polling (foldl poll_slots_step st (replicate n (SlotReply None)))"
    if "\<not> sp_polling st" for st n
    using that by (induction n arbitrary: st) (simp_all add: poll_commitment_slots_def)
  show "sp_polling (foldl poll_slots_step st (replicate n (SlotReply None))) \<longleftrightarrow> sp_errors st + n \<le> 10 \<or> n = 0"
    using assms
  proof (induction n arbitrary: st)
    case (Suc n)
    show ?case
    proof (cases "sp_errors st + 1 \<le> 10")
      case True
      with Suc.prems Suc.IH [of "st\<lparr>sp_errors := sp_errors st + 1\<rparr>"] show ?thesis
        by (auto simp: poll_commitment_slots_def)
    next
      case False
      with Suc.prems stuck [of "st\<lparr>sp_errors := sp_errors st + 1, sp_polling := False\<rparr>" n] show ?thesis
        by (simp add: poll_commitment_slots_def)
    qed
  qed simp
  have "poll_slots_step (st\<lparr>sp_polling := False\<rparr>) e = st\<lparr>sp_polling := False\<rparr>" if "sp_updates st = []" for e
    using that by (cases e) (simp_all add: poll_commitment_slots_def on_slot_update_def on_slot_timeout_def)
  then have "foldl poll_slots_step (st\<lparr>sp_polling := False\<rparr>) es = st\<lparr>sp_polling := False\<rparr>"
    if "sp_updates st = []" for es
    using that by (induction es) simp_all
  then show "\<forall>es. sp_updates st = [] \<longrightarrow> foldl poll_slots_step (st\<lparr>sp_polling := False\<rparr>) es = st\<lparr>sp_polling := False\<rparr>"
    by blast
qed

lemma slot_polling_gives_up_witness:
  "\<not> sp_polling (poll_slots 7 (replicate 11 (SlotReply None))) \<and>
   sp_polling (poll_slots 7 (replicate 10 (SlotReply None)))"
  unfolding poll_slots_def
  using slot_polling_gives_up [of "slot_poller_new 7" 11] slot_polling_gives_up [of "slot_poller_new 7" 10]
  by (simp add: slot_poller_new_def)

section \<open>The blocks that are wanted\<close>

text \<open>
  Where a block is asked for: in a queue, with a worker, or with the sleeping replay task.  A
  poller seen from outside has these jobs, its recent slot and the blocks it has sent.
\<close>

fun worker_jobs :: "poll_worker \<Rightarrow> block_job list" where
  "worker_jobs (WorkerFetching job) = [job]"
| "worker_jobs _ = []"

fun replay_jobs :: "replay_task \<Rightarrow> block_job list" where
  "replay_jobs (ReplaySleeping job _) = [job]"
| "replay_jobs _ = []"

definition jobs :: "block_poller \<Rightarrow> block_job multiset" where
  "jobs st = mset (bp_schedule st) + mset (List.map fst (bp_retry st)) +
     mset (concat (List.map worker_jobs (bp_workers st))) + mset (replay_jobs (bp_replay st))"

definition task_ended :: "block_poller \<Rightarrow> bool" where
  "task_ended st \<longleftrightarrow>
     \<not> queue_open st \<or> WorkerEnded \<in> set (bp_workers st) \<or> bp_replay st = ReplayEnded"

inductive job_step ::
    "bool \<Rightarrow> block_job multiset \<times> slot \<times> produced_block list \<Rightarrow>
     block_job multiset \<times> slot \<times> produced_block list \<Rightarrow> bool" for ended where
  Same: "job_step ended (js, recent, bs) (js, recent, bs)"
| Forget: "128 < saturating_sub recent (fst job) \<Longrightarrow>
     job_step ended (add_mset job js, recent, bs) (js, recent, bs)"
| Lose: "ended \<Longrightarrow> job_step ended (add_mset job js, recent, bs) (js, recent, bs)"
| Schedule: "recent < est \<Longrightarrow>
     job_step ended (js, recent, bs)
       (js + mset (List.map (\<lambda>sl. (sl, confirmed_config)) (slot_range (recent + 1) (est + 1))), est, bs)"
| Abandon: "ended \<Longrightarrow> recent < est \<Longrightarrow> job_step ended (js, recent, bs) (js, est, bs)"
| SendBlock: "pb_slot b = sl \<Longrightarrow> pb_commitment_config b = c \<Longrightarrow> ended \<or> is_finalized c \<Longrightarrow>
     job_step ended (add_mset (sl, c) js, recent, bs) (js, recent, bs @ [b])"
| SendBlockAgain: "pb_slot b = sl \<Longrightarrow> pb_commitment_config b = c \<Longrightarrow> \<not> is_finalized c \<Longrightarrow>
     job_step ended (add_mset (sl, c) js, recent, bs)
       (add_mset (sl, finalized_config) js, recent, bs @ [b])"

definition poller_view :: "block_poller \<Rightarrow> block_job multiset \<times> slot \<times> produced_block list" where
  "poller_view st = (jobs st, bp_recent_slot st, bp_blocks st)"

lemma worker_split:
  assumes "i < length ws"
  obtains xs ys where "ws = xs @ ws ! i # ys" "\<And>w. ws[i := w] = xs @ w # ys"
proof -
  have "ws = take i ws @ ws ! i # drop (Suc i) ws" using assms by (rule id_take_nth_drop)
  moreover have "ws[i := w] = take i ws @ w # drop (Suc i) ws" for w
    using assms by (rule upd_conv_take_nth_drop)
  ultimately show ?thesis by (rule that)
qed

definition other_jobs :: "nat \<Rightarrow> block_poller \<Rightarrow> block_job multiset" where
  "other_jobs i st = jobs (set_worker i WorkerIdle st)"

lemma jobs_worker:
  assumes "i < length (bp_workers st)"
  shows "jobs st = other_jobs i st + mset (worker_jobs (bp_workers st ! i))"
    and "jobs (set_worker i w st) = other_jobs i st + mset (worker_jobs w)"
proof -
  obtain xs ys where ws: "bp_workers st = xs @ bp_workers st ! i # ys"
      "\<And>w. (bp_workers st)[i := w] = xs @ w # ys"
    using worker_split [OF assms] by blast
  have all: "mset (concat (List.map worker_jobs (bp_workers st))) =
      mset (concat (List.map worker_jobs xs)) + mset (worker_jobs (bp_workers st ! i)) +
      mset (concat (List.map worker_jobs ys))"
    by (subst ws(1)) simp
  from all show "jobs st = other_jobs i st + mset (worker_jobs (bp_workers st ! i))"
    by (simp add: jobs_def other_jobs_def set_worker_def ws(2))
  show "jobs (set_worker i w st) = other_jobs i st + mset (worker_jobs w)"
    by (simp add: jobs_def other_jobs_def set_worker_def ws(2))
qed

lemma other_jobs_updates [simp]:
  "other_jobs i (st\<lparr>bp_retry := bp_retry st @ [(job, at)]\<rparr>) = add_mset job (other_jobs i st)"
  "other_jobs i (st\<lparr>bp_blocks := bs\<rparr>) = other_jobs i st"
  "other_jobs i (st\<lparr>bp_infos := is\<rparr>) = other_jobs i st"
  by (simp_all add: other_jobs_def jobs_def set_worker_def)

lemma other_jobs_set_worker [simp]: "other_jobs i (set_worker i w st) = other_jobs i st"
  by (simp add: other_jobs_def set_worker_def)

lemma job_step_refl: "job_step ended view view"
  by (cases view) (simp add: Same)

lemma set_worker_simps [simp]:
  "bp_blocks (set_worker i w st) = bp_blocks st"
  "bp_recent_slot (set_worker i w st) = bp_recent_slot st"
  "bp_poller (set_worker i w st) = bp_poller st"
  "bp_replay (set_worker i w st) = bp_replay st"
  "bp_workers (set_worker i w st) = (bp_workers st)[i := w]"
  by (simp_all add: set_worker_def)

lemma worker_take_view: "poller_view (worker_take i st) = poller_view st"
proof (cases "i < length (bp_workers st) \<and> bp_workers st ! i = WorkerIdle")
  case True
  show ?thesis
  proof (cases "bp_schedule st")
    case (Cons job rest)
    have "other_jobs i st = add_mset job (other_jobs i (st\<lparr>bp_schedule := rest\<rparr>))"
      by (simp add: other_jobs_def jobs_def set_worker_def Cons)
    with True Cons show ?thesis
      by (simp add: worker_take_def poller_view_def jobs_worker [of i])
  qed (use True in \<open>simp add: worker_take_def\<close>)
qed (auto simp: worker_take_def)

lemma retry_job_view:
  assumes "i < length (bp_workers st)"
  shows "poller_view (retry_job i job at st) =
     ((if bp_replay st = ReplayEnded then other_jobs i st else add_mset job (other_jobs i st)),
      bp_recent_slot st, bp_blocks st)"
  using assms by (simp add: retry_job_def poller_view_def jobs_worker [of i])

lemma task_ended_worker: "i < length (bp_workers st) \<Longrightarrow> task_ended (set_worker i WorkerEnded st)"
  by (auto simp: task_ended_def set_worker_def intro: set_update_memI)

lemma retry_job_ended:
  "i < length (bp_workers st) \<Longrightarrow> bp_replay st = ReplayEnded \<Longrightarrow> task_ended (retry_job i job at st)"
  by (simp add: retry_job_def task_ended_worker)

lemma process_block_job:
  "process_block env reply job = Inr (Some b) \<Longrightarrow> pb_slot b = fst job \<and> pb_commitment_config b = snd job"
  by (auto simp: process_block_def from_ui_block_def split: option.splits)

lemma finalized_level: "cc_commitment c = LevelFinalized \<longleftrightarrow> is_finalized c"
  by (simp add: is_finalized_def)

lemma worker_send_view:
  assumes i: "i < length (bp_workers st)" and b: "pb_slot b = fst job" "pb_commitment_config b = snd job"
    and view: "poller_view st = (add_mset job (other_jobs i st), recent, bs)"
  shows "job_step (task_ended (worker_send i job b br ir st)) (poller_view st)
     (poller_view (worker_send i job b br ir st))"
proof -
  have bs: "bp_blocks st = bs" "bp_recent_slot st = recent" using view by (simp_all add: poller_view_def)
  obtain sl c where job: "job = (sl, c)" by (cases job)
  let ?st = "st\<lparr>bp_blocks := bp_blocks st @ [b], bp_infos := bp_infos st @ [map_block_info b]\<rparr>"
  consider "\<not> br" | "br" "\<not> ir" | "br" "ir" "is_finalized c" | "br" "ir" "\<not> is_finalized c" by blast
  then show ?thesis
  proof cases
    case 1
    have "poller_view (worker_send i job b br ir st) = (other_jobs i st, recent, bs)"
      using 1 i bs by (simp add: worker_send_def poller_view_def jobs_worker [of i])
    moreover have "task_ended (worker_send i job b br ir st)"
      using 1 i by (simp add: worker_send_def task_ended_worker)
    ultimately show ?thesis using view by (simp add: Lose)
  next
    case 2
    have "poller_view (worker_send i job b br ir st) = (other_jobs i st, recent, bs @ [b])"
      using 2 i bs by (simp add: worker_send_def poller_view_def jobs_worker [of i])
    moreover have "task_ended (worker_send i job b br ir st)"
      using 2 i by (simp add: worker_send_def task_ended_worker)
    ultimately show ?thesis using view b by (simp add: job SendBlock)
  next
    case 3
    have "poller_view (worker_send i job b br ir st) = (other_jobs i st, recent, bs @ [b])"
      using 3 i bs by (simp add: worker_send_def poller_view_def jobs_worker [of i] finalized_level job)
    then show ?thesis using 3 view b by (simp add: job SendBlock)
  next
    case 4
    have eq: "worker_send i job b br ir st = retry_job i (sl, finalized_config) (bp_now st + 2000) ?st"
      using 4 by (simp add: worker_send_def finalized_level job)
    show ?thesis
    proof (cases "bp_replay st = ReplayEnded")
      case True
      then have "poller_view (worker_send i job b br ir st) = (other_jobs i st, recent, bs @ [b])"
        using i bs by (simp add: eq retry_job_view)
      moreover have "task_ended (worker_send i job b br ir st)"
        using True i by (simp add: eq retry_job_ended)
      ultimately show ?thesis using view b by (simp add: job SendBlock)
    next
      case False
      then have "poller_view (worker_send i job b br ir st) =
          (add_mset (sl, finalized_config) (other_jobs i st), recent, bs @ [b])"
        using i bs by (simp add: eq retry_job_view)
      then show ?thesis using 4 view b by (simp add: job SendBlockAgain)
    qed
  qed
qed

lemma worker_reply_view:
  "job_step (task_ended (worker_reply env i reply br ir st)) (poller_view st)
     (poller_view (worker_reply env i reply br ir st))"
proof (cases "i < length (bp_workers st) \<and> (\<exists>job. bp_workers st ! i = WorkerFetching job)")
  case True
  then obtain job where i: "i < length (bp_workers st)" and job: "bp_workers st ! i = WorkerFetching job" by blast
  have view: "poller_view st = (add_mset job (other_jobs i st), bp_recent_slot st, bp_blocks st)"
    using jobs_worker(1) [OF i] by (simp add: poller_view_def job)
  show ?thesis
  proof (cases "process_block env reply job")
    case (Inl p)
    then have eq: "worker_reply env i reply br ir st = set_worker i WorkerEnded st"
      using i by (simp add: worker_reply_def job)
    have "poller_view (set_worker i WorkerEnded st) = (other_jobs i st, bp_recent_slot st, bp_blocks st)"
      using i by (simp add: poller_view_def jobs_worker [of i])
    with view i show ?thesis by (simp add: eq task_ended_worker Lose)
  next
    case (Inr r)
    show ?thesis
    proof (cases r)
      case None
      then have eq: "worker_reply env i reply br ir st = retry_job i job (bp_now st + 10) st"
        using i Inr by (simp add: worker_reply_def job)
      show ?thesis
        using view i by (simp add: eq retry_job_view retry_job_ended Lose Same)
    next
      case (Some b)
      then have "worker_reply env i reply br ir st = worker_send i job b br ir st"
        using i Inr by (simp add: worker_reply_def job)
      moreover have "pb_slot b = fst job" "pb_commitment_config b = snd job"
        using process_block_job Inr Some by blast+
      ultimately show ?thesis using worker_send_view [OF i _ _ view] by simp
    qed
  qed
qed (auto simp: worker_reply_def job_step_refl split: poll_worker.split)

lemma replay_take_view: "job_step (task_ended (replay_take st)) (poller_view st) (poller_view (replay_take st))"
proof (cases "bp_replay st = ReplayIdle")
  case True
  show ?thesis
  proof (cases "bp_retry st")
    case Nil
    with True show ?thesis by (simp add: replay_take_def poller_view_def jobs_def Same)
  next
    case (Cons x rest)
    obtain job at where x: "x = (job, at)" by (cases x)
    let ?st = "st\<lparr>bp_retry := rest\<rparr>"
    have "jobs st = add_mset job (jobs ?st)" by (simp add: jobs_def Cons x)
    moreover have "jobs (st\<lparr>bp_retry := rest, bp_replay := ReplaySleeping job at\<rparr>) = add_mset job (jobs ?st)"
      by (simp add: jobs_def True)
    ultimately show ?thesis
      using True
      by (cases "128 < saturating_sub (bp_recent_slot st) (fst job)")
        (simp_all add: replay_take_def poller_view_def Cons x Let_def Forget Same)
  qed
qed (simp add: replay_take_def job_step_refl)

lemma replay_wake_view: "job_step (task_ended (replay_wake st)) (poller_view st) (poller_view (replay_wake st))"
proof (cases "bp_replay st")
  case (ReplaySleeping job at)
  let ?ended = "st\<lparr>bp_replay := ReplayEnded\<rparr>"
  have "jobs st = add_mset job (jobs ?ended)" "task_ended ?ended"
    by (simp_all add: jobs_def ReplaySleeping task_ended_def)
  moreover have "jobs (st\<lparr>bp_schedule := bp_schedule st @ [job], bp_replay := ReplayIdle\<rparr>) = jobs st"
    by (simp add: jobs_def ReplaySleeping)
  ultimately show ?thesis
    by (simp add: replay_wake_def poller_view_def ReplaySleeping Lose Same)
qed (simp_all add: replay_wake_def job_step_refl)

lemma poller_notified_view:
  "job_step (task_ended (poller_notified msg st)) (poller_view st) (poller_view (poller_notified msg st))"
proof (cases "bp_poller st = PollerRunning \<and> (\<exists>n. msg = Some n \<and> bp_recent_slot st < sn_estimated_processed_slot n)")
  case True
  then obtain n where n: "bp_poller st = PollerRunning" "msg = Some n"
      "bp_recent_slot st < sn_estimated_processed_slot n" by blast
  let ?slots = "slot_range (bp_recent_slot st + 1) (sn_estimated_processed_slot n + 1)"
  show ?thesis
  proof (cases "queue_open st \<or> ?slots = []")
    case True
    have "poller_view (poller_notified msg st) =
        (jobs st + mset (List.map (\<lambda>sl. (sl, confirmed_config)) ?slots), sn_estimated_processed_slot n, bp_blocks st)"
      using n True by (auto simp: poller_notified_def poller_view_def jobs_def queue_open_def Let_def)
    then show ?thesis using n(3) by (simp only: Schedule poller_view_def [of st])
  next
    case False
    then have eq: "poller_notified msg st =
        st\<lparr>bp_recent_slot := sn_estimated_processed_slot n, bp_poller := PollerEnded\<rparr>"
      using n by (simp add: poller_notified_def queue_open_def Let_def)
    have "task_ended (poller_notified msg st)"
      using False by (simp add: eq task_ended_def queue_open_def)
    moreover have "poller_view (poller_notified msg st) = (jobs st, sn_estimated_processed_slot n, bp_blocks st)"
      by (simp add: eq poller_view_def jobs_def)
    ultimately show ?thesis using n(3) by (simp add: Abandon poller_view_def [of st])
  qed
next
  case False
  then have "poller_view (poller_notified msg st) = poller_view st"
    by (auto simp: poller_notified_def poller_view_def jobs_def split: option.split)
  then show ?thesis by (simp add: Same poller_view_def)
qed

lemma poll_block_step_view:
  assumes "bp_poller st \<noteq> PollerStarting"
  shows "job_step (task_ended (poll_block_step env st e)) (poller_view st)
     (poller_view (poll_block_step env st e))"
proof (cases e)
  case (PollTick d)
  have "poller_view (st\<lparr>bp_now := bp_now st + d\<rparr>) = poller_view st"
    by (simp add: poller_view_def jobs_def)
  then show ?thesis by (simp add: PollTick Same poller_view_def)
next
  case (WorkerTake i)
  then show ?thesis by (simp add: worker_take_view) (simp add: poller_view_def Same)
next
  case (PollerStart reply)
  with assms show ?thesis by (simp add: poller_start_def) (simp add: poller_view_def Same)
qed (simp_all add: worker_reply_view replay_take_view replay_wake_view poller_notified_view)

lemma set_worker_ended:
  assumes "task_ended st" and i: "bp_workers st ! i \<noteq> WorkerEnded" "i < length (bp_workers st)"
    and st': "bp_workers st' = bp_workers st" "bp_replay st' = bp_replay st"
  shows "task_ended (set_worker i w st')"
proof -
  have "queue_open st" using i by (auto simp: queue_open_def)
  then have "WorkerEnded \<in> set (bp_workers st) \<or> bp_replay st = ReplayEnded"
    using assms(1) by (simp add: task_ended_def)
  moreover have "WorkerEnded \<in> set ((bp_workers st)[i := w])" if "WorkerEnded \<in> set (bp_workers st)"
  proof -
    obtain j where j: "j < length (bp_workers st)" "bp_workers st ! j = WorkerEnded"
      using \<open>WorkerEnded \<in> set (bp_workers st)\<close> by (auto simp: in_set_conv_nth)
    then have "(bp_workers st)[i := w] ! j = WorkerEnded" using i by (auto simp: nth_list_update)
    with j(1) show ?thesis by (metis length_list_update nth_mem)
  qed
  ultimately show ?thesis by (auto simp: task_ended_def st')
qed

lemma retry_job_keeps_ended:
  "task_ended st \<Longrightarrow> bp_workers st ! i \<noteq> WorkerEnded \<Longrightarrow> i < length (bp_workers st) \<Longrightarrow>
   bp_workers st' = bp_workers st \<Longrightarrow> bp_replay st' = bp_replay st \<Longrightarrow>
   task_ended (retry_job i job at st')"
  by (simp add: retry_job_def set_worker_ended)

lemma poll_block_step_ended:
  assumes "task_ended st" shows "task_ended (poll_block_step env st e)"
proof (cases e)
  case (WorkerTake i)
  with assms show ?thesis
    by (auto simp: worker_take_def intro: set_worker_ended split: list.split)
next
  case (WorkerReply i reply br ir)
  with assms show ?thesis
    by (auto simp: worker_reply_def worker_send_def Let_def
        intro!: set_worker_ended [OF assms] retry_job_keeps_ended [OF assms]
        split: poll_worker.split sum.split option.split)
qed (use assms in \<open>auto simp: task_ended_def queue_open_def replay_take_def replay_wake_def poller_start_def
    poller_notified_def Let_def split: list.split option.split replay_task.split\<close>)

lemma retry_job_poller [simp]: "bp_poller (retry_job i job at st) = bp_poller st"
  by (simp add: retry_job_def)

lemma worker_send_poller [simp]: "bp_poller (worker_send i job b br ir st) = bp_poller st"
  by (simp add: worker_send_def Let_def)

lemma worker_poller [simp]:
  "bp_poller (worker_take i st) = bp_poller st" "bp_poller (worker_reply env i reply br ir st) = bp_poller st"
  by (simp_all add: worker_take_def worker_reply_def split: list.split poll_worker.split sum.split option.split)

lemma replay_poller [simp]:
  "bp_poller (replay_take st) = bp_poller st" "bp_poller (replay_wake st) = bp_poller st"
  by (simp_all add: replay_take_def replay_wake_def Let_def split: list.split replay_task.split)

lemma poll_block_step_started:
  "bp_poller st \<noteq> PollerStarting \<Longrightarrow> bp_poller (poll_block_step env st e) \<noteq> PollerStarting"
  by (cases e)
    (simp_all add: poller_start_def poller_notified_def Let_def split: option.split)

text \<open>The slots of one notification.\<close>

lemma slot_range_distinct: "distinct (slot_range a b)"
proof -
  have u: "unat (word_of_nat n :: slot) = n" if "n \<in> {unat a ..< unat b}" for n
    using that unat_u64_bound [of b] by (intro unat_u64_of_nat) auto
  have "inj_on (word_of_nat :: nat \<Rightarrow> slot) {unat a ..< unat b}"
    by (rule inj_on_inverseI [where g = unat]) (rule u)
  then show ?thesis by (simp add: slot_range_def distinct_map)
qed

lemma slot_range_mem: "sl \<in> set (slot_range a b) \<longleftrightarrow> a \<le> sl \<and> sl < b"
proof -
  have "unat a \<le> n \<and> n < unat b \<Longrightarrow> unat (word_of_nat n :: slot) = n" for n
    using unat_u64_bound [of b] by (intro unat_u64_of_nat) auto
  then show ?thesis
    by (force simp: slot_range_def word_le_nat_alt word_less_nat_alt image_iff)
qed

lemma above_recent: "recent < (est :: slot) \<Longrightarrow> recent + 1 \<le> sl \<longleftrightarrow> recent < sl"
proof -
  assume "recent < est"
  then have "unat (recent + 1) = unat recent + 1"
    using unat_u64_bound [of est] by (simp add: word_less_nat_alt unat_u64_add)
  then show ?thesis by (simp add: word_le_nat_alt word_less_nat_alt Suc_le_eq)
qed

lemma up_to_estimate: "small_slot est \<Longrightarrow> sl < est + 1 \<longleftrightarrow> sl \<le> est"
proof -
  assume "small_slot est"
  then have "unat (est + 1) = unat est + 1"
    by (simp add: small_slot_def unat_u64_add)
  then show ?thesis by (simp add: word_le_nat_alt word_less_nat_alt less_Suc_eq_le)
qed

lemma below_estimate: "sl < est + 1 \<Longrightarrow> sl \<le> (est :: slot)"
proof -
  assume "sl < est + 1"
  moreover have "unat (est + 1) \<le> unat est + 1" by (simp add: unat_word_ariths)
  ultimately show ?thesis by (simp add: word_le_nat_alt word_less_nat_alt)
qed

section \<open>No block twice, no block forgotten\<close>

definition block_key :: "produced_block \<Rightarrow> block_job" where
  "block_key b = (pb_slot b, pb_commitment_config b)"

definition job_ok :: "slot \<Rightarrow> slot \<Rightarrow> produced_block list \<Rightarrow> block_job \<Rightarrow> bool" where
  "job_ok start recent bs job \<longleftrightarrow>
     start < fst job \<and> fst job \<le> recent \<and> snd job \<in> {confirmed_config, finalized_config} \<and>
     (fst job, finalized_config) \<notin> block_key ` set bs \<and>
     (snd job = confirmed_config \<longrightarrow> (fst job, confirmed_config) \<notin> block_key ` set bs)"

definition jobs_ok :: "slot \<Rightarrow> block_job multiset \<times> slot \<times> produced_block list \<Rightarrow> bool" where
  "jobs_ok start view = (case view of (js, recent, bs) \<Rightarrow>
     start \<le> recent \<and>
     (\<forall>sl. count (image_mset fst js) sl \<le> 1) \<and>
     (\<forall>job \<in># js. job_ok start recent bs job) \<and>
     (\<forall>b \<in> set bs. start < pb_slot b \<and> pb_slot b \<le> recent) \<and>
     distinct (List.map block_key bs))"

lemma confirmed_not_finalized: "confirmed_config \<noteq> finalized_config"
  by (simp add: config_defs)

lemma job_ok_later:
  "job_ok start recent bs job \<Longrightarrow> recent \<le> est \<Longrightarrow> job_ok start est bs job"
  by (auto simp: job_ok_def intro: order.trans)

lemma job_ok_other:
  "job_ok start recent bs job \<Longrightarrow> fst job \<noteq> pb_slot b \<Longrightarrow> job_ok start recent (bs @ [b]) job"
  by (auto simp: job_ok_def block_key_def)

lemma jobs_ok_fresh:
  assumes "jobs_ok start (add_mset job js, recent, bs)"
  shows "\<And>job'. job' \<in># js \<Longrightarrow> fst job' \<noteq> fst job" and "jobs_ok start (js, recent, bs)"
    and "job_ok start recent bs job"
proof -
  have c: "count (image_mset fst (add_mset job js)) sl \<le> 1" for sl
    using assms unfolding jobs_ok_def prod.case by blast
  have "count (image_mset fst js) (fst job) = 0" using c [of "fst job"] by simp
  then have "fst job \<notin># image_mset fst js" by (simp only: count_eq_zero_iff) simp
  then show "fst job' \<noteq> fst job" if "job' \<in># js" for job'
  proof -
    have "fst job' \<in># image_mset fst js" using that by simp
    with \<open>fst job \<notin># image_mset fst js\<close> show ?thesis by metis
  qed
  have "count (image_mset fst js) sl \<le> 1" for sl
    using c [of sl] by (simp split: if_splits)
  with assms show "jobs_ok start (js, recent, bs)" by (simp add: jobs_ok_def)
  show "job_ok start recent bs job" using assms by (simp add: jobs_ok_def)
qed

lemma count_scheduled:
  "count (image_mset fst (mset (List.map (\<lambda>sl. (sl, c)) slots))) sl = count (mset slots) sl"
  by (simp add: image_mset.compositionality comp_def)

lemma jobs_ok_schedule:
  assumes ok: "jobs_ok start (js, recent, bs)" and lt: "recent < est"
  shows "jobs_ok start
    (js + mset (List.map (\<lambda>sl. (sl, confirmed_config)) (slot_range (recent + 1) (est + 1))), est, bs)"
proof -
  let ?slots = "slot_range (recent + 1) (est + 1)"
  have new: "recent < sl" "sl \<le> est" "start < sl" if "sl \<in> set ?slots" for sl
  proof -
    show 1: "recent < sl" and "sl \<le> est"
      using that above_recent [OF lt] by (simp_all add: slot_range_mem below_estimate)
    have "start \<le> recent" using ok by (simp add: jobs_ok_def)
    then show "start < sl" using 1 by (rule order.strict_trans1)
  qed
  have old: "pb_slot b \<le> recent" if "b \<in> set bs" for b
    using that ok by (simp add: jobs_ok_def)
  have js: "job_ok start recent bs job" if "job \<in># js" for job
    using that ok by (simp add: jobs_ok_def)
  have "count (image_mset fst js) sl + count (mset ?slots) sl \<le> 1" for sl
  proof (cases "sl \<in> set ?slots")
    case True
    have "fst job \<noteq> sl" if "job \<in># js" for job
      using js [OF that] new(1) [OF True] by (auto simp: job_ok_def)
    then have "count (image_mset fst js) sl = 0" by (simp only: count_eq_zero_iff) auto
    moreover have "count (mset ?slots) sl \<le> 1"
      using slot_range_distinct by (metis distinct_count_atmost_1 le_refl zero_le)
    ultimately show ?thesis by simp
  next
    case False
    then have "count (mset ?slots) sl = 0" by (simp only: count_eq_zero_iff set_mset_mset) simp
    moreover have "count (image_mset fst js) sl \<le> 1"
      using ok unfolding jobs_ok_def prod.case by blast
    ultimately show ?thesis by linarith
  qed
  moreover have "job_ok start est bs (sl, confirmed_config)" if "sl \<in> set ?slots" for sl
    using new [OF that] old by (fastforce simp: job_ok_def block_key_def)
  moreover have "job_ok start est bs job" if "job \<in># js" for job
    using js [OF that] lt by (auto intro: job_ok_later)
  moreover have "start \<le> est" "\<And>b. b \<in> set bs \<Longrightarrow> start < pb_slot b \<and> pb_slot b \<le> est"
    using ok lt by (auto simp: jobs_ok_def)
  moreover have "distinct (List.map block_key bs)" using ok by (simp add: jobs_ok_def)
  ultimately show ?thesis
    unfolding jobs_ok_def prod.case image_mset_union count_union count_scheduled by auto
qed

lemma job_step_ok:
  assumes "job_step ended v w" and "jobs_ok start v"
  shows "jobs_ok start w"
  using assms
proof (cases rule: job_step.cases)
  case (Schedule recent est js bs)
  with assms(2) show ?thesis by (simp only: jobs_ok_schedule)
next
  case (Abandon recent est js bs)
  then have ok: "jobs_ok start (js, recent, bs)" and le: "recent \<le> est" using assms(2) by simp_all
  have "start \<le> est" "\<forall>b \<in> set bs. start < pb_slot b \<and> pb_slot b \<le> est"
    using ok le by (auto simp: jobs_ok_def intro: order.trans)
  moreover have "\<forall>job \<in># js. job_ok start est bs job"
    using ok le by (auto simp: jobs_ok_def intro: job_ok_later)
  ultimately show ?thesis using ok by (simp add: Abandon(2) jobs_ok_def)
next
  case (SendBlock b sl c js recent bs)
  then have ok: "jobs_ok start (add_mset (sl, c) js, recent, bs)" using assms(2) by simp
  note fresh = jobs_ok_fresh [OF ok]
  have "job_ok start recent (bs @ [b]) job" if "job \<in># js" for job
    using fresh(1) [OF that] fresh(2) that SendBlock(3) by (intro job_ok_other) (auto simp: jobs_ok_def)
  moreover have "block_key b \<notin> block_key ` set bs" "start < pb_slot b" "pb_slot b \<le> recent"
    using fresh(3) SendBlock(3,4) by (auto simp: job_ok_def block_key_def)
  ultimately show ?thesis using fresh(2) by (auto simp: SendBlock(2) jobs_ok_def)
next
  case (SendBlockAgain b sl c js recent bs)
  then have ok: "jobs_ok start (add_mset (sl, c) js, recent, bs)" using assms(2) by simp
  note fresh = jobs_ok_fresh [OF ok]
  have c: "c = confirmed_config"
    using fresh(3) SendBlockAgain(5) by (auto simp: job_ok_def)
  have "job_ok start recent (bs @ [b]) job" if "job \<in># js" for job
    using fresh(1) [OF that] fresh(2) that SendBlockAgain(3) by (intro job_ok_other) (auto simp: jobs_ok_def)
  moreover have b: "block_key b = (sl, confirmed_config)" "start < pb_slot b" "pb_slot b \<le> recent"
      "block_key b \<notin> block_key ` set bs"
    using fresh(3) SendBlockAgain(3,4) c by (auto simp: job_ok_def block_key_def)
  moreover have "job_ok start recent (bs @ [b]) (sl, finalized_config)"
    using fresh(3) b by (auto simp: job_ok_def config_defs)
  moreover have "count (image_mset fst (add_mset (sl, finalized_config) js)) x =
      count (image_mset fst (add_mset (sl, c) js)) x" for x by simp
  ultimately show ?thesis using ok fresh(2)
    by (simp only: SendBlockAgain(2) jobs_ok_def prod.case) simp
qed (use assms(2) jobs_ok_fresh(2) in auto)

definition jobs_complete :: "slot \<Rightarrow> block_job multiset \<times> slot \<times> produced_block list \<Rightarrow> bool" where
  "jobs_complete start view = (case view of (js, recent, bs) \<Rightarrow>
     \<forall>sl. start < sl \<and> sl \<le> recent \<longrightarrow>
       unat sl + 128 < unat recent \<or> (sl, confirmed_config) \<in># js \<or>
       (sl, confirmed_config) \<in> block_key ` set bs \<and>
         ((sl, finalized_config) \<in># js \<or> (sl, finalized_config) \<in> block_key ` set bs))"

lemma job_step_complete:
  assumes "job_step False v w" and "jobs_complete start v" and "small_slot (fst (snd w))"
    and "jobs_ok start v"
  shows "jobs_complete start w"
  using assms
proof (cases rule: job_step.cases)
  case (Forget recent job js bs)
  have "128 < unat recent - unat (fst job)"
    using Forget(3) by (simp add: word_less_nat_alt unat_saturating_sub)
  then have "unat (fst job) + 128 < unat recent" by simp
  with assms(2) show ?thesis by (auto simp: Forget(1,2) jobs_complete_def)
next
  case (Schedule recent est js bs)
  have le: "unat recent \<le> unat est" using Schedule(3) by (simp add: word_less_nat_alt)
  have "sl \<in> set (slot_range (recent + 1) (est + 1))" if "\<not> sl \<le> recent" "sl \<le> est" for sl
    using that above_recent [OF Schedule(3)] assms(3) Schedule(2)
    by (simp add: slot_range_mem up_to_estimate not_le)
  with assms(2) le show ?thesis
    by (fastforce simp: Schedule(1,2) jobs_complete_def)
next
  case (SendBlock b sl c js recent bs)
  then have c: "block_key b = (sl, finalized_config)"
    by (simp add: block_key_def config_defs)
  have "job_ok start recent bs (sl, c)" using assms(4) SendBlock(1) by (simp add: jobs_ok_fresh(3))
  with assms(2) c SendBlock(5) show ?thesis
    by (auto simp: SendBlock(1,2) jobs_complete_def job_ok_def)
next
  case (SendBlockAgain b sl c js recent bs)
  have "job_ok start recent bs (sl, c)" using assms(4) SendBlockAgain(1) by (simp add: jobs_ok_fresh(3))
  then have "c = confirmed_config" using SendBlockAgain(5) by (auto simp: job_ok_def)
  with assms(2) SendBlockAgain(3,4) show ?thesis
    by (auto simp: SendBlockAgain(1,2) jobs_complete_def block_key_def config_defs)
qed auto

lemma poll_block_run_ok:
  assumes "bp_poller st \<noteq> PollerStarting" and "jobs_ok start (poller_view st)"
    and "\<forall>n. PollerNotified (Some n) \<in> set es \<longrightarrow> small_slot (sn_estimated_processed_slot n)"
    and "small_slot (bp_recent_slot st)"
  shows "jobs_ok start (poller_view (foldl (poll_block_step env) st es)) \<and>
    (task_ended st \<longrightarrow> task_ended (foldl (poll_block_step env) st es)) \<and>
    (jobs_complete start (poller_view st) \<longrightarrow> task_ended (foldl (poll_block_step env) st es) \<or>
       jobs_complete start (poller_view (foldl (poll_block_step env) st es)))"
  using assms
proof (induction es arbitrary: st)
  case (Cons e es)
  let ?st = "poll_block_step env st e"
  note view = poll_block_step_view [OF Cons.prems(1), of env e]
  have ok: "jobs_ok start (poller_view ?st)" using job_step_ok [OF view Cons.prems(2)] .
  have "bp_recent_slot ?st = bp_recent_slot st \<or>
      (\<exists>n. e = PollerNotified (Some n) \<and> bp_recent_slot ?st = sn_estimated_processed_slot n)"
    using Cons.prems(1)
    by (cases e) (auto simp: worker_take_def worker_reply_def worker_send_def retry_job_def replay_take_def
        replay_wake_def poller_start_def poller_notified_def Let_def
        split: list.split option.split replay_task.split poll_worker.split sum.split)
  then have small: "small_slot (bp_recent_slot ?st)" using Cons.prems(3,4) by auto
  have IH: "jobs_ok start (poller_view (foldl (poll_block_step env) ?st es)) \<and>
    (task_ended ?st \<longrightarrow> task_ended (foldl (poll_block_step env) ?st es)) \<and>
    (jobs_complete start (poller_view ?st) \<longrightarrow> task_ended (foldl (poll_block_step env) ?st es) \<or>
       jobs_complete start (poller_view (foldl (poll_block_step env) ?st es)))"
    using Cons.IH [OF poll_block_step_started [OF Cons.prems(1)] ok _ small] Cons.prems(3) by auto
  have "jobs_complete start (poller_view ?st)" if "jobs_complete start (poller_view st)" "\<not> task_ended ?st"
    using job_step_complete [OF _ that(1) _ Cons.prems(2), of "poller_view ?st"] view that(2) small
    by (simp add: poller_view_def)
  with IH poll_block_step_ended [of st env e] show ?case by auto
qed simp

lemma poller_started:
  "jobs_ok start (poller_view (poller_start (Some start) (block_poller_new n now))) \<and>
   jobs_complete start (poller_view (poller_start (Some start) (block_poller_new n now)))"
  by (auto simp: poller_start_def block_poller_new_def poller_view_def jobs_def jobs_ok_def jobs_complete_def)


definition sample_poll_events :: "block_poll_event list" where
  "sample_poll_events =
     [PollerNotified (Some \<lparr>sn_processed_slot = 9, sn_estimated_processed_slot = 9\<rparr>),
      WorkerTake 0, WorkerTake 1,
      WorkerReply 0 (Some \<lparr>ub_previous_blockhash = ''g'', ub_blockhash = ''h'', ub_parent_slot = 7,
        ub_transactions = None, ub_rewards = None, ub_block_time = None, ub_block_height = None\<rparr>) True True,
      WorkerReply 1 None True True,
      ReplayTake, PollTick 2000, ReplayWake]"


end
