(* ===== verification/Fee_Method.thy ===== *)
theory Fee_Method
  imports Lite_Prelude
begin

text \<open>
  \<open>prioritization_fees/src/prioritization_fee_calculation_method.rs\<close>: the method parameter of the
  prioritization fee requests, read from a string.  \<open>str::replace\<close>, \<open>starts_with\<close> and
  \<open>parse::<usize>\<close> of the standard library are written out; a \<open>usize\<close> has 64 bits.
\<close>

section \<open>Strings of the standard library\<close>

definition starts_with :: "string \<Rightarrow> string \<Rightarrow> bool" where
  "starts_with pat s \<longleftrightarrow> take (length pat) s = pat"

text \<open>Every occurrence from the left; the patterns the code uses are not empty.\<close>

function replace_all :: "string \<Rightarrow> string \<Rightarrow> string" where
  "replace_all pat s =
     (if s = [] then []
      else if pat \<noteq> [] \<and> starts_with pat s then replace_all pat (drop (length pat) s)
      else hd s # replace_all pat (tl s))"
  by pat_completeness auto
termination
  by (relation "measure (\<lambda>(pat, s). length s)") (auto simp: length_greater_0_conv)

declare replace_all.simps [simp del]

fun digit_value :: "char \<Rightarrow> nat option" where
  "digit_value c = (let n = (of_char c :: nat) in if 48 \<le> n \<and> n \<le> 57 then Some (n - 48) else None)"

text \<open>The accumulator overflows as soon as the value does not fit.\<close>

fun parse_digits :: "nat \<Rightarrow> string \<Rightarrow> nat option" where
  "parse_digits acc [] = Some acc"
| "parse_digits acc (c # cs) =
     (case digit_value c of
        None \<Rightarrow> None
      | Some d \<Rightarrow> if 10 * acc + d < 18446744073709551616 then parse_digits (10 * acc + d) cs else None)"

definition parse_usize :: "string \<Rightarrow> nat option" where
  "parse_usize s =
     (case s of
        [] \<Rightarrow> None
      | c # cs \<Rightarrow> if c = CHR ''+'' then (if cs = [] then None else parse_digits 0 cs)
                 else parse_digits 0 s)"

section \<open>The method\<close>

datatype fee_calculation_method = Latest | LastNBlocks nat | Unknown

definition default_method :: fee_calculation_method where
  "default_method = Latest"

definition deserialize_method :: "string \<Rightarrow> fee_calculation_method" where
  "deserialize_method s =
     (if s = ''latest'' then Latest
      else if starts_with ''last_n_blocks'' s then
        (case parse_usize (replace_all '')'' (replace_all ''last_n_blocks('' s)) of
           Some nb \<Rightarrow> LastNBlocks nb
         | None \<Rightarrow> Unknown)
      else Unknown)"

section \<open>Reading back what a client writes\<close>

function decimal :: "nat \<Rightarrow> string" where
  "decimal n = (if n < 10 then [char_of (48 + n)] else decimal (n div 10) @ [char_of (48 + n mod 10)])"
  by pat_completeness auto
termination by (relation "measure id") auto

declare decimal.simps [simp del]

lemma digit_value_char: "d < 10 \<Longrightarrow> digit_value (char_of (48 + d)) = Some d"
proof -
  assume "d < 10"
  then have "of_char (char_of (48 + d) :: char) = (48 + d :: nat)" by simp
  with \<open>d < 10\<close> show ?thesis by (simp only: digit_value.simps Let_def) simp
qed

lemma parse_digits_append:
  "parse_digits acc (xs @ ys) = Option.bind (parse_digits acc xs) (\<lambda>acc. parse_digits acc ys)"
  by (induction xs arbitrary: acc) (auto split: option.split)

lemma parse_decimal: "n < 18446744073709551616 \<Longrightarrow> parse_digits 0 (decimal n) = Some n"
proof (induction n rule: decimal.induct)
  case (1 n)
  show ?case
  proof (cases "n < 10")
    case True
    then show ?thesis by (simp add: decimal.simps [of n] digit_value_char del: digit_value.simps)
  next
    case False
    have "parse_digits 0 (decimal (n div 10)) = Some (n div 10)" using 1 False by simp
    moreover have "10 * (n div 10) + n mod 10 = n" by simp
    ultimately show ?thesis
      using False "1.prems"
      by (simp add: decimal.simps [of n] parse_digits_append digit_value_char del: digit_value.simps)
  qed
qed

lemma decimal_digits: "c \<in> set (decimal n) \<Longrightarrow> \<exists>d < 10. c = char_of (48 + d :: nat)"
proof (induction n rule: decimal.induct)
  case (1 n)
  show ?case
  proof (cases "n < 10")
    case False
    then have "c \<in> set (decimal (n div 10)) \<or> c = char_of (48 + n mod 10)"
      using "1.prems" by (auto simp: decimal.simps [of n])
    then show ?thesis using 1(1) [OF False] by (auto intro: exI [of _ "n mod 10"])
  qed (use 1 in \<open>auto simp: decimal.simps [of n]\<close>)
qed

lemma digit_code: "c \<in> set (decimal n) \<Longrightarrow> 48 \<le> (of_char c :: nat) \<and> of_char c \<le> (57 :: nat)"
proof -
  assume "c \<in> set (decimal n)"
  then obtain d :: nat where "d < 10" "c = char_of (48 + d)" using decimal_digits by blast
  then show ?thesis by simp
qed

lemma decimal_not_Nil: "decimal n \<noteq> []"
  by (simp add: decimal.simps [of n])

lemma replace_all_absent:
  "pat \<noteq> [] \<Longrightarrow> hd pat \<notin> set s \<Longrightarrow> replace_all pat (s @ t) = s @ replace_all pat t"
proof (induction s)
  case (Cons c s)
  then have "\<not> starts_with pat (c # s @ t)" by (cases pat) (auto simp: starts_with_def)
  with Cons show ?case by (simp add: replace_all.simps [of pat "c # s @ t"])
qed simp

lemma replace_all_Nil [simp]: "replace_all pat [] = []"
  by (simp add: replace_all.simps)

lemma replace_all_here: "pat \<noteq> [] \<Longrightarrow> replace_all pat (pat @ t) = replace_all pat t"
  by (simp add: replace_all.simps [of pat "pat @ t"] starts_with_def)

text \<open>A client that asks for the last \<open>n\<close> blocks, with \<open>n\<close> written in decimal, gets exactly that
  method for every \<open>n\<close> a \<open>usize\<close> holds; the parser is neither confused by the parenthesis nor does
  it lose a digit.\<close>

theorem last_n_blocks_roundtrip:
  assumes "n < 18446744073709551616"
  shows "deserialize_method (''last_n_blocks('' @ decimal n @ '')'') = LastNBlocks n"
proof -
  have ne: "c \<noteq> CHR ''l'' \<and> c \<noteq> CHR '')'' \<and> c \<noteq> CHR ''+''" if "c \<in> set (decimal n)" for c
    using digit_code [OF that] by auto
  have "replace_all ''last_n_blocks('' (''last_n_blocks('' @ decimal n @ '')'') =
      replace_all ''last_n_blocks('' (decimal n @ '')'')"
    using replace_all_here [of "''last_n_blocks(''" "decimal n @ '')''"] by simp
  also have "\<dots> = decimal n @ replace_all ''last_n_blocks('' '')''"
    using ne by (intro replace_all_absent) auto
  also have "replace_all ''last_n_blocks('' '')'' = '')''"
    by (simp add: replace_all.simps starts_with_def)
  finally have 1: "replace_all ''last_n_blocks('' (''last_n_blocks('' @ decimal n @ '')'') = decimal n @ '')''" .
  have "replace_all '')'' (decimal n @ '')'') = decimal n @ replace_all '')'' '')''"
    using ne by (intro replace_all_absent) auto
  also have "replace_all '')'' '')'' = []"
    by (simp add: replace_all.simps [of "'')''" "'')''"] starts_with_def)
  finally have 2: "replace_all '')'' (decimal n @ '')'') = decimal n" by simp
  have 3: "parse_usize (decimal n) = Some n"
    using decimal_not_Nil [of n] ne parse_decimal [OF assms]
    by (cases "decimal n") (auto simp: parse_usize_def)
  have "starts_with ''last_n_blocks'' (''last_n_blocks('' @ decimal n @ '')'')"
    by (simp add: starts_with_def)
  with 1 2 3 show ?thesis by (simp add: deserialize_method_def)
qed

lemma last_n_blocks_roundtrip_witness: "deserialize_method ''last_n_blocks(105)'' = LastNBlocks 105"
proof -
  have "decimal 105 = ''105''" by code_simp
  with last_n_blocks_roundtrip [of 105] show ?thesis by simp
qed

end
