(* ===== verification/Rpc_Bridge.thy ===== *)
theory Rpc_Bridge
  imports Tx_Pipeline Block_Mapping Prio_Fees Account_Service Leader_Lookup Fee_Method
begin

text \<open>
  \<open>lite-rpc/src/bridge.rs\<close>: the RPC requests of the clients, answered from the data cache and the
  services.  A request is a function of the bridge, its arguments and the environment; a request
  that changes a service returns the new bridge.  Parsing and printing of keys, the encodings, the
  limit of a packet and the account encoder belong to libraries and are arguments; the default
  commitment of the SDK is finalized.
\<close>

section \<open>The bridge\<close>

datatype rpc_error =
    MethodNotFound
  | InvalidParams
  | InternalError
  | OversizedRequest
  | ServerError int

type_synonym 'a rpc_result = "rpc_error + 'a"

record 'a rpc_response =
  rr_slot :: slot
  rr_value :: 'a

datatype transaction_encoding = EncodingBinary | EncodingBase64 | EncodingBase58 | EncodingJson | EncodingJsonParsed
datatype binary_encoding = BinaryBase58 | BinaryBase64

record ('s, 'ui, 'f) bridge_env =
  bv_tx :: tx_env
  bv_block :: block_env
  bv_storage :: "'s account_storage"
  bv_encode :: "account_data \<Rightarrow> ui_account_encoding \<Rightarrow> ui_data_slice option \<Rightarrow> 'ui"
  bv_lamports :: "'ui \<Rightarrow> u64"
  bv_pubkey_from_str :: "string \<Rightarrow> pubkey option"
  bv_pubkey_to_string :: "pubkey \<Rightarrow> string"
  bv_signature_from_str :: "string \<Rightarrow> signature option"
  bv_hash_to_string :: "hash \<Rightarrow> string"
  bv_decode :: "binary_encoding \<Rightarrow> string \<Rightarrow> wire option"
  bv_into_binary_encoding :: "transaction_encoding \<Rightarrow> binary_encoding option"
  bv_packet_data_size :: nat
  bv_fraction :: "u32 \<Rightarrow> 'f"

record ('s, 't) lite_bridge =
  lb_pipeline :: tx_pipeline
  lb_prio_fees :: prio_fee_store
  lb_account_priofees :: "'t account_prio_store"
  lb_accounts :: "'s option"

definition lb_cache :: "('s, 't) lite_bridge \<Rightarrow> data_cache" where
  "lb_cache lb = tl_cache (lb_pipeline lb)"

definition lb_blocks :: "('s, 't) lite_bridge \<Rightarrow> block_information_store" where
  "lb_blocks lb = dc_block_information_store (lb_cache lb)"

record context_config =
  cx_commitment :: "commitment_config option"
  cx_min_context_slot :: "slot option"

definition context_commitment :: "context_config option \<Rightarrow> commitment_config" where
  "context_commitment config = unwrap_or (Option.bind config cx_commitment) finalized_config"

section \<open>Blocks, slots and epochs\<close>

text \<open>\<open>get_block\<close>, \<open>get_blocks\<close> and \<open>get_signatures_for_address\<close> are not served.\<close>

definition unsupported_request :: "'a rpc_result" where
  "unsupported_request = Inl MethodNotFound"

definition get_cluster_nodes :: "('s, 't) lite_bridge \<Rightarrow> contact_info list" where
  "get_cluster_nodes lb = map_values (dc_cluster_info (lb_cache lb))"

definition get_slot :: "('s, 't) lite_bridge \<Rightarrow> context_config option \<Rightarrow> slot" where
  "get_slot lb config = bn_slot (get_latest_block_information (lb_blocks lb) (context_commitment config))"

definition get_block_height :: "('s, 't) lite_bridge \<Rightarrow> context_config option \<Rightarrow> u64" where
  "get_block_height lb config =
     bn_block_height (get_latest_block_information (lb_blocks lb) (context_commitment config))"

definition get_block_time :: "('s, 't) lite_bridge \<Rightarrow> u64 \<Rightarrow> u64 rpc_result" where
  "get_block_time lb sl =
     (case get_block_info_by_slot (lb_blocks lb) sl of
        Some info \<Rightarrow> Inr (bn_block_time info)
      | None \<Rightarrow> Inl InvalidParams)"

record rpc_blockhash =
  rb_blockhash :: string
  rb_last_valid_block_height :: u64

text \<open>A configuration without commitment means confirmed, no configuration finalized.\<close>

definition blockhash_commitment :: "context_config option \<Rightarrow> commitment_config" where
  "blockhash_commitment config =
     unwrap_or (map_option (\<lambda>c. unwrap_or (cx_commitment c) confirmed_config) config) finalized_config"

definition rpc_latest_blockhash ::
    "('s, 'ui, 'f) bridge_env \<Rightarrow> ('s, 't) lite_bridge \<Rightarrow> context_config option \<Rightarrow> rpc_blockhash rpc_response"
where
  "rpc_latest_blockhash env lb config =
     (let b = get_latest_block_information (lb_blocks lb) (blockhash_commitment config)
      in \<lparr>rr_slot = bn_slot b,
          rr_value = \<lparr>rb_blockhash = bv_hash_to_string env (bn_blockhash b),
                      rb_last_valid_block_height = bn_block_height b + 150\<rparr>\<rparr>)"

definition rpc_is_blockhash_valid ::
    "('s, 'ui, 'f) bridge_env \<Rightarrow> ('s, 't) lite_bridge \<Rightarrow> string \<Rightarrow> commitment_level option option \<Rightarrow>
     bool rpc_response outcome" where
  "rpc_is_blockhash_valid env lb blockhash config =
     (let c = \<lparr>cc_commitment = unwrap_or (unwrap_or config None) LevelFinalized\<rparr>
      in bind_outcome (expect_hash (bv_block env) blockhash) (\<lambda>h.
           let (is_valid, sl) = is_blockhash_valid (lb_blocks lb) h c
           in Inr \<lparr>rr_slot = sl, rr_value = is_valid\<rparr>))"

record epoch_info =
  ei_epoch :: u64
  ei_slot_index :: u64
  ei_slots_in_epoch :: u64
  ei_absolute_slot :: slot
  ei_block_height :: u64
  ei_transaction_count :: "u64 option"

definition as_epoch_info :: "epoch \<Rightarrow> u64 \<Rightarrow> u64 option \<Rightarrow> epoch_info" where
  "as_epoch_info e block_height transaction_count =
     \<lparr>ei_epoch = ep_epoch e, ei_slot_index = ep_slot_index e, ei_slots_in_epoch = ep_slots_in_epoch e,
      ei_absolute_slot = ep_absolute_slot e, ei_block_height = block_height,
      ei_transaction_count = transaction_count\<rparr>"

definition get_epoch_info :: "('s, 't) lite_bridge \<Rightarrow> context_config option \<Rightarrow> epoch_info" where
  "get_epoch_info lb config =
     (let block_info = get_latest_block_information (lb_blocks lb) (context_commitment config)
      in as_epoch_info (get_current_epoch (lb_cache lb) (context_commitment config))
           (bn_block_height block_info) None)"

text \<open>Answered by the RPC node behind the bridge.\<close>

definition get_recent_performance_samples :: "'samples option \<Rightarrow> 'samples rpc_result" where
  "get_recent_performance_samples reply =
     (case reply of Some samples \<Rightarrow> Inr samples | None \<Rightarrow> Inl InternalError)"

section \<open>Transactions\<close>

definition get_signature_statuses ::
    "('s, 'ui, 'f) bridge_env \<Rightarrow> ('s, 't) lite_bridge \<Rightarrow> string list \<Rightarrow>
     transaction_status option list rpc_response outcome" where
  "get_signature_statuses env lb sigs =
     bind_outcome (map_outcome (\<lambda>sig. expect ''signature must be valid'' (bv_signature_from_str env sig)) sigs)
       (\<lambda>signatures. Inr
          \<lparr>rr_slot = bn_slot (get_latest_block_information (lb_blocks lb) finalized_config),
           rr_value = List.map (\<lambda>sig. Option.bind (tx_get (dc_txs (lb_cache lb)) sig) tp_status) signatures\<rparr>)"

record send_transaction_config =
  sd_encoding :: "transaction_encoding option"
  sd_max_retries :: "nat option"

definition max_base58_size :: nat where
  "max_base58_size = 1683"

definition max_base64_size :: nat where
  "max_base64_size = 1644"

definition usize_max :: nat where
  "usize_max = 18446744073709551615"

definition decode_transaction ::
    "('s, 'ui, 'f) bridge_env \<Rightarrow> string \<Rightarrow> transaction_encoding option \<Rightarrow> wire rpc_result" where
  "decode_transaction env tx config_encoding =
     (let enc = unwrap_or config_encoding EncodingBase58;
          expected_size = (case enc of EncodingBase58 \<Rightarrow> max_base58_size
                             | EncodingBase64 \<Rightarrow> max_base64_size | _ \<Rightarrow> usize_max)
      in if length tx > expected_size then Inl OversizedRequest
         else case bv_into_binary_encoding env enc of
           None \<Rightarrow> Inl InvalidParams
         | Some BinaryBase58 \<Rightarrow>
             if length tx > max_base58_size then Inl OversizedRequest
             else (case bv_decode env BinaryBase58 tx of None \<Rightarrow> Inl InvalidParams | Some w \<Rightarrow> Inr w)
         | Some BinaryBase64 \<Rightarrow>
             if length tx > max_base64_size then Inl OversizedRequest
             else (case bv_decode env BinaryBase64 tx of None \<Rightarrow> Inl InvalidParams | Some w \<Rightarrow> Inr w))"

text \<open>The number of retries is cut to 16 bits.\<close>

definition rpc_send_transaction ::
    "('s, 'ui, 'f) bridge_env \<Rightarrow> ('s, 't) lite_bridge \<Rightarrow> string \<Rightarrow> send_transaction_config option \<Rightarrow>
     (('s, 't) lite_bridge \<times> string rpc_result) outcome" where
  "rpc_send_transaction env lb tx config =
     (case decode_transaction env tx (Option.bind config sd_encoding) of
        Inl e \<Rightarrow> Inr (lb, Inl e)
      | Inr wire_output \<Rightarrow>
          if length wire_output > bv_packet_data_size env then Inr (lb, Inl OversizedRequest)
          else bind_outcome (send_wire_transaction (bv_tx env) (lb_pipeline lb) wire_output
                 (map_option (\<lambda>n. n mod 65536) (Option.bind config sd_max_retries)))
            (\<lambda>(p, r). Inr (lb\<lparr>lb_pipeline := p\<rparr>,
               case r of Inr sig \<Rightarrow> Inr sig | Inl _ \<Rightarrow> Inl InternalError)))"

section \<open>Leaders\<close>

definition get_leader_schedule ::
    "('s, 't) lite_bridge \<Rightarrow> u64 option \<Rightarrow> commitment_config option option \<Rightarrow>
     (string, nat list) hashmap option" where
  "get_leader_schedule lb sl config =
     get_leader_schedule_for_slot (dc_leader_schedule (lb_cache lb)) sl (Option.bind config id) (lb_cache lb)"

definition rpc_slot_leaders :: "('s, 't) lite_bridge \<Rightarrow> u64 \<Rightarrow> u64 \<Rightarrow> pubkey list rpc_result" where
  "rpc_slot_leaders lb start_slot limit =
     (case get_slot_leaders (dc_leader_schedule (lb_cache lb)) start_slot limit (dc_epoch_data (lb_cache lb)) of
        Inr leaders \<Rightarrow> Inr leaders
      | Inl _ \<Rightarrow> Inl InternalError)"

section \<open>Prioritization fees\<close>

definition percentile_or_default :: "'f prio_fees_stats \<Rightarrow> 'f \<Rightarrow> (u64 \<times> u64) outcome" where
  "percentile_or_default stats p = bind_outcome (get_percentile stats p) (\<lambda>r. Inr (unwrap_or r (0, 0)))"

record prioritization_fee =
  rf_slot :: slot
  rf_prioritization_fee :: u64

definition account_fee ::
    "('s, 'ui, 'f) bridge_env \<Rightarrow> ('s, 't) lite_bridge \<Rightarrow> u64 \<Rightarrow> pubkey \<Rightarrow> prioritization_fee outcome" where
  "account_fee env lb max_p75 account =
     bind_outcome (get_latest_stats (bv_fraction env) (lb_account_priofees lb) account) (\<lambda>(sl, stats).
       bind_outcome (percentile_or_default (as_all_stats stats) (bv_fraction env 75)) (\<lambda>stat.
         Inr \<lparr>rf_slot = sl, rf_prioritization_fee = max max_p75 (max (fst stat) (snd stat))\<rparr>))"

definition global_p75 :: "('s, 'ui, 'f) bridge_env \<Rightarrow> ('s, 't) lite_bridge \<Rightarrow> u64 outcome" where
  "global_p75 env lb =
     bind_outcome (get_latest_priofees (bv_fraction env) (lb_prio_fees lb)) (\<lambda>r.
       case r of
         None \<Rightarrow> Inr 0
       | Some (_, fees) \<Rightarrow>
           bind_outcome (percentile_or_default fees (bv_fraction env 75)) (\<lambda>f. Inr (max (fst f) (snd f))))"

definition get_recent_prioritization_fees ::
    "('s, 'ui, 'f) bridge_env \<Rightarrow> ('s, 't) lite_bridge \<Rightarrow> string list \<Rightarrow>
     prioritization_fee list rpc_result outcome" where
  "get_recent_prioritization_fees env lb pubkey_strs =
     (let accounts = List.map_filter (bv_pubkey_from_str env) pubkey_strs
      in if length accounts \<noteq> length pubkey_strs then Inr (Inl InvalidParams)
         else bind_outcome (global_p75 env lb) (\<lambda>max_p75.
                bind_outcome (map_outcome (account_fee env lb max_p75) accounts) (\<lambda>fees. Inr (Inr fees))))"

definition get_latest_block_priofees ::
    "('s, 'ui, 'f) bridge_env \<Rightarrow> ('s, 't) lite_bridge \<Rightarrow> fee_calculation_method option \<Rightarrow>
     'f prio_fees_stats rpc_response rpc_result outcome" where
  "get_latest_block_priofees env lb meth =
     (let respond = (\<lambda>res. Inr (case res of
            Some (sl, fees) \<Rightarrow> Inr \<lparr>rr_slot = sl, rr_value = fees\<rparr>
          | None \<Rightarrow> Inl InternalError))
      in case unwrap_or meth default_method of
           Latest \<Rightarrow> bind_outcome (get_latest_priofees (bv_fraction env) (lb_prio_fees lb)) respond
         | LastNBlocks nb \<Rightarrow>
             bind_outcome (get_last_n_priofees_aggregate (bv_fraction env) (lb_prio_fees lb) nb) respond
         | Unknown \<Rightarrow> Inr (Inl InvalidParams))"

definition get_latest_account_priofees ::
    "('s, 'ui, 'f) bridge_env \<Rightarrow> ('s, 't) lite_bridge \<Rightarrow> string \<Rightarrow> fee_calculation_method option \<Rightarrow>
     'f account_prio_fees_stats rpc_response rpc_result outcome" where
  "get_latest_account_priofees env lb account_str meth =
     (case bv_pubkey_from_str env account_str of
        None \<Rightarrow> Inr (Inl InvalidParams)
      | Some account \<Rightarrow>
          (let respond = (\<lambda>(sl, value). Inr (Inr \<lparr>rr_slot = sl, rr_value = value\<rparr>))
           in case unwrap_or meth default_method of
                Latest \<Rightarrow>
                  bind_outcome (get_latest_stats (bv_fraction env) (lb_account_priofees lb) account) respond
              | LastNBlocks nb \<Rightarrow>
                  bind_outcome (get_n_last_stats (bv_fraction env) (lb_account_priofees lb) account nb) respond
              | Unknown \<Rightarrow> Inr (Inl InternalError)))"

section \<open>Accounts\<close>

definition account_not_found :: rpc_error where
  "account_not_found = ServerError 0"

definition set_accounts :: "'s \<Rightarrow> ('s, 't) lite_bridge \<Rightarrow> ('s, 't) lite_bridge" where
  "set_accounts s lb = lb\<lparr>lb_accounts := Some s\<rparr>"

definition account_config_slot ::
    "('s, 't) lite_bridge \<Rightarrow> account_info_config option \<Rightarrow> slot" where
  "account_config_slot lb config =
     bn_slot (get_latest_block_information (lb_blocks lb)
       (unwrap_or (Option.bind config aic_commitment) finalized_config))"

definition get_account_info ::
    "('s, 'ui, 'f) bridge_env \<Rightarrow> ('s, 't) lite_bridge \<Rightarrow> string \<Rightarrow> account_info_config option \<Rightarrow>
     (('s, 't) lite_bridge \<times> 'ui option rpc_response rpc_result) outcome" where
  "get_account_info env lb pubkey_str config =
     (case bv_pubkey_from_str env pubkey_str of
        None \<Rightarrow> Inr (lb, Inl InvalidParams)
      | Some pk \<Rightarrow>
          (case lb_accounts lb of
             None \<Rightarrow> Inr (lb, Inl MethodNotFound)
           | Some s \<Rightarrow>
               bind_outcome (service_get_account (bv_storage env) (bv_encode env) s pk config) (\<lambda>(s', r).
                 Inr (set_accounts s' lb,
                   case r of
                     Inr (_, ui_account) \<Rightarrow> Inr \<lparr>rr_slot = account_config_slot lb config, rr_value = ui_account\<rparr>
                   | Inl _ \<Rightarrow> Inl account_not_found))))"

fun get_ui_accounts ::
    "('s, 'ui, 'f) bridge_env \<Rightarrow> 's \<Rightarrow> account_info_config option \<Rightarrow> pubkey list \<Rightarrow>
     ('s \<times> 'ui option list) outcome" where
  "get_ui_accounts env s config [] = Inr (s, [])"
| "get_ui_accounts env s config (pk # pks) =
     bind_outcome (service_get_account (bv_storage env) (bv_encode env) s pk config) (\<lambda>(s', r).
       bind_outcome (get_ui_accounts env s' config pks) (\<lambda>(s'', rest).
         Inr (s'', (case r of Inr (_, ui_account) \<Rightarrow> ui_account | Inl _ \<Rightarrow> None) # rest)))"

definition get_multiple_accounts ::
    "('s, 'ui, 'f) bridge_env \<Rightarrow> ('s, 't) lite_bridge \<Rightarrow> string list \<Rightarrow> account_info_config option \<Rightarrow>
     (('s, 't) lite_bridge \<times> 'ui option list rpc_response rpc_result) outcome" where
  "get_multiple_accounts env lb pubkey_strs config =
     (let pubkeys = List.map (bv_pubkey_from_str env) pubkey_strs
      in if None \<in> set pubkeys then Inr (lb, Inl InternalError)
         else case lb_accounts lb of
           None \<Rightarrow> Inr (lb, Inl MethodNotFound)
         | Some s \<Rightarrow>
             bind_outcome (get_ui_accounts env s config (List.map the pubkeys)) (\<lambda>(s', ui_accounts).
               if length ui_accounts \<noteq> length pubkey_strs then Inl AssertionFailed
               else Inr (set_accounts s' lb,
                      Inr \<lparr>rr_slot = account_config_slot lb config, rr_value = ui_accounts\<rparr>)))"

datatype 'a optional_context = WithContext "'a rpc_response" | NoContext 'a

definition rpc_program_accounts ::
    "('s, 'ui, 'f) bridge_env \<Rightarrow> ('s, 't) lite_bridge \<Rightarrow> string \<Rightarrow> program_accounts_config option \<Rightarrow>
     (('s, 't) lite_bridge \<times> (string \<times> 'ui) list optional_context rpc_result) outcome" where
  "rpc_program_accounts env lb program_id_str config =
     (case bv_pubkey_from_str env program_id_str of
        None \<Rightarrow> Inr (lb, Inl InternalError)
      | Some program_id \<Rightarrow>
          (let with_context = unwrap_or (Option.bind config pac_with_context) False;
               sl = account_config_slot lb (map_option pac_account_config config)
           in case lb_accounts lb of
                None \<Rightarrow> Inr (lb, Inl MethodNotFound)
              | Some s \<Rightarrow>
                  bind_outcome (service_get_program_accounts (bv_storage env) (bv_encode env)
                      (bv_pubkey_to_string env) s program_id config) (\<lambda>(s', r).
                    Inr (set_accounts s' lb,
                      case r of
                        Inl _ \<Rightarrow> Inl account_not_found
                      | Inr (_, ui_accounts) \<Rightarrow> Inr
                          (if with_context then WithContext \<lparr>rr_slot = sl, rr_value = ui_accounts\<rparr>
                           else NoContext ui_accounts)))))"

definition account_config_of :: "context_config \<Rightarrow> account_info_config" where
  "account_config_of c = \<lparr>aic_encoding = None, aic_data_slice = None,
     aic_commitment = cx_commitment c, aic_min_context_slot = cx_min_context_slot c\<rparr>"

definition get_balance ::
    "('s, 'ui, 'f) bridge_env \<Rightarrow> ('s, 't) lite_bridge \<Rightarrow> string \<Rightarrow> context_config option \<Rightarrow>
     (('s, 't) lite_bridge \<times> u64 rpc_response rpc_result) outcome" where
  "get_balance env lb pubkey_str config =
     (case bv_pubkey_from_str env pubkey_str of
        None \<Rightarrow> Inr (lb, Inl InvalidParams)
      | Some pk \<Rightarrow>
          (let config = map_option account_config_of config; sl = account_config_slot lb config
           in case lb_accounts lb of
                None \<Rightarrow> Inr (lb, Inl MethodNotFound)
              | Some s \<Rightarrow>
                  bind_outcome (service_get_account (bv_storage env) (bv_encode env) s pk config) (\<lambda>(s', r).
                    Inr (set_accounts s' lb,
                      case r of
                        Inr (_, ui_account) \<Rightarrow> Inr \<lparr>rr_slot = sl,
                          rr_value = unwrap_or (map_option (bv_lamports env) ui_account) 0\<rparr>
                      | Inl _ \<Rightarrow> Inl account_not_found))))"

section \<open>Requests for fees\<close>

lemma empty_fees_percentile:
  assumes "calculate_stats fraction block_prio_data_default = Inr st"
    and "percentile_or_default st p = Inr f"
  shows "f = (0, 0)"
proof -
  let ?xs = "[prio_fees_data_default]"
  have xs: "sorted_fees [] = ?xs" by (simp add: sorted_fees_def)
  obtain "is" where first: "list_all2 (\<lambda>p i. first_reaching ?xs (cu_target ?xs p) i) percentile_steps is"
    and pc: "calculate_supp_percentiles fraction [] = Inr
      \<lparr>pc_by_tx = List.map (\<lambda>p. pd_priority (?xs ! min (length ?xs * p div 100) (length ?xs - 1))) percentile_steps,
       pc_by_tx_percentiles = List.map (\<lambda>p. fraction (word_of_nat p)) percentile_steps,
       pc_by_cu = List.map (\<lambda>i. pd_priority (?xs ! i)) is,
       pc_by_cu_percentiles = List.map (\<lambda>p. fraction (word_of_nat p)) percentile_steps\<rparr>"
    using percentiles_ok [of "[]" fraction] by (auto simp: total_cu_def xs)
  have "is ! k = 0" if "k < length is" for k
    using first that by (auto simp: list_all2_conv_all_nth first_reaching_def)
  then have cu: "ps_by_cu st ! k = 0" if "k < length (ps_by_cu st)" for k
    using assms(1) pc that
    by (auto simp: calculate_stats_def block_prio_data_default_def prio_fees_data_default_def)
  have tx: "ps_by_tx st ! k = 0" if "k < length (ps_by_tx st)" for k
    using assms(1) pc that
    by (auto simp: calculate_stats_def block_prio_data_default_def prio_fees_data_default_def)
  show ?thesis
    using assms(2) tx cu
    by (auto simp: percentile_or_default_def get_percentile_def index_checked_def
        split: option.splits if_splits)
qed

lemma map_outcome_set:
  "map_outcome f xs = Inr ys \<Longrightarrow> y \<in> set ys \<Longrightarrow> \<exists>x \<in> set xs. f x = Inr y"
  by (induction xs arbitrary: ys) auto

text \<open>The fee a client is told for an account does not depend on the account: after any sequence of
  blocks, every entry of the answer is the greater of the two 75 percent fees of the latest block as
  a whole, because the statistics it is to be raised by are always those of an empty block.\<close>

theorem recent_fees_ignore_accounts:
  assumes "account_priofees_run (bv_fraction env) (account_prio_store_new n alts) blocks =
      Inr (lb_account_priofees lb)"
    and "get_recent_prioritization_fees env lb strs = Inr (Inr fees)"
  shows "\<exists>p. global_p75 env lb = Inr p \<and> (\<forall>fee \<in> set fees. rf_prioritization_fee fee = p)"
proof -
  obtain p where p: "global_p75 env lb = Inr p"
    and fees: "map_outcome (account_fee env lb p) (List.map_filter (bv_pubkey_from_str env) strs) = Inr fees"
    using assms(2) by (auto simp: get_recent_prioritization_fees_def Let_def split: if_splits)
  have empty: "ap_all (lb_account_priofees lb) = []"
    using run_all_empty [OF assms(1)] by (simp add: account_prio_store_new_def prio_map_inv_def)
  have "rf_prioritization_fee fee = p" if fee: "fee \<in> set fees" for fee
  proof -
    obtain account where "account_fee env lb p account = Inr fee"
      using map_outcome_set [OF fees fee] by blast
    then obtain sl st f where st: "get_latest_stats (bv_fraction env) (lb_account_priofees lb) account = Inr (sl, st)"
        "percentile_or_default (as_all_stats st) (bv_fraction env 75) = Inr f"
        "rf_prioritization_fee fee = max p (max (fst f) (snd f))"
      by (auto simp: account_fee_def)
    have "calculate_stats (bv_fraction env) block_prio_data_default = Inr (as_all_stats st)"
      using st(1) empty by (auto simp: get_latest_stats_def latest_data_def)
    from empty_fees_percentile [OF this st(2)] st(3) show ?thesis by simp
  qed
  with p show ?thesis by blast
qed

section \<open>Requests for accounts\<close>

definition info_answer :: "slot \<Rightarrow> account_loading_error + slot \<times> 'ui option \<Rightarrow> 'ui option rpc_response rpc_result" where
  "info_answer sl r = (case r of
     Inr (_, ui_account) \<Rightarrow> Inr \<lparr>rr_slot = sl, rr_value = ui_account\<rparr> | Inl _ \<Rightarrow> Inl account_not_found)"

lemma inmemory_get_account:
  "\<exists>r. service_get_account (inmemory_storage bytes_match) encode s pk config = Inr (s, r)"
proof (cases "get_account s pk (config_commitment (Option.bind config aic_commitment))")
  case (Inr found)
  then show ?thesis
    by (cases found) (simp_all add: service_get_account_def inmemory_storage_def Let_def)
qed (simp add: service_get_account_def inmemory_storage_def)

lemma get_ui_accounts_inmemory:
  assumes "bv_storage env = inmemory_storage bytes_match"
  shows "\<exists>vals. get_ui_accounts env s config pks = Inr (s, vals) \<and> length vals = length pks \<and>
    (\<forall>i < length pks. \<exists>r. service_get_account (bv_storage env) (bv_encode env) s (pks ! i) config = Inr (s, r) \<and>
       vals ! i = (case r of Inr (_, ui_account) \<Rightarrow> ui_account | Inl _ \<Rightarrow> None))"
proof (induction pks)
  case (Cons pk pks)
  obtain r where r: "service_get_account (bv_storage env) (bv_encode env) s pk config = Inr (s, r)"
    using inmemory_get_account [of bytes_match "bv_encode env" s pk config] assms by auto
  from Cons obtain vals where vals: "get_ui_accounts env s config pks = Inr (s, vals)" "length vals = length pks"
    "\<forall>i < length pks. \<exists>r. service_get_account (bv_storage env) (bv_encode env) s (pks ! i) config = Inr (s, r) \<and>
       vals ! i = (case r of Inr (_, ui_account) \<Rightarrow> ui_account | Inl _ \<Rightarrow> None)" by blast
  with r show ?case
    by (intro exI [of _ "(case r of Inr (_, ui_account) \<Rightarrow> ui_account | Inl _ \<Rightarrow> None) # vals"])
      (auto simp: nth_Cons split: nat.split)
qed simp

text \<open>What a client is told about one account of a request, from the answer for it alone.\<close>

fun answered_value :: "'ui option rpc_response rpc_result \<Rightarrow> 'ui option" where
  "answered_value (Inr resp) = rr_value resp"
| "answered_value (Inl _) = None"

text \<open>C33: The three ways to ask for accounts agree: over the in-memory store, a request for several
  accounts with valid keys changes nothing and answers for each of them, in order, what a request
  for it alone answers, an account that cannot be served being null; and the balance of an account
  is the balance in its account info, under the same slot and with the same errors.\<close>

theorem account_requests_agree:
  assumes storage: "bv_storage env = inmemory_storage bytes_match"
    and s: "lb_accounts lb = Some s"
    and keys: "\<forall>str \<in> set strs. bv_pubkey_from_str env str \<noteq> None"
  shows "\<exists>vals. get_multiple_accounts env lb strs config =
      Inr (lb, Inr \<lparr>rr_slot = account_config_slot lb config, rr_value = vals\<rparr>) \<and>
    length vals = length strs \<and>
    (\<forall>i < length strs. \<exists>r. get_account_info env lb (strs ! i) config = Inr (lb, r) \<and> vals ! i = answered_value r) \<and>
    (\<forall>str cx. \<exists>r. get_account_info env lb str (map_option account_config_of cx) = Inr (lb, r) \<and>
       get_balance env lb str cx = Inr (lb, case r of
         Inl e \<Rightarrow> Inl e
       | Inr resp \<Rightarrow> Inr \<lparr>rr_slot = rr_slot resp,
           rr_value = unwrap_or (map_option (bv_lamports env) (rr_value resp)) 0\<rparr>))"
proof -
  have same: "set_accounts s lb = lb" using s by (simp add: set_accounts_def)
  have single: "\<exists>r. service_get_account (bv_storage env) (bv_encode env) s pk c = Inr (s, r)" for pk c
    using inmemory_get_account [of bytes_match "bv_encode env" s pk c] storage by simp
  have info: "get_account_info env lb str c = Inr (lb, info_answer (account_config_slot lb c) r)"
    if "bv_pubkey_from_str env str = Some pk"
      "service_get_account (bv_storage env) (bv_encode env) s pk c = Inr (s, r)" for str pk c r
    using that s by (simp add: get_account_info_def info_answer_def same)
  let ?pks = "List.map (the \<circ> bv_pubkey_from_str env) strs"
  obtain vals where vals: "get_ui_accounts env s config ?pks = Inr (s, vals)" "length vals = length strs"
    "\<And>i. i < length strs \<Longrightarrow> \<exists>r. service_get_account (bv_storage env) (bv_encode env) s (?pks ! i) config = Inr (s, r) \<and>
       vals ! i = (case r of Inr (_, ui_account) \<Rightarrow> ui_account | Inl _ \<Rightarrow> None)"
    using get_ui_accounts_inmemory [OF storage, of s config ?pks] by auto
  have "None \<notin> bv_pubkey_from_str env ` set strs" using keys by (auto simp: image_iff)
  then have multi: "get_multiple_accounts env lb strs config =
      Inr (lb, Inr \<lparr>rr_slot = account_config_slot lb config, rr_value = vals\<rparr>)"
    using s vals(1,2) by (simp add: get_multiple_accounts_def Let_def same comp_def)
  have each: "\<exists>r. get_account_info env lb (strs ! i) config = Inr (lb, r) \<and> vals ! i = answered_value r"
    if i: "i < length strs" for i
  proof -
    have "strs ! i \<in> set strs" using i by simp
    with keys obtain pk where pk: "bv_pubkey_from_str env (strs ! i) = Some pk" by blast
    obtain r where r: "service_get_account (bv_storage env) (bv_encode env) s pk config = Inr (s, r)"
        "vals ! i = (case r of Inr (_, ui_account) \<Rightarrow> ui_account | Inl _ \<Rightarrow> None)"
      using vals(3) [OF i] i pk by auto
    have "vals ! i = answered_value (info_answer (account_config_slot lb config) r)"
      using r(2) by (simp add: info_answer_def split: sum.split)
    with info [OF pk r(1)] show ?thesis by blast
  qed
  have balance: "\<exists>r. get_account_info env lb str (map_option account_config_of cx) = Inr (lb, r) \<and>
       get_balance env lb str cx = Inr (lb, case r of
         Inl e \<Rightarrow> Inl e
       | Inr resp \<Rightarrow> Inr \<lparr>rr_slot = rr_slot resp,
           rr_value = unwrap_or (map_option (bv_lamports env) (rr_value resp)) 0\<rparr>)" for str cx
  proof (cases "bv_pubkey_from_str env str")
    case (Some pk)
    obtain r where r: "service_get_account (bv_storage env) (bv_encode env) s pk (map_option account_config_of cx) = Inr (s, r)"
      using single by blast
    then have "get_balance env lb str cx = Inr (lb, case info_answer (account_config_slot lb (map_option account_config_of cx)) r of
         Inl e \<Rightarrow> Inl e
       | Inr resp \<Rightarrow> Inr \<lparr>rr_slot = rr_slot resp,
           rr_value = unwrap_or (map_option (bv_lamports env) (rr_value resp)) 0\<rparr>)"
      using Some s by (simp add: get_balance_def Let_def same info_answer_def split: sum.split)
    with info [OF Some r] show ?thesis by blast
  qed (simp add: get_account_info_def get_balance_def)
  from multi vals(2) each balance show ?thesis by blast
qed

section \<open>Requests to send a transaction\<close>

lemma decode_transaction_sizes:
  "decode_transaction env tx e = Inr w \<Longrightarrow> length tx \<le> max_base58_size \<and>
   (\<exists>b. bv_into_binary_encoding env (unwrap_or e EncodingBase58) = Some b \<and> bv_decode env b tx = Some w)"
  by (auto simp: decode_transaction_def Let_def max_base58_size_def max_base64_size_def
      split: if_splits option.splits binary_encoding.splits transaction_encoding.splits)

lemma send_wire_refused:
  "send_wire_transaction env s w mr = Inr (p, Inl e) \<Longrightarrow> p = s"
  by (cases "check_wire_transaction env (dc_block_information_store (tl_cache s)) w")
    (auto simp: send_wire_transaction_def split: sum.splits if_splits)

lemma check_wire_bytes:
  assumes "check_wire_transaction env store w = Inr (Inr info)"
  shows "st_transaction info = w"
proof -
  from assms obtain b :: block_information and fee where
    "info = \<lparr>st_signature = st_signature info, st_slot = bn_slot b, st_transaction = w,
       st_last_valid_block_height = bn_last_valid_blockheight b, st_prioritization_fee = fee\<rparr>"
    unfolding check_wire_accepts by blast
  from arg_cong [OF this, of st_transaction] show ?thesis by simp
qed


section \<open>Requests for blocks\<close>

text \<open>The height the bridge announces with the latest block hash and the answer it gives later for
  that hash disagree: the announced height is 150 blocks above the block, but as long as the store
  keeps the entry, the hash is reported as valid up to 300 blocks above it.\<close>

theorem blockhash_valid_beyond_announced:
  assumes b: "get_latest_block_information (lb_blocks lb) (blockhash_commitment config) = b"
    and stored: "get_block_info (lb_blocks lb') (bn_blockhash b) = Some b"
      "bn_last_valid_blockheight b = bn_block_height b + MAX_RECENT_BLOCKHASHES"
    and parse: "expect_hash (bv_block env) (bv_hash_to_string env (bn_blockhash b)) = Inr (bn_blockhash b)"
  shows "rb_last_valid_block_height (rr_value (rpc_latest_blockhash env lb config)) = bn_block_height b + 150 \<and>
    rpc_is_blockhash_valid env lb' (rb_blockhash (rr_value (rpc_latest_blockhash env lb config))) level =
      Inr \<lparr>rr_slot = bn_slot (get_latest_block_information (lb_blocks lb')
             \<lparr>cc_commitment = unwrap_or (unwrap_or level None) LevelFinalized\<rparr>),
           rr_value = bn_block_height (get_latest_block_information (lb_blocks lb')
             \<lparr>cc_commitment = unwrap_or (unwrap_or level None) LevelFinalized\<rparr>) \<le> bn_block_height b + 300\<rparr>"
  using assms
  by (simp add: rpc_latest_blockhash_def rpc_is_blockhash_valid_def is_blockhash_valid_def Let_def
      get_block_info_def MAX_RECENT_BLOCKHASHES_def)

text \<open>Requests that a client can make panic: the status of signatures, exactly when one of them does
  not parse, and the validity of a block hash, exactly when it does not parse; every other status
  request is answered with one entry per signature, and none invents a status.\<close>

theorem malformed_requests_panic:
  "((\<exists>p. get_signature_statuses env lb sigs = Inl p) \<longleftrightarrow>
      (\<exists>sig \<in> set sigs. bv_signature_from_str env sig = None)) \<and>
   ((\<exists>p. rpc_is_blockhash_valid env lb blockhash level = Inl p) \<longleftrightarrow>
      (\<exists>e. hash_from_str (bv_block env) blockhash = Inl e)) \<and>
   (get_signature_statuses env lb sigs = Inr resp \<longrightarrow>
      rr_value resp = List.map (\<lambda>sig. Option.bind (tx_get (dc_txs (lb_cache lb))
        (the (bv_signature_from_str env sig))) tp_status) sigs)"
  (is "?A \<and> ?B \<and> ?C")
proof (intro conjI)
  let ?f = "\<lambda>sig. expect ''signature must be valid'' (bv_signature_from_str env sig)"
  have ok: "map_outcome ?f xs = Inr ys \<longleftrightarrow>
      (\<forall>sig \<in> set xs. bv_signature_from_str env sig \<noteq> None) \<and> ys = List.map (\<lambda>sig. the (bv_signature_from_str env sig)) xs" for xs ys
    by (induction xs arbitrary: ys) auto
  show ?A
  proof (cases "map_outcome ?f sigs")
    case (Inl p)
    then have "\<not> (\<forall>sig \<in> set sigs. bv_signature_from_str env sig \<noteq> None)"
      using ok [of sigs "List.map (\<lambda>sig. the (bv_signature_from_str env sig)) sigs"] by auto
    with Inl show ?thesis by (auto simp: get_signature_statuses_def)
  next
    case (Inr ys)
    with ok [of sigs ys] show ?thesis by (auto simp: get_signature_statuses_def)
  qed
  show ?B
    by (cases "hash_from_str (bv_block env) blockhash")
      (auto simp: rpc_is_blockhash_valid_def expect_hash_def Let_def split: prod.split)
  show ?C
    using ok by (auto simp: get_signature_statuses_def)
qed

section \<open>A bridge with samples\<close>

definition sample_bridge_env :: "(inmemory_account_store, account, u32) bridge_env" where
  "sample_bridge_env = \<lparr>bv_tx = sample_tx_env, bv_block = sample_block_env,
     bv_storage = inmemory_storage (\<lambda>_ _. True), bv_encode = (\<lambda>d _ _. ad_account d),
     bv_lamports = ac_lamports, bv_pubkey_from_str = (\<lambda>s. if s = [] then None else Some (word_of_nat (length s))),
     bv_pubkey_to_string = (\<lambda>pk. replicate (unat pk) CHR ''k''),
     bv_signature_from_str = (\<lambda>s. if s = [] then None else Some 3),
     bv_hash_to_string = (\<lambda>_. ''h''), bv_decode = (\<lambda>_ s. if s = [] then None else Some [1]),
     bv_into_binary_encoding = (\<lambda>e. case e of EncodingBase58 \<Rightarrow> Some BinaryBase58
       | EncodingBase64 \<Rightarrow> Some BinaryBase64 | _ \<Rightarrow> None),
     bv_packet_data_size = 1232, bv_fraction = id\<rparr>"

definition sample_bridge :: "(inmemory_account_store, unit) lite_bridge" where
  "sample_bridge = \<lparr>lb_pipeline = tx_pipeline_new sample_cache 0, lb_prio_fees = [],
     lb_account_priofees = account_prio_store_new 10 None, lb_accounts = Some sample_account_store\<rparr>"

lemma recent_fees_ignore_accounts_witness:
  "\<exists>fees p. get_recent_prioritization_fees sample_bridge_env sample_bridge [''a'', ''bb''] = Inr (Inr fees) \<and>
     length fees = 2 \<and> global_p75 sample_bridge_env sample_bridge = Inr p \<and>
     (\<forall>fee \<in> set fees. rf_prioritization_fee fee = p)"
proof -
  have run: "account_priofees_run (bv_fraction sample_bridge_env) (account_prio_store_new 10 None) [] =
      Inr (lb_account_priofees sample_bridge)"
    by (simp add: sample_bridge_def)
  have "case get_recent_prioritization_fees sample_bridge_env sample_bridge [''a'', ''bb''] of
      Inr (Inr fees) \<Rightarrow> length fees = 2 | _ \<Rightarrow> False"
    by code_simp
  then obtain fees where "get_recent_prioritization_fees sample_bridge_env sample_bridge [''a'', ''bb''] = Inr (Inr fees)"
      "length fees = 2"
    by (auto split: sum.splits)
  with recent_fees_ignore_accounts [OF run] show ?thesis by blast
qed

lemma account_requests_agree_witness:
  "\<exists>vals. get_multiple_accounts sample_bridge_env sample_bridge [''a'', ''bb''] None =
     Inr (sample_bridge, Inr \<lparr>rr_slot = account_config_slot sample_bridge None, rr_value = vals\<rparr>) \<and>
   length vals = 2"
proof -
  have "bv_storage sample_bridge_env = inmemory_storage (\<lambda>_ _. True)"
    "lb_accounts sample_bridge = Some sample_account_store"
    "\<forall>str \<in> set [''a'', ''bb'']. bv_pubkey_from_str sample_bridge_env str \<noteq> None"
    by (simp_all add: sample_bridge_env_def sample_bridge_def)
  from account_requests_agree [OF this, of None] show ?thesis by auto
qed


lemma malformed_requests_panic_witness:
  "\<exists>p. get_signature_statuses sample_bridge_env sample_bridge [''a'', []] = Inl p"
  using malformed_requests_panic [of sample_bridge_env sample_bridge "[''a'', []]"]
  by (simp add: sample_bridge_env_def)

lemma blockhash_valid_beyond_announced_witness:
  "\<exists>(lb :: (inmemory_account_store, unit) lite_bridge) h. rb_last_valid_block_height (rr_value (rpc_latest_blockhash sample_bridge_env lb None)) = 155 \<and>
     rpc_is_blockhash_valid sample_bridge_env lb h None = Inr \<lparr>rr_slot = 5, rr_value = True\<rparr>"
proof -
  define b where "b = sample_block 5 (word_rcat (replicate 32 (1::u8))) finalized_config"
  define lb where "lb = sample_bridge\<lparr>lb_pipeline :=
    tx_pipeline_new (sample_cache\<lparr>dc_block_information_store := block_store_new b\<rparr>) 0\<rparr>"
  have blocks: "lb_blocks lb = block_store_new b"
    by (simp add: lb_def lb_blocks_def lb_cache_def tx_pipeline_new_def)
  have latest: "get_latest_block_information (lb_blocks lb) c = b" for c
    by (simp add: blocks block_store_new_def get_latest_block_information_def get_latest_block_def)
  have "get_block_info (lb_blocks lb) (bn_blockhash b) = Some b"
    by (simp add: blocks block_store_new_def get_block_info_def hm_put_def hm_get_def)
  moreover have "bn_last_valid_blockheight b = bn_block_height b + MAX_RECENT_BLOCKHASHES"
    by (simp add: b_def sample_block_def MAX_RECENT_BLOCKHASHES_def)
  moreover have "expect_hash (bv_block sample_bridge_env) (bv_hash_to_string sample_bridge_env (bn_blockhash b)) =
      Inr (bn_blockhash b)"
    by (simp add: b_def sample_block_def sample_bridge_env_def sample_block_env_def expect_hash_def hash_from_str_def)
  moreover have "bn_block_height b = 5" "bn_slot b = 5" by (simp_all add: b_def sample_block_def)
  ultimately show ?thesis
    using blockhash_valid_beyond_announced [OF latest [of "blockhash_commitment None"], of lb sample_bridge_env None]
    by (auto simp: latest)
qed

end
