(* ===== verification/Rpc_Pubsub.thy ===== *)
theory Rpc_Pubsub
  imports Rpc_Bridge
begin

text \<open>
  \<open>lite-rpc/src/bridge_pubsub.rs\<close>: the subscriptions.  A subscription is a task that loops over a
  broadcast channel; one turn of the loop gets what \<open>recv\<close> returned, whether the sink was closed
  and whether sending to it succeeded, and says what was sent and whether the loop goes on.
\<close>

section \<open>The turns of a subscription\<close>

datatype 'm received = Received 'm | Lagged | Closed
datatype 'm timed = InTime "'m received" | Elapsed

record 'e turn =
  tr_event :: 'e
  tr_closed :: bool
  tr_sends :: bool

fun run_subscription :: "('e turn \<Rightarrow> 'r option \<times> bool) \<Rightarrow> 'e turn list \<Rightarrow> 'r list \<times> bool" where
  "run_subscription step [] = ([], True)"
| "run_subscription step (t # ts) =
     (let (r, go_on) = step t;
          (rs, alive) = (if go_on then run_subscription step ts else ([], False))
      in ((case r of None \<Rightarrow> rs | Some x \<Rightarrow> x # rs), alive))"

text \<open>Sending ends the task when the client has disconnected.\<close>

definition send_message :: "'e turn \<Rightarrow> 'r \<Rightarrow> 'r option \<times> bool" where
  "send_message t r = (if tr_sends t then (Some r, True) else (None, False))"

section \<open>Slots and fees\<close>

record slot_info =
  si_slot :: slot
  si_parent :: slot
  si_root :: slot

definition slot_subscribe_turn :: "block_info received turn \<Rightarrow> slot_info option \<times> bool" where
  "slot_subscribe_turn t =
     (case tr_event t of
        Received b \<Rightarrow> send_message t \<lparr>si_slot = bi_slot b, si_parent = bi_parent b, si_root = 0\<rparr>
      | Closed \<Rightarrow> (None, False)
      | Lagged \<Rightarrow> (None, True))"

definition block_priofees_turn ::
    "'f prio_fees_update_message received turn \<Rightarrow> 'f prio_fees_stats rpc_response option \<times> bool" where
  "block_priofees_turn t =
     (case tr_event t of
        Received m \<Rightarrow> send_message t \<lparr>rr_slot = pm_slot m, rr_value = pm_priofees_stats m\<rparr>
      | Lagged \<Rightarrow> (None, True)
      | Closed \<Rightarrow> (None, False))"

definition account_priofees_turn ::
    "pubkey \<Rightarrow> 'f account_prio_fees_update_message timed turn \<Rightarrow>
     'f account_prio_fees_stats rpc_response option \<times> bool" where
  "account_priofees_turn account t =
     (case tr_event t of
        InTime (Received m) \<Rightarrow>
          (case hm_get (am_accounts_data m) account of
             Some stats \<Rightarrow> send_message t \<lparr>rr_slot = am_slot m, rr_value = stats\<rparr>
           | None \<Rightarrow> (None, True))
      | InTime Lagged \<Rightarrow> (None, True)
      | InTime Closed \<Rightarrow> (None, False)
      | Elapsed \<Rightarrow> (None, \<not> tr_closed t))"

section \<open>Signatures\<close>

text \<open>The subscription task is the data cache; \<open>accepted\<close> is the sink of an accepted request.\<close>

definition rpc_signature_subscribe ::
    "('s, 'ui, 'f) bridge_env \<Rightarrow> instant \<Rightarrow> data_cache \<Rightarrow> string \<Rightarrow> commitment_config option \<Rightarrow>
     sink option \<Rightarrow> string + data_cache" where
  "rpc_signature_subscribe env now dc sig commitment accepted =
     (case bv_signature_from_str env sig of
        None \<Rightarrow> Inl ''invalid signature''
      | Some signature \<Rightarrow>
          (case accepted of
             None \<Rightarrow> Inl ''not accepted''
           | Some sink \<Rightarrow> Inr (dc\<lparr>dc_tx_subs := signature_subscribe now (dc_tx_subs dc) signature
               (unwrap_or commitment finalized_config) sink\<rparr>)))"

text \<open>Blocks, logs, slot updates and votes: \<open>todo!()\<close>.\<close>

definition todo_subscription :: "'a outcome" where
  "todo_subscription = Inl (ExplicitPanic ''not yet implemented'')"

section \<open>Accounts\<close>

definition account_turn ::
    "('s, 'ui, 'f) bridge_env \<Rightarrow> pubkey \<Rightarrow> account_info_config option \<Rightarrow>
     account_notification timed turn \<Rightarrow> 'ui rpc_response option \<times> bool" where
  "account_turn env account config t =
     (case tr_event t of
        InTime (Received n) \<Rightarrow>
          if tr_closed t then (None, False)
          else if ad_pubkey (an_data n) \<noteq> account then (None, True)
          else if config_commitment (Option.bind config aic_commitment) \<noteq> an_commitment n then (None, True)
          else if ad_updated_slot (an_data n) < unwrap_or (Option.bind config aic_min_context_slot) 0
          then (None, True)
          else send_message t \<lparr>rr_slot = ad_updated_slot (an_data n),
                 rr_value = convert_account_data_to_ui_account (bv_encode env) (an_data n) config\<rparr>
      | InTime Lagged \<Rightarrow> (None, True)
      | InTime Closed \<Rightarrow> (None, False)
      | Elapsed \<Rightarrow> (None, \<not> tr_closed t))"

definition account_subscribe ::
    "('s, 'ui, 'f) bridge_env \<Rightarrow> bool \<Rightarrow> string \<Rightarrow> account_info_config option \<Rightarrow> bool \<Rightarrow>
     account_notification timed turn list \<Rightarrow> string + 'ui rpc_response list \<times> bool" where
  "account_subscribe env has_service account_str config accepted ts =
     (case bv_pubkey_from_str env account_str of
        None \<Rightarrow> Inl ''Invalid account''
      | Some account \<Rightarrow>
          if \<not> has_service then Inl ''Accounts service not configured''
          else if \<not> accepted then Inl ''not accepted''
          else Inr (run_subscription (account_turn env account config) ts))"

definition program_turn ::
    "('s, 'ui, 'f) bridge_env \<Rightarrow> (rpc_memcmp \<Rightarrow> u8 list \<Rightarrow> bool) \<Rightarrow> pubkey \<Rightarrow> program_accounts_config option \<Rightarrow>
     account_notification timed turn \<Rightarrow> (string \<times> 'ui) rpc_response option \<times> bool" where
  "program_turn env bytes_match program_id config t =
     (let account_config = map_option pac_account_config config in
      case tr_event t of
        InTime (Received n) \<Rightarrow>
          if tr_closed t then (None, False)
          else if ac_owner (ad_account (an_data n)) \<noteq> program_id then (None, True)
          else if config_commitment (Option.bind account_config aic_commitment) \<noteq> an_commitment n then (None, True)
          else if ad_updated_slot (an_data n) < unwrap_or (Option.bind account_config aic_min_context_slot) 0
          then (None, True)
          else if (case Option.bind config pac_filters of
                     Some filters \<Rightarrow> list_ex (\<lambda>f. \<not> allows bytes_match (an_data n) f) filters
                   | None \<Rightarrow> False) then (None, True)
          else send_message t \<lparr>rr_slot = ad_updated_slot (an_data n),
                 rr_value = (bv_pubkey_to_string env (ad_pubkey (an_data n)),
                   convert_account_data_to_ui_account (bv_encode env) (an_data n) account_config)\<rparr>
      | InTime Lagged \<Rightarrow> (None, True)
      | InTime Closed \<Rightarrow> (None, False)
      | Elapsed \<Rightarrow> (None, \<not> tr_closed t))"

definition program_subscribe ::
    "('s, 'ui, 'f) bridge_env \<Rightarrow> (rpc_memcmp \<Rightarrow> u8 list \<Rightarrow> bool) \<Rightarrow> bool \<Rightarrow> string \<Rightarrow>
     program_accounts_config option \<Rightarrow> bool \<Rightarrow> account_notification timed turn list \<Rightarrow>
     string + (string \<times> 'ui) rpc_response list \<times> bool" where
  "program_subscribe env bytes_match has_service program_str config accepted ts =
     (case bv_pubkey_from_str env program_str of
        None \<Rightarrow> Inl ''Invalid account''
      | Some program_id \<Rightarrow>
          if \<not> has_service then Inl ''Accounts service not configured''
          else if \<not> accepted then Inl ''not accepted''
          else Inr (run_subscription (program_turn env bytes_match program_id config) ts))"

section \<open>What a connected client gets\<close>

fun message_of :: "'m timed \<Rightarrow> 'm option" where
  "message_of (InTime (Received m)) = Some m"
| "message_of _ = None"

definition connected :: "'m timed turn \<Rightarrow> bool" where
  "connected t \<longleftrightarrow> \<not> tr_closed t \<and> tr_sends t \<and> tr_event t \<noteq> InTime Closed"

definition messages_of :: "'m timed turn list \<Rightarrow> 'm list" where
  "messages_of ts = List.map_filter (\<lambda>t. message_of (tr_event t)) ts"

lemma run_subscription_connected:
  assumes "\<And>t. connected t \<Longrightarrow> step t = (Option.bind (message_of (tr_event t)) f, True)"
  shows "list_all connected ts \<Longrightarrow>
    run_subscription step ts = (List.map_filter f (messages_of ts), True)"
proof (induction ts)
  case (Cons t ts)
  then show ?case
    by (cases "message_of (tr_event t)"; cases "Option.bind (message_of (tr_event t)) f")
      (auto simp: messages_of_def assms split: option.splits)
qed (simp add: messages_of_def)

definition account_answer ::
    "('s, 'ui, 'f) bridge_env \<Rightarrow> pubkey \<Rightarrow> account_info_config option \<Rightarrow> account_notification \<Rightarrow>
     'ui rpc_response option" where
  "account_answer env account config n =
     (if ad_pubkey (an_data n) = account \<and>
         an_commitment n = config_commitment (Option.bind config aic_commitment) \<and>
         unwrap_or (Option.bind config aic_min_context_slot) 0 \<le> ad_updated_slot (an_data n)
      then Some \<lparr>rr_slot = ad_updated_slot (an_data n),
             rr_value = convert_account_data_to_ui_account (bv_encode env) (an_data n) config\<rparr>
      else None)"

definition program_answer ::
    "('s, 'ui, 'f) bridge_env \<Rightarrow> (rpc_memcmp \<Rightarrow> u8 list \<Rightarrow> bool) \<Rightarrow> pubkey \<Rightarrow> program_accounts_config option \<Rightarrow>
     account_notification \<Rightarrow> (string \<times> 'ui) rpc_response option" where
  "program_answer env bytes_match program_id config n =
     (if ac_owner (ad_account (an_data n)) = program_id \<and>
         (\<forall>f \<in> set (unwrap_or (Option.bind config pac_filters) []). allows bytes_match (an_data n) f) \<and>
         an_commitment n =
           config_commitment (Option.bind (map_option pac_account_config config) aic_commitment) \<and>
         unwrap_or (Option.bind (map_option pac_account_config config) aic_min_context_slot) 0
           \<le> ad_updated_slot (an_data n)
      then Some \<lparr>rr_slot = ad_updated_slot (an_data n),
             rr_value = (bv_pubkey_to_string env (ad_pubkey (an_data n)),
               convert_account_data_to_ui_account (bv_encode env) (an_data n)
                 (map_option pac_account_config config))\<rparr>
      else None)"

lemma account_turn_connected:
  "connected t \<Longrightarrow> account_turn env account config t =
     (Option.bind (message_of (tr_event t)) (account_answer env account config), True)"
  by (cases "tr_event t" rule: message_of.cases)
    (auto simp: connected_def account_turn_def account_answer_def send_message_def not_less)

lemma program_turn_connected:
  "connected t \<Longrightarrow> program_turn env bytes_match program_id config t =
     (Option.bind (message_of (tr_event t)) (program_answer env bytes_match program_id config), True)"
  by (cases "tr_event t" rule: message_of.cases; cases "Option.bind config pac_filters")
    (auto simp: connected_def program_turn_def program_answer_def send_message_def list_ex_iff Let_def not_less)

section \<open>Properties\<close>

text \<open>C34: As long as the client is connected and the notifications keep coming, an account subscription
  sends exactly the notifications of that account at its commitment from its minimum slot on, a
  program subscription exactly those of the accounts the program owns that pass all its filters,
  each once and in the order they were broadcast; turns that lag or time out lose nothing else.\<close>

theorem subscribers_get_their_notifications:
  assumes "list_all connected ts"
  shows "(bv_pubkey_from_str env str = Some account \<longrightarrow>
      account_subscribe env True str config True ts =
        Inr (List.map_filter (account_answer env account config) (messages_of ts), True)) \<and>
    (bv_pubkey_from_str env str = Some program_id \<longrightarrow>
      program_subscribe env bytes_match True str pconfig True ts =
        Inr (List.map_filter (program_answer env bytes_match program_id pconfig) (messages_of ts), True))"
  using run_subscription_connected [OF account_turn_connected [of _ env account config] assms]
    run_subscription_connected [OF program_turn_connected [of _ env bytes_match program_id pconfig] assms]
  by (simp add: account_subscribe_def program_subscribe_def)

definition sample_turn :: "account_notification \<Rightarrow> account_notification timed turn" where
  "sample_turn n = \<lparr>tr_event = InTime (Received n), tr_closed = False, tr_sends = True\<rparr>"

definition confirmed_account_config :: account_info_config where
  "confirmed_account_config = \<lparr>aic_encoding = None, aic_data_slice = None,
     aic_commitment = Some confirmed_config, aic_min_context_slot = None\<rparr>"

lemma subscribers_get_their_notifications_witness:
  "account_subscribe sample_bridge_env True ''a'' None True
     [sample_turn \<lparr>an_data = sample_account 1 7 5, an_commitment = Finalized\<rparr>,
      sample_turn \<lparr>an_data = sample_account 2 7 6, an_commitment = Finalized\<rparr>,
      sample_turn \<lparr>an_data = sample_account 1 7 8, an_commitment = Confirmed\<rparr>] =
   Inr ([\<lparr>rr_slot = 5, rr_value = ad_account (sample_account 1 7 5)\<rparr>], True)"
proof -
  have c: "list_all connected
    [sample_turn \<lparr>an_data = sample_account 1 7 5, an_commitment = Finalized\<rparr>,
     sample_turn \<lparr>an_data = sample_account 2 7 6, an_commitment = Finalized\<rparr>,
     sample_turn \<lparr>an_data = sample_account 1 7 8, an_commitment = Confirmed\<rparr>]"
    by (simp add: connected_def sample_turn_def)
  have pk: "bv_pubkey_from_str sample_bridge_env ''a'' = Some 1" by (simp add: sample_bridge_env_def)
  from subscribers_get_their_notifications [OF c, of sample_bridge_env "''a''" 1 None] pk show ?thesis
    by (simp add: messages_of_def account_answer_def sample_turn_def sample_account_def config_commitment_def
        finalized_config_def commitment_from_config_def sample_bridge_env_def convert_account_data_to_ui_account_def)
qed

text \<open>An update that reaches the account service after its slot was confirmed is stored as confirmed
  data, which readers get from then on, but it is broadcast as processed: a confirmed subscription
  sends nothing for it.\<close>

theorem late_confirmed_update_not_announced:
  assumes "hm_get (is_account_store s) pk = None" and "ad_updated_slot d \<in> is_confirmed_slots_map s"
    and "ad_pubkey d = pk" and "config_commitment (Option.bind config aic_commitment) = Confirmed"
  shows "\<exists>s' ns. service_step (inmemory_storage bytes_match) s
      (AccountReceived \<lparr>an_data = d, an_commitment = Processed\<rparr>) = Inr (s', ns) \<and>
    get_account s' pk Confirmed = Inr (Some d) \<and>
    (\<forall>ts. list_all connected ts \<and> messages_of ts = ns \<longrightarrow>
      run_subscription (account_turn env pk config) ts = ([], True))"
proof -
  have "\<exists>s'. update_account s d Processed = Inr (s', True) \<and> get_account s' pk Confirmed = Inr (Some d)"
    using assms(1-3)
    by (simp add: update_account_def Let_def get_account_def account_by_commitment_new_def hm_get_hm_put)
  then obtain s' where s': "update_account s d Processed = Inr (s', True)"
      "get_account s' pk Confirmed = Inr (Some d)" by blast
  have "account_answer env pk config \<lparr>an_data = d, an_commitment = Processed\<rparr> = None"
    using assms(4) by (simp add: account_answer_def)
  then have "run_subscription (account_turn env pk config) ts = ([], True)"
    if "list_all connected ts" "messages_of ts = [\<lparr>an_data = d, an_commitment = Processed\<rparr>]" for ts
    using run_subscription_connected [OF account_turn_connected [of _ env pk config] that(1)] that(2) by simp
  with s' show ?thesis by (auto simp: inmemory_storage_def)
qed

lemma late_confirmed_update_not_announced_witness:
  "\<exists>s' ns. service_step (inmemory_storage (\<lambda>_ _. True)) (inmemory_account_store_new\<lparr>is_confirmed_slots_map := {5}\<rparr>)
      (AccountReceived \<lparr>an_data = sample_account 1 7 5, an_commitment = Processed\<rparr>) = Inr (s', ns) \<and>
    get_account s' 1 Confirmed = Inr (Some (sample_account 1 7 5))"
proof -
  have "hm_get (is_account_store (inmemory_account_store_new\<lparr>is_confirmed_slots_map := {5}\<rparr>)) 1 = None"
    "ad_updated_slot (sample_account 1 7 5) \<in> is_confirmed_slots_map (inmemory_account_store_new\<lparr>is_confirmed_slots_map := {5}\<rparr>)"
    "ad_pubkey (sample_account 1 7 5) = 1"
    "config_commitment (Option.bind (Some confirmed_account_config) aic_commitment) = Confirmed"
    by (simp_all add: inmemory_account_store_new_def sample_account_def confirmed_account_config_def
        config_commitment_def commitment_from_config_def config_defs)
  from late_confirmed_update_not_announced [OF this, of "\<lambda>_ _. True" sample_bridge_env] show ?thesis by blast
qed

lemma outcome_pair_exists:
  "(case r of Inl _ \<Rightarrow> False | Inr (a, b) \<Rightarrow> P a b) \<Longrightarrow> \<exists>a b. r = Inr (a, b) \<and> P a b"
  by (auto split: sum.splits prod.splits)

text \<open>A confirmed subscription can see an account go back: data of an older slot that arrives as
  confirmed is broadcast although readers keep getting the newer data.\<close>

lemma confirmed_subscription_goes_back:
  "\<exists>s' ns. service_run (inmemory_storage (\<lambda>_ _. True)) inmemory_account_store_new
      [AccountReceived \<lparr>an_data = sample_account 1 7 10, an_commitment = Confirmed\<rparr>,
       AccountReceived \<lparr>an_data = sample_account 1 7 5, an_commitment = Confirmed\<rparr>] = Inr (s', ns) \<and>
    get_account s' 1 Confirmed = Inr (Some (sample_account 1 7 10)) \<and>
    List.map rr_slot (List.map_filter
      (account_answer sample_bridge_env 1 (Some confirmed_account_config)) ns) = [10, 5]"
proof -
  let ?r = "service_run (inmemory_storage (\<lambda>_ _. True)) inmemory_account_store_new
      [AccountReceived \<lparr>an_data = sample_account 1 7 10, an_commitment = Confirmed\<rparr>,
       AccountReceived \<lparr>an_data = sample_account 1 7 5, an_commitment = Confirmed\<rparr>]"
  have "case ?r of Inl _ \<Rightarrow> False | Inr (s', ns) \<Rightarrow>
      get_account s' 1 Confirmed = Inr (Some (sample_account 1 7 10)) \<and>
      List.map rr_slot (List.map_filter
        (account_answer sample_bridge_env 1 (Some confirmed_account_config)) ns) = [10, 5]"
    by code_simp
  then show ?thesis by (rule outcome_pair_exists)
qed

end
