(* ===== verification/Quic_Connection.thy ===== *)
theory Quic_Connection
  imports Core_Data
begin

text \<open>
  The QUIC client below the TPU service: \<open>core/src/structures/rotating_queue.rs\<close>,
  \<open>services/src/quic_connection_utils.rs\<close> (connecting, opening a stream and writing, with their
  time limits) and \<open>services/src/quic_connection.rs\<close> (a connection shared by the sending tasks,
  and the pool of connections with a semaphore each).  A connection of the QUIC library is its
  stable id; what the network does is an argument.  The sending tasks of one connection are
  interleaved by \<open>qc_step\<close>: a task is cut where it waits, and everything done while it holds the
  write lock of the connection is one step (the two reads \<open>get_connection\<close> starts with are one step
  too).
\<close>

section \<open>Rotating queue\<close>

record 'a rotating_queue =
  rq_elements :: "'a list"
  rq_current :: u64

definition rotating_queue_new :: "nat \<Rightarrow> (nat \<Rightarrow> 'a) \<Rightarrow> 'a rotating_queue" where
  "rotating_queue_new n creator_functor =
     \<lparr>rq_elements = List.map creator_functor [0 ..< n], rq_current = 0\<rparr>"

definition rotating_get :: "'a rotating_queue \<Rightarrow> 'a rotating_queue \<times> 'a option" where
  "rotating_get q =
     (if rq_elements q \<noteq> [] then
        (q\<lparr>rq_current := rq_current q + 1\<rparr>,
         Some (rq_elements q ! (unat (rq_current q) mod length (rq_elements q))))
      else (q, None))"

definition rotating_len :: "'a rotating_queue \<Rightarrow> nat" where
  "rotating_len q = length (rq_elements q)"

definition rotating_is_empty :: "'a rotating_queue \<Rightarrow> bool" where
  "rotating_is_empty q \<longleftrightarrow> rq_elements q = []"

section \<open>Time limits and results\<close>

text \<open>An operation of the network completes with a value after some milliseconds, or never.\<close>

type_synonym 'a pending = "('a \<times> nat) option"

definition timeout :: "nat \<Rightarrow> 'a pending \<Rightarrow> 'a option" where
  "timeout limit f = (case f of None \<Rightarrow> None | Some (x, d) \<Rightarrow> if d \<le> limit then Some x else None)"

text \<open>A \<open>select!\<close> between an operation and the exit signal.\<close>

datatype 'a selected = Completed 'a | Exiting

type_synonym connection = u64
type_synonym endpoint = nat
type_synonym socket_addr = "u32 \<times> nat"

datatype quic_connection_error =
    TimeOut
  | ConnectionError bool

record quic_connection_parameters =
  qp_connection_timeout :: nat
  qp_unistream_timeout :: nat
  qp_write_timeout :: nat
  qp_finalize_timeout :: nat
  qp_connection_retry_count :: nat
  qp_max_number_of_connections :: nat
  qp_number_of_transactions_per_unistream :: nat
  qp_unistreams_percentage :: u8
  qp_prioritization_heap_size :: "nat option"

definition default_parameters :: quic_connection_parameters where
  "default_parameters =
     \<lparr>qp_connection_timeout = 60000, qp_unistream_timeout = 10000, qp_write_timeout = 10000,
      qp_finalize_timeout = 20000, qp_connection_retry_count = 20, qp_max_number_of_connections = 8,
      qp_number_of_transactions_per_unistream = 1, qp_unistreams_percentage = 10,
      qp_prioritization_heap_size = None\<rparr>"

section \<open>Connecting and writing\<close>

datatype connect_error = CannotConnect string | ConnectTimedOut | ConnectFailed string

text \<open>What the library returns for one attempt: \<open>connect\<close> fails at once or starts; with early data
  the connection is there before the handshake, which may still run into the time limit.\<close>

datatype early_data =
    EarlyAccepted connection "unit pending"
  | EarlyRefused "(string + connection) pending"

definition make_connection ::
    "nat \<Rightarrow> string + (string + connection) pending \<Rightarrow> connect_error + connection" where
  "make_connection connection_timeout start =
     (case start of
        Inl e \<Rightarrow> Inl (CannotConnect e)
      | Inr connecting \<Rightarrow>
          (case timeout connection_timeout connecting of
             Some (Inr connection) \<Rightarrow> Inr connection
           | Some (Inl e) \<Rightarrow> Inl (ConnectFailed e)
           | None \<Rightarrow> Inl ConnectTimedOut))"

definition make_connection_0rtt :: "nat \<Rightarrow> string + early_data \<Rightarrow> connect_error + connection" where
  "make_connection_0rtt connection_timeout start =
     (case start of
        Inl e \<Rightarrow> Inl (CannotConnect e)
      | Inr (EarlyAccepted connection zero_rtt) \<Rightarrow>
          if timeout connection_timeout zero_rtt \<noteq> None then Inr connection else Inl ConnectTimedOut
      | Inr (EarlyRefused connecting) \<Rightarrow>
          (case timeout connection_timeout connecting of
             Some (Inr connection) \<Rightarrow> Inr connection
           | Some (Inl e) \<Rightarrow> Inl (ConnectFailed e)
           | None \<Rightarrow> Inl ConnectTimedOut))"

text \<open>The outcome of each attempt; the exit signal can win against any of them.\<close>

record network =
  nw_connect :: "nat \<Rightarrow> (string + (string + connection) pending) selected"
  nw_connect_0rtt :: "nat \<Rightarrow> (string + early_data) selected"

definition attempt :: "bool \<Rightarrow> nat \<Rightarrow> network \<Rightarrow> nat \<Rightarrow> (connect_error + connection) selected" where
  "attempt already_connected connection_timeout net i =
     (if already_connected then
        (case nw_connect_0rtt net i of
           Completed r \<Rightarrow> Completed (make_connection_0rtt connection_timeout r) | Exiting \<Rightarrow> Exiting)
      else
        (case nw_connect net i of
           Completed r \<Rightarrow> Completed (make_connection connection_timeout r) | Exiting \<Rightarrow> Exiting))"

fun connect_from ::
    "bool \<Rightarrow> nat \<Rightarrow> network \<Rightarrow> nat \<Rightarrow> nat \<Rightarrow> connection option" where
  "connect_from already_connected connection_timeout net i 0 = None"
| "connect_from already_connected connection_timeout net i (Suc rounds) =
     (case attempt already_connected connection_timeout net i of
        Exiting \<Rightarrow> None
      | Completed (Inr conn) \<Rightarrow> Some conn
      | Completed (Inl e) \<Rightarrow> connect_from already_connected connection_timeout net (Suc i) rounds)"

definition quic_connect :: "bool \<Rightarrow> nat \<Rightarrow> nat \<Rightarrow> network \<Rightarrow> connection option" where
  "quic_connect already_connected connection_timeout connection_retry_count net =
     connect_from already_connected connection_timeout net 0 connection_retry_count"

definition write_all ::
    "quic_connection_parameters \<Rightarrow> (string + unit) pending \<Rightarrow> (string + unit) pending \<Rightarrow>
     quic_connection_error + unit" where
  "write_all params write_stream finish =
     (case timeout (qp_write_timeout params) write_stream of
        Some (Inl e) \<Rightarrow> Inl (ConnectionError True)
      | None \<Rightarrow> Inl TimeOut
      | Some (Inr _) \<Rightarrow>
          (case timeout (qp_finalize_timeout params) finish of
             Some (Inl e) \<Rightarrow> Inl (ConnectionError False)
           | None \<Rightarrow> Inl TimeOut
           | Some (Inr _) \<Rightarrow> Inr ()))"

definition open_unistream :: "nat \<Rightarrow> (string + unit) pending \<Rightarrow> quic_connection_error + unit" where
  "open_unistream connection_timeout open_uni =
     (case timeout connection_timeout open_uni of
        Some (Inr unistream) \<Rightarrow> Inr unistream
      | Some (Inl _) \<Rightarrow> Inl (ConnectionError True)
      | None \<Rightarrow> Inl TimeOut)"

section \<open>A shared connection\<close>

record quic_connection =
  qc_connection :: "connection option"
  qc_last_stable_id :: u64
  qc_endpoint :: endpoint
  qc_identity :: pubkey
  qc_socket_address :: socket_addr
  qc_connection_params :: quic_connection_parameters
  qc_timeout_counters :: u64
  qc_has_connected_once :: bool

definition quic_connection_new ::
    "pubkey \<Rightarrow> endpoint \<Rightarrow> socket_addr \<Rightarrow> quic_connection_parameters \<Rightarrow> quic_connection" where
  "quic_connection_new identity endpnt socket_address connection_params =
     \<lparr>qc_connection = None, qc_last_stable_id = 0, qc_endpoint = endpnt, qc_identity = identity,
      qc_socket_address = socket_address, qc_connection_params = connection_params,
      qc_timeout_counters = 0, qc_has_connected_once = False\<rparr>"

definition qc_connect :: "quic_connection \<Rightarrow> bool \<Rightarrow> network \<Rightarrow> connection option" where
  "qc_connect qc is_already_connected net =
     quic_connect is_already_connected (qp_connection_timeout (qc_connection_params qc))
       (qp_connection_retry_count (qc_connection_params qc)) net"

text \<open>\<open>get_connection\<close>: what the first reads decide, and the work under the write lock.\<close>

datatype get_state =
    Use connection
  | Replace connection
  | Establish

definition get_start :: "quic_connection \<Rightarrow> get_state" where
  "get_start qc =
     (case qc_connection qc of
        Some connection \<Rightarrow>
          if connection = qc_last_stable_id qc then Replace connection else Use connection
      | None \<Rightarrow> Establish)"

fun get_locked ::
    "network \<Rightarrow> get_state \<Rightarrow> quic_connection \<Rightarrow> (quic_connection \<times> connection option) outcome" where
  "get_locked net (Use connection) qc = Inr (qc, Some connection)"
| "get_locked net (Replace current_stable_id) qc =
     (case qc_connection qc of
        None \<Rightarrow> Inl (ExplicitPanic ''Connection cannot be None here'')
      | Some connection \<Rightarrow>
          if connection \<noteq> current_stable_id then Inr (qc, Some connection)
          else (case qc_connect qc True net of
                  Some new_conn \<Rightarrow> Inr (qc\<lparr>qc_connection := Some new_conn\<rparr>, Some new_conn)
                | None \<Rightarrow> Inr (qc, None)))"
| "get_locked net Establish qc =
     (if qc_connection qc \<noteq> None then Inr (qc, qc_connection qc)
      else let connection = qc_connect qc False net
           in Inr (qc\<lparr>qc_connection := connection, qc_has_connected_once := True\<rparr>, connection))"

definition get_timeout_count :: "quic_connection \<Rightarrow> u64" where
  "get_timeout_count qc = qc_timeout_counters qc"

definition reset_timeouts :: "quic_connection \<Rightarrow> quic_connection" where
  "reset_timeouts qc = qc\<lparr>qc_timeout_counters := 0\<rparr>"

definition has_connected_atleast_once :: "quic_connection \<Rightarrow> bool" where
  "has_connected_atleast_once qc \<longleftrightarrow> qc_has_connected_once qc"

definition is_connected :: "(connection \<Rightarrow> bool) \<Rightarrow> quic_connection \<Rightarrow> bool" where
  "is_connected closed qc \<longleftrightarrow>
     (case qc_connection qc of Some connection \<Rightarrow> \<not> closed connection | None \<Rightarrow> False)"

text \<open>\<open>close\<close> closes the connection at the peer and keeps it in the record.\<close>

definition close_connection :: "quic_connection \<Rightarrow> connection option" where
  "close_connection qc = qc_connection qc"

section \<open>Sending a transaction\<close>

datatype send_end = Sent | Late | Refused bool | NotConnected | Interrupted | OutOfRounds

datatype send_pc =
    Getting nat
  | Locking nat get_state
  | Opening nat connection
  | Writing nat connection
  | Ended send_end

text \<open>What the network and the exit signal do while a task runs one step.\<close>

record turn =
  tn_exit :: bool
  tn_network :: network
  tn_open :: "(string + unit) pending"
  tn_write :: "(string + unit) pending"
  tn_finish :: "(string + unit) pending"

text \<open>The end of a round of the loop, with its two conditional breaks in the order of the code.\<close>

definition end_of_round ::
    "nat \<Rightarrow> connection \<Rightarrow> bool \<Rightarrow> send_end \<Rightarrow> quic_connection \<Rightarrow> quic_connection \<times> send_pc" where
  "end_of_round rounds current_stable_id do_retry result qc =
     (if do_retry then (qc\<lparr>qc_last_stable_id := current_stable_id\<rparr>, Ended result)
      else if \<not> do_retry then (qc, Ended result)
      else (qc, Getting rounds))"

definition round_error ::
    "nat \<Rightarrow> connection \<Rightarrow> quic_connection_error \<Rightarrow> quic_connection \<Rightarrow> quic_connection \<times> send_pc" where
  "round_error rounds current_stable_id e qc =
     (case e of
        ConnectionError retry \<Rightarrow> end_of_round rounds current_stable_id retry (Refused retry) qc
      | TimeOut \<Rightarrow> end_of_round rounds current_stable_id False Late
                   (qc\<lparr>qc_timeout_counters := qc_timeout_counters qc + 1\<rparr>))"

definition send_start :: "quic_connection \<Rightarrow> send_pc" where
  "send_start qc = Getting (qp_connection_retry_count (qc_connection_params qc))"

fun send_step :: "turn \<Rightarrow> send_pc \<Rightarrow> quic_connection \<Rightarrow> (quic_connection \<times> send_pc) outcome" where
  "send_step tn (Getting 0) qc = Inr (qc, Ended OutOfRounds)"
| "send_step tn (Getting (Suc rounds)) qc =
     Inr (qc, if tn_exit tn then Ended Interrupted else Locking rounds (get_start qc))"
| "send_step tn (Locking rounds g) qc =
     (if tn_exit tn then Inr (qc, Ended Interrupted)
      else bind_outcome (get_locked (tn_network tn) g qc) (\<lambda>(qc', connection).
        Inr (qc', case connection of Some c \<Rightarrow> Opening rounds c | None \<Rightarrow> Ended NotConnected)))"
| "send_step tn (Opening rounds c) qc =
     Inr (if tn_exit tn then (qc, Ended Interrupted)
          else case open_unistream (qp_unistream_timeout (qc_connection_params qc)) (tn_open tn) of
                 Inr send_stream \<Rightarrow> (qc, Writing rounds c)
               | Inl e \<Rightarrow> round_error rounds c e qc)"
| "send_step tn (Writing rounds c) qc =
     Inr (if tn_exit tn then (qc, Ended Interrupted)
          else case write_all (qc_connection_params qc) (tn_write tn) (tn_finish tn) of
                 Inr _ \<Rightarrow> end_of_round rounds c False Sent qc
               | Inl e \<Rightarrow> round_error rounds c e qc)"
| "send_step tn (Ended e) qc = Inr (qc, Ended e)"

section \<open>The tasks of one connection\<close>

record qc_system =
  qs_conn :: quic_connection
  qs_tasks :: "send_pc list"
  qs_established :: "connection list"

text \<open>\<open>qs_established\<close> remembers the connections that were stored, newest first.  A step of a task is
  labelled with its number, where it was, and the connection it replaced by another one.\<close>

datatype qc_label =
    Spawned
  | Ran nat send_pc "connection option"
  | TimeoutsReset

fun ended :: "send_pc \<Rightarrow> bool" where
  "ended (Ended _) = True"
| "ended _ = False"

definition note_stored :: "connection option \<Rightarrow> connection option \<Rightarrow> connection list \<Rightarrow> connection list" where
  "note_stored before now cs =
     (if now = before then cs else case now of Some c \<Rightarrow> c # cs | None \<Rightarrow> cs)"

inductive qc_step :: "qc_system \<Rightarrow> qc_label \<Rightarrow> qc_system \<Rightarrow> bool" where
  spawned: "qc_step s Spawned (s\<lparr>qs_tasks := qs_tasks s @ [send_start (qs_conn s)]\<rparr>)"
| ran: "i < length (qs_tasks s) \<Longrightarrow> \<not> ended (qs_tasks s ! i) \<Longrightarrow>
    send_step tn (qs_tasks s ! i) (qs_conn s) = Inr (qc, pc) \<Longrightarrow>
    qc_step s
      (Ran i (qs_tasks s ! i)
         (if qc_connection qc = qc_connection (qs_conn s) then None else qc_connection (qs_conn s)))
      \<lparr>qs_conn = qc, qs_tasks = (qs_tasks s)[i := pc],
       qs_established = note_stored (qc_connection (qs_conn s)) (qc_connection qc) (qs_established s)\<rparr>"
| reset: "qc_step s TimeoutsReset (s\<lparr>qs_conn := reset_timeouts (qs_conn s)\<rparr>)"

inductive qc_run :: "qc_system \<Rightarrow> qc_label list \<Rightarrow> qc_system \<Rightarrow> bool" for s where
  qc_refl: "qc_run s [] s"
| qc_snoc: "qc_run s ls t \<Longrightarrow> qc_step t l u \<Longrightarrow> qc_run s (ls @ [l]) u"

inductive_cases qc_stepE: "qc_step s l t"

definition qc_system_new :: "quic_connection \<Rightarrow> qc_system" where
  "qc_system_new qc = \<lparr>qs_conn = qc, qs_tasks = [], qs_established = []\<rparr>"

section \<open>Every task ends\<close>

fun rank :: "send_pc \<Rightarrow> nat" where
  "rank (Getting _) = 4"
| "rank (Locking _ _) = 3"
| "rank (Opening _ _) = 2"
| "rank (Writing _ _) = 1"
| "rank (Ended _) = 0"

fun steps_of :: "nat \<Rightarrow> qc_label \<Rightarrow> nat" where
  "steps_of i (Ran j _ _) = (if i = j then 1 else 0)"
| "steps_of i _ = 0"

fun opens_of :: "nat \<Rightarrow> qc_label \<Rightarrow> nat" where
  "opens_of i (Ran j (Opening _ _) _) = (if i = j then 1 else 0)"
| "opens_of i _ = 0"

definition steps_taken :: "nat \<Rightarrow> qc_label list \<Rightarrow> nat" where
  "steps_taken i ls = sum_list (List.map (steps_of i) ls)"

definition streams_opened :: "nat \<Rightarrow> qc_label list \<Rightarrow> nat" where
  "streams_opened i ls = sum_list (List.map (opens_of i) ls)"

text \<open>A task that waits for the lock to replace a connection has seen one, and no step takes it away.\<close>

fun lock_ok :: "quic_connection \<Rightarrow> send_pc \<Rightarrow> bool" where
  "lock_ok qc (Locking _ (Replace _)) \<longleftrightarrow> qc_connection qc \<noteq> None"
| "lock_ok qc _ \<longleftrightarrow> True"

definition qc_inv :: "qc_system \<Rightarrow> bool" where
  "qc_inv s \<longleftrightarrow> list_all (lock_ok (qs_conn s)) (qs_tasks s)"

lemma end_of_round_facts:
  assumes "end_of_round rounds c do_retry result qc = (qc', pc')"
  shows "pc' = Ended result" and "qc_connection qc' = qc_connection qc"
    and "qc_connection_params qc' = qc_connection_params qc"
  using assms by (auto simp: end_of_round_def split: if_splits)

lemma round_error_facts:
  assumes "round_error rounds c e qc = (qc', pc')"
  shows "\<exists>result. pc' = Ended result" and "qc_connection qc' = qc_connection qc"
    and "qc_connection_params qc' = qc_connection_params qc"
  using assms
  by (auto simp: round_error_def end_of_round_def split: quic_connection_error.splits if_splits)

lemma get_locked_connection:
  assumes "get_locked net g qc = Inr (qc', r)"
  shows "qc_connection qc \<noteq> None \<Longrightarrow> qc_connection qc' \<noteq> None"
    and "qc_connection_params qc' = qc_connection_params qc"
  using assms
  by (cases "(net, g, qc)" rule: get_locked.cases; auto simp: Let_def split: option.splits if_splits)+

lemma get_locked_total:
  "lock_ok qc (Locking n g) \<Longrightarrow> \<exists>qc' r. get_locked net g qc = Inr (qc', r)"
  by (cases g) (auto simp: Let_def split: option.splits)

text \<open>What a step can lead to.\<close>

lemma send_step_next:
  assumes "send_step tn pc qc = Inr (qc', pc')" and "\<not> ended pc"
  shows "(\<exists>result. pc' = Ended result) \<or>
    (case pc of
       Getting n \<Rightarrow> qc' = qc \<and> pc' = Locking (n - 1) (get_start qc)
     | Locking n g \<Rightarrow> \<exists>c. pc' = Opening n c
     | Opening n c \<Rightarrow> qc' = qc \<and> pc' = Writing n c
     | _ \<Rightarrow> False)"
proof (cases pc)
  case (Getting n)
  with assms show ?thesis by (cases n; cases "tn_exit tn") auto
next
  case (Locking n g)
  with assms show ?thesis by (auto split: if_splits option.splits)
next
  case (Opening n c)
  with assms show ?thesis
    using round_error_facts(1) [of n c _ qc qc' pc'] by (auto split: if_splits sum.splits)
next
  case (Writing n c)
  with assms show ?thesis
    using round_error_facts(1) [of n c _ qc qc' pc'] end_of_round_facts(1) [of n c False Sent qc qc' pc']
    by (auto split: if_splits sum.splits)
next
  case (Ended e)
  from assms(2) show ?thesis unfolding Ended by simp
qed

lemma send_step_rank:
  assumes "send_step tn pc qc = Inr (qc', pc')" and "\<not> ended pc"
  shows "rank pc' < rank pc"
  using send_step_next [OF assms] assms(2) by (cases pc) auto

lemma send_step_connection:
  assumes "send_step tn pc qc = Inr (qc', pc')"
  shows "qc_connection qc \<noteq> None \<longrightarrow> qc_connection qc' \<noteq> None"
    and "qc_connection_params qc' = qc_connection_params qc"
proof -
  have "(qc_connection qc \<noteq> None \<longrightarrow> qc_connection qc' \<noteq> None) \<and>
      qc_connection_params qc' = qc_connection_params qc"
  proof (cases pc)
    case (Getting n)
    with assms show ?thesis by (cases n) auto
  next
    case (Locking n g)
    with assms show ?thesis
      using get_locked_connection [of "tn_network tn" g qc] by (auto split: if_splits)
  next
    case (Opening n c)
    with assms show ?thesis
      using round_error_facts [of n c _ qc qc' pc'] by (auto split: if_splits sum.splits)
  next
    case (Writing n c)
    with assms show ?thesis
      using round_error_facts [of n c _ qc qc' pc'] end_of_round_facts [of n c False Sent qc qc' pc']
      by (auto split: if_splits sum.splits)
  qed (use assms in auto)
  then show "qc_connection qc \<noteq> None \<longrightarrow> qc_connection qc' \<noteq> None"
    and "qc_connection_params qc' = qc_connection_params qc" by blast+
qed

lemma send_step_lock_ok:
  assumes "send_step tn pc qc = Inr (qc', pc')" and "\<not> ended pc"
  shows "lock_ok qc' pc'"
  using send_step_next [OF assms] assms(2)
  by (cases pc) (auto simp: get_start_def split: option.splits if_splits)

lemma send_step_total:
  "lock_ok qc pc \<Longrightarrow> \<exists>qc' pc'. send_step tn pc qc = Inr (qc', pc')"
proof (cases pc)
  case (Getting n)
  then show ?thesis by (cases n) auto
next
  case (Locking n g)
  moreover assume "lock_ok qc pc"
  ultimately obtain qc' r where "get_locked (tn_network tn) g qc = Inr (qc', r)"
    using get_locked_total by blast
  with Locking show ?thesis by simp
next
  case (Opening n c)
  then show ?thesis by simp
next
  case (Writing n c)
  then show ?thesis by simp
qed simp

lemma lock_ok_mono:
  "lock_ok qc pc \<Longrightarrow> qc_connection qc \<noteq> None \<longrightarrow> qc_connection qc' \<noteq> None \<Longrightarrow> lock_ok qc' pc"
  by (cases "(qc, pc)" rule: lock_ok.cases) auto

lemma qc_step_inv: "qc_step s l t \<Longrightarrow> qc_inv s \<Longrightarrow> qc_inv t"
proof (induction rule: qc_step.induct)
  case (ran i s tn qc pc)
  have "list_all (lock_ok qc) (qs_tasks s)"
    using ran.prems lock_ok_mono [OF _ send_step_connection(1) [OF ran.hyps(3)]]
    by (simp add: qc_inv_def list_all_iff)
  moreover have "lock_ok qc pc" by (rule send_step_lock_ok [OF ran.hyps(3,2)])
  ultimately show ?case
    using ran.hyps(1) by (auto simp: qc_inv_def list_all_length nth_list_update)
next
  case (reset s)
  then show ?case
    using lock_ok_mono [of "qs_conn s" _ "reset_timeouts (qs_conn s)"]
    by (simp add: qc_inv_def list_all_iff reset_timeouts_def)
qed (simp add: qc_inv_def send_start_def)

lemma qc_run_inv: "qc_run s ls t \<Longrightarrow> qc_inv s \<Longrightarrow> qc_inv t"
  by (induction rule: qc_run.induct) (auto intro: qc_step_inv)

definition task_rank :: "nat \<Rightarrow> qc_system \<Rightarrow> nat" where
  "task_rank i s = (if i < length (qs_tasks s) then rank (qs_tasks s ! i) else 4)"

definition may_open :: "nat \<Rightarrow> qc_system \<Rightarrow> nat" where
  "may_open i s = (if 2 \<le> task_rank i s then 1 else 0)"

lemma opens_of_rank: "opens_of i l \<le> 1" "opens_of i (Ran j pc r) = (if i = j \<and> rank pc = 2 then 1 else 0)"
  by (cases "(i, l)" rule: opens_of.cases; simp) (cases pc; simp)

lemma qc_step_counts:
  assumes "qc_step s l t"
  shows "steps_of i l + task_rank i t \<le> task_rank i s" and "opens_of i l + may_open i t \<le> may_open i s"
proof -
  have "steps_of i l + task_rank i t \<le> task_rank i s \<and> opens_of i l + may_open i t \<le> may_open i s"
    using assms
  proof (cases rule: qc_step.cases)
    case (ran j tn qc pc)
    have "rank pc < rank (qs_tasks s ! j)" by (rule send_step_rank [OF ran(5,4)])
    then show ?thesis using ran(3) by (auto simp: ran(1,2) task_rank_def may_open_def opens_of_rank nth_list_update)
  qed (auto simp: task_rank_def may_open_def nth_append send_start_def)
  then show "steps_of i l + task_rank i t \<le> task_rank i s" and "opens_of i l + may_open i t \<le> may_open i s"
    by blast+
qed

lemma qc_run_counts:
  "qc_run s ls t \<Longrightarrow> steps_taken i ls + task_rank i t \<le> task_rank i s \<and>
     streams_opened i ls + may_open i t \<le> may_open i s"
proof (induction rule: qc_run.induct)
  case (qc_snoc ls t l u)
  from qc_step_counts [OF qc_snoc.hyps(2), of i] qc_snoc.IH show ?case
    by (simp add: steps_taken_def streams_opened_def)
qed (simp add: steps_taken_def streams_opened_def)

section \<open>A connection is replaced once\<close>

fun replaced_of :: "qc_label \<Rightarrow> connection option" where
  "replaced_of (Ran _ _ r) = r"
| "replaced_of _ = None"

definition replaced_connections :: "qc_label list \<Rightarrow> connection list" where
  "replaced_connections ls = List.map_filter replaced_of ls"

definition chain_ok :: "qc_label list \<Rightarrow> qc_system \<Rightarrow> bool" where
  "chain_ok ls s \<longleftrightarrow> replaced_connections ls = rev (tl (qs_established s)) \<and>
     qc_connection (qs_conn s) = (case qs_established s of [] \<Rightarrow> None | c # _ \<Rightarrow> Some c)"

lemma map_filter_snoc_one: "List.map_filter f (xs @ [x]) = List.map_filter f xs @ (case f x of None \<Rightarrow> [] | Some y \<Rightarrow> [y])"
  by (induction xs) (auto split: option.splits)

lemma qc_step_chain: "qc_step s l t \<Longrightarrow> chain_ok ls s \<Longrightarrow> chain_ok (ls @ [l]) t"
proof (induction rule: qc_step.induct)
  case (ran i s tn qc pc)
  then show ?case
    using send_step_connection(1) [OF ran.hyps(3)]
    by (cases "qc_connection qc"; cases "qc_connection (qs_conn s)"; cases "qs_established s")
      (auto simp: chain_ok_def replaced_connections_def map_filter_snoc_one note_stored_def)
qed (auto simp: chain_ok_def replaced_connections_def map_filter_snoc_one reset_timeouts_def)

lemma qc_run_chain: "qc_run s ls t \<Longrightarrow> chain_ok [] s \<Longrightarrow> chain_ok ls t"
  by (induction rule: qc_run.induct) (auto intro: qc_step_chain)

section \<open>Playing a schedule\<close>

text \<open>Runs from a given schedule: \<open>None\<close> spawns a task, \<open>Some (i, tn)\<close> lets task \<open>i\<close> take a step.\<close>

fun qc_play :: "qc_system \<Rightarrow> (nat \<times> turn) option list \<Rightarrow> qc_label list \<times> qc_system" where
  "qc_play s [] = ([], s)"
| "qc_play s (None # ms) =
     (let (ls, t) = qc_play (s\<lparr>qs_tasks := qs_tasks s @ [send_start (qs_conn s)]\<rparr>) ms in (Spawned # ls, t))"
| "qc_play s (Some (i, tn) # ms) =
     (if i < length (qs_tasks s) \<and> \<not> ended (qs_tasks s ! i) then
        (case send_step tn (qs_tasks s ! i) (qs_conn s) of
           Inl p \<Rightarrow> ([], s)
         | Inr (qc, pc) \<Rightarrow>
             let (ls, t) = qc_play \<lparr>qs_conn = qc, qs_tasks = (qs_tasks s)[i := pc],
                   qs_established = note_stored (qc_connection (qs_conn s)) (qc_connection qc) (qs_established s)\<rparr> ms
             in (Ran i (qs_tasks s ! i)
                   (if qc_connection qc = qc_connection (qs_conn s) then None else qc_connection (qs_conn s)) # ls, t))
      else ([], s))"

lemma qc_run_Cons: "qc_run t ls u \<Longrightarrow> qc_step s l t \<Longrightarrow> qc_run s (l # ls) u"
proof (induction rule: qc_run.induct)
  case qc_refl
  then show ?case using qc_snoc [OF qc_run.qc_refl] by fastforce
next
  case (qc_snoc ls t' l' u)
  then show ?case using qc_run.qc_snoc by fastforce
qed

lemma qc_play_run: "qc_play s ms = (ls, t) \<Longrightarrow> qc_run s ls t"
proof (induction s ms arbitrary: ls rule: qc_play.induct)
  case (1 s)
  then show ?case by (simp add: qc_refl)
next
  case (2 s ms)
  then show ?case by (auto split: prod.splits intro: qc_run_Cons qc_step.spawned)
next
  case (3 s i tn ms)
  show ?case
  proof (cases "i < length (qs_tasks s) \<and> \<not> ended (qs_tasks s ! i)")
    case True
    show ?thesis
    proof (cases "send_step tn (qs_tasks s ! i) (qs_conn s)")
      case (Inl p)
      with True 3(2) show ?thesis by (simp add: qc_refl)
    next
      case (Inr r)
      obtain qc pc where r: "r = (qc, pc)" by (cases r)
      from True 3(2) Inr r show ?thesis
        by (auto simp: Let_def split: prod.splits intro!: qc_run_Cons [OF 3(1)] qc_step.ran)
    qed
  qed (use 3(2) in \<open>simp add: qc_refl split: if_splits\<close>)
qed

definition sample_network :: "connection \<Rightarrow> network" where
  "sample_network c =
     \<lparr>nw_connect = (\<lambda>i. Completed (if i = 0 then Inl ''busy'' else Inr (Some (Inr c, 10)))),
      nw_connect_0rtt = (\<lambda>_. Completed (Inr (EarlyAccepted c (Some ((), 20)))))\<rparr>"

definition sample_turn_on :: "connection \<Rightarrow> (string + unit) pending \<Rightarrow> turn" where
  "sample_turn_on c opened =
     \<lparr>tn_exit = False, tn_network = sample_network c, tn_open = opened,
      tn_write = Some (Inr (), 5), tn_finish = Some (Inr (), 5)\<rparr>"

text \<open>The first task establishes connection 7 and fails to open a stream; the next two find it
  problematic, one of them replaces it by 8 and both send on 8.\<close>

definition sample_schedule :: "(nat \<times> turn) option list" where
  "sample_schedule =
     (let bad = sample_turn_on 7 (Some (Inl ''reset'', 1)); good = sample_turn_on 8 (Some (Inr (), 1))
      in [None, None, None, Some (0, bad), Some (0, bad), Some (0, bad), Some (1, good), Some (2, good),
          Some (1, good), Some (2, good), Some (1, good), Some (1, good), Some (2, good), Some (2, good)])"

definition sample_parameters :: quic_connection_parameters where
  "sample_parameters =
     \<lparr>qp_connection_timeout = 50, qp_unistream_timeout = 20, qp_write_timeout = 20,
      qp_finalize_timeout = 20, qp_connection_retry_count = 3, qp_max_number_of_connections = 2,
      qp_number_of_transactions_per_unistream = 1, qp_unistreams_percentage = 10,
      qp_prioritization_heap_size = None\<rparr>"

definition sample_system :: qc_system where
  "sample_system = qc_system_new (quic_connection_new 1 0 (1, 9) sample_parameters)"

lemma sample_played:
  "case qc_play sample_system sample_schedule of (ls, s) \<Rightarrow>
     qs_established s = [8, 7] \<and> replaced_connections ls = [7] \<and>
     qs_tasks s = [Ended (Refused True), Ended Sent, Ended Sent] \<and>
     steps_taken 0 ls = 3 \<and> steps_taken 1 ls = 4 \<and> streams_opened 1 ls = 1"
  by code_simp

section \<open>Properties\<close>

text \<open>C9: Every task that sends a transaction ends: it takes at most four steps and opens at most one
  stream, whatever the other tasks of the connection do, whatever the retry count is and whatever
  the network returns; and until it has ended it always has a next step, so the connection it waits
  to replace is never missing.\<close>

theorem send_tasks_end:
  assumes "qc_run (qc_system_new (quic_connection_new identity endpnt addr params)) ls s"
  shows "steps_taken i ls \<le> 4 \<and> streams_opened i ls \<le> 1 \<and>
    (i < length (qs_tasks s) \<and> \<not> ended (qs_tasks s ! i) \<longrightarrow>
       (\<forall>tn. \<exists>qc pc. send_step tn (qs_tasks s ! i) (qs_conn s) = Inr (qc, pc) \<and> rank pc < rank (qs_tasks s ! i)))"
proof -
  let ?s = "qc_system_new (quic_connection_new identity endpnt addr params)"
  have "steps_taken i ls \<le> 4 \<and> streams_opened i ls \<le> 1"
    using qc_run_counts [OF assms, of i] by (auto simp: task_rank_def may_open_def qc_system_new_def split: if_splits)
  moreover have "qc_inv s"
    by (rule qc_run_inv [OF assms]) (simp add: qc_inv_def qc_system_new_def)
  ultimately show ?thesis
    using send_step_total [of "qs_conn s" "qs_tasks s ! i"] send_step_rank
    by (simp add: qc_inv_def list_all_length) metis
qed

lemma send_tasks_end_witness:
  "\<exists>ls s. qc_run sample_system ls s \<and> qs_tasks s = [Ended (Refused True), Ended Sent, Ended Sent] \<and>
     steps_taken 1 ls \<le> 4 \<and> streams_opened 1 ls \<le> 1"
proof -
  obtain ls s where p: "qc_play sample_system sample_schedule = (ls, s)"
    by (cases "qc_play sample_system sample_schedule")
  then have run: "qc_run sample_system ls s" by (rule qc_play_run)
  have "steps_taken 1 ls \<le> 4 \<and> streams_opened 1 ls \<le> 1"
    using send_tasks_end [OF run [unfolded sample_system_def], of 1] by blast
  moreover have "qs_tasks s = [Ended (Refused True), Ended Sent, Ended Sent]" using sample_played p by simp
  ultimately show ?thesis using run by blast
qed

text \<open>When the network never hands out the same stable id twice, a problematic connection is replaced
  at most once, however many tasks ran into its failure: the tasks that lose the race for the lock
  send on the connection that the winner stored.\<close>

theorem connection_replaced_once:
  assumes "qc_run (qc_system_new (quic_connection_new identity endpnt addr params)) ls s"
    and "distinct (qs_established s)"
  shows "distinct (replaced_connections ls) \<and>
    set (replaced_connections ls) \<union> set_option (qc_connection (qs_conn s)) = set (qs_established s) \<and>
    (\<forall>net c c'. qc_connection (qs_conn s) = Some c' \<and> c \<noteq> c' \<longrightarrow>
       get_locked net (Replace c) (qs_conn s) = Inr (qs_conn s, Some c'))"
proof -
  have "chain_ok ls s"
    by (rule qc_run_chain [OF assms(1)])
      (simp add: chain_ok_def qc_system_new_def quic_connection_new_def replaced_connections_def)
  then show ?thesis
    using assms(2) by (cases "qs_established s") (auto simp: chain_ok_def)
qed

lemma connection_replaced_once_witness:
  "\<exists>ls s. qc_run sample_system ls s \<and> qs_established s = [8, 7] \<and> distinct (replaced_connections ls) \<and>
     replaced_connections ls = [7]"
proof -
  obtain ls s where p: "qc_play sample_system sample_schedule = (ls, s)"
    by (cases "qc_play sample_system sample_schedule")
  then have run: "qc_run sample_system ls s" by (rule qc_play_run)
  have e: "qs_established s = [8, 7]" "replaced_connections ls = [7]" using sample_played p by simp_all
  then have "distinct (qs_established s)" by simp
  with connection_replaced_once [OF run [unfolded sample_system_def]] have "distinct (replaced_connections ls)"
    by blast
  with run e show ?thesis by blast
qed

end
