(* ===== verification/Tpu_Listener.thy ===== *)
theory Tpu_Listener
  imports Quic_Connection Fee_Heap Data_Cache
begin

text \<open>
  \<open>QuicConnectionPool\<close> of \<open>services/src/quic_connection.rs\<close> and \<open>ActiveConnection\<close> of
  \<open>services/src/tpu_utils/tpu_connection_manager.rs\<close>: the connections to one leader with a
  semaphore each, the task that fills the priority heap from the broadcast channel, the main loop
  that takes transactions from it, and the sending tasks it spawns.  \<open>listener_step\<close> interleaves
  them; a task is cut at each of its waits, and the data cache, which other tasks change, is an
  argument of every step that reads it.
\<close>

section \<open>The pool\<close>

record quic_pool =
  pl_connections :: "quic_connection list"
  pl_available :: "nat list"
  pl_threshold :: nat

definition usize_max :: int where
  "usize_max = 18446744073709551615"

fun create_connections ::
    "pubkey \<Rightarrow> socket_addr \<Rightarrow> quic_connection_parameters \<Rightarrow> nat \<Rightarrow> endpoint rotating_queue \<Rightarrow>
     (endpoint rotating_queue \<times> quic_connection list) outcome" where
  "create_connections identity socket_address params 0 endpoints = Inr (endpoints, [])"
| "create_connections identity socket_address params (Suc n) endpoints =
     (case rotating_get endpoints of
        (_, None) \<Rightarrow> Inl (ExplicitPanic ''Should get and endpoint'')
      | (endpoints', Some e) \<Rightarrow>
          bind_outcome (create_connections identity socket_address params n endpoints') (\<lambda>(endpoints'', cs).
            Inr (endpoints'', quic_connection_new identity e socket_address params # cs)))"

definition creation_threshold :: "nat \<Rightarrow> u8 \<Rightarrow> nat" where
  "creation_threshold max_number_of_unistream_connection percentage =
     nat (min (int max_number_of_unistream_connection * min (uint percentage) 100) usize_max div 100)"

definition quic_pool_new ::
    "pubkey \<Rightarrow> endpoint rotating_queue \<Rightarrow> socket_addr \<Rightarrow> quic_connection_parameters \<Rightarrow> nat \<Rightarrow> nat \<Rightarrow>
     (endpoint rotating_queue \<times> quic_pool) outcome" where
  "quic_pool_new identity endpoints socket_address params nb_connection max_number_of_unistream_connection =
     bind_outcome (create_connections identity socket_address params nb_connection endpoints)
       (\<lambda>(endpoints', connections).
         Inr (endpoints',
           \<lparr>pl_connections = connections,
            pl_available = replicate nb_connection max_number_of_unistream_connection,
            pl_threshold = creation_threshold max_number_of_unistream_connection
              (qp_unistreams_percentage params)\<rparr>))"

text \<open>The first connection that was never used, or is open with enough free streams, and has a permit.\<close>

fun preferred_index :: "(connection \<Rightarrow> bool) \<Rightarrow> nat \<Rightarrow> nat \<Rightarrow> (quic_connection \<times> nat) list \<Rightarrow> nat option" where
  "preferred_index closed threshold index [] = None"
| "preferred_index closed threshold index ((connection, available_permits) # cs) =
     (if (\<not> has_connected_atleast_once connection \<or>
          is_connected closed connection \<and> available_permits > threshold) \<and> 0 < available_permits
      then Some index
      else preferred_index closed threshold (Suc index) cs)"

text \<open>The indices \<open>get_permit_and_index\<close> may answer with: the preferred one, or else whichever
  semaphore gets free; with none free it waits.  Waiting for no semaphore at all panics.\<close>

definition get_permit_and_index :: "(connection \<Rightarrow> bool) \<Rightarrow> quic_pool \<Rightarrow> nat list outcome" where
  "get_permit_and_index closed p =
     (case preferred_index closed (pl_threshold p) 0 (zip (pl_connections p) (pl_available p)) of
        Some index \<Rightarrow> Inr [index]
      | None \<Rightarrow>
          if pl_available p = [] then Inl AssertionFailed
          else Inr (filter (\<lambda>i. 0 < pl_available p ! i) [0 ..< length (pl_available p)]))"

definition take_permit :: "nat \<Rightarrow> quic_pool \<Rightarrow> quic_pool" where
  "take_permit i p = p\<lparr>pl_available := (pl_available p)[i := pl_available p ! i - 1]\<rparr>"

definition release_permit :: "nat \<Rightarrow> quic_pool \<Rightarrow> quic_pool" where
  "release_permit i p = p\<lparr>pl_available := (pl_available p)[i := pl_available p ! i + 1]\<rparr>"

definition pool_len :: "quic_pool \<Rightarrow> nat" where
  "pool_len p = length (pl_connections p)"

definition pool_is_empty :: "quic_pool \<Rightarrow> bool" where
  "pool_is_empty p \<longleftrightarrow> pl_connections p = []"

definition close_all :: "quic_pool \<Rightarrow> connection list" where
  "close_all p = List.map_filter close_connection (pl_connections p)"

section \<open>The tasks of an active connection\<close>

text \<open>The task that fills the heap, the main loop, and the spawned tasks: the first one only
  establishes a connection.\<close>

datatype filler_pc =
    Receiving
  | Inserting sent_transaction_info
  | Notifying
  | Sleeping
  | FillerStopped

datatype main_pc =
    Warming
  | Waiting
  | Processing
  | Acquiring sent_transaction_info
  | Stopping
  | MainStopped

datatype job =
    Warmup "get_state option"
  | Transmit sent_transaction_info send_pc

record listener =
  li_heap :: prio_heap
  li_notified :: bool
  li_main :: main_pc
  li_filler :: filler_pc
  li_current_blockheight :: u64
  li_pool :: quic_pool
  li_jobs :: "(nat \<times> job) list"
  li_exit_filler :: bool
  li_exit_main :: bool

definition listener_new ::
    "nat \<Rightarrow> pubkey \<Rightarrow> endpoint rotating_queue \<Rightarrow> socket_addr \<Rightarrow> quic_connection_parameters \<Rightarrow> data_cache \<Rightarrow>
     (endpoint rotating_queue \<times> listener) outcome" where
  "listener_new max_uni_stream_connections identity endpoints addr params dc =
     bind_outcome (quic_pool_new identity endpoints addr params (qp_max_number_of_connections params)
         max_uni_stream_connections)
       (\<lambda>(endpoints', pool).
         Inr (endpoints',
           \<lparr>li_heap = heap_new (unwrap_or (qp_prioritization_heap_size params) (2 * max_uni_stream_connections)),
            li_notified = False, li_main = Warming, li_filler = Receiving,
            li_current_blockheight = get_last_blockheight (dc_block_information_store dc),
            li_pool = pool, li_jobs = [], li_exit_filler = False, li_exit_main = False\<rparr>))"

section \<open>Filling the heap\<close>

definition filler_receive :: "data_cache \<Rightarrow> sent_transaction_info \<Rightarrow> listener \<Rightarrow> listener" where
  "filler_receive dc tx l =
     (if check_if_confirmed_or_expired_blockheight dc tx then l else l\<lparr>li_filler := Inserting tx\<rparr>)"

definition filler_insert :: "sent_transaction_info \<Rightarrow> listener \<Rightarrow> listener outcome" where
  "filler_insert tx l =
     bind_outcome (heap_insert (li_heap l) tx) (\<lambda>h. Inr (l\<lparr>li_heap := h, li_filler := Notifying\<rparr>))"

definition filler_notify :: "data_cache \<Rightarrow> listener \<Rightarrow> listener" where
  "filler_notify dc l =
     (let last_blockheight = get_last_blockheight (dc_block_information_store dc);
          l1 = l\<lparr>li_notified := True\<rparr>
      in if last_blockheight \<noteq> li_current_blockheight l1
         then l1\<lparr>li_current_blockheight := last_blockheight, li_filler := Sleeping\<rparr>
         else l1\<lparr>li_filler := Receiving\<rparr>)"

definition filler_expire :: "listener \<Rightarrow> listener" where
  "filler_expire l =
     l\<lparr>li_heap := fst (remove_expired_transactions (li_heap l) (li_current_blockheight l)),
       li_filler := Receiving\<rparr>"

section \<open>The main loop\<close>

definition main_warm :: "nat \<Rightarrow> listener \<Rightarrow> listener" where
  "main_warm i l =
     l\<lparr>li_pool := take_permit i (li_pool l), li_jobs := li_jobs l @ [(i, Warmup None)], li_main := Waiting\<rparr>"

definition main_wake :: "listener \<Rightarrow> listener" where
  "main_wake l = l\<lparr>li_notified := False, li_main := Processing\<rparr>"

definition main_pop :: "data_cache \<Rightarrow> listener \<Rightarrow> listener outcome" where
  "main_pop dc l =
     bind_outcome (heap_pop (li_heap l)) (\<lambda>(h, tx).
       Inr (case tx of
              None \<Rightarrow> l\<lparr>li_heap := h, li_main := Waiting\<rparr>
            | Some tx \<Rightarrow>
                if is_transaction_confirmed (dc_txs dc) (st_signature tx) then l\<lparr>li_heap := h\<rparr>
                else l\<lparr>li_heap := h, li_main := Acquiring tx\<rparr>))"

definition main_spawn :: "nat \<Rightarrow> sent_transaction_info \<Rightarrow> listener \<Rightarrow> listener" where
  "main_spawn i tx l =
     l\<lparr>li_pool := take_permit i (li_pool l),
       li_jobs := li_jobs l @ [(i, Transmit tx (send_start (pl_connections (li_pool l) ! i)))],
       li_main := Processing\<rparr>"

definition main_clear :: "listener \<Rightarrow> listener" where
  "main_clear l = l\<lparr>li_heap := fst (heap_clear (li_heap l)), li_main := MainStopped\<rparr>"

section \<open>The spawned tasks\<close>

fun job_step :: "turn \<Rightarrow> job \<Rightarrow> quic_connection \<Rightarrow> (quic_connection \<times> job option) outcome" where
  "job_step tn (Warmup None) qc = Inr (qc, Some (Warmup (Some (get_start qc))))"
| "job_step tn (Warmup (Some g)) qc =
     bind_outcome (get_locked (tn_network tn) g qc) (\<lambda>(qc', _). Inr (qc', None))"
| "job_step tn (Transmit tx pc) qc =
     (if ended pc then Inr (qc, None)
      else bind_outcome (send_step tn pc qc) (\<lambda>(qc', pc'). Inr (qc', Some (Transmit tx pc'))))"

definition set_connection :: "nat \<Rightarrow> quic_connection \<Rightarrow> quic_pool \<Rightarrow> quic_pool" where
  "set_connection i qc p = p\<lparr>pl_connections := (pl_connections p)[i := qc]\<rparr>"

text \<open>A step of the \<open>j\<close>-th spawned task; a finished task drops its permit.\<close>

definition run_job :: "turn \<Rightarrow> nat \<Rightarrow> listener \<Rightarrow> listener outcome" where
  "run_job tn j l =
     (let (i, jb) = li_jobs l ! j
      in bind_outcome (job_step tn jb (pl_connections (li_pool l) ! i)) (\<lambda>(qc, next).
           Inr (case next of
                  Some jb' \<Rightarrow> l\<lparr>li_pool := set_connection i qc (li_pool l), li_jobs := (li_jobs l)[j := (i, jb')]\<rparr>
                | None \<Rightarrow> l\<lparr>li_pool := release_permit i (set_connection i qc (li_pool l)),
                            li_jobs := take j (li_jobs l) @ drop (Suc j) (li_jobs l)\<rparr>)))"

text \<open>The exit signal reaches the tasks that have subscribed to it.\<close>

definition exit_sent :: "listener \<Rightarrow> listener" where
  "exit_sent l = l\<lparr>li_exit_filler := True, li_exit_main := li_exit_main l \<or> li_main l \<noteq> Warming\<rparr>"

section \<open>All of it\<close>

datatype listener_label =
    Accepted sent_transaction_info
  | SkippedDone sent_transaction_info
  | Spawning sent_transaction_info
  | OtherStep

inductive listener_step :: "listener \<Rightarrow> listener_label \<Rightarrow> listener \<Rightarrow> bool" where
  receive: "li_filler l = Receiving \<Longrightarrow>
    listener_step l
      (if check_if_confirmed_or_expired_blockheight dc tx then SkippedDone tx else Accepted tx)
      (filler_receive dc tx l)"
| receive_error: "li_filler l = Receiving \<Longrightarrow> listener_step l OtherStep l"
| insert_tx: "li_filler l = Inserting tx \<Longrightarrow> filler_insert tx l = Inr l' \<Longrightarrow> listener_step l OtherStep l'"
| notify_main: "li_filler l = Notifying \<Longrightarrow> listener_step l OtherStep (filler_notify dc l)"
| expire: "li_filler l = Sleeping \<Longrightarrow> listener_step l OtherStep (filler_expire l)"
| filler_exits: "li_filler l = Receiving \<Longrightarrow> li_exit_filler l \<Longrightarrow>
    listener_step l OtherStep (l\<lparr>li_filler := FillerStopped\<rparr>)"
| warm: "li_main l = Warming \<Longrightarrow> get_permit_and_index closed (li_pool l) = Inr choices \<Longrightarrow> i \<in> set choices \<Longrightarrow>
    listener_step l OtherStep (main_warm i l)"
| wake: "li_main l = Waiting \<Longrightarrow> li_notified l \<Longrightarrow> listener_step l OtherStep (main_wake l)"
| pop: "li_main l = Processing \<Longrightarrow> main_pop dc l = Inr l' \<Longrightarrow> listener_step l OtherStep l'"
| spawn: "li_main l = Acquiring tx \<Longrightarrow> get_permit_and_index closed (li_pool l) = Inr choices \<Longrightarrow>
    i \<in> set choices \<Longrightarrow> listener_step l (Spawning tx) (main_spawn i tx l)"
| main_exits: "li_main l = Waiting \<Longrightarrow> li_exit_main l \<Longrightarrow> listener_step l OtherStep (l\<lparr>li_main := Stopping\<rparr>)"
| clear: "li_main l = Stopping \<Longrightarrow> li_filler l = FillerStopped \<Longrightarrow> listener_step l OtherStep (main_clear l)"
| job: "j < length (li_jobs l) \<Longrightarrow> run_job tn j l = Inr l' \<Longrightarrow> listener_step l OtherStep l'"
| exit: "listener_step l OtherStep (exit_sent l)"

inductive listener_run :: "listener \<Rightarrow> listener_label list \<Rightarrow> listener \<Rightarrow> bool" for l where
  listener_refl: "listener_run l [] l"
| listener_snoc: "listener_run l ls l1 \<Longrightarrow> listener_step l1 b l2 \<Longrightarrow> listener_run l (ls @ [b]) l2"

section \<open>The queued transactions\<close>

text \<open>What the operations of the heap do to the multiset of queued transactions.\<close>

lemma mset_tl: "mset (tl xs) \<subseteq># mset xs"
  by (cases xs) auto

lemma mset_order_evict: "mset (order_evict xs) \<subseteq># mset xs"
proof -
  let ?P = "\<lambda>t. st_prioritization_fee (last xs) < st_prioritization_fee t"
  have "mset (order_evict xs) \<subseteq># mset (takeWhile ?P xs) + mset (dropWhile ?P xs)"
    by (simp add: order_evict_def mset_tl Let_def)
  also have "\<dots> = mset xs" by (metis mset_append takeWhile_dropWhile_id)
  finally show ?thesis .
qed

lemma mset_order_admit: "mset (order_admit n tx xs) \<subseteq># add_mset tx (mset xs)"
  using mset_order_evict [of "order_insert tx xs"] by (simp add: order_admit_def mset_order_insert)

definition heap_ok :: "prio_heap \<Rightarrow> bool" where
  "heap_ok h \<longleftrightarrow> heap_inv h \<and> 0 < ph_max h"

lemma heap_insert_queued:
  assumes "heap_ok h"
  shows "\<exists>h'. heap_insert h tx = Inr h' \<and> heap_ok h' \<and>
    mset (heap_order h') \<subseteq># add_mset tx (mset (heap_order h))"
  using insert_refines [of h tx] assms mset_order_admit unfolding heap_ok_def by fastforce

lemma heap_pop_queued:
  assumes "heap_ok h"
  shows "\<exists>h' r. heap_pop h = Inr (h', r) \<and> heap_ok h' \<and>
    mset (heap_order h) = mset (heap_order h') + mset_set {} + (case r of None \<Rightarrow> {#} | Some tx \<Rightarrow> {#tx#}) \<and>
    (r = None \<longrightarrow> heap_order h' = [])"
proof -
  obtain h' where h': "heap_pop h = Inr (h', case heap_order h of [] \<Rightarrow> None | t # _ \<Rightarrow> Some t)"
      "heap_inv h'" "heap_order h' = tl (heap_order h)" "ph_max h' = ph_max h"
    using pop_refines assms unfolding heap_ok_def by blast
  with assms show ?thesis unfolding heap_ok_def by (cases "heap_order h") auto
qed

lemma heap_expire_queued:
  assumes "heap_ok h"
  shows "heap_ok (fst (remove_expired_transactions h c))"
    and "mset (heap_order (fst (remove_expired_transactions h c))) \<subseteq># mset (heap_order h)"
  using expire_refines [of h c] assms unfolding heap_ok_def by (simp_all add: multiset_filter_subset)

lemma heap_clear_queued:
  "heap_ok h \<Longrightarrow> heap_ok (fst (heap_clear h)) \<and> heap_order (fst (heap_clear h)) = []"
  using clear_refines [of h] unfolding heap_ok_def by simp

lemmas queued_simps = filler_receive_def filler_notify_def filler_expire_def main_warm_def main_wake_def
  main_spawn_def main_clear_def exit_sent_def Let_def

lemma run_job_keeps:
  assumes "run_job tn j l = Inr l'"
  shows "li_heap l' = li_heap l" "li_notified l' = li_notified l" "li_main l' = li_main l"
    "li_filler l' = li_filler l"
  using assms by (auto simp: run_job_def Let_def split: prod.splits option.splits)

lemma filler_insert_keeps:
  assumes "filler_insert tx l = Inr l'" and "heap_ok (li_heap l)"
  shows "heap_ok (li_heap l')" "li_notified l' = li_notified l" "li_main l' = li_main l"
    "li_filler l' = Notifying" "mset (heap_order (li_heap l')) \<subseteq># add_mset tx (mset (heap_order (li_heap l)))"
    "li_pool l' = li_pool l" "li_jobs l' = li_jobs l"
  using assms heap_insert_queued [OF assms(2), of tx] by (auto simp: filler_insert_def)

lemma main_pop_cases:
  assumes "main_pop dc l = Inr l'" and "heap_ok (li_heap l)"
  obtains (idle) "li_main l' = Waiting" "heap_order (li_heap l') = []"
    | (skipped) tx where "li_main l' = li_main l" "is_transaction_confirmed (dc_txs dc) (st_signature tx)"
        "mset (heap_order (li_heap l)) = add_mset tx (mset (heap_order (li_heap l')))"
    | (taken) tx where "li_main l' = Acquiring tx" "\<not> is_transaction_confirmed (dc_txs dc) (st_signature tx)"
        "mset (heap_order (li_heap l)) = add_mset tx (mset (heap_order (li_heap l')))"
proof -
  obtain h r where h: "heap_pop (li_heap l) = Inr (h, r)" "heap_ok h"
      "mset (heap_order (li_heap l)) = mset (heap_order h) + mset_set {} + (case r of None \<Rightarrow> {#} | Some tx \<Rightarrow> {#tx#})"
      "r = None \<longrightarrow> heap_order h = []"
    using heap_pop_queued [OF assms(2)] by blast
  show ?thesis
  proof (cases r)
    case None
    with h assms(1) show ?thesis by (intro idle) (auto simp: main_pop_def)
  next
    case (Some tx)
    with h assms(1) show ?thesis
      by (cases "is_transaction_confirmed (dc_txs dc) (st_signature tx)")
        (auto simp: main_pop_def intro: skipped taken)
  qed
qed

lemma main_pop_keeps:
  assumes "main_pop dc l = Inr l'" and "heap_ok (li_heap l)"
  shows "heap_ok (li_heap l')" "li_notified l' = li_notified l" "li_filler l' = li_filler l"
    "li_pool l' = li_pool l" "li_jobs l' = li_jobs l"
proof -
  obtain h r where h: "heap_pop (li_heap l) = Inr (h, r)" "heap_ok h"
    using heap_pop_queued [OF assms(2)] by blast
  with assms(1) have l': "l' = l\<lparr>li_heap := h, li_main := li_main l'\<rparr>"
    by (auto simp: main_pop_def split: option.splits if_splits)
  show "heap_ok (li_heap l')" using h(2) by (subst l') simp
  show "li_notified l' = li_notified l" "li_filler l' = li_filler l" "li_pool l' = li_pool l" "li_jobs l' = li_jobs l"
    by (subst l', simp)+
qed

lemma listener_step_heap_ok: "listener_step l b l' \<Longrightarrow> heap_ok (li_heap l) \<Longrightarrow> heap_ok (li_heap l')"
proof (induction rule: listener_step.induct)
  case (insert_tx l tx l')
  then show ?case using filler_insert_keeps(1) by blast
next
  case (pop l dc l')
  then show ?case using main_pop_keeps(1) by blast
next
  case (job j l tn l')
  then show ?case using run_job_keeps(1) by metis
qed (simp_all add: queued_simps heap_expire_queued heap_clear_queued)

text \<open>No wakeup is lost.\<close>

definition wakes :: "listener \<Rightarrow> bool" where
  "wakes l \<longleftrightarrow> (heap_order (li_heap l) \<noteq> [] \<and> li_main l \<in> {Warming, Waiting} \<longrightarrow>
     li_notified l \<or> li_filler l = Notifying)"

lemma mset_subset_Nil: "mset xs \<subseteq># mset ys \<Longrightarrow> ys = [] \<Longrightarrow> xs = []"
  by simp

lemma listener_step_wakes: "listener_step l b l' \<Longrightarrow> heap_ok (li_heap l) \<Longrightarrow> wakes l \<Longrightarrow> wakes l'"
proof (induction rule: listener_step.induct)
  case (expire l)
  then show ?case
    using mset_subset_Nil [OF heap_expire_queued(2)] by (auto simp: wakes_def queued_simps)
next
  case (pop l dc l')
  from pop(2,3) show ?case
    by (cases rule: main_pop_cases) (auto simp: wakes_def pop(1))
next
  case (insert_tx l tx l')
  then show ?case using filler_insert_keeps(4) by (auto simp: wakes_def)
next
  case (job j l tn l')
  then show ?case by (simp add: wakes_def run_job_keeps [OF job(2)])
qed (auto simp: wakes_def queued_simps)

text \<open>Every spawned transaction was accepted from the channel, once for each time it is sent.\<close>

fun accepted_of :: "listener_label \<Rightarrow> sent_transaction_info option" where
  "accepted_of (Accepted tx) = Some tx"
| "accepted_of _ = None"

fun spawned_of :: "listener_label \<Rightarrow> sent_transaction_info option" where
  "spawned_of (Spawning tx) = Some tx"
| "spawned_of _ = None"

definition accepted_txs :: "listener_label list \<Rightarrow> sent_transaction_info multiset" where
  "accepted_txs ls = mset (List.map_filter accepted_of ls)"

definition spawned_txs :: "listener_label list \<Rightarrow> sent_transaction_info multiset" where
  "spawned_txs ls = mset (List.map_filter spawned_of ls)"

fun inserting_of :: "filler_pc \<Rightarrow> sent_transaction_info multiset" where
  "inserting_of (Inserting tx) = {#tx#}"
| "inserting_of _ = {#}"

fun acquiring_of :: "main_pc \<Rightarrow> sent_transaction_info multiset" where
  "acquiring_of (Acquiring tx) = {#tx#}"
| "acquiring_of _ = {#}"

definition in_listener :: "listener \<Rightarrow> sent_transaction_info multiset" where
  "in_listener l = mset (heap_order (li_heap l)) + inserting_of (li_filler l) + acquiring_of (li_main l)"

lemma labels_snoc [simp]:
  "accepted_txs (ls @ [b]) = accepted_txs ls + (case accepted_of b of None \<Rightarrow> {#} | Some tx \<Rightarrow> {#tx#})"
  "spawned_txs (ls @ [b]) = spawned_txs ls + (case spawned_of b of None \<Rightarrow> {#} | Some tx \<Rightarrow> {#tx#})"
  by (simp_all add: accepted_txs_def spawned_txs_def map_filter_snoc_one split: option.split)

lemma listener_step_accounted:
  assumes "listener_step l b l'" and "heap_ok (li_heap l)"
  shows "(case spawned_of b of None \<Rightarrow> {#} | Some tx \<Rightarrow> {#tx#}) + in_listener l' \<subseteq>#
    in_listener l + (case accepted_of b of None \<Rightarrow> {#} | Some tx \<Rightarrow> {#tx#})"
  using assms
proof (induction rule: listener_step.induct)
  case (insert_tx l tx l')
  then show ?case
    using filler_insert_keeps [OF insert_tx(2)] by (auto simp: in_listener_def ac_simps)
next
  case (expire l)
  then show ?case
    using heap_expire_queued(2) [of "li_heap l" "li_current_blockheight l"]
    by (simp add: in_listener_def queued_simps)
next
  case (pop l dc l')
  from pop(2,3) show ?case
    by (cases rule: main_pop_cases) (auto simp: in_listener_def pop(1) main_pop_keeps [OF pop(2,3)])
next
  case (clear l)
  then show ?case using heap_clear_queued by (simp add: in_listener_def queued_simps)
next
  case (job j l tn l')
  then show ?case by (simp add: in_listener_def run_job_keeps [OF job(2)])
qed (auto simp: in_listener_def queued_simps)

section \<open>Permits and spawned tasks\<close>

fun job_lock_ok :: "quic_connection \<Rightarrow> job \<Rightarrow> bool" where
  "job_lock_ok qc (Warmup None) \<longleftrightarrow> True"
| "job_lock_ok qc (Warmup (Some g)) \<longleftrightarrow> lock_ok qc (Locking 0 g)"
| "job_lock_ok qc (Transmit tx pc) \<longleftrightarrow> lock_ok qc pc"

fun job_rank :: "job \<Rightarrow> nat" where
  "job_rank (Warmup None) = 2"
| "job_rank (Warmup (Some g)) = 1"
| "job_rank (Transmit tx pc) = Suc (rank pc)"

definition jobs_on :: "nat \<Rightarrow> listener \<Rightarrow> nat" where
  "jobs_on i l = length (filter (\<lambda>(k, _). k = i) (li_jobs l))"

definition job_work :: "listener \<Rightarrow> nat" where
  "job_work l = sum_list (List.map (\<lambda>(_, jb). job_rank jb) (li_jobs l))"

definition pool_ok :: "nat \<Rightarrow> nat \<Rightarrow> listener \<Rightarrow> bool" where
  "pool_ok n m l \<longleftrightarrow>
     length (pl_connections (li_pool l)) = n \<and> length (pl_available (li_pool l)) = n \<and>
     (\<forall>i < n. pl_available (li_pool l) ! i + jobs_on i l = m) \<and>
     (\<forall>(i, jb) \<in> set (li_jobs l). i < n \<and> job_lock_ok (pl_connections (li_pool l) ! i) jb)"

lemma pool_okI:
  assumes "length (pl_connections (li_pool l)) = n" and "length (pl_available (li_pool l)) = n"
    and "\<And>k. k < n \<Longrightarrow> pl_available (li_pool l) ! k + jobs_on k l = m"
    and "\<And>k jb. (k, jb) \<in> set (li_jobs l) \<Longrightarrow> k < n \<and> job_lock_ok (pl_connections (li_pool l) ! k) jb"
  shows "pool_ok n m l"
  using assms by (auto simp: pool_ok_def)

lemma preferred_index_sound:
  "preferred_index closed threshold k cs = Some i \<Longrightarrow> k \<le> i \<and> i - k < length cs \<and> 0 < snd (cs ! (i - k))"
proof (induction closed threshold k cs rule: preferred_index.induct)
  case (2 closed threshold index connection available_permits cs)
  show ?case
  proof (cases "i = index")
    case True
    with 2 show ?thesis by (auto split: if_splits)
  next
    case False
    with 2 have i: "Suc index \<le> i" "i - Suc index < length cs" "0 < snd (cs ! (i - Suc index))"
      by (auto split: if_splits)
    then have "i - index = Suc (i - Suc index)" by simp
    with i show ?thesis by simp
  qed
qed simp

lemma permit_choices:
  assumes "get_permit_and_index closed p = Inr choices" and "i \<in> set choices"
    and "length (pl_connections p) = length (pl_available p)"
  shows "i < length (pl_available p)" "0 < pl_available p ! i"
  using assms preferred_index_sound [of closed "pl_threshold p" 0 "zip (pl_connections p) (pl_available p)"]
  by (auto simp: get_permit_and_index_def split: option.splits if_splits)

lemma lock_ok_job_mono:
  "job_lock_ok qc jb \<Longrightarrow> qc_connection qc \<noteq> None \<longrightarrow> qc_connection qc' \<noteq> None \<Longrightarrow> job_lock_ok qc' jb"
  by (cases "(qc, jb)" rule: job_lock_ok.cases) (auto intro: lock_ok_mono)

lemma job_step_facts:
  assumes "job_step tn jb qc = Inr (qc', r)"
  shows "qc_connection qc \<noteq> None \<longrightarrow> qc_connection qc' \<noteq> None"
    and "case r of None \<Rightarrow> True | Some jb' \<Rightarrow> job_lock_ok qc' jb' \<and> job_rank jb' < job_rank jb"
proof -
  have "(qc_connection qc \<noteq> None \<longrightarrow> qc_connection qc' \<noteq> None) \<and>
    (case r of None \<Rightarrow> True | Some jb' \<Rightarrow> job_lock_ok qc' jb' \<and> job_rank jb' < job_rank jb)"
  proof (cases "(tn, jb, qc)" rule: job_step.cases)
    case (1 tn qc)
    with assms show ?thesis by (auto simp: get_start_def split: option.splits if_splits)
  next
    case (2 tn g qc)
    with assms show ?thesis using get_locked_connection(1) by fastforce
  next
    case (3 tn tx pc qc)
    with assms show ?thesis
      using send_step_connection(1) [of tn pc qc] send_step_lock_ok [of tn pc qc] send_step_rank [of tn pc qc]
      by (auto split: if_splits)
  qed
  then show "qc_connection qc \<noteq> None \<longrightarrow> qc_connection qc' \<noteq> None"
    and "case r of None \<Rightarrow> True | Some jb' \<Rightarrow> job_lock_ok qc' jb' \<and> job_rank jb' < job_rank jb"
    by blast+
qed

lemma job_step_total: "job_lock_ok qc jb \<Longrightarrow> \<exists>qc' r. job_step tn jb qc = Inr (qc', r)"
  using get_locked_total send_step_total
  by (cases "(tn, jb, qc)" rule: job_step.cases) fastforce+

lemma pool_ok_take:
  assumes "pool_ok n m l" and "i < n" and "0 < pl_available (li_pool l) ! i"
    and "job_lock_ok (pl_connections (li_pool l) ! i) jb"
    and "li_pool l' = take_permit i (li_pool l)" and "li_jobs l' = li_jobs l @ [(i, jb)]"
  shows "pool_ok n m l'"
proof -
  have c: "pl_connections (li_pool l') = pl_connections (li_pool l)"
    and a: "pl_available (li_pool l') = (pl_available (li_pool l))[i := pl_available (li_pool l) ! i - 1]"
    using assms(5) by (simp_all add: take_permit_def)
  have "pl_available (li_pool l') ! k + jobs_on k l' = m" if "k < n" for k
  proof -
    have "pl_available (li_pool l) ! k + jobs_on k l = m" using assms(1) that by (simp add: pool_ok_def)
    then show ?thesis
      using assms(1-3) that by (cases "k = i") (auto simp: a jobs_on_def assms(6) pool_ok_def)
  qed
  with assms(1,2,4) show ?thesis by (auto simp: pool_ok_def c a assms(6))
qed

lemma jobs_on_split:
  assumes "j < length (li_jobs l)"
  shows "jobs_on k l = (if fst (li_jobs l ! j) = k then 1 else 0) +
    length (filter (\<lambda>(k', _). k' = k) (take j (li_jobs l) @ drop (Suc j) (li_jobs l)))"
proof -
  have "li_jobs l = take j (li_jobs l) @ li_jobs l ! j # drop (Suc j) (li_jobs l)"
    using assms by (simp add: id_take_nth_drop)
  then have "filter (\<lambda>(k', _). k' = k) (li_jobs l) =
      filter (\<lambda>(k', _). k' = k) (take j (li_jobs l) @ li_jobs l ! j # drop (Suc j) (li_jobs l))" by simp
  then show ?thesis by (simp add: jobs_on_def split_def)
qed

lemma pool_ok_job:
  assumes "pool_ok n m l" and "j < length (li_jobs l)" and run: "run_job tn j l = Inr l'"
  shows "pool_ok n m l' \<and> job_work l' < job_work l"
proof -
  obtain i jb where ij: "li_jobs l ! j = (i, jb)" by (cases "li_jobs l ! j")
  have "(i, jb) \<in> set (li_jobs l)" using assms(2) ij by (metis nth_mem)
  then have i: "i < n" using assms(1) by (auto simp: pool_ok_def)
  obtain qc r where step: "job_step tn jb (pl_connections (li_pool l) ! i) = Inr (qc, r)"
      and l': "l' = (case r of
        Some jb' \<Rightarrow> l\<lparr>li_pool := set_connection i qc (li_pool l), li_jobs := (li_jobs l)[j := (i, jb')]\<rparr>
      | None \<Rightarrow> l\<lparr>li_pool := release_permit i (set_connection i qc (li_pool l)),
                  li_jobs := take j (li_jobs l) @ drop (Suc j) (li_jobs l)\<rparr>)"
    using run by (auto simp: run_job_def ij Let_def)
  note facts = job_step_facts [OF step]
  let ?rest = "take j (li_jobs l) @ drop (Suc j) (li_jobs l)"
  have jobs: "li_jobs l = take j (li_jobs l) @ (i, jb) # drop (Suc j) (li_jobs l)"
    using assms(2) ij by (metis id_take_nth_drop)
  have upd: "(li_jobs l)[j := e] = take j (li_jobs l) @ e # drop (Suc j) (li_jobs l)" for e
    using assms(2) by (simp add: upd_conv_take_nth_drop)
  have "set ?rest \<subseteq> set (li_jobs l)" by (auto dest: in_set_takeD in_set_dropD)
  then have locks: "k < n \<and> job_lock_ok ((pl_connections (li_pool l))[i := qc] ! k) b" if "(k, b) \<in> set ?rest" for k b
  proof -
    have kb: "k < n" "job_lock_ok (pl_connections (li_pool l) ! k) b" "n = length (pl_connections (li_pool l))"
      using assms(1) that \<open>set ?rest \<subseteq> set (li_jobs l)\<close> by (auto simp: pool_ok_def)
    with lock_ok_job_mono [OF _ facts(1), of b] show ?thesis by (cases "k = i") simp_all
  qed
  have count: "pl_available (li_pool l) ! k + (if i = k then 1 else 0) +
      length (filter (\<lambda>(k', _). k' = k) ?rest) = m" if "k < n" for k
  proof -
    have "pl_available (li_pool l) ! k + jobs_on k l = m" using assms(1) that by (simp add: pool_ok_def)
    then show ?thesis using jobs_on_split [OF assms(2), of k] by (simp add: ij)
  qed
  have work: "job_work l = sum_list (List.map (\<lambda>(_, b). job_rank b) ?rest) + job_rank jb"
    unfolding job_work_def by (subst jobs) simp
  have jobs_rank: "0 < job_rank jb" by (cases jb rule: job_rank.cases) auto
  show ?thesis
  proof (cases r)
    case None
    have len: "length (pl_connections (li_pool l)) = n" "length (pl_available (li_pool l)) = n"
      using assms(1) by (simp_all add: pool_ok_def)
    have l1: "pl_connections (li_pool l') = (pl_connections (li_pool l))[i := qc]"
        "pl_available (li_pool l') = (pl_available (li_pool l))[i := pl_available (li_pool l) ! i + 1]"
        "li_jobs l' = ?rest"
      unfolding l' None by (simp_all add: release_permit_def set_connection_def)
    have "pool_ok n m l'"
    proof (rule pool_okI)
      fix k assume "k < n"
      from count [OF this] show "pl_available (li_pool l') ! k + jobs_on k l' = m"
        using len i by (cases "i = k") (simp_all add: l1 jobs_on_def)
    qed (use len locks l1 in simp_all)
    moreover have "job_work l' < job_work l"
      using work jobs_rank unfolding l' None job_work_def by simp
    ultimately show ?thesis by blast
  next
    case (Some jb')
    with facts(2) have f: "job_lock_ok qc jb'" "job_rank jb' < job_rank jb" by simp_all
    have len: "length (pl_connections (li_pool l)) = n" "length (pl_available (li_pool l)) = n"
      using assms(1) by (simp_all add: pool_ok_def)
    have l1: "pl_connections (li_pool l') = (pl_connections (li_pool l))[i := qc]"
        "pl_available (li_pool l') = pl_available (li_pool l)"
        "li_jobs l' = take j (li_jobs l) @ (i, jb') # drop (Suc j) (li_jobs l)"
      unfolding l' Some by (simp_all add: set_connection_def upd)
    have "pool_ok n m l'"
    proof (rule pool_okI)
      fix k assume "k < n"
      from count [OF this] show "pl_available (li_pool l') ! k + jobs_on k l' = m"
        by (cases "i = k") (simp_all add: l1 jobs_on_def)
    next
      fix k b assume "(k, b) \<in> set (li_jobs l')"
      then consider "(k, b) \<in> set ?rest" | "k = i" "b = jb'" by (auto simp: l1)
      then show "k < n \<and> job_lock_ok (pl_connections (li_pool l') ! k) b"
        using locks i f(1) len by cases (simp_all add: l1)
    qed (use len l1 in simp_all)
    moreover have "job_work l' < job_work l"
      using work f(2) unfolding l' Some job_work_def by (simp add: upd)
    ultimately show ?thesis by blast
  qed
qed

lemma listener_step_pool_ok:
  assumes "listener_step l b l'" and "heap_ok (li_heap l)" and "pool_ok n m l"
  shows "pool_ok n m l'"
  using assms
proof (induction rule: listener_step.induct)
  case (insert_tx l tx l')
  then show ?case by (simp add: pool_ok_def jobs_on_def filler_insert_keeps [OF insert_tx(2,3)])
next
  case (pop l dc l')
  then show ?case by (simp add: pool_ok_def jobs_on_def main_pop_keeps [OF pop(2,3)])
next
  case (warm l closed choices i)
  then show ?case
    using permit_choices [OF warm(2,3)]
    by (intro pool_ok_take [OF warm(5), of i "Warmup None"]) (auto simp: main_warm_def pool_ok_def)
next
  case (spawn l tx closed choices i)
  then show ?case
    using permit_choices [OF spawn(2,3)]
    by (intro pool_ok_take [OF spawn(5), of i "Transmit tx (send_start (pl_connections (li_pool l) ! i))"])
      (auto simp: main_spawn_def pool_ok_def send_start_def)
next
  case (job j l tn l')
  then show ?case using pool_ok_job by blast
qed (auto simp: pool_ok_def jobs_on_def queued_simps)

section \<open>Runs from the start\<close>

lemma create_connections_facts:
  "create_connections identity addr params n eps = Inr (eps', cs) \<Longrightarrow> length cs = n"
  by (induction n arbitrary: eps eps' cs) (auto split: option.splits prod.splits)

definition heap_capacity :: "quic_connection_parameters \<Rightarrow> nat \<Rightarrow> nat" where
  "heap_capacity params m = unwrap_or (qp_prioritization_heap_size params) (2 * m)"

lemma listener_new_facts:
  assumes "listener_new m identity eps addr params dc = Inr (eps', l)"
  shows "pool_ok (qp_max_number_of_connections params) m l" "wakes l" "in_listener l = {#}"
    "0 < heap_capacity params m \<Longrightarrow> heap_ok (li_heap l)"
  using assms
  by (auto simp: create_connections_facts listener_new_def quic_pool_new_def pool_ok_def jobs_on_def wakes_def in_listener_def
      heap_capacity_def heap_ok_def heap_new_inv)

lemma listener_run_facts:
  assumes "listener_run l0 ls l" and "heap_ok (li_heap l0)" and "pool_ok n m l0" and "wakes l0"
    and "in_listener l0 = {#}"
  shows "heap_ok (li_heap l) \<and> pool_ok n m l \<and> wakes l \<and> spawned_txs ls + in_listener l \<subseteq># accepted_txs ls"
  using assms(1)
proof (induction rule: listener_run.induct)
  case listener_refl
  with assms show ?case by (simp add: spawned_txs_def accepted_txs_def)
next
  case (listener_snoc ls l1 b l2)
  let ?s = "case spawned_of b of None \<Rightarrow> {#} | Some tx \<Rightarrow> {#tx#}"
  let ?a = "case accepted_of b of None \<Rightarrow> {#} | Some tx \<Rightarrow> {#tx#}"
  have h: "heap_ok (li_heap l1)" using listener_snoc.IH by blast
  have "spawned_txs ls + (?s + in_listener l2) \<subseteq># spawned_txs ls + (in_listener l1 + ?a)"
    using listener_step_accounted [OF listener_snoc.hyps(2) h] by simp
  also have "\<dots> \<subseteq># accepted_txs ls + ?a"
    using listener_snoc.IH by (metis add.assoc subset_mset.add_right_mono)
  finally have "spawned_txs (ls @ [b]) + in_listener l2 \<subseteq># accepted_txs (ls @ [b])"
    by (simp add: ac_simps)
  with listener_snoc.IH listener_step_heap_ok [OF listener_snoc.hyps(2) h]
    listener_step_wakes [OF listener_snoc.hyps(2) h] listener_step_pool_ok [OF listener_snoc.hyps(2) h]
  show ?case by blast
qed

lemma listener_reachable:
  assumes "listener_new m identity eps addr params dc = Inr (eps', l0)" and "listener_run l0 ls l"
    and "0 < heap_capacity params m"
  shows "pool_ok (qp_max_number_of_connections params) m l" and "wakes l"
    and "spawned_txs ls + in_listener l \<subseteq># accepted_txs ls"
  using listener_run_facts [OF assms(2) listener_new_facts(4) [OF assms(1,3)] listener_new_facts(1-3) [OF assms(1)]]
  by blast+

lemma count_by_index:
  "\<forall>e \<in> set (js :: (nat \<times> 'a) list). fst e < n \<Longrightarrow> length js = (\<Sum>k<n. length (filter (\<lambda>(k', _). k' = k) js))"
proof (induction js)
  case (Cons e es)
  have "(\<Sum>k<n. length (filter (\<lambda>(k', _). k' = k) (e # es))) =
      (\<Sum>k<n. (if k = fst e then 1 else 0) + length (filter (\<lambda>(k', _). k' = k) es))"
    by (rule sum.cong) (auto simp: split_def)
  also have "\<dots> = (\<Sum>k<n. if k = fst e then 1 else 0) + length es" using Cons by (simp add: sum.distrib)
  also have "(\<Sum>k<n. if k = fst e then 1 else 0) = (1 :: nat)" using Cons.prems by (subst sum.delta) auto
  finally show ?case by simp
qed simp

lemma jobs_total: "pool_ok n m l \<Longrightarrow> length (li_jobs l) = (\<Sum>i<n. jobs_on i l)"
  unfolding jobs_on_def by (rule count_by_index) (auto simp: pool_ok_def)

section \<open>Playing a schedule\<close>

datatype move =
    Receive data_cache sent_transaction_info
  | Fill data_cache
  | Main data_cache
  | Job turn nat

definition first_choice :: "nat list outcome \<Rightarrow> nat option" where
  "first_choice r = (case r of Inr (i # _) \<Rightarrow> Some i | _ \<Rightarrow> None)"

fun apply_move :: "(connection \<Rightarrow> bool) \<Rightarrow> move \<Rightarrow> listener \<Rightarrow> (listener_label \<times> listener) option" where
  "apply_move closed (Receive dc tx) l =
     (case li_filler l of
        Receiving \<Rightarrow> Some (if check_if_confirmed_or_expired_blockheight dc tx then SkippedDone tx else Accepted tx,
                          filler_receive dc tx l)
      | _ \<Rightarrow> None)"
| "apply_move closed (Fill dc) l =
     (case li_filler l of
        Inserting tx \<Rightarrow> (case filler_insert tx l of Inr l' \<Rightarrow> Some (OtherStep, l') | Inl _ \<Rightarrow> None)
      | Notifying \<Rightarrow> Some (OtherStep, filler_notify dc l)
      | Sleeping \<Rightarrow> Some (OtherStep, filler_expire l)
      | _ \<Rightarrow> None)"
| "apply_move closed (Main dc) l =
     (case li_main l of
        Warming \<Rightarrow> (case first_choice (get_permit_and_index closed (li_pool l)) of
                     Some i \<Rightarrow> Some (OtherStep, main_warm i l) | None \<Rightarrow> None)
      | Waiting \<Rightarrow> if li_notified l then Some (OtherStep, main_wake l) else None
      | Processing \<Rightarrow> (case main_pop dc l of Inr l' \<Rightarrow> Some (OtherStep, l') | Inl _ \<Rightarrow> None)
      | Acquiring tx \<Rightarrow> (case first_choice (get_permit_and_index closed (li_pool l)) of
                     Some i \<Rightarrow> Some (Spawning tx, main_spawn i tx l) | None \<Rightarrow> None)
      | _ \<Rightarrow> None)"
| "apply_move closed (Job tn j) l =
     (if j < length (li_jobs l) then
        (case run_job tn j l of Inr l' \<Rightarrow> Some (OtherStep, l') | Inl _ \<Rightarrow> None)
      else None)"

lemma first_choice_mem: "first_choice r = Some i \<Longrightarrow> \<exists>choices. r = Inr choices \<and> i \<in> set choices"
  by (auto simp: first_choice_def split: sum.splits list.splits)

lemma apply_move_step: "apply_move closed mv l = Some (b, l') \<Longrightarrow> listener_step l b l'"
proof (cases mv)
  case (Receive dc tx)
  assume "apply_move closed mv l = Some (b, l')"
  with Receive show ?thesis by (auto split: filler_pc.splits intro: listener_step.receive [of l dc tx, simplified])
next
  case (Fill dc)
  assume "apply_move closed mv l = Some (b, l')"
  with Fill show ?thesis
    by (auto split: filler_pc.splits sum.splits intro: listener_step.intros)
next
  case (Main dc)
  assume a: "apply_move closed mv l = Some (b, l')"
  show ?thesis
  proof (cases "li_main l")
    case Warming
    with a Main obtain i where "first_choice (get_permit_and_index closed (li_pool l)) = Some i"
        "b = OtherStep" "l' = main_warm i l" by (auto split: option.splits)
    with Warming first_choice_mem listener_step.warm show ?thesis by blast
  next
    case (Acquiring tx)
    with a Main obtain i where "first_choice (get_permit_and_index closed (li_pool l)) = Some i"
        "b = Spawning tx" "l' = main_spawn i tx l" by (auto split: option.splits)
    with Acquiring first_choice_mem listener_step.spawn show ?thesis by blast
  next
    case Waiting
    with a Main show ?thesis by (auto split: if_splits intro: listener_step.wake)
  next
    case Processing
    with a Main show ?thesis by (auto split: sum.splits intro: listener_step.pop)
  qed (use a Main in simp_all)
next
  case (Job tn j)
  assume "apply_move closed mv l = Some (b, l')"
  with Job show ?thesis by (auto split: if_splits sum.splits intro: listener_step.intros)
qed

fun listener_play :: "(connection \<Rightarrow> bool) \<Rightarrow> listener \<Rightarrow> listener_label list \<Rightarrow> move list \<Rightarrow> listener_label list \<times> listener" where
  "listener_play closed l ls [] = (ls, l)"
| "listener_play closed l ls (mv # mvs) =
     (case apply_move closed mv l of
        Some (b, l') \<Rightarrow> listener_play closed l' (ls @ [b]) mvs
      | None \<Rightarrow> (ls, l))"

lemma listener_play_run:
  "listener_run l0 ls l \<Longrightarrow> listener_play closed l ls mvs = (ls', l') \<Longrightarrow> listener_run l0 ls' l'"
proof (induction closed l ls mvs rule: listener_play.induct)
  case (2 closed l ls mv mvs)
  show ?case
  proof (cases "apply_move closed mv l")
    case None
    with 2 show ?thesis by simp
  next
    case (Some r)
    obtain b l1 where r: "r = (b, l1)" by (cases r)
    have "listener_step l b l1" using apply_move_step [of closed mv l b l1] Some r by simp
    with 2(2) have run: "listener_run l0 (ls @ [b]) l1" by (rule listener_snoc)
    have "listener_play closed l1 (ls @ [b]) mvs = (ls', l')"
      using 2(3) by (simp only: listener_play.simps Some r option.case prod.case)
    then show ?thesis by (rule 2(1) [OF Some r [symmetric] run])
  qed
qed simp

text \<open>One leader, one connection with a single stream: the transaction waits for the permit of the
  task that establishes the connection and is then sent.\<close>

definition listener_parameters :: quic_connection_parameters where
  "listener_parameters =
     \<lparr>qp_connection_timeout = 50, qp_unistream_timeout = 20, qp_write_timeout = 20,
      qp_finalize_timeout = 20, qp_connection_retry_count = 3, qp_max_number_of_connections = 1,
      qp_number_of_transactions_per_unistream = 1, qp_unistreams_percentage = 10,
      qp_prioritization_heap_size = Some 2\<rparr>"

definition sample_listener :: "(endpoint rotating_queue \<times> listener) outcome" where
  "sample_listener = listener_new 1 7 (rotating_queue_new 1 (\<lambda>i. i)) (1, 9) listener_parameters sample_cache"

definition listener_moves :: "move list" where
  "listener_moves =
     (let good = sample_turn_on 8 (Some (Inr (), 1))
      in [Receive sample_cache (sample_sent 77), Main sample_cache, Fill sample_cache, Fill sample_cache,
          Main sample_cache, Main sample_cache, Job good 0, Job good 0, Main sample_cache, Job good 0])"

lemma sample_listener_played:
  "case sample_listener of Inl _ \<Rightarrow> False | Inr (eps, l0) \<Rightarrow>
     (case listener_play (\<lambda>_. False) l0 [] listener_moves of (ls, l) \<Rightarrow>
        List.map_filter accepted_of ls = [sample_sent 77] \<and> List.map_filter spawned_of ls = [sample_sent 77] \<and>
        pl_available (li_pool l) = [0] \<and> length (li_jobs l) = 1)"
  by code_simp

lemma sample_listener_run:
  obtains eps l0 ls l where "sample_listener = Inr (eps, l0)" and "listener_run l0 ls l"
    and "List.map_filter accepted_of ls = [sample_sent 77]" and "List.map_filter spawned_of ls = [sample_sent 77]"
    and "pl_available (li_pool l) = [0]" and "length (li_jobs l) = 1"
proof -
  have "\<exists>r. sample_listener = Inr r"
  proof (cases sample_listener)
    case (Inl p)
    from sample_listener_played show ?thesis unfolding Inl by simp
  qed blast
  then obtain r where r: "sample_listener = Inr r" by blast
  obtain eps l0 where l0: "r = (eps, l0)" by (cases r)
  obtain ls l where p: "listener_play (\<lambda>_. False) l0 [] listener_moves = (ls, l)"
    by (cases "listener_play (\<lambda>_. False) l0 [] listener_moves")
  have "listener_run l0 ls l" by (rule listener_play_run [OF listener_refl p])
  then show ?thesis using sample_listener_played that [of eps l0 ls l] by (simp add: r l0 p)
qed

section \<open>Properties\<close>



text \<open>C15: The semaphores of the pool bound the open streams: the free permits of a connection and the
  tasks spawned on it always add up to the allowed number of streams, so no connection carries
  more, and all connections together at most their number times that.\<close>

theorem streams_bounded:
  assumes "listener_new m identity eps addr params dc = Inr (eps', l0)" and "listener_run l0 ls l"
    and "0 < heap_capacity params m"
  shows "(\<forall>i < qp_max_number_of_connections params. pl_available (li_pool l) ! i + jobs_on i l = m) \<and>
    length (li_jobs l) \<le> qp_max_number_of_connections params * m"
proof -
  have p: "pool_ok (qp_max_number_of_connections params) m l" by (rule listener_reachable(1) [OF assms])
  then have each: "\<forall>i < qp_max_number_of_connections params. pl_available (li_pool l) ! i + jobs_on i l = m"
    by (simp add: pool_ok_def)
  have "length (li_jobs l) \<le> (\<Sum>i<qp_max_number_of_connections params. m)"
    unfolding jobs_total [OF p] by (rule sum_mono) (use each in fastforce)
  with each show ?thesis by simp
qed

lemma streams_bounded_witness:
  "\<exists>l. length (li_jobs l) = 1 \<and> pl_available (li_pool l) = [0] \<and> pl_available (li_pool l) ! 0 + jobs_on 0 l = 1"
proof -
  obtain eps l0 ls l where s: "sample_listener = Inr (eps, l0)" "listener_run l0 ls l"
      "pl_available (li_pool l) = [0]" "length (li_jobs l) = 1"
    by (rule sample_listener_run)
  have "0 < heap_capacity listener_parameters 1" "qp_max_number_of_connections listener_parameters = 1"
    by (simp_all add: heap_capacity_def listener_parameters_def)
  with streams_bounded [OF s(1) [unfolded sample_listener_def] s(2)] s(3,4) show ?thesis by fastforce
qed

text \<open>C5: No wakeup is lost and nothing is stuck: when transactions are queued while the main loop waits, it
  has been notified or the other task is about to notify it; when the main loop needs a connection,
  it gets one or there are spawned tasks still to end; and each spawned task can always go on, and
  gets closer to its end with every step.\<close>

theorem queued_transactions_progress:
  assumes "listener_new m identity eps addr params dc = Inr (eps', l0)" and "listener_run l0 ls l"
    and "0 < heap_capacity params m" and "0 < m" and "0 < qp_max_number_of_connections params"
  shows "(heap_order (li_heap l) \<noteq> [] \<and> li_main l = Waiting \<longrightarrow> li_notified l \<or> li_filler l = Notifying) \<and>
    (\<forall>closed. \<exists>choices. get_permit_and_index closed (li_pool l) = Inr choices \<and>
       (choices \<noteq> [] \<or> li_jobs l \<noteq> [])) \<and>
    (\<forall>tn j. j < length (li_jobs l) \<longrightarrow> (\<exists>l'. run_job tn j l = Inr l' \<and> job_work l' < job_work l))"
proof -
  let ?n = "qp_max_number_of_connections params"
  note facts = listener_reachable(1,2) [OF assms(1-3)]
  have len: "length (pl_available (li_pool l)) = ?n" using facts(1) by (simp add: pool_ok_def)
  have acquire: "\<exists>choices. get_permit_and_index closed (li_pool l) = Inr choices \<and> (choices \<noteq> [] \<or> li_jobs l \<noteq> [])"
    for closed
  proof (cases "li_jobs l = []")
    case True
    then have "pl_available (li_pool l) ! 0 = m" using facts(1) assms(5) by (simp add: pool_ok_def jobs_on_def)
    then have "0 \<in> set (filter (\<lambda>i. 0 < pl_available (li_pool l) ! i) [0 ..< ?n])" using assms(4,5) by simp
    then have "filter (\<lambda>i. 0 < pl_available (li_pool l) ! i) [0 ..< ?n] \<noteq> []" by force
    then show ?thesis using len assms(5) by (auto simp: get_permit_and_index_def split: option.split)
  next
    case False
    then show ?thesis using len assms(5) by (auto simp: get_permit_and_index_def split: option.split)
  qed
  have run: "\<exists>l'. run_job tn j l = Inr l' \<and> job_work l' < job_work l" if j: "j < length (li_jobs l)" for tn j
  proof -
    obtain i jb where ij: "li_jobs l ! j = (i, jb)" by (cases "li_jobs l ! j")
    then have "job_lock_ok (pl_connections (li_pool l) ! i) jb"
      using facts(1) j nth_mem [OF j] by (auto simp: pool_ok_def)
    then obtain qc r where "job_step tn jb (pl_connections (li_pool l) ! i) = Inr (qc, r)"
      using job_step_total by blast
    then have "\<exists>l'. run_job tn j l = Inr l'" by (simp add: run_job_def ij Let_def)
    with pool_ok_job [OF facts(1) j] show ?thesis by blast
  qed
  from facts(2) acquire run show ?thesis by (simp add: wakes_def)
qed

lemma queued_transactions_progress_witness:
  "\<exists>l tn l'. length (li_jobs l) = 1 \<and> run_job tn 0 l = Inr l' \<and> job_work l' < job_work l"
proof -
  obtain eps l0 ls l where s: "sample_listener = Inr (eps, l0)" "listener_run l0 ls l" "length (li_jobs l) = 1"
    by (rule sample_listener_run)
  have "0 < heap_capacity listener_parameters 1" "0 < qp_max_number_of_connections listener_parameters"
    by (simp_all add: heap_capacity_def listener_parameters_def)
  with queued_transactions_progress [OF s(1) [unfolded sample_listener_def] s(2)]
  have "\<forall>tn j. j < length (li_jobs l) \<longrightarrow> (\<exists>l'. run_job tn j l = Inr l' \<and> job_work l' < job_work l)" by simp
  with s(3) show ?thesis by (metis less_one)
qed

end
