(* ===== verification/Leaders_Getter.thy ===== *)
theory Leaders_Getter
  imports Leader_Lookup
begin

text \<open>
  The two implementations of \<open>core/src/traits/leaders_fetcher_interface.rs\<close>:
  \<open>cluster-endpoints/src/grpc_leaders_getter.rs\<close>, which reads the leader schedule the service
  computed, and \<open>json_rpc_leaders_getter.rs\<close>, which keeps a queue of leaders fetched from an RPC
  node.  The interface is the locale \<open>leader_fetcher\<close>, interpreted on both.
\<close>

section \<open>The interface\<close>

record leader_data =
  ld_leader_slot :: slot
  ld_pubkey :: pubkey

datatype leaders_error =
    InvalidArguments
  | NoLeaders slot_leaders_error
  | FetchFailed string

locale leader_fetcher =
  fixes fetch :: "'s \<Rightarrow> slot \<Rightarrow> slot \<Rightarrow> ('s \<times> (leaders_error + leader_data list)) outcome"
    and invar :: "'s \<Rightarrow> bool"
  assumes fetch_invar: "invar s \<Longrightarrow> fetch s a b = Inr (s', r) \<Longrightarrow> invar s'"
    and fetch_range: "invar s \<Longrightarrow> fetch s a b = Inr (s', Inr leaders) \<Longrightarrow> x \<in> set leaders \<Longrightarrow>
      a \<le> ld_leader_slot x \<and> ld_leader_slot x \<le> b"
    and fetch_sorted: "invar s \<Longrightarrow> fetch s a b = Inr (s', Inr leaders) \<Longrightarrow>
      sorted_wrt (<) (List.map ld_leader_slot leaders)"
begin

text \<open>A slot has at most one leader in an answer.\<close>

lemma leader_unique:
  assumes "invar s" and "fetch s a b = Inr (s', Inr leaders)"
    and "x \<in> set leaders" and "y \<in> set leaders" and "ld_leader_slot x = ld_leader_slot y"
  shows "x = y"
proof -
  have "distinct (List.map ld_leader_slot leaders)"
    using fetch_sorted [OF assms(1,2)] by (simp add: strict_sorted_iff)
  with assms(3-5) show ?thesis by (auto simp: distinct_map inj_on_def)
qed

end

section \<open>From the computed schedule\<close>

definition number_leaders :: "slot \<Rightarrow> pubkey list \<Rightarrow> leader_data list" where
  "number_leaders a leaders =
     List.map (\<lambda>(i, pk). \<lparr>ld_leader_slot = a + word_of_nat i, ld_pubkey = pk\<rparr>) (List.enumerate 0 leaders)"

definition grpc_slot_leaders ::
    "epoch_schedule \<Rightarrow> calculated_schedule \<Rightarrow> slot \<Rightarrow> slot \<Rightarrow>
     (calculated_schedule \<times> (leaders_error + leader_data list)) outcome" where
  "grpc_slot_leaders es cs a b =
     (let from_epoch = ep_epoch (get_epoch_at_slot es a);
          to_epoch = ep_epoch (get_epoch_at_slot es b);
          current_epoch = unwrap_or (map_option ls_epoch (cs_current cs)) from_epoch;
          next_epoch = unwrap_or (map_option ls_epoch (cs_current cs)) to_epoch + 1
      in Inr (cs,
           if a > b then Inl InvalidArguments
           else if from_epoch < current_epoch \<or> from_epoch > next_epoch then Inl InvalidArguments
           else if to_epoch < current_epoch \<or> to_epoch > next_epoch then Inl InvalidArguments
           else case get_slot_leaders cs a (saturating_sub b a) es of
             Inl e \<Rightarrow> Inl (NoLeaders e)
           | Inr schedule \<Rightarrow> Inr (number_leaders a schedule)))"

section \<open>From the RPC node\<close>

record json_leader_getter =
  jl_leader_schedule :: "leader_data list"
  jl_leaders_to_cache_count :: u64
  jl_old_slot_leader_cache_size :: u64

definition json_leader_getter_new :: "u64 \<Rightarrow> u64 \<Rightarrow> json_leader_getter" where
  "json_leader_getter_new leaders_to_cache_count old_slot_leader_cache_size =
     \<lparr>jl_leader_schedule = [], jl_leaders_to_cache_count = leaders_to_cache_count,
      jl_old_slot_leader_cache_size = old_slot_leader_cache_size\<rparr>"

text \<open>With an empty queue the bound is compared with the slot itself.\<close>

fun pop_old_leaders :: "slot \<Rightarrow> slot \<Rightarrow> leader_data list \<Rightarrow> leader_data list" where
  "pop_old_leaders sl bound [] = []"
| "pop_old_leaders sl bound (x # xs) =
     (if ld_leader_slot x < bound then pop_old_leaders sl bound xs else x # xs)"

fun push_leaders :: "slot \<Rightarrow> pubkey list \<Rightarrow> slot list \<Rightarrow> leader_data list \<Rightarrow> leader_data list outcome" where
  "push_leaders first leaders [] queue = Inr queue"
| "push_leaders first leaders (sl # sls) queue =
     bind_outcome (index_checked leaders (unat (saturating_sub sl first))) (\<lambda>pk.
       push_leaders first leaders sls (queue @ [\<lparr>ld_leader_slot = sl, ld_pubkey = pk\<rparr>]))"

definition slots_upto :: "slot \<Rightarrow> slot \<Rightarrow> slot list" where
  "slots_upto a b = List.map word_of_nat [unat a ..< unat b]"

text \<open>\<open>reply\<close> is the answer of the RPC node for a first slot and a limit; an error leaves the
  queue as it is after the removal of old leaders.\<close>

definition update_leader_schedule ::
    "(slot \<Rightarrow> u64 \<Rightarrow> string + pubkey list) \<Rightarrow> json_leader_getter \<Rightarrow> slot \<Rightarrow>
     (json_leader_getter \<times> (string + unit)) outcome" where
  "update_leader_schedule reply g sl =
     (let queue = pop_old_leaders sl (saturating_sub sl (jl_old_slot_leader_cache_size g)) (jl_leader_schedule g);
          g1 = g\<lparr>jl_leader_schedule := queue\<rparr>;
          last_slot_needed = sl + jl_leaders_to_cache_count g;
          first_slot_to_fetch = (if queue = [] then sl else ld_leader_slot (last queue) + 1)
      in if last_slot_needed \<ge> first_slot_to_fetch then
           (case reply first_slot_to_fetch (saturating_sub last_slot_needed first_slot_to_fetch) of
              Inl e \<Rightarrow> Inr (g1, Inl e)
            | Inr leaders \<Rightarrow>
                bind_outcome (push_leaders first_slot_to_fetch leaders
                    (slots_upto first_slot_to_fetch last_slot_needed) queue)
                  (\<lambda>queue'. Inr (g1\<lparr>jl_leader_schedule := queue'\<rparr>, Inr ())))
         else Inr (g1, Inr ()))"

definition json_slot_leaders ::
    "(slot \<Rightarrow> u64 \<Rightarrow> string + pubkey list) \<Rightarrow> json_leader_getter \<Rightarrow> slot \<Rightarrow> slot \<Rightarrow>
     (json_leader_getter \<times> (leaders_error + leader_data list)) outcome" where
  "json_slot_leaders reply g a b =
     (if b \<le> a \<or> saturating_sub b a > jl_leaders_to_cache_count g then Inr (g, Inl InvalidArguments)
      else
        (let schedule = jl_leader_schedule g;
             answer = (\<lambda>g. (g, Inr (filter (\<lambda>x. a \<le> ld_leader_slot x \<and> ld_leader_slot x \<le> b)
                               (jl_leader_schedule g))))
         in if schedule = [] \<or> ld_leader_slot (hd schedule) > a \<or> ld_leader_slot (last schedule) < b
            then bind_outcome (update_leader_schedule reply g a) (\<lambda>(g', r).
                   Inr (case r of Inl e \<Rightarrow> (g', Inl (FetchFailed e)) | Inr _ \<Rightarrow> answer g'))
            else Inr (answer g)))"

section \<open>Consecutive slots\<close>

lemma slots_upto_unat:
  "unat b \<le> 18446744073709551615 \<Longrightarrow> List.map unat (slots_upto a b) = [unat a ..< unat b]"
  by (auto simp: slots_upto_def intro!: map_idI unat_u64_of_nat)

lemma slots_upto_Nil: "b \<le> a \<Longrightarrow> slots_upto a b = []"
  by (simp add: slots_upto_def word_le_nat_alt)

lemma unat_u64_max: "unat (b :: u64) \<le> 18446744073709551615"
  using unat_u64_bound [of b] by simp

lemmas slots_unat = slots_upto_unat [OF unat_u64_max]

lemma map_unat_inject: "List.map unat (xs :: u64 list) = List.map unat ys \<longleftrightarrow> xs = ys"
  by (rule inj_map_eq_map) (simp add: inj_def word_unat_eq_iff)

lemma slots_upto_Cons: "a < b \<Longrightarrow> slots_upto a b = a # slots_upto (a + 1) b"
proof -
  assume "a < b"
  then have "unat (a + 1) = unat a + 1" "unat a < unat b"
    using unat_u64_bound [of b] by (simp_all add: word_less_nat_alt unat_u64_add)
  then have "List.map unat (slots_upto a b) = List.map unat (a # slots_upto (a + 1) b)"
    by (simp add: slots_unat upt_conv_Cons)
  then show ?thesis by (simp only: map_unat_inject)
qed

lemma slots_upto_append: "a \<le> b \<Longrightarrow> b \<le> c \<Longrightarrow> slots_upto a b @ slots_upto b c = slots_upto a c"
proof -
  assume "a \<le> b" "b \<le> c"
  then have "[unat a ..< unat b] @ [unat b ..< unat c] = [unat a ..< unat c]"
    by (metis le_Suc_ex upt_add_eq_append word_le_nat_alt)
  then have "List.map unat (slots_upto a b @ slots_upto b c) = List.map unat (slots_upto a c)"
    by (simp add: slots_unat)
  then show ?thesis by (simp only: map_unat_inject)
qed

lemma slots_upto_mem: "x \<in> set (slots_upto a b) \<longleftrightarrow> a \<le> x \<and> x < b"
proof -
  have "x \<in> set (slots_upto a b) \<longleftrightarrow> unat x \<in> set (List.map unat (slots_upto a b))"
    by (simp add: inj_image_mem_iff inj_def word_unat_eq_iff)
  then show ?thesis by (simp add: slots_unat word_le_nat_alt word_less_nat_alt)
qed

lemma slots_upto_sorted: "sorted_wrt (<) (slots_upto a b)"
proof -
  have "sorted_wrt (<) (List.map unat (slots_upto a b))"
    by (simp add: slots_unat)
  then have "sorted_wrt (\<lambda>x y. unat x < unat y) (slots_upto a b)" by (simp only: sorted_wrt_map)
  then show ?thesis by (rule sorted_wrt_mono_rel [rotated]) (simp add: word_less_nat_alt)
qed

lemma slots_upto_last: "slots_upto a b \<noteq> [] \<Longrightarrow> last (slots_upto a b) + 1 = b"
proof -
  assume ne: "slots_upto a b \<noteq> []"
  then have lt: "unat a < unat b" by (auto simp: slots_upto_def)
  have "unat (last (slots_upto a b)) = last (List.map unat (slots_upto a b))"
    using ne by (simp add: last_map)
  also have "\<dots> = unat b - 1" using lt by (simp add: slots_unat)
  finally have "unat (last (slots_upto a b)) + 1 = unat b" using lt by simp
  then show ?thesis
    using unat_u64_bound [of b] by (simp add: word_unat_eq_iff unat_u64_add)
qed

section \<open>The answers from the computed schedule\<close>

lemma slot_leaders_length:
  assumes "get_slot_leaders cs start limit es = Inr leaders"
  shows "length leaders \<le> unat limit"
proof -
  obtain e i where ei: "es_epoch_and_slot_index es start = (e, i)" by (cases "es_epoch_and_slot_index es start")
  have two: "length (matching_schedules cs e i) \<le> 2"
    by (cases "cs_current cs"; cases "cs_next cs")
      (auto simp: matching_schedules_def)
  have one: "length (snd (extend_slot_from_epoch s j (limit, []))) \<le> unat limit" for s j
    by (simp add: extend_first)
  have both: "length (snd (extend_slot_from_epoch s' j' (extend_slot_from_epoch s j (limit, [])))) \<le> unat limit"
    for s j s' j'
    unfolding extend_first by (subst extend_second) simp_all
  let ?f = "\<lambda>(d, i). extend_slot_from_epoch (ls_schedule_by_slot d) i"
  have "length (snd (fold ?f (matching_schedules cs e i) (limit, []))) \<le> unat limit"
    using two one both
    by (cases "matching_schedules cs e i" rule: list.exhaust; cases "tl (matching_schedules cs e i)")
      (auto simp: split_def)
  with assms show ?thesis
    by (auto simp: get_slot_leaders_def ei Let_def split_def split: if_splits)
qed

lemma number_leaders_map:
  "List.map ld_leader_slot (number_leaders a leaders) = List.map (\<lambda>k. a + word_of_nat k) [0 ..< length leaders]"
  by (rule nth_equalityI) (simp_all add: number_leaders_def nth_enumerate_eq split_def)

lemma number_leaders_slots:
  assumes "a \<le> b" and "length leaders \<le> unat (saturating_sub b a)"
  shows "\<exists>c. a \<le> c \<and> c \<le> b \<and> List.map ld_leader_slot (number_leaders a leaders) = slots_upto a c"
proof (intro exI conjI)
  let ?c = "a + word_of_nat (length leaders)"
  have len: "unat a + length leaders \<le> unat b"
    using assms by (simp add: unat_saturating_sub word_le_nat_alt)
  have n: "unat (a + word_of_nat k) = unat a + k" if "k \<le> length leaders" for k
    using that len unat_u64_bound [of b] by (simp add: unat_u64_add unat_u64_of_nat)
  show "a \<le> ?c" "?c \<le> b" using n [of "length leaders"] len by (simp_all add: word_le_nat_alt)
  have "List.map unat (List.map ld_leader_slot (number_leaders a leaders)) =
      List.map (\<lambda>k. k + unat a) [0 ..< length leaders]"
    unfolding number_leaders_map map_map
    by (rule map_cong [OF refl]) (simp add: n add.commute)
  also have "\<dots> = [unat a ..< unat a + length leaders]" by (simp add: map_add_upt add.commute)
  also have "\<dots> = List.map unat (slots_upto a ?c)" using n by (simp add: slots_unat)
  finally show "List.map ld_leader_slot (number_leaders a leaders) = slots_upto a ?c"
    by (simp only: map_unat_inject)
qed

lemma bail_Inr: "(if P then Inl e else x) = Inr y \<longleftrightarrow> \<not> P \<and> x = Inr y"
  by simp

lemma grpc_slot_leaders_slots:
  assumes "grpc_slot_leaders es cs a b = Inr (cs', Inr leaders)"
  shows "cs' = cs" and "\<exists>c. a \<le> c \<and> c \<le> b \<and> List.map ld_leader_slot leaders = slots_upto a c"
proof -
  have r: "cs' = cs \<and> \<not> b < a \<and> (case get_slot_leaders cs a (saturating_sub b a) es of
      Inl e \<Rightarrow> Inl (NoLeaders e) | Inr schedule \<Rightarrow> Inr (number_leaders a schedule)) = Inr leaders"
    using assms unfolding grpc_slot_leaders_def Let_def sum.inject prod.inject bail_Inr by blast
  then obtain schedule where s: "a \<le> b" "get_slot_leaders cs a (saturating_sub b a) es = Inr schedule"
      "leaders = number_leaders a schedule" and cs': "cs' = cs"
    by (cases "get_slot_leaders cs a (saturating_sub b a) es") (simp_all add: not_less)
  show "cs' = cs" by (rule cs')
  show "\<exists>c. a \<le> c \<and> c \<le> b \<and> List.map ld_leader_slot leaders = slots_upto a c"
    using number_leaders_slots [OF s(1) slot_leaders_length [OF s(2)]] s(3) by simp
qed

interpretation grpc_leaders: leader_fetcher "grpc_slot_leaders es" "\<lambda>_. True"
proof
  fix cs a b cs' leaders x
  assume r: "grpc_slot_leaders es cs a b = Inr (cs', Inr leaders)"
  from grpc_slot_leaders_slots(2) [OF r] obtain c where c: "c \<le> b" "List.map ld_leader_slot leaders = slots_upto a c"
    by blast
  then show "sorted_wrt (<) (List.map ld_leader_slot leaders)" by (simp add: slots_upto_sorted)
  assume "x \<in> set leaders"
  then have "ld_leader_slot x \<in> set (slots_upto a c)" using c(2) by (metis image_eqI list.set_map)
  then show "a \<le> ld_leader_slot x \<and> ld_leader_slot x \<le> b"
    using c(1) by (auto simp: slots_upto_mem)
qed simp

section \<open>The queue of fetched leaders\<close>

definition json_inv :: "json_leader_getter \<Rightarrow> bool" where
  "json_inv g \<longleftrightarrow> (\<exists>a b. List.map ld_leader_slot (jl_leader_schedule g) = slots_upto a b)"

lemma pop_old_slots:
  "List.map ld_leader_slot queue = slots_upto a b \<Longrightarrow>
   \<exists>a'. List.map ld_leader_slot (pop_old_leaders sl bound queue) = slots_upto a' b"
proof (induction queue arbitrary: a)
  case (Cons x queue)
  have lt: "a < b"
  proof (rule ccontr)
    assume "\<not> a < b"
    with Cons.prems show False by (simp add: slots_upto_Nil not_less)
  qed
  with Cons.prems have "List.map ld_leader_slot queue = slots_upto (a + 1) b"
    by (simp add: slots_upto_Cons)
  from Cons.IH [OF this] Cons.prems show ?case by auto
qed (auto intro: exI)

lemma push_leaders_slots:
  "push_leaders first leaders sls queue = Inr queue' \<Longrightarrow>
   List.map ld_leader_slot queue' = List.map ld_leader_slot queue @ sls"
  by (induction sls arbitrary: queue) auto

lemma update_leader_schedule_inv:
  assumes inv: "json_inv g" and up: "update_leader_schedule reply g sl = Inr (g', r)"
  shows "json_inv g'"
proof -
  let ?queue = "pop_old_leaders sl (saturating_sub sl (jl_old_slot_leader_cache_size g)) (jl_leader_schedule g)"
  let ?last = "sl + jl_leaders_to_cache_count g"
  let ?first = "if ?queue = [] then sl else ld_leader_slot (last ?queue) + 1"
  obtain a b where q: "List.map ld_leader_slot ?queue = slots_upto a b"
    using inv pop_old_slots by (fastforce simp: json_inv_def)
  have kept: "json_inv (g\<lparr>jl_leader_schedule := ?queue\<rparr>)" using q by (auto simp: json_inv_def)
  show ?thesis
  proof (cases "jl_leader_schedule g' = ?queue")
    case True
    with q show ?thesis by (auto simp: json_inv_def)
  next
    case False
    with up obtain leaders where le: "?first \<le> ?last"
        "push_leaders ?first leaders (slots_upto ?first ?last) ?queue = Inr (jl_leader_schedule g')"
      by (auto simp: update_leader_schedule_def Let_def split: if_splits sum.splits)
    have slots: "List.map ld_leader_slot (jl_leader_schedule g') = slots_upto a b @ slots_upto ?first ?last"
      using push_leaders_slots [OF le(2)] q by simp
    show ?thesis
    proof (cases "?queue = []")
      case True
      with q slots show ?thesis by (auto simp: json_inv_def)
    next
      case False
      then have ne: "slots_upto a b \<noteq> []" using q by (metis list.map_disc_iff)
      have "ld_leader_slot (last ?queue) = last (slots_upto a b)"
        using False q by (metis last_map)
      then have first: "?first = b" using False slots_upto_last [OF ne] by simp
      have "a \<le> b" using ne slots_upto_Nil [of b a] by (cases "b \<le> a") auto
      then have "slots_upto a b @ slots_upto b ?last = slots_upto a ?last"
        using le(1) first by (intro slots_upto_append) simp_all
      with slots first show ?thesis by (auto simp: json_inv_def)
    qed
  qed
qed

lemma json_slot_leaders_cases:
  assumes "json_slot_leaders reply g a b = Inr (g', r)"
  shows "(g' = g \<or> (\<exists>r'. update_leader_schedule reply g a = Inr (g', r'))) \<and>
    (\<forall>leaders. r = Inr leaders \<longrightarrow>
       leaders = filter (\<lambda>x. a \<le> ld_leader_slot x \<and> ld_leader_slot x \<le> b) (jl_leader_schedule g'))"
proof (cases "update_leader_schedule reply g a")
  case (Inl p)
  with assms show ?thesis by (auto simp: json_slot_leaders_def Let_def split: if_splits)
next
  case (Inr u)
  obtain g1 r1 where u: "u = (g1, r1)" by (cases u)
  with assms Inr show ?thesis
    by (cases r1) (auto simp: json_slot_leaders_def Let_def split: if_splits)
qed

interpretation json_leaders: leader_fetcher "json_slot_leaders reply" json_inv
proof
  fix g a b g' r
  assume "json_inv g" "json_slot_leaders reply g a b = Inr (g', r)"
  then show "json_inv g'"
    using json_slot_leaders_cases update_leader_schedule_inv by blast
next
  fix g a b g' leaders x
  assume g: "json_inv g" "json_slot_leaders reply g a b = Inr (g', Inr leaders)"
  then have "json_inv g'"
    using json_slot_leaders_cases update_leader_schedule_inv by blast
  then have sorted: "sorted_wrt (<) (List.map ld_leader_slot (jl_leader_schedule g'))"
    by (auto simp: json_inv_def slots_upto_sorted)
  have leaders: "leaders = filter (\<lambda>x. a \<le> ld_leader_slot x \<and> ld_leader_slot x \<le> b) (jl_leader_schedule g')"
    using json_slot_leaders_cases [OF g(2)] by blast
  show "sorted_wrt (<) (List.map ld_leader_slot leaders)"
    using sorted unfolding leaders by (simp add: sorted_wrt_map sorted_wrt_filter)
  assume "x \<in> set leaders"
  then show "a \<le> ld_leader_slot x \<and> ld_leader_slot x \<le> b" by (simp add: leaders)
qed

section \<open>Properties\<close>

lemma filter_upt: "filter (\<lambda>x. a \<le> x \<and> x \<le> b) [i ..< j] = [max a i ..< min (Suc b) j]"
  by (induction j) (auto simp: not_le min_def max_def le_Suc_eq)

lemma filter_slots:
  "\<exists>lo hi. filter (\<lambda>x. a \<le> x \<and> x \<le> b) (slots_upto i j) = slots_upto lo hi"
proof -
  let ?hi = "word_of_nat (min (Suc (unat b)) (unat j)) :: slot"
  have hi: "unat ?hi = min (Suc (unat b)) (unat j)"
    using unat_u64_bound [of j] by (intro unat_u64_of_nat) auto
  have "List.map unat (filter (\<lambda>x. a \<le> x \<and> x \<le> b) (slots_upto i j)) =
      filter (\<lambda>x. unat a \<le> x \<and> x \<le> unat b) (List.map unat (slots_upto i j))"
    by (simp add: filter_map comp_def word_le_nat_alt)
  also have "\<dots> = [max (unat a) (unat i) ..< min (Suc (unat b)) (unat j)]"
    by (simp add: slots_unat filter_upt)
  also have "max (unat a) (unat i) = unat (max a i)" by (simp add: max_def word_le_nat_alt)
  also have "[unat (max a i) ..< min (Suc (unat b)) (unat j)] = List.map unat (slots_upto (max a i) ?hi)"
    by (simp only: slots_unat hi)
  finally show ?thesis unfolding map_unat_inject by blast
qed

fun json_requests ::
    "json_leader_getter \<Rightarrow> ((slot \<Rightarrow> u64 \<Rightarrow> string + pubkey list) \<times> slot \<times> slot) list \<Rightarrow>
     json_leader_getter outcome" where
  "json_requests g [] = Inr g"
| "json_requests g ((reply, a, b) # rs) =
     bind_outcome (json_slot_leaders reply g a b) (\<lambda>(g', _). json_requests g' rs)"

lemma json_requests_inv: "json_inv g \<Longrightarrow> json_requests g rs = Inr g' \<Longrightarrow> json_inv g'"
proof (induction rs arbitrary: g)
  case (Cons r rs)
  obtain reply a b where r: "r = (reply, a, b)" by (cases r)
  with Cons.prems(2) obtain g1 x where g1: "json_slot_leaders reply g a b = Inr (g1, x)" "json_requests g1 rs = Inr g'"
    by auto
  then have "json_inv g1" using json_leaders.fetch_invar Cons.prems(1) by blast
  with Cons.IH g1(2) show ?case by blast
qed simp

text \<open>C40: The queue of leaders fetched from the RPC node always holds consecutive slots, whatever was
  asked for, in whatever order, and whatever the node answered; so every answer is a gapless run of
  slots inside the asked range, with one leader for each.\<close>

theorem leader_queue_consecutive:
  assumes "json_requests (json_leader_getter_new n m) rs = Inr g"
  shows "(\<exists>lo hi. List.map ld_leader_slot (jl_leader_schedule g) = slots_upto lo hi) \<and>
    (\<forall>reply a b g' leaders. json_slot_leaders reply g a b = Inr (g', Inr leaders) \<longrightarrow>
       (\<exists>lo hi. List.map ld_leader_slot leaders = slots_upto lo hi) \<and>
       (\<forall>x \<in> set leaders. a \<le> ld_leader_slot x \<and> ld_leader_slot x \<le> b))"
proof -
  have "[] = slots_upto 0 0" by (simp add: slots_upto_Nil)
  then have "json_inv (json_leader_getter_new n m)"
    unfolding json_inv_def json_leader_getter_new_def by (simp only: json_leader_getter.simps list.map) blast
  then have inv: "json_inv g" using assms by (rule json_requests_inv)
  have "\<exists>lo hi. List.map ld_leader_slot leaders = slots_upto lo hi"
    if r: "json_slot_leaders reply g a b = Inr (g', Inr leaders)" for reply a b g' leaders
  proof -
    obtain lo hi where q: "List.map ld_leader_slot (jl_leader_schedule g') = slots_upto lo hi"
      using json_leaders.fetch_invar [OF inv r] by (auto simp: json_inv_def)
    have "List.map ld_leader_slot leaders = filter (\<lambda>x. a \<le> x \<and> x \<le> b) (slots_upto lo hi)"
      using json_slot_leaders_cases [OF r] by (simp add: q [symmetric] filter_map comp_def)
    then show ?thesis using filter_slots by metis
  qed
  with inv json_leaders.fetch_range [OF inv] show ?thesis unfolding json_inv_def by blast
qed

lemma leader_queue_consecutive_witness:
  "\<exists>g. json_requests (json_leader_getter_new 4 2) [(\<lambda>sl n. Inr [11, 12, 13, 14, 15], 7, 9)] = Inr g \<and>
     jl_leader_schedule g \<noteq> [] \<and>
     (\<exists>lo hi. List.map ld_leader_slot (jl_leader_schedule g) = slots_upto lo hi)"
proof -
  let ?r = "json_requests (json_leader_getter_new 4 2) [(\<lambda>sl n. Inr [11, 12, 13, 14, 15], 7, 9)]"
  have "case ?r of Inl _ \<Rightarrow> False | Inr g \<Rightarrow> jl_leader_schedule g \<noteq> []" by code_simp
  then obtain g where "?r = Inr g" "jl_leader_schedule g \<noteq> []" by (auto split: sum.splits)
  with leader_queue_consecutive [OF this(1)] show ?thesis by blast
qed

text \<open>The interface promises the leaders of all slots from the first to the last one asked for, the
  last included.  The getter over the computed schedule never returns the last one.\<close>

theorem last_leader_missing:
  assumes "grpc_slot_leaders es cs a b = Inr (cs', Inr leaders)"
  shows "\<forall>x \<in> set leaders. ld_leader_slot x < b"
proof
  fix x assume "x \<in> set leaders"
  moreover obtain c where "c \<le> b" "List.map ld_leader_slot leaders = slots_upto a c"
    using grpc_slot_leaders_slots(2) [OF assms] by blast
  ultimately have "ld_leader_slot x \<in> set (slots_upto a c)" by (metis image_eqI list.set_map)
  then show "ld_leader_slot x < b" using \<open>c \<le> b\<close> by (auto simp: slots_upto_mem)
qed

lemma last_leader_missing_witness:
  "\<exists>leaders. grpc_slot_leaders sample_epochs sample_calculated 2 4 = Inr (sample_calculated, Inr leaders) \<and>
     length leaders = 2 \<and> (\<forall>x \<in> set leaders. ld_leader_slot x < 4)"
proof -
  let ?r = "grpc_slot_leaders sample_epochs sample_calculated 2 4"
  have c: "case ?r of Inr (_, Inr leaders) \<Rightarrow> length leaders = 2 | _ \<Rightarrow> False"
    by code_simp
  obtain cs' r where r: "?r = Inr (cs', r)" using c by (cases ?r) auto
  with c obtain leaders where "?r = Inr (cs', Inr leaders)" "length leaders = 2" by (cases r) auto
  with last_leader_missing [OF this(1)] grpc_slot_leaders_slots(1) [OF this(1)] show ?thesis by auto
qed

end
