(* ===== verification/Quic_Proxy.thy ===== *)
theory Quic_Proxy
  imports Quic_Connection Key_Maps
begin

text \<open>
  The path over the QUIC forward proxy: \<open>services/src/tpu_utils/quinn_auto_reconnect.rs\<close> (one
  connection that is restored when needed), \<open>core/src/structures/proxy_request_format.rs\<close> and
  \<open>services/src/tpu_utils/quic_proxy_connection_manager.rs\<close> (the thread that forwards batches of
  transactions to the proxy).  What the network answers to each request is an argument.
\<close>

section \<open>A connection that is restored\<close>

datatype connection_state =
    NeverConnected
  | Connection connection
  | PermanentError
  | FailedAttempt u32

datatype created = Made connection | HandshakeTimedOut | HandshakeRefused | HandshakeFailed string

definition max_retry_attempts :: u32 where
  "max_retry_attempts = 10"

definition send_timeout :: nat where
  "send_timeout = 5000"

text \<open>Any error but a time-out panics.\<close>

fun create_connection :: "created \<Rightarrow> connection option outcome" where
  "create_connection (Made conn) = Inr (Some conn)"
| "create_connection HandshakeTimedOut = Inr None"
| "create_connection HandshakeRefused = Inl UnwrapNone"
| "create_connection (HandshakeFailed e) = Inl (ExplicitPanic e)"

fun refresh :: "(connection \<Rightarrow> bool) \<Rightarrow> created \<Rightarrow> connection_state \<Rightarrow> connection_state outcome" where
  "refresh closed r (Connection current) =
     (if closed current then
        bind_outcome (create_connection r) (\<lambda>c. Inr (case c of
          Some new_connection \<Rightarrow> Connection new_connection
        | None \<Rightarrow> FailedAttempt 1))
      else Inr (Connection current))"
| "refresh closed r NeverConnected =
     bind_outcome (create_connection r) (\<lambda>c. Inr (case c of
       Some new_connection \<Rightarrow> Connection new_connection
     | None \<Rightarrow> FailedAttempt 1))"
| "refresh closed r PermanentError = Inr PermanentError"
| "refresh closed r (FailedAttempt attempts) =
     bind_outcome (create_connection r) (\<lambda>c. Inr (case c of
       Some new_connection \<Rightarrow> Connection new_connection
     | None \<Rightarrow> if attempts < max_retry_attempts then FailedAttempt (attempts + 1) else PermanentError))"

definition refresh_and_get ::
    "(connection \<Rightarrow> bool) \<Rightarrow> created \<Rightarrow> connection_state \<Rightarrow> (connection_state \<times> (string + connection)) outcome" where
  "refresh_and_get closed r st =
     bind_outcome (refresh closed r st) (\<lambda>st'. Inr (st', case st' of
       NeverConnected \<Rightarrow> Inl ''not connected''
     | Connection conn \<Rightarrow> Inr conn
     | PermanentError \<Rightarrow> Inl ''permanent error''
     | FailedAttempt _ \<Rightarrow> Inl ''failed connection attempt''))"

definition is_permanent_dead :: "connection_state \<Rightarrow> bool" where
  "is_permanent_dead st \<longleftrightarrow> st = PermanentError"

text \<open>What the network does with one payload; only opening the stream has a time limit.\<close>

record uni_network =
  un_closed :: "connection \<Rightarrow> bool"
  un_created :: created
  un_open :: "(string + unit) pending"
  un_write :: "string + unit"
  un_finish :: "string + unit"

definition send_uni :: "uni_network \<Rightarrow> connection_state \<Rightarrow> (connection_state \<times> (string + unit)) outcome" where
  "send_uni net st =
     bind_outcome (refresh_and_get (un_closed net) (un_created net) st) (\<lambda>(st', conn).
       Inr (st', case conn of
         Inl e \<Rightarrow> Inl e
       | Inr _ \<Rightarrow>
           (case timeout send_timeout (un_open net) of
              None \<Rightarrow> Inl ''open uni stream for sending''
            | Some (Inl e) \<Rightarrow> Inl e
            | Some (Inr _) \<Rightarrow>
                (case un_write net of Inl e \<Rightarrow> Inl e | Inr _ \<Rightarrow> un_finish net))))"

section \<open>The request format\<close>

record tx_data =
  td_signature :: signature
  td_transaction :: "wire"

record tpu_node =
  tn_tpu_socket_addr :: socket_addr
  tn_identity_tpunode :: pubkey

record tpu_forwarding_request =
  tf_format_version :: nat
  tf_tpu_nodes :: "tpu_node list"
  tf_transactions :: "tx_data list"

definition format_version1 :: nat where
  "format_version1 = 2500"

definition tx_data_new :: "signature \<Rightarrow> wire \<Rightarrow> tx_data" where
  "tx_data_new sig tx_raw = \<lparr>td_signature = sig, td_transaction = tx_raw\<rparr>"

definition tpu_forwarding_request_new :: "(socket_addr \<times> pubkey) list \<Rightarrow> tx_data list \<Rightarrow> tpu_forwarding_request" where
  "tpu_forwarding_request_new tpu_fanout_nodes transactions =
     \<lparr>tf_format_version = format_version1,
      tf_tpu_nodes = List.map (\<lambda>(tpu_addr, identity).
        \<lparr>tn_tpu_socket_addr = tpu_addr, tn_identity_tpunode = identity\<rparr>) tpu_fanout_nodes,
      tf_transactions = transactions\<rparr>"

definition get_tpu_nodes :: "tpu_forwarding_request \<Rightarrow> tpu_node list" where
  "get_tpu_nodes r = tf_tpu_nodes r"

section \<open>Forwarding\<close>

definition chunk_size_per_stream :: nat where
  "chunk_size_per_stream = 20"

text \<open>The requests that reached the proxy, and how the batch ended: the first failure ends it.\<close>

fun send_chunks ::
    "(socket_addr \<times> pubkey) list \<Rightarrow> (nat \<Rightarrow> uni_network) \<Rightarrow> nat \<Rightarrow> tx_data list list \<Rightarrow> connection_state \<Rightarrow>
     tpu_forwarding_request list \<times> (connection_state \<times> (string + unit)) outcome" where
  "send_chunks tpu_data nets k [] st = ([], Inr (st, Inr ()))"
| "send_chunks tpu_data nets k (chunk # cs) st =
     (case send_uni (nets k) st of
        Inl p \<Rightarrow> ([], Inl p)
      | Inr (st1, Inl e) \<Rightarrow> ([], Inr (st1, Inl e))
      | Inr (st1, Inr _) \<Rightarrow>
          (let (sent, r) = send_chunks tpu_data nets (Suc k) cs st1
           in (tpu_forwarding_request_new tpu_data chunk # sent, r)))"

record fanout_node =
  fn_tpu_identity :: pubkey
  fn_tpu_address :: socket_addr

definition send_copy_of_txs_to_quicproxy ::
    "tx_data list \<Rightarrow> (nat \<Rightarrow> uni_network) \<Rightarrow> fanout_node list \<Rightarrow> connection_state \<Rightarrow>
     tpu_forwarding_request list \<times> (connection_state \<times> (string + unit)) outcome" where
  "send_copy_of_txs_to_quicproxy txs nets tpu_fanout_nodes st =
     send_chunks (List.map (\<lambda>tpu. (fn_tpu_address tpu, fn_tpu_identity tpu)) tpu_fanout_nodes) nets 0
       (chunks chunk_size_per_stream txs) st"

section \<open>The manager and its thread\<close>

text \<open>What a call of \<open>recv\<close> or \<open>try_recv\<close> on the broadcast channel gets.\<close>

datatype channel_result =
    ChTx sent_transaction_info
  | ChEmpty
  | ChLagged
  | ChClosed

definition tx_data_of :: "sent_transaction_info \<Rightarrow> tx_data" where
  "tx_data_of info = tx_data_new (st_signature info) (st_transaction info)"

text \<open>Up to \<open>n\<close> more transactions; \<open>None\<close> aborts the thread.\<close>

fun read_more :: "nat \<Rightarrow> channel_result list \<Rightarrow> tx_data list option" where
  "read_more 0 rs = Some []"
| "read_more (Suc n) [] = Some []"
| "read_more (Suc n) (ChTx info # rs) = map_option (\<lambda>txs. tx_data_of info # txs) (read_more n rs)"
| "read_more (Suc n) (ChEmpty # rs) = Some []"
| "read_more (Suc n) (ChLagged # rs) = None"
| "read_more (Suc n) (ChClosed # rs) = None"

datatype proxy_thread =
    NotStarted
  | Running connection_state
  | Aborted

record quic_proxy =
  qx_simple_thread_started :: bool
  qx_current_tpu_nodes :: "fanout_node list"
  qx_exit_signal :: bool
  qx_thread :: proxy_thread

definition quic_proxy_new :: quic_proxy where
  "quic_proxy_new =
     \<lparr>qx_simple_thread_started = False, qx_current_tpu_nodes = [], qx_exit_signal = False,
      qx_thread = NotStarted\<rparr>"

definition signal_shutdown :: "quic_proxy \<Rightarrow> quic_proxy" where
  "signal_shutdown p = p\<lparr>qx_exit_signal := True\<rparr>"

definition update_connection :: "(pubkey, socket_addr) hashmap \<Rightarrow> quic_proxy \<Rightarrow> quic_proxy" where
  "update_connection connections_to_keep p =
     (let p1 = p\<lparr>qx_current_tpu_nodes := List.map (\<lambda>(identity, tpu_address).
            \<lparr>fn_tpu_identity = identity, fn_tpu_address = tpu_address\<rparr>) connections_to_keep\<rparr>
      in if qx_simple_thread_started p1 then p1
         else p1\<lparr>qx_simple_thread_started := True, qx_thread := Running NeverConnected\<rparr>)"

text \<open>One turn of the loop of the thread: \<open>first\<close> is what \<open>recv\<close> returned, \<open>rest\<close> what the calls of
  \<open>try_recv\<close> after it get.  The second result is what reached the proxy.\<close>

definition proxy_turn ::
    "quic_connection_parameters \<Rightarrow> channel_result \<Rightarrow> channel_result list \<Rightarrow> (nat \<Rightarrow> uni_network) \<Rightarrow>
     quic_proxy \<Rightarrow> quic_proxy \<times> tpu_forwarding_request list" where
  "proxy_turn params first rest nets p =
     (case qx_thread p of
        Running st \<Rightarrow>
          if qx_exit_signal p then (p\<lparr>qx_thread := Aborted\<rparr>, [])
          else (case first of
            ChTx info \<Rightarrow>
              (case read_more (qp_number_of_transactions_per_unistream params - 1) rest of
                 None \<Rightarrow> (p\<lparr>qx_thread := Aborted\<rparr>, [])
               | Some txs \<Rightarrow>
                   if qx_current_tpu_nodes p = [] then (p, [])
                   else (case send_copy_of_txs_to_quicproxy (tx_data_of info # txs) nets (qx_current_tpu_nodes p) st of
                           (sent, Inl _) \<Rightarrow> (p\<lparr>qx_thread := Aborted\<rparr>, sent)
                         | (sent, Inr (st', _)) \<Rightarrow> (p\<lparr>qx_thread := Running st'\<rparr>, sent)))
          | ChEmpty \<Rightarrow> (p, [])
          | _ \<Rightarrow> (p\<lparr>qx_thread := Aborted\<rparr>, []))
      | _ \<Rightarrow> (p, []))"

datatype proxy_event =
    ConnectionsUpdated "(pubkey, socket_addr) hashmap"
  | ShutdownSignalled
  | ThreadTurn channel_result "channel_result list" "nat \<Rightarrow> uni_network"

fun proxy_step :: "quic_connection_parameters \<Rightarrow> quic_proxy \<Rightarrow> proxy_event \<Rightarrow> quic_proxy \<times> tpu_forwarding_request list" where
  "proxy_step params p (ConnectionsUpdated keep) = (update_connection keep p, [])"
| "proxy_step params p ShutdownSignalled = (signal_shutdown p, [])"
| "proxy_step params p (ThreadTurn first rest nets) = proxy_turn params first rest nets p"

fun proxy_run :: "quic_connection_parameters \<Rightarrow> quic_proxy \<Rightarrow> proxy_event list \<Rightarrow> quic_proxy \<times> tpu_forwarding_request list" where
  "proxy_run params p [] = (p, [])"
| "proxy_run params p (e # es) =
     (let (p1, sent1) = proxy_step params p e; (p2, sent2) = proxy_run params p1 es in (p2, sent1 @ sent2))"

section \<open>Lemmas\<close>

lemma send_chunks_sent:
  assumes "send_chunks tpu_data nets k cs st = (sent, r)"
  shows "\<exists>n \<le> length cs. sent = List.map (tpu_forwarding_request_new tpu_data) (take n cs) \<and>
    (r = Inr (st', Inr ()) \<longrightarrow> n = length cs)"
  using assms
proof (induction cs arbitrary: k st sent)
  case (Cons c cs)
  show ?case
  proof (cases "send_uni (nets k) st")
    case (Inl p)
    with Cons.prems show ?thesis by (intro exI [of _ 0]) auto
  next
    case (Inr u)
    obtain st1 x where u: "u = (st1, x)" by (cases u)
    show ?thesis
    proof (cases x)
      case (Inl e)
      with Cons.prems Inr u show ?thesis by (intro exI [of _ 0]) auto
    next
      case (Inr y)
      obtain sent1 r1 where rest: "send_chunks tpu_data nets (Suc k) cs st1 = (sent1, r1)"
        by (cases "send_chunks tpu_data nets (Suc k) cs st1")
      with Cons.prems \<open>send_uni (nets k) st = Inr u\<close> u Inr
      have s: "sent = tpu_forwarding_request_new tpu_data c # sent1" "r = r1" by auto
      from Cons.IH [of "Suc k" st1 sent1] rest s(2) obtain n where
        "n \<le> length cs" "sent1 = List.map (tpu_forwarding_request_new tpu_data) (take n cs)"
        "r = Inr (st', Inr ()) \<longrightarrow> n = length cs" by auto
      then show ?thesis by (intro exI [of _ "Suc n"]) (simp add: s(1))
    qed
  qed
qed simp

lemma tpu_request_simps [simp]:
  "tf_transactions (tpu_forwarding_request_new d txs) = txs"
  "get_tpu_nodes (tpu_forwarding_request_new d txs) =
     List.map (\<lambda>(a, i). \<lparr>tn_tpu_socket_addr = a, tn_identity_tpunode = i\<rparr>) d"
  by (simp_all add: tpu_forwarding_request_new_def get_tpu_nodes_def)

lemma read_more_prefix:
  "read_more n rs = Some txs \<Longrightarrow> \<exists>infos. txs = List.map tx_data_of infos \<and> length infos \<le> n \<and>
     List.map ChTx infos = take (length infos) rs"
proof (induction n rs arbitrary: txs rule: read_more.induct)
  case (3 n info rs)
  then obtain txs' where "read_more n rs = Some txs'" "txs = tx_data_of info # txs'" by auto
  with 3(1) obtain infos where "txs' = List.map tx_data_of infos" "length infos \<le> n"
      "List.map ChTx infos = take (length infos) rs" by blast
  with \<open>txs = _\<close> show ?case by (intro exI [of _ "info # infos"]) simp
qed auto

lemma chunks_transactions:
  "concat (List.map tf_transactions (List.map (tpu_forwarding_request_new d) cs)) = concat cs"
  by (induction cs) auto

text \<open>After eleven failed attempts in a row the connection is given up for good.\<close>

fun refresh_times :: "nat \<Rightarrow> connection_state \<Rightarrow> connection_state outcome" where
  "refresh_times 0 st = Inr st"
| "refresh_times (Suc n) st = bind_outcome (refresh (\<lambda>_. False) HandshakeTimedOut st) (refresh_times n)"

lemma permanent_after_eleven:
  "refresh_times 10 NeverConnected = Inr (FailedAttempt 10)" "refresh_times 11 NeverConnected = Inr PermanentError"
  by code_simp+

lemma permanent_stays: "refresh closed r PermanentError = Inr PermanentError"
  by simp

lemma aborted_step:
  assumes "qx_thread p = Aborted" and "qx_simple_thread_started p"
  shows "qx_thread (fst (proxy_step params p e)) = Aborted \<and> qx_simple_thread_started (fst (proxy_step params p e)) \<and>
    snd (proxy_step params p e) = []"
  using assms by (cases e) (auto simp: update_connection_def signal_shutdown_def proxy_turn_def)

lemma aborted_run:
  "qx_thread p = Aborted \<Longrightarrow> qx_simple_thread_started p \<Longrightarrow>
   snd (proxy_run params p es) = [] \<and> qx_thread (fst (proxy_run params p es)) = Aborted"
proof (induction es arbitrary: p)
  case (Cons e es)
  from aborted_step [OF Cons.prems, of params e] Cons.IH [of "fst (proxy_step params p e)"] show ?case
    by (simp add: split_def Let_def)
qed simp

definition started_ok :: "quic_proxy \<Rightarrow> bool" where
  "started_ok p \<longleftrightarrow> (qx_thread p = NotStarted \<longleftrightarrow> \<not> qx_simple_thread_started p)"

lemma started_step: "started_ok p \<Longrightarrow> started_ok (fst (proxy_step params p e))"
  by (cases e)
    (auto simp: started_ok_def update_connection_def signal_shutdown_def proxy_turn_def Let_def
      split: proxy_thread.splits channel_result.splits option.splits prod.splits sum.splits)

lemma started_run: "started_ok p \<Longrightarrow> started_ok (fst (proxy_run params p es))"
proof (induction es arbitrary: p)
  case (Cons e es)
  from Cons.IH [OF started_step [OF Cons.prems]] show ?case by (simp add: split_def Let_def)
qed simp

section \<open>Properties\<close>

text \<open>A batch read from the channel goes to the proxy in order, in requests of at most twenty transactions
  that all name exactly the nodes of the moment: what was delivered is a prefix of the batch, and
  the whole batch when every send succeeded.\<close>

theorem proxy_batches_delivered:
  assumes "send_copy_of_txs_to_quicproxy txs nets nodes st = (sent, r)"
  shows "(\<exists>rest. concat (List.map tf_transactions sent) @ rest = txs \<and> (\<forall>st'. r = Inr (st', Inr ()) \<longrightarrow> rest = [])) \<and>
    (\<forall>q \<in> set sent. 0 < length (tf_transactions q) \<and> length (tf_transactions q) \<le> 20 \<and>
       get_tpu_nodes q = List.map (\<lambda>n. \<lparr>tn_tpu_socket_addr = fn_tpu_address n,
         tn_identity_tpunode = fn_tpu_identity n\<rparr>) nodes)"
proof -
  let ?cs = "chunks chunk_size_per_stream txs"
  let ?d = "List.map (\<lambda>tpu. (fn_tpu_address tpu, fn_tpu_identity tpu)) nodes"
  have run: "send_chunks ?d nets 0 ?cs st = (sent, r)" using assms by (simp add: send_copy_of_txs_to_quicproxy_def)
  have all: "concat ?cs = txs" by (rule concat_chunks) (simp add: chunk_size_per_stream_def)
  obtain n where n: "sent = List.map (tpu_forwarding_request_new ?d) (take n ?cs)"
    using send_chunks_sent [OF run] by blast
  have split: "concat (List.map tf_transactions sent) @ concat (drop n ?cs) = txs"
    unfolding n chunks_transactions concat_append [symmetric] append_take_drop_id all ..
  have whole: "concat (List.map tf_transactions sent) = txs" if "r = Inr (st', Inr ())" for st'
  proof -
    from send_chunks_sent [OF run, of st'] that have "sent = List.map (tpu_forwarding_request_new ?d) ?cs" by auto
    then show ?thesis by (simp only: chunks_transactions all)
  qed
  have sizes: "\<forall>q \<in> set sent. 0 < length (tf_transactions q) \<and> length (tf_transactions q) \<le> 20 \<and>
       get_tpu_nodes q = List.map (\<lambda>n. \<lparr>tn_tpu_socket_addr = fn_tpu_address n,
         tn_identity_tpunode = fn_tpu_identity n\<rparr>) nodes"
  proof
    fix q assume "q \<in> set sent"
    then obtain c where c: "c \<in> set ?cs" "q = tpu_forwarding_request_new ?d c"
      unfolding n by (auto dest: in_set_takeD)
    from length_chunk [OF c(1)] show "0 < length (tf_transactions q) \<and> length (tf_transactions q) \<le> 20 \<and>
       get_tpu_nodes q = List.map (\<lambda>n. \<lparr>tn_tpu_socket_addr = fn_tpu_address n,
         tn_identity_tpunode = fn_tpu_identity n\<rparr>) nodes"
      by (simp add: c(2) chunk_size_per_stream_def)
  qed
  have "\<exists>rest. concat (List.map tf_transactions sent) @ rest = txs \<and> (\<forall>st'. r = Inr (st', Inr ()) \<longrightarrow> rest = [])"
    using split whole by (metis append_self_conv)
  with sizes show ?thesis by blast
qed

definition good_network :: uni_network where
  "good_network = \<lparr>un_closed = (\<lambda>_. False), un_created = Made 3, un_open = Some (Inr (), 7),
     un_write = Inr (), un_finish = Inr ()\<rparr>"

lemma proxy_batches_delivered_witness:
  "\<exists>sent r. send_copy_of_txs_to_quicproxy [tx_data_new 5 [1], tx_data_new 6 [2]] (\<lambda>_. good_network)
       [\<lparr>fn_tpu_identity = 9, fn_tpu_address = (1, 8)\<rparr>] NeverConnected = (sent, r) \<and>
     concat (List.map tf_transactions sent) = [tx_data_new 5 [1], tx_data_new 6 [2]]"
proof -
  let ?r = "send_copy_of_txs_to_quicproxy [tx_data_new 5 [1], tx_data_new 6 [2]] (\<lambda>_. good_network)
       [\<lparr>fn_tpu_identity = 9, fn_tpu_address = (1, 8)\<rparr>] NeverConnected"
  have "snd ?r = Inr (Connection 3, Inr ())"
    by (simp add: send_copy_of_txs_to_quicproxy_def chunk_size_per_stream_def chunks.simps send_uni_def
        refresh_and_get_def good_network_def timeout_def send_timeout_def split_def Let_def)
  then obtain sent where r: "?r = (sent, Inr (Connection 3, Inr ()))" by (metis prod.collapse)
  from proxy_batches_delivered [OF this] have "concat (List.map tf_transactions sent) = [tx_data_new 5 [1], tx_data_new 6 [2]]"
    by auto
  with r show ?thesis by blast
qed

text \<open>The thread ends at the first overflow of the broadcast channel (and at a panic of the connection),
  and since the flag that it was started stays set, no later update of the connections starts it
  again: from then on nothing is ever forwarded.\<close>

theorem lagged_proxy_stays_silent:
  assumes "proxy_run params quic_proxy_new before = (p, sent)" and "qx_thread p = Running st"
    and "proxy_run params p (ThreadTurn ChLagged rest nets # after) = (p', sent')"
  shows "sent' = [] \<and> qx_thread p' = Aborted"
proof -
  have "started_ok p"
    using started_run [of quic_proxy_new params before] assms(1)
    by (simp add: started_ok_def quic_proxy_new_def)
  with assms(2) have "qx_simple_thread_started p" by (simp add: started_ok_def)
  then have "snd (proxy_run params (p\<lparr>qx_thread := Aborted\<rparr>) after) = [] \<and>
      qx_thread (fst (proxy_run params (p\<lparr>qx_thread := Aborted\<rparr>) after)) = Aborted"
    by (intro aborted_run) simp_all
  moreover have "proxy_step params p (ThreadTurn ChLagged rest nets) = (p\<lparr>qx_thread := Aborted\<rparr>, [])"
    using assms(2) by (simp add: proxy_turn_def)
  ultimately show ?thesis using assms(3) by (simp add: split_def Let_def)
qed

lemma lagged_proxy_stays_silent_witness:
  "\<exists>p' sent'. proxy_run sample_parameters (fst (proxy_run sample_parameters quic_proxy_new
       [ConnectionsUpdated [(9, (1, 8))]]))
     [ThreadTurn ChLagged [] (\<lambda>_. good_network), ConnectionsUpdated [(9, (1, 8))],
      ThreadTurn (ChTx \<lparr>st_signature = 1, st_slot = 0, st_transaction = [1], st_last_valid_block_height = 5,
        st_prioritization_fee = 0\<rparr>) [] (\<lambda>_. good_network)] = (p', sent') \<and> sent' = []"
proof -
  let ?p = "proxy_run sample_parameters quic_proxy_new [ConnectionsUpdated [(9, (1, 8))]]"
  have th: "qx_thread (fst ?p) = Running NeverConnected"
    by (simp add: update_connection_def quic_proxy_new_def)
  let ?r = "proxy_run sample_parameters (fst ?p)
     [ThreadTurn ChLagged [] (\<lambda>_. good_network), ConnectionsUpdated [(9, (1, 8))],
      ThreadTurn (ChTx \<lparr>st_signature = 1, st_slot = 0, st_transaction = [1], st_last_valid_block_height = 5,
        st_prioritization_fee = 0\<rparr>) [] (\<lambda>_. good_network)]"
  obtain p' sent' where r: "?r = (p', sent')" by (cases ?r)
  from lagged_proxy_stays_silent [OF prod.collapse [symmetric] th r] r show ?thesis by blast
qed

end
