(* ===== verification/Tpu_Service.thy ===== *)
theory Tpu_Service
  imports Tpu_Listener Leaders_Getter Quic_Proxy
begin

text \<open>
  \<open>TpuConnectionManager\<close> of \<open>services/src/tpu_utils/tpu_connection_manager.rs\<close> and
  \<open>services/src/tpu_utils/tpu_service.rs\<close>: on every slot the service asks for the leaders around it
  and keeps a connection to each of them whose address is known.  The leaders come through the
  interface \<open>leader_fetcher\<close>.
\<close>

section \<open>The connection manager\<close>

record active_connection =
  ac_identity :: pubkey
  ac_tpu_address :: socket_addr
  ac_connection_parameters :: quic_connection_parameters

record tpu_connection_manager =
  tm_endpoints :: "endpoint rotating_queue"
  tm_identity_to_active_connection :: "(pubkey, active_connection) hashmap"

definition tpu_connection_manager_new :: "(nat \<Rightarrow> endpoint) \<Rightarrow> tpu_connection_manager" where
  "tpu_connection_manager_new create_endpoint =
     \<lparr>tm_endpoints = rotating_queue_new 1 create_endpoint, tm_identity_to_active_connection = []\<rparr>"

definition active_connection_new ::
    "socket_addr \<Rightarrow> pubkey \<Rightarrow> quic_connection_parameters \<Rightarrow> active_connection" where
  "active_connection_new tpu_address identity connection_parameters =
     \<lparr>ac_identity = identity, ac_tpu_address = tpu_address, ac_connection_parameters = connection_parameters\<rparr>"

text \<open>The tasks that an update starts and the exit signals it sends.\<close>

datatype manager_action =
    StartListening active_connection identity_stakes_data
  | SendExit active_connection

fun start_missing ::
    "identity_stakes_data \<Rightarrow> quic_connection_parameters \<Rightarrow> (pubkey \<times> socket_addr) list \<Rightarrow>
     (pubkey, active_connection) hashmap \<Rightarrow> (pubkey, active_connection) hashmap \<times> manager_action list" where
  "start_missing stakes params [] m = (m, [])"
| "start_missing stakes params ((identity, addr) # keep) m =
     (if hm_get m identity = None then
        (let active = active_connection_new addr identity params;
             (m', actions) = start_missing stakes params keep (hm_put identity active m)
         in (m', StartListening active stakes # actions))
      else start_missing stakes params keep m)"

definition update_connections ::
    "(pubkey, socket_addr) hashmap \<Rightarrow> identity_stakes_data \<Rightarrow> quic_connection_parameters \<Rightarrow>
     tpu_connection_manager \<Rightarrow> tpu_connection_manager \<times> manager_action list" where
  "update_connections connections_to_keep stakes params tm =
     (let (m, started) = start_missing stakes params connections_to_keep (tm_identity_to_active_connection tm);
          kept = (\<lambda>key. hm_get connections_to_keep key \<noteq> None)
      in (tm\<lparr>tm_identity_to_active_connection := map_retain (\<lambda>key _. kept key) m\<rparr>,
          started @ List.map (\<lambda>(_, active). SendExit active) (map_retain (\<lambda>key _. \<not> kept key) m)))"

section \<open>The service\<close>

datatype connection_manager =
    DirectTpu tpu_connection_manager
  | QuicProxyPath quic_proxy

record tpu_service_config =
  tc_fanout_slots :: u64
  tc_quic_connection_params :: quic_connection_parameters
  tc_quic_port_offset :: nat

record 's tpu_service =
  ts_leader_schedule :: 's
  ts_connection_manager :: connection_manager
  ts_config :: tpu_service_config
  ts_data_cache :: data_cache

text \<open>The address of a leader with the port of its QUIC endpoint (a \<open>u16\<close>).\<close>

definition quic_address :: "nat \<Rightarrow> contact_info option \<Rightarrow> socket_addr option" where
  "quic_address offset contact_info =
     (case contact_info of
        Some info \<Rightarrow> map_option (\<lambda>(ip, port). (ip, unat (word_of_nat port + word_of_nat offset :: 16 word))) (ci_tpu info)
      | None \<Rightarrow> None)"

definition connections_to_keep ::
    "nat \<Rightarrow> (pubkey, contact_info) hashmap \<Rightarrow> leader_data list \<Rightarrow> (pubkey, socket_addr) hashmap" where
  "connections_to_keep offset cluster_nodes next_leaders =
     fold (\<lambda>x m. case quic_address offset (hm_get cluster_nodes (ld_pubkey x)) of
             Some addr \<Rightarrow> hm_put (ld_pubkey x) addr m
           | None \<Rightarrow> m) next_leaders []"

definition update_quic_connections ::
    "('s \<Rightarrow> slot \<Rightarrow> slot \<Rightarrow> ('s \<times> (leaders_error + leader_data list)) outcome) \<Rightarrow> slot \<Rightarrow> slot \<Rightarrow>
     's tpu_service \<Rightarrow> ('s tpu_service \<times> (leaders_error + manager_action list)) outcome" where
  "update_quic_connections fetch current_slot estimated_slot ts =
     bind_outcome (fetch (ts_leader_schedule ts) (saturating_sub current_slot 4)
         (estimated_slot + tc_fanout_slots (ts_config ts))) (\<lambda>(lf, r).
       let ts1 = ts\<lparr>ts_leader_schedule := lf\<rparr>
       in case r of
            Inl e \<Rightarrow> Inr (ts1, Inl e)
          | Inr next_leaders \<Rightarrow>
              (let keep = connections_to_keep (tc_quic_port_offset (ts_config ts))
                     (dc_cluster_info (ts_data_cache ts)) next_leaders
               in Inr (case ts_connection_manager ts1 of
                    DirectTpu tm \<Rightarrow>
                      (let (tm', actions) = update_connections keep
                             (get_stakes (dc_identity_stakes (ts_data_cache ts)))
                             (tc_quic_connection_params (ts_config ts)) tm
                       in (ts1\<lparr>ts_connection_manager := DirectTpu tm'\<rparr>, Inr actions))
                  | QuicProxyPath p \<Rightarrow>
                      (ts1\<lparr>ts_connection_manager := QuicProxyPath (update_connection keep p)\<rparr>, Inr []))))"

text \<open>The task of the service over the slot notifications: the first error ends it.  The data cache is
  the one of the moment of each notification.\<close>

datatype service_end = ServiceRunning | ServiceFailed leaders_error

fun tpu_service_run ::
    "('s \<Rightarrow> slot \<Rightarrow> slot \<Rightarrow> ('s \<times> (leaders_error + leader_data list)) outcome) \<Rightarrow>
     (slot_notification \<times> data_cache) list \<Rightarrow> 's tpu_service \<Rightarrow>
     ('s tpu_service \<times> manager_action list list \<times> service_end) outcome" where
  "tpu_service_run fetch [] ts = Inr (ts, [], ServiceRunning)"
| "tpu_service_run fetch ((notification, dc) # ns) ts =
     bind_outcome (update_quic_connections fetch (sn_processed_slot notification)
         (sn_estimated_processed_slot notification) (ts\<lparr>ts_data_cache := dc\<rparr>)) (\<lambda>(ts1, r).
       case r of
         Inl e \<Rightarrow> Inr (ts1, [], ServiceFailed e)
       | Inr actions \<Rightarrow> bind_outcome (tpu_service_run fetch ns ts1) (\<lambda>(ts2, as, en). Inr (ts2, actions # as, en)))"

section \<open>What an update does\<close>

lemma connections_to_keep_get:
  "hm_get (connections_to_keep offset nodes leaders) pk =
     (if \<exists>x \<in> set leaders. ld_pubkey x = pk then quic_address offset (hm_get nodes pk) else None)"
  "hm_inv (connections_to_keep offset nodes leaders)"
proof -
  let ?f = "\<lambda>x m. case quic_address offset (hm_get nodes (ld_pubkey x)) of
             Some addr \<Rightarrow> hm_put (ld_pubkey x) addr m | None \<Rightarrow> m"
  have "hm_inv m \<Longrightarrow> hm_inv (fold ?f leaders m) \<and> hm_get (fold ?f leaders m) pk =
      (if (\<exists>x \<in> set leaders. ld_pubkey x = pk) \<and> quic_address offset (hm_get nodes pk) \<noteq> None
       then quic_address offset (hm_get nodes pk) else hm_get m pk)" for m
  proof (induction leaders arbitrary: m)
    case (Cons x xs)
    have "hm_inv (?f x m)" using Cons.prems by (auto split: option.split intro: hm_inv_put)
    from Cons.IH [OF this] Cons.prems show ?case
      by (auto simp: hm.get_put split: option.split)
  qed simp
  note fold_get = this
  have "hm_inv ([] :: (pubkey, socket_addr) hashmap)" "hm_get ([] :: (pubkey, socket_addr) hashmap) pk = None"
    by (simp_all add: hm_inv_def map_keys_def hm_get_def)
  with fold_get [of "[]"] show
    "hm_get (connections_to_keep offset nodes leaders) pk =
     (if \<exists>x \<in> set leaders. ld_pubkey x = pk then quic_address offset (hm_get nodes pk) else None)"
    "hm_inv (connections_to_keep offset nodes leaders)"
    unfolding connections_to_keep_def by (cases "quic_address offset (hm_get nodes pk)"; force split: if_splits)+
qed

lemma start_missing_spec:
  assumes "start_missing stakes params keep m = (m', actions)" and "hm_inv m" and "distinct (map_keys keep)"
  shows "hm_inv m' \<and>
    (\<forall>pk. hm_get m' pk = (case hm_get m pk of Some a \<Rightarrow> Some a
       | None \<Rightarrow> map_option (\<lambda>addr. active_connection_new addr pk params) (map_of keep pk))) \<and>
    actions = List.map (\<lambda>(pk, addr). StartListening (active_connection_new addr pk params) stakes)
      (filter (\<lambda>(pk, _). hm_get m pk = None) keep)"
  using assms
proof (induction keep arbitrary: m actions)
  case (Cons e keep)
  obtain pk addr where e: "e = (pk, addr)" by (cases e)
  have d: "distinct (map_keys keep)" "pk \<notin> fst ` set keep" using Cons.prems(3) by (auto simp: e map_keys_def)
  show ?case
  proof (cases "hm_get m pk = None")
    case True
    obtain actions1 where s: "start_missing stakes params keep (hm_put pk (active_connection_new addr pk params) m) = (m', actions1)"
        "actions = StartListening (active_connection_new addr pk params) stakes # actions1"
      using Cons.prems(1) True by (auto simp: e Let_def split: prod.splits)
    have "filter (\<lambda>(k, _). hm_get (hm_put pk (active_connection_new addr pk params) m) k = None) keep =
        filter (\<lambda>(k, _). hm_get m k = None) keep"
      using d(2) Cons.prems(2) by (intro filter_cong) (force simp: hm.get_put)+
    with Cons.IH [OF s(1) hm_inv_put [OF Cons.prems(2)] d(1)] show ?thesis
      using True Cons.prems(2) d(2) by (auto simp: s(2) e hm.get_put map_of_eq_None_iff split: option.splits)
  next
    case False
    with Cons.prems(1) have "start_missing stakes params keep m = (m', actions)" by (simp add: e)
    from Cons.IH [OF this Cons.prems(2) d(1)] False show ?thesis by (auto simp: e split: option.split)
  qed
qed (auto split: option.splits)

lemma update_connections_spec:
  assumes "update_connections keep stakes params tm = (tm', actions)"
    and "hm_inv (tm_identity_to_active_connection tm)" and "hm_inv keep"
  shows "hm_inv (tm_identity_to_active_connection tm') \<and>
    (\<forall>pk. hm_get (tm_identity_to_active_connection tm') pk =
       (case hm_get keep pk of
          None \<Rightarrow> None
        | Some addr \<Rightarrow> (case hm_get (tm_identity_to_active_connection tm) pk of
            Some active \<Rightarrow> Some active | None \<Rightarrow> Some (active_connection_new addr pk params)))) \<and>
    (\<forall>a. SendExit a \<in> set actions \<longleftrightarrow>
       (\<exists>pk. hm_get (tm_identity_to_active_connection tm) pk = Some a \<and> hm_get keep pk = None)) \<and>
    (\<forall>a st. StartListening a st \<in> set actions \<longleftrightarrow> st = stakes \<and>
       (\<exists>pk addr. hm_get (tm_identity_to_active_connection tm) pk = None \<and> hm_get keep pk = Some addr \<and>
          a = active_connection_new addr pk params))"
proof -
  let ?m = "tm_identity_to_active_connection tm"
  obtain m started where sm: "start_missing stakes params keep ?m = (m, started)"
    by (cases "start_missing stakes params keep ?m")
  note result = assms(1) [unfolded update_connections_def sm Let_def prod.case prod.inject not_not]
  have u: "tm_identity_to_active_connection tm' = map_retain (\<lambda>key _. hm_get keep key \<noteq> None) m"
      "actions = started @ List.map (\<lambda>(_, active). SendExit active) (map_retain (\<lambda>key _. hm_get keep key = None) m)"
    unfolding result [THEN conjunct1, symmetric] result [THEN conjunct2, symmetric]
    by simp_all
  have keep_get: "map_of keep pk = hm_get keep pk" for pk by (simp add: hm_get_def)
  note spec = start_missing_spec [OF sm assms(2) assms(3) [unfolded hm_inv_def], unfolded keep_get]
  have get: "hm_get m pk = (case hm_get ?m pk of Some a \<Rightarrow> Some a
       | None \<Rightarrow> map_option (\<lambda>addr. active_connection_new addr pk params) (hm_get keep pk))" for pk
    using spec by blast
  have inv_m: "hm_inv m" and started: "started = List.map (\<lambda>(pk, addr).
      StartListening (active_connection_new addr pk params) stakes) (filter (\<lambda>(pk, _). hm_get ?m pk = None) keep)"
    using spec by blast+
  have mem: "(pk, a) \<in> set xs \<longleftrightarrow> hm_get xs pk = Some a" if "hm_inv xs" for pk and a :: 'z and xs
    using that by (simp add: hm_get_def hm_inv_def map_keys_def)
  have "hm_get (tm_identity_to_active_connection tm') pk =
       (case hm_get keep pk of
          None \<Rightarrow> None
        | Some addr \<Rightarrow> (case hm_get ?m pk of
            Some active \<Rightarrow> Some active | None \<Rightarrow> Some (active_connection_new addr pk params)))" for pk
    using hm_get_retain [of m "\<lambda>key _. hm_get keep key \<noteq> None" pk] inv_m
    by (cases "hm_get keep pk"; cases "hm_get ?m pk") (simp_all add: u(1) get)
  moreover have "SendExit a \<in> set actions \<longleftrightarrow> (\<exists>pk. hm_get ?m pk = Some a \<and> hm_get keep pk = None)" for a
  proof -
    have "SendExit a \<notin> set started" by (auto simp: started)
    then have "SendExit a \<in> set actions \<longleftrightarrow> (\<exists>pk. (pk, a) \<in> set m \<and> hm_get keep pk = None)"
      by (auto simp: u(2) map_retain_def)
    also have "\<dots> \<longleftrightarrow> (\<exists>pk. hm_get m pk = Some a \<and> hm_get keep pk = None)" by (simp add: mem [OF inv_m])
    also have "(hm_get m pk = Some a \<and> hm_get keep pk = None) \<longleftrightarrow> (hm_get ?m pk = Some a \<and> hm_get keep pk = None)" for pk
      by (cases "hm_get ?m pk") (auto simp: get)
    then have "(\<exists>pk. hm_get m pk = Some a \<and> hm_get keep pk = None) \<longleftrightarrow> (\<exists>pk. hm_get ?m pk = Some a \<and> hm_get keep pk = None)"
      by (simp only:)
    finally show ?thesis .
  qed
  moreover have "StartListening a st \<in> set actions \<longleftrightarrow> st = stakes \<and>
       (\<exists>pk addr. hm_get ?m pk = None \<and> hm_get keep pk = Some addr \<and> a = active_connection_new addr pk params)" for a st
  proof -
    have "StartListening a st \<in> set actions \<longleftrightarrow> StartListening a st \<in> set started" by (auto simp: u(2))
    also have "\<dots> \<longleftrightarrow> st = stakes \<and>
       (\<exists>pk addr. (pk, addr) \<in> set keep \<and> hm_get ?m pk = None \<and> a = active_connection_new addr pk params)"
      by (auto simp: started)
    also have "\<dots> \<longleftrightarrow> st = stakes \<and>
       (\<exists>pk addr. hm_get ?m pk = None \<and> hm_get keep pk = Some addr \<and> a = active_connection_new addr pk params)"
      by (simp add: mem [OF assms(3)] conj_ac)
    finally show ?thesis .
  qed
  moreover have "hm_inv (tm_identity_to_active_connection tm')" unfolding u(1) by (rule hm_inv_retain [OF inv_m])
  ultimately show ?thesis by blast
qed

section \<open>Updates with any leader fetcher\<close>

text \<open>The connections after a successful update, for the leaders that the fetcher returned.\<close>

definition connections_after ::
    "nat \<Rightarrow> data_cache \<Rightarrow> quic_connection_parameters \<Rightarrow> leader_data list \<Rightarrow>
     (pubkey, active_connection) hashmap \<Rightarrow> pubkey \<Rightarrow> active_connection option" where
  "connections_after offset dc params leaders m pk =
     (if \<exists>x \<in> set leaders. ld_pubkey x = pk then
        (case quic_address offset (hm_get (dc_cluster_info dc) pk) of
           None \<Rightarrow> None
         | Some addr \<Rightarrow> (case hm_get m pk of
             Some active \<Rightarrow> Some active | None \<Rightarrow> Some (active_connection_new addr pk params)))
      else None)"

lemma update_quic_connections_direct:
  assumes "update_quic_connections fetch current_slot estimated_slot ts = Inr (ts', Inr actions)"
    and "ts_connection_manager ts = DirectTpu tm" and "hm_inv (tm_identity_to_active_connection tm)"
  obtains tm' leaders where
    "fetch (ts_leader_schedule ts) (saturating_sub current_slot 4) (estimated_slot + tc_fanout_slots (ts_config ts)) =
       Inr (ts_leader_schedule ts', Inr leaders)"
    and "ts_connection_manager ts' = DirectTpu tm'" and "hm_inv (tm_identity_to_active_connection tm')"
    and "\<forall>pk. hm_get (tm_identity_to_active_connection tm') pk =
      connections_after (tc_quic_port_offset (ts_config ts)) (ts_data_cache ts)
        (tc_quic_connection_params (ts_config ts)) leaders (tm_identity_to_active_connection tm) pk"
    and "\<forall>a. SendExit a \<in> set actions \<longleftrightarrow>
      (\<exists>pk. hm_get (tm_identity_to_active_connection tm) pk = Some a \<and>
         hm_get (tm_identity_to_active_connection tm') pk = None)"
proof -
  let ?offset = "tc_quic_port_offset (ts_config ts)" and ?nodes = "dc_cluster_info (ts_data_cache ts)"
    and ?params = "tc_quic_connection_params (ts_config ts)"
  obtain lf r where fr: "fetch (ts_leader_schedule ts) (saturating_sub current_slot 4)
      (estimated_slot + tc_fanout_slots (ts_config ts)) = Inr (lf, r)"
    using assms(1) by (auto simp: update_quic_connections_def)
  with assms(1) obtain leaders where "r = Inr leaders"
    by (cases r) (auto simp: update_quic_connections_def Let_def)
  with fr have f: "fetch (ts_leader_schedule ts) (saturating_sub current_slot 4)
      (estimated_slot + tc_fanout_slots (ts_config ts)) = Inr (lf, Inr leaders)" by simp
  let ?keep = "connections_to_keep ?offset ?nodes leaders"
  let ?stakes = "get_stakes (dc_identity_stakes (ts_data_cache ts))"
  obtain tm' as where u: "update_connections ?keep ?stakes ?params tm = (tm', as)"
    by (cases "update_connections ?keep ?stakes ?params tm")
  have ts': "ts' = ts\<lparr>ts_leader_schedule := lf, ts_connection_manager := DirectTpu tm'\<rparr>" "actions = as"
    using assms(1,2) f u by (auto simp: update_quic_connections_def Let_def)
  note spec = update_connections_spec [OF u assms(3) connections_to_keep_get(2)]
  have after: "hm_get (tm_identity_to_active_connection tm') pk =
      connections_after ?offset (ts_data_cache ts) ?params leaders (tm_identity_to_active_connection tm) pk" for pk
    using spec by (simp add: connections_after_def connections_to_keep_get(1))
  have gone: "hm_get (tm_identity_to_active_connection tm') pk = None \<longleftrightarrow> hm_get ?keep pk = None" for pk
    using spec by (simp split: option.split)
  show ?thesis
  proof (rule that)
    show "fetch (ts_leader_schedule ts) (saturating_sub current_slot 4)
        (estimated_slot + tc_fanout_slots (ts_config ts)) = Inr (ts_leader_schedule ts', Inr leaders)"
      using f by (simp add: ts')
    show "ts_connection_manager ts' = DirectTpu tm'" by (simp add: ts')
    show "hm_inv (tm_identity_to_active_connection tm')" using spec by blast
    show "\<forall>pk. hm_get (tm_identity_to_active_connection tm') pk =
        connections_after ?offset (ts_data_cache ts) ?params leaders (tm_identity_to_active_connection tm) pk"
      using after by blast
    show "\<forall>a. SendExit a \<in> set actions \<longleftrightarrow> (\<exists>pk. hm_get (tm_identity_to_active_connection tm) pk = Some a \<and>
         hm_get (tm_identity_to_active_connection tm') pk = None)"
      using spec unfolding gone ts'(2) by blast
  qed
qed

context leader_fetcher
begin

text \<open>Whatever the fetcher, every connection that is kept or started belongs to the leader of a slot
  from four slots ago to the last slot of the fanout.\<close>

lemma connected_leaders_in_window:
  assumes "invar (ts_leader_schedule ts)"
    and "update_quic_connections fetch current_slot estimated_slot ts = Inr (ts', Inr actions)"
    and "ts_connection_manager ts = DirectTpu tm" and "hm_inv (tm_identity_to_active_connection tm)"
    and "ts_connection_manager ts' = DirectTpu tm'" and "hm_get (tm_identity_to_active_connection tm') pk = Some a"
  shows "\<exists>sl. saturating_sub current_slot 4 \<le> sl \<and> sl \<le> estimated_slot + tc_fanout_slots (ts_config ts) \<and>
    (\<exists>leaders. fetch (ts_leader_schedule ts) (saturating_sub current_slot 4)
       (estimated_slot + tc_fanout_slots (ts_config ts)) = Inr (ts_leader_schedule ts', Inr leaders) \<and>
       \<lparr>ld_leader_slot = sl, ld_pubkey = pk\<rparr> \<in> set leaders)"
proof -
  obtain tm'' leaders where f: "fetch (ts_leader_schedule ts) (saturating_sub current_slot 4)
        (estimated_slot + tc_fanout_slots (ts_config ts)) = Inr (ts_leader_schedule ts', Inr leaders)"
      "ts_connection_manager ts' = DirectTpu tm''"
      "\<forall>pk. hm_get (tm_identity_to_active_connection tm'') pk =
        connections_after (tc_quic_port_offset (ts_config ts)) (ts_data_cache ts)
          (tc_quic_connection_params (ts_config ts)) leaders (tm_identity_to_active_connection tm) pk"
    by (rule update_quic_connections_direct [OF assms(2-4)])
  from f(2,3) assms(5,6) have "connections_after (tc_quic_port_offset (ts_config ts)) (ts_data_cache ts)
      (tc_quic_connection_params (ts_config ts)) leaders (tm_identity_to_active_connection tm) pk = Some a" by simp
  then obtain x where x: "x \<in> set leaders" "ld_pubkey x = pk"
    by (auto simp: connections_after_def split: if_splits)
  have "\<lparr>ld_leader_slot = ld_leader_slot x, ld_pubkey = pk\<rparr> = x" using x(2) by (cases x) simp
  with fetch_range [OF assms(1) f(1) x(1)] x(1) f(1) show ?thesis
    by (intro exI [of _ "ld_leader_slot x"] conjI exI [of _ leaders]) simp_all
qed

end

section \<open>Properties\<close>


definition sample_service :: "json_leader_getter tpu_service" where
  "sample_service =
     \<lparr>ts_leader_schedule = json_leader_getter_new 4 2,
      ts_connection_manager = DirectTpu \<lparr>tm_endpoints = rotating_queue_new 1 (\<lambda>i. i),
        tm_identity_to_active_connection =
          [(11, active_connection_new (1, 70) 11 sample_parameters), (12, active_connection_new (1, 80) 12 sample_parameters)]\<rparr>,
      ts_config = \<lparr>tc_fanout_slots = 0, tc_quic_connection_params = sample_parameters, tc_quic_port_offset = 6\<rparr>,
      ts_data_cache = sample_cache\<lparr>dc_cluster_info :=
        [(11, \<lparr>ci_pubkey = ''a'', ci_tpu = Some (2, 9)\<rparr>), (13, \<lparr>ci_pubkey = ''b'', ci_tpu = Some (3, 9)\<rparr>)]\<rparr>\<rparr>"

text \<open>Leader 11 has moved and keeps its old connection, 12 leads no slot any more, 13 is new and the
  address of 14 is not known.\<close>

definition sample_reply :: "slot \<Rightarrow> u64 \<Rightarrow> string + pubkey list" where
  "sample_reply sl n = Inr [11, 13, 14, 11]"

lemma sample_connections_update:
  "case update_quic_connections (json_slot_leaders sample_reply) 10 10 sample_service of
     Inr (ts', Inr actions) \<Rightarrow>
       (case ts_connection_manager ts' of
          DirectTpu tm' \<Rightarrow> map_keys (tm_identity_to_active_connection tm') = [11, 13]
        | _ \<Rightarrow> False)
   | _ \<Rightarrow> False"
  by code_simp


text \<open>The first slot for which the leaders cannot be fetched ends the task of the service, and with it all
  later updates: when the cached leaders do not cover the window and the RPC node answers with an
  error, the notifications after it are never looked at.\<close>

theorem failed_fetch_ends_service:
  assumes "a = saturating_sub (sn_processed_slot n) 4"
    and "b = sn_estimated_processed_slot n + tc_fanout_slots (ts_config ts)"
    and "a < b" and "saturating_sub b a \<le> jl_leaders_to_cache_count (ts_leader_schedule ts)"
    and "jl_leader_schedule (ts_leader_schedule ts) = []"
    and "a \<le> a + jl_leaders_to_cache_count (ts_leader_schedule ts)"
    and "\<And>sl k. reply sl k = Inl e"
  shows "\<exists>ts'. tpu_service_run (json_slot_leaders reply) ((n, dc) # ns) ts =
    Inr (ts', [], ServiceFailed (FetchFailed e))"
proof -
  have "json_slot_leaders reply (ts_leader_schedule ts) a b =
      Inr (ts_leader_schedule ts, Inl (FetchFailed e))"
    using assms(3-7) by (simp add: json_slot_leaders_def update_leader_schedule_def Let_def not_le not_less)
  then show ?thesis using assms(1,2) by (simp add: update_quic_connections_def Let_def)
qed

lemma failed_fetch_ends_service_witness:
  "\<exists>ts'. tpu_service_run (json_slot_leaders (\<lambda>_ _. Inl ''429''))
     [(\<lparr>sn_processed_slot = 10, sn_estimated_processed_slot = 10\<rparr>, sample_cache),
      (\<lparr>sn_processed_slot = 11, sn_estimated_processed_slot = 11\<rparr>, sample_cache)] sample_service =
    Inr (ts', [], ServiceFailed (FetchFailed ''429''))"
  by (rule failed_fetch_ends_service [OF refl refl])
    (simp_all add: saturating_sub_def sample_service_def json_leader_getter_new_def)

end
