(* ===== verification/Postgres_Store.thy ===== *)
theory Postgres_Store
  imports Data_Cache Leader_Lookup Block_Mapping Fee_Method "HOL-Library.Multiset"
begin

text \<open>
  The block storage: \<open>blockstore/src/block_stores/postgres\<close> (rows, schemas of epochs, saving and
  querying) and \<open>multiple_strategy_block_store.rs\<close> with the archive of \<open>faithful_history\<close>.  The
  database is modelled by its tables: an epoch has a schema with the blocks, the table of
  signatures and the table of transaction data, whose rows are lists of values in the order of the
  columns, as the statements of the code insert them by position.  The codecs are arguments.
\<close>

section \<open>Schemas of epochs\<close>

definition epoch_schema_prefix :: string where
  "epoch_schema_prefix = ''rpc2a_epoch_''"

definition build_schema_name :: "u64 \<Rightarrow> string" where
  "build_schema_name epoch = epoch_schema_prefix @ decimal (unat epoch)"

text \<open>\<open>trim_start_matches\<close> takes the prefix off as often as it is there.\<close>

function trim_prefix :: "string \<Rightarrow> string" where
  "trim_prefix s =
     (if take (length epoch_schema_prefix) s = epoch_schema_prefix
      then trim_prefix (drop (length epoch_schema_prefix) s) else s)"
  by pat_completeness auto
termination
proof (relation "measure length")
  fix s assume "take (length epoch_schema_prefix) s = epoch_schema_prefix"
  then have "s \<noteq> []" by (auto simp: epoch_schema_prefix_def)
  then show "(drop (length epoch_schema_prefix) s, s) \<in> measure length"
    by (simp add: epoch_schema_prefix_def length_greater_0_conv)
qed simp

declare trim_prefix.simps [simp del]

definition parse_epoch_from_schema_name :: "string \<Rightarrow> u64 outcome" where
  "parse_epoch_from_schema_name schema_name =
     (case parse_usize (trim_prefix schema_name) of
        None \<Rightarrow> Inl UnwrapNone
      | Some n \<Rightarrow> Inr (word_of_nat n))"

section \<open>Rows\<close>

text \<open>A \<open>bigint\<close> is a 64-bit word, read as a signed number where the database compares.\<close>

type_synonym i64 = "64 word"

record pg_codec =
  px_signature_to_string :: "signature \<Rightarrow> string"
  px_signature_from_str :: "string \<Rightarrow> signature option"
  px_hash_to_string :: "hash \<Rightarrow> string"
  px_error_serialize :: "wire \<Rightarrow> string option"
  px_error_deserialize :: "string \<Rightarrow> wire option"
  px_message_encode :: "versioned_message \<Rightarrow> string"
  px_message_deserialize :: "string \<Rightarrow> versioned_message option"
  px_rewards_serialize :: "reward list \<Rightarrow> string option"
  px_rewards_deserialize :: "string \<Rightarrow> reward list option"
  px_block_env :: block_env

record postgres_block =
  pgb_slot :: i64
  pgb_blockhash :: string
  pgb_block_height :: i64
  pgb_parent_slot :: i64
  pgb_block_time :: i64
  pgb_previous_blockhash :: string
  pgb_rewards :: "string option"
  pgb_leader_id :: "string option"

definition postgres_block_from :: "pg_codec \<Rightarrow> produced_block \<Rightarrow> postgres_block" where
  "postgres_block_from px b =
     \<lparr>pgb_slot = pb_slot b, pgb_blockhash = px_hash_to_string px (pb_blockhash b),
      pgb_block_height = pb_block_height b, pgb_parent_slot = pb_parent_slot b,
      pgb_block_time = pb_block_time b,
      pgb_previous_blockhash = px_hash_to_string px (pb_previous_blockhash b),
      pgb_rewards = Option.bind (pb_rewards b) (px_rewards_serialize px),
      pgb_leader_id = pb_leader_id b\<rparr>"

definition to_produced_block ::
    "pg_codec \<Rightarrow> postgres_block \<Rightarrow> transaction_info list \<Rightarrow> commitment_config \<Rightarrow> produced_block outcome" where
  "to_produced_block px row transaction_infos c =
     bind_outcome (expect_hash (px_block_env px) (pgb_blockhash row)) (\<lambda>blockhash.
     bind_outcome (expect_hash (px_block_env px) (pgb_previous_blockhash row)) (\<lambda>previous_blockhash.
       Inr \<lparr>pb_transactions = transaction_infos, pb_leader_id = None, pb_blockhash = blockhash,
         pb_block_height = pgb_block_height row, pb_slot = pgb_slot row,
         pb_parent_slot = pgb_parent_slot row, pb_block_time = pgb_block_time row,
         pb_previous_blockhash = previous_blockhash,
         pb_rewards = Option.bind (pgb_rewards row) (px_rewards_deserialize px),
         pb_commitment_config = c\<rparr>))"

record postgres_transaction =
  pgt_signature :: string
  pgt_slot :: i64
  pgt_err :: "string option"
  pgt_cu_requested :: "i64 option"
  pgt_prioritization_fees :: "i64 option"
  pgt_cu_consumed :: "i64 option"
  pgt_recent_blockhash :: string
  pgt_message :: string

definition postgres_transaction_new :: "pg_codec \<Rightarrow> transaction_info \<Rightarrow> slot \<Rightarrow> postgres_transaction" where
  "postgres_transaction_new px t sl =
     \<lparr>pgt_signature = px_signature_to_string px (ti_signature t), pgt_slot = sl,
      pgt_err = Option.bind (ti_err t) (px_error_serialize px),
      pgt_cu_requested = map_option ucast (ti_cu_requested t),
      pgt_prioritization_fees = ti_prioritization_fees t, pgt_cu_consumed = ti_cu_consumed t,
      pgt_recent_blockhash = px_hash_to_string px (ti_recent_blockhash t),
      pgt_message = px_message_encode px (ti_message t)\<rparr>"

definition to_transaction_info :: "pg_codec \<Rightarrow> postgres_transaction \<Rightarrow> transaction_info outcome" where
  "to_transaction_info px row =
     (case px_signature_from_str px (pgt_signature row) of
        None \<Rightarrow> Inl UnwrapNone
      | Some sig \<Rightarrow>
          bind_outcome (expect_hash (px_block_env px) (pgt_recent_blockhash row)) (\<lambda>recent_blockhash.
            case px_message_deserialize px (pgt_message row) of
              None \<Rightarrow> Inl (ExplicitPanic ''serialized message'')
            | Some message \<Rightarrow> Inr
                \<lparr>ti_signature = sig, ti_is_vote = False,
                 ti_err = Option.bind (pgt_err row) (px_error_deserialize px),
                 ti_cu_requested = map_option ucast (pgt_cu_requested row),
                 ti_prioritization_fees = pgt_prioritization_fees row,
                 ti_cu_consumed = pgt_cu_consumed row, ti_recent_blockhash = recent_blockhash,
                 ti_message = message, ti_writable_accounts = [], ti_readable_accounts = [],
                 ti_address_lookup_tables = []\<rparr>))"

section \<open>Tables\<close>

datatype column =
    TransactionId | Signature | SlotColumn | CuRequested | PrioritizationFees | CuConsumed
  | RecentBlockhash | ErrColumn | MessageColumn

datatype sql_value = SqlNull | SqlBigint i64 | SqlText string

definition sql_bigint :: "i64 option \<Rightarrow> sql_value" where
  "sql_bigint x = (case x of None \<Rightarrow> SqlNull | Some n \<Rightarrow> SqlBigint n)"

definition sql_text :: "string option \<Rightarrow> sql_value" where
  "sql_text x = (case x of None \<Rightarrow> SqlNull | Some s \<Rightarrow> SqlText s)"

text \<open>The columns of \<open>transaction_blockdata\<close> and of the temporary table in the order of their
  definitions, the columns of the \<open>COPY\<close>, the values that are written for them, and the columns of
  the \<open>SELECT\<close> behind the \<open>INSERT\<close>.\<close>

definition blockdata_columns :: "column list" where
  "blockdata_columns = [TransactionId, SlotColumn, CuRequested, PrioritizationFees, CuConsumed,
     RecentBlockhash, ErrColumn, MessageColumn]"

definition not_null_columns :: "column list" where
  "not_null_columns = [TransactionId, SlotColumn, RecentBlockhash, MessageColumn]"

definition copy_columns :: "column list" where
  "copy_columns = [Signature, SlotColumn, CuRequested, PrioritizationFees, CuConsumed,
     RecentBlockhash, ErrColumn, MessageColumn]"

definition copied_values :: "postgres_transaction \<Rightarrow> sql_value list" where
  "copied_values t = [SqlText (pgt_signature t), SqlBigint (pgt_slot t), sql_bigint (pgt_cu_requested t),
     sql_bigint (pgt_prioritization_fees t), sql_bigint (pgt_cu_consumed t), sql_text (pgt_err t),
     SqlText (pgt_recent_blockhash t), SqlText (pgt_message t)]"

definition selected_columns :: "column list" where
  "selected_columns = [SlotColumn, CuRequested, PrioritizationFees, CuConsumed, ErrColumn,
     RecentBlockhash, MessageColumn]"

definition value_at :: "column list \<Rightarrow> sql_value list \<Rightarrow> column \<Rightarrow> sql_value" where
  "value_at columns row c = unwrap_or (map_of (zip columns row) c) SqlNull"

record epoch_tables =
  et_blocks :: "postgres_block list"
  et_transaction_ids :: "(string \<times> i64) list"
  et_blockdata :: "sql_value list list"

definition empty_tables :: epoch_tables where
  "empty_tables = \<lparr>et_blocks = [], et_transaction_ids = [], et_blockdata = []\<rparr>"

type_synonym database = "(string, epoch_tables) hashmap"

section \<open>Statements\<close>

datatype sql_error = DuplicateSchema | UndefinedTable | UniqueViolation | NotNullViolation | ForeignKeyViolation | OtherError

definition create_schema :: "string \<Rightarrow> database \<Rightarrow> sql_error + database" where
  "create_schema schema db = (if hm_get db schema \<noteq> None then Inl DuplicateSchema else Inr (hm_put schema empty_tables db))"

text \<open>\<open>PostgresBlock::save\<close>: \<open>ON CONFLICT DO NOTHING\<close> returns no row.\<close>

definition save_block_row :: "string \<Rightarrow> postgres_block \<Rightarrow> database \<Rightarrow> sql_error + (database \<times> bool)" where
  "save_block_row schema row db =
     (case hm_get db schema of
        None \<Rightarrow> Inl UndefinedTable
      | Some et \<Rightarrow>
          if pgb_slot row \<in> pgb_slot ` set (et_blocks et) then Inr (db, False)
          else Inr (hm_put schema (et\<lparr>et_blocks := et_blocks et @ [row]\<rparr>) db, True))"

text \<open>The signatures that are new get the next numbers of the sequence.\<close>

fun insert_signatures :: "string list \<Rightarrow> (string \<times> i64) list \<Rightarrow> (string \<times> i64) list" where
  "insert_signatures [] ids = ids"
| "insert_signatures (sig # sigs) ids =
     insert_signatures sigs
       (if map_of ids sig = None then ids @ [(sig, word_of_nat (Suc (length ids)))] else ids)"

definition blockdata_row :: "(string \<times> i64) list \<Rightarrow> postgres_transaction \<Rightarrow> sql_value list" where
  "blockdata_row ids t =
     (let raw = value_at copy_columns (copied_values t)
      in sql_bigint (map_of ids (pgt_signature t)) # List.map raw selected_columns)"

fun insert_blockdata ::
    "i64 set \<Rightarrow> sql_value list list \<Rightarrow> sql_value list list \<Rightarrow> sql_error + sql_value list list" where
  "insert_blockdata slots [] table = Inr table"
| "insert_blockdata slots (row # rows) table =
     (if list_ex (\<lambda>c. value_at blockdata_columns row c = SqlNull) not_null_columns then Inl NotNullViolation
      else if value_at blockdata_columns row TransactionId \<in>
           set (List.map (\<lambda>r. value_at blockdata_columns r TransactionId) table) then Inl UniqueViolation
      else if value_at blockdata_columns row SlotColumn \<notin> SqlBigint ` slots then Inl ForeignKeyViolation
      else insert_blockdata slots rows (table @ [row]))"

definition save_transactions_from_block ::
    "string \<Rightarrow> postgres_transaction list \<Rightarrow> database \<Rightarrow> database \<times> (sql_error + unit)" where
  "save_transactions_from_block schema transactions db =
     (case hm_get db schema of
        None \<Rightarrow> (db, Inl UndefinedTable)
      | Some et \<Rightarrow>
          (let ids = insert_signatures (List.map pgt_signature transactions) (et_transaction_ids et);
               et1 = et\<lparr>et_transaction_ids := ids\<rparr>
           in case insert_blockdata (pgb_slot ` set (et_blocks et)) (List.map (blockdata_row ids) transactions)
                     (et_blockdata et) of
                Inl e \<Rightarrow> (hm_put schema et1 db, Inl e)
              | Inr rows \<Rightarrow> (hm_put schema (et1\<lparr>et_blockdata := rows\<rparr>) db, Inr ())))"

section \<open>Writing\<close>

definition parallel_write_sessions :: nat where
  "parallel_write_sessions = 4"

definition min_write_chunk_size :: nat where
  "min_write_chunk_size = 500"

text \<open>\<open>div_ceil\<close>: the additions do not saturate for the lengths of lists.\<close>

definition div_ceil :: "nat \<Rightarrow> nat \<Rightarrow> nat" where
  "div_ceil a b = (a + b - 1) div b"

text \<open>A panic leaves the database as it is at that moment.\<close>

datatype save_result = Saved | SaveFailed sql_error | SavePanicked

definition start_new_epoch_if_necessary :: "u64 \<Rightarrow> database \<Rightarrow> database \<times> (sql_error + bool)" where
  "start_new_epoch_if_necessary epoch db =
     (case create_schema (build_schema_name epoch) db of
        Inl DuplicateSchema \<Rightarrow> (db, Inr False)
      | Inl e \<Rightarrow> (db, Inl e)
      | Inr db' \<Rightarrow> (db', Inr True))"

definition prepare_epoch_schema :: "epoch_schedule \<Rightarrow> slot \<Rightarrow> database \<Rightarrow> database \<times> (sql_error + bool)" where
  "prepare_epoch_schema es sl db =
     (let current_epoch = ep_epoch (get_epoch_at_slot es sl)
      in case start_new_epoch_if_necessary current_epoch db of
           (db1, Inl e) \<Rightarrow> (db1, Inl e)
         | (db1, Inr created_current) \<Rightarrow>
             (case start_new_epoch_if_necessary (get_next_epoch current_epoch) db1 of
                (db2, Inl e) \<Rightarrow> (db2, Inl e)
              | (db2, Inr created_next) \<Rightarrow> (db2, Inr (created_current \<or> created_next))))"

definition drop_epoch_schema :: "u64 \<Rightarrow> database \<Rightarrow> database" where
  "drop_epoch_schema epoch db = hm_del (build_schema_name epoch) db"

text \<open>The chunks are saved by parallel sessions; all of them are waited for before a failure panics.\<close>

fun save_chunks :: "string \<Rightarrow> postgres_transaction list list \<Rightarrow> database \<Rightarrow> database \<times> bool" where
  "save_chunks schema [] db = (db, True)"
| "save_chunks schema (c # cs) db =
     (let (db1, r) = save_transactions_from_block schema c db; (db2, ok) = save_chunks schema cs db1
      in (db2, r = Inr () \<and> ok))"

definition write_chunk_size :: "nat \<Rightarrow> nat" where
  "write_chunk_size n = max (div_ceil n parallel_write_sessions) min_write_chunk_size"

definition save_block :: "pg_codec \<Rightarrow> epoch_schedule \<Rightarrow> produced_block \<Rightarrow> database \<Rightarrow> database \<times> save_result" where
  "save_block px es b db =
     (let sl = pb_slot b;
          transactions = List.map (\<lambda>t. postgres_transaction_new px t sl) (pb_transactions b);
          schema = build_schema_name (ep_epoch (get_epoch_at_slot es sl))
      in case save_block_row schema (postgres_block_from px b) db of
           Inl e \<Rightarrow> (db, SaveFailed e)
         | Inr (db1, inserted) \<Rightarrow>
             if \<not> inserted then (db1, Saved)
             else
               (let cs = chunks (write_chunk_size (length transactions)) transactions
                in if \<not> length cs \<le> parallel_write_sessions then (db1, SavePanicked)
                   else (case save_chunks schema cs db1 of
                           (db2, ok) \<Rightarrow> (db2, if ok then Saved else SavePanicked))))"

section \<open>Querying\<close>

definition option_bigint :: "sql_value \<Rightarrow> i64 option" where
  "option_bigint v = (case v of SqlBigint n \<Rightarrow> Some n | _ \<Rightarrow> None)"

definition option_text :: "sql_value \<Rightarrow> string option" where
  "option_text v = (case v of SqlText s \<Rightarrow> Some s | _ \<Rightarrow> None)"

text \<open>A row of the query by the names of its columns; a value that is not there panics when it is read
  as a plain string.\<close>

definition transaction_of_row :: "(string \<times> i64) list \<Rightarrow> slot \<Rightarrow> sql_value list \<Rightarrow> postgres_transaction outcome" where
  "transaction_of_row ids sl row =
     (let get = value_at blockdata_columns row;
          sig = List.find (\<lambda>(_, n). SqlBigint n = get TransactionId) ids
      in case (sig, get RecentBlockhash, get MessageColumn) of
           (Some (s, _), SqlText recent_blockhash, SqlText message) \<Rightarrow> Inr
             \<lparr>pgt_signature = s, pgt_slot = sl, pgt_err = option_text (get ErrColumn),
              pgt_cu_requested = option_bigint (get CuRequested),
              pgt_prioritization_fees = option_bigint (get PrioritizationFees),
              pgt_cu_consumed = option_bigint (get CuConsumed),
              pgt_recent_blockhash = recent_blockhash, pgt_message = message\<rparr>
         | _ \<Rightarrow> Inl UnwrapNone)"

definition query_block ::
    "pg_codec \<Rightarrow> epoch_schedule \<Rightarrow> slot \<Rightarrow> database \<Rightarrow> (string + produced_block) outcome" where
  "query_block px es sl db =
     (case hm_get db (build_schema_name (ep_epoch (get_epoch_at_slot es sl))) of
        None \<Rightarrow> Inl UnwrapNone
      | Some et \<Rightarrow>
          (case List.find (\<lambda>row. pgb_slot row = sl) (et_blocks et) of
             None \<Rightarrow> Inr (Inl ''not found in postgres'')
           | Some row \<Rightarrow>
               bind_outcome (map_outcome (\<lambda>r. bind_outcome (transaction_of_row (et_transaction_ids et) sl r)
                   (to_transaction_info px))
                 (filter (\<lambda>r. value_at blockdata_columns r SlotColumn = SqlBigint sl) (et_blockdata et)))
               (\<lambda>tx_infos. bind_outcome (to_produced_block px row tx_infos confirmed_config) (\<lambda>b. Inr (Inr b)))))"

section \<open>Ranges\<close>

text \<open>An inclusive range of slots.  The database compares signed numbers.\<close>

type_synonym slot_range = "slot \<times> slot"

definition in_range :: "slot_range \<Rightarrow> slot \<Rightarrow> bool" where
  "in_range r sl \<longleftrightarrow> fst r \<le> sl \<and> sl \<le> snd r"

definition sql_min :: "i64 list \<Rightarrow> i64" where
  "sql_min xs = word_of_int (min_or 0 (List.map sint xs))"

definition sql_max :: "i64 list \<Rightarrow> i64" where
  "sql_max xs = word_of_int (max_or 0 (List.map sint xs))"

text \<open>The pattern \<open>^rpc2a_epoch_[0-9]+$\<close> of the query for the schemas.\<close>

definition is_epoch_schema :: "string \<Rightarrow> bool" where
  "is_epoch_schema name \<longleftrightarrow> starts_with epoch_schema_prefix name \<and>
     (let digits = drop (length epoch_schema_prefix) name
      in digits \<noteq> [] \<and> list_all (\<lambda>c. digit_value c \<noteq> None) digits)"

text \<open>No two schemas have numbers of the same epoch: \<open>build_schema_name\<close> writes no leading zeros.\<close>

definition get_slot_range_by_epoch :: "database \<Rightarrow> (u64, slot_range) hashmap outcome" where
  "get_slot_range_by_epoch db =
     map_outcome (\<lambda>(name, et). bind_outcome (parse_epoch_from_schema_name name) (\<lambda>epoch.
         Inr (epoch, (sql_min (List.map pgb_slot (et_blocks et)), sql_max (List.map pgb_slot (et_blocks et))))))
       (filter (\<lambda>(name, et). is_epoch_schema name \<and> et_blocks et \<noteq> []) db)"

definition is_block_in_range :: "epoch_schedule \<Rightarrow> slot \<Rightarrow> database \<Rightarrow> bool outcome" where
  "is_block_in_range es sl db =
     bind_outcome (get_slot_range_by_epoch db) (\<lambda>ranges.
       Inr (map_option (\<lambda>slot_range. in_range slot_range sl)
              (hm_get ranges (ep_epoch (get_epoch_at_slot es sl))) \<noteq> None))"

definition get_slot_range :: "database \<Rightarrow> slot_range outcome" where
  "get_slot_range db =
     bind_outcome (get_slot_range_by_epoch db) (\<lambda>ranges.
       if ranges = [] then Inl (ExplicitPanic ''non-empty result - TODO'')
       else Inr (min_or 0 (List.map (fst \<circ> snd) ranges), max_or 0 (List.map (snd \<circ> snd) ranges)))"

section \<open>The archive and the combined storage\<close>

datatype block_source = RecentEpochDatabase | FaithfulArchive

text \<open>The archive is the answer of its RPC node for a slot.\<close>

type_synonym faithful_store = "slot \<Rightarrow> string + ui_block"

text \<open>The archive is switched off: \<open>new\<close> ignores the client it gets.\<close>

definition block_storage_new :: "faithful_store option \<Rightarrow> faithful_store option" where
  "block_storage_new _ = None"

definition faithful_slot_range :: slot_range where
  "faithful_slot_range = (1, 0)"

definition faithful_get_block :: "block_env \<Rightarrow> faithful_store \<Rightarrow> slot \<Rightarrow> (string + produced_block) outcome" where
  "faithful_get_block env archive sl =
     (case archive sl of
        Inl e \<Rightarrow> Inr (Inl e)
      | Inr b \<Rightarrow> bind_outcome (from_ui_block env b sl finalized_config) (\<lambda>block. Inr (Inr block)))"

definition storage_slot_range :: "faithful_store option \<Rightarrow> database \<Rightarrow> slot_range outcome" where
  "storage_slot_range faithful db =
     bind_outcome (get_slot_range db) (\<lambda>(start, stop).
       let lower = (case faithful of
             None \<Rightarrow> start
           | Some _ \<Rightarrow> if saturating_sub start (snd faithful_slot_range) \<le> 1
                       then min start (fst faithful_slot_range) else start)
       in Inr (lower, stop))"

definition storage_query_block ::
    "pg_codec \<Rightarrow> epoch_schedule \<Rightarrow> faithful_store option \<Rightarrow> slot \<Rightarrow> database \<Rightarrow>
     (string + (produced_block \<times> block_source)) outcome" where
  "storage_query_block px es faithful sl db =
     bind_outcome (is_block_in_range es sl db) (\<lambda>in_postgres.
       if in_postgres then
         bind_outcome (query_block px es sl db) (\<lambda>r.
           Inr (case r of Inl e \<Rightarrow> Inl ''not found although it was in range'' | Inr b \<Rightarrow> Inr (b, RecentEpochDatabase)))
       else
         (case faithful of
            None \<Rightarrow> Inr (Inl ''faithful_history not available'')
          | Some archive \<Rightarrow>
              bind_outcome (faithful_get_block (px_block_env px) archive sl) (\<lambda>r.
                Inr (case r of Inl e \<Rightarrow> Inl ''not found in faithful_history'' | Inr b \<Rightarrow> Inr (b, FaithfulArchive)))))"

section \<open>Statement texts and sessions\<close>

text \<open>\<open>multiline_query\<close>: the placeholders of several rows, the first one with types; \<open>args\<close> and \<open>rows\<close>
  are positive in the code.\<close>

definition placeholder :: "string list \<Rightarrow> nat \<Rightarrow> nat \<Rightarrow> nat \<Rightarrow> string" where
  "placeholder types args row i =
     (let number = ''$'' @ decimal (row * args + i + 1)
      in if row = 0 \<and> types \<noteq> [] then ''('' @ number @ '')::'' @ types ! i else number)"

definition query_row :: "string list \<Rightarrow> nat \<Rightarrow> nat \<Rightarrow> string" where
  "query_row types args row =
     ''('' @ concat (List.map (\<lambda>i. placeholder types args row i @ (if i \<noteq> args - 1 then '','' else [])) [0 ..< args]) @ '')''"

definition multiline_query :: "nat \<Rightarrow> nat \<Rightarrow> string list \<Rightarrow> string" where
  "multiline_query args rows types =
     concat (List.map (\<lambda>row. query_row types args row @ (if row \<noteq> rows - 1 then '','' else [])) [0 ..< rows])"

definition values_vecvec :: "nat \<Rightarrow> nat \<Rightarrow> string list \<Rightarrow> string" where
  "values_vecvec args rows types = multiline_query args rows types"

definition values_vec :: "nat \<Rightarrow> string list \<Rightarrow> string" where
  "values_vec args types = multiline_query args 1 types"

lemma multiline_query_example: "multiline_query 3 2 [] = ''($1,$2,$3),($4,$5,$6)''"
  by code_simp

text \<open>A session of the cache and a session for writing are each behind a lock of many readers or one
  writer.  \<open>get_session\<close> drops its read guard before it stores a new session; in
  \<open>get_write_session\<close> the guard is only shadowed and lives until the end of the block.\<close>

datatype lock_op = ReadLock | DropRead | Reconnect | WriteLock | StoreSession | DropWrite

definition get_session_ops :: "bool \<Rightarrow> lock_op list" where
  "get_session_ops is_closed =
     (if is_closed then [ReadLock, DropRead, Reconnect, WriteLock, StoreSession, DropWrite]
      else [ReadLock, DropRead])"

definition get_write_session_ops :: "bool \<Rightarrow> lock_op list" where
  "get_write_session_ops is_closed =
     (if is_closed then [ReadLock, Reconnect, WriteLock, StoreSession, DropWrite, DropRead]
      else [ReadLock, DropRead])"

record rw_lock =
  rw_readers :: nat
  rw_writer :: bool

text \<open>Running the operations with nobody else at the lock: the rest that is left when an operation
  has to wait.\<close>

fun run_ops :: "lock_op list \<Rightarrow> rw_lock \<Rightarrow> lock_op list \<times> rw_lock" where
  "run_ops [] l = ([], l)"
| "run_ops (ReadLock # ops) l =
     (if rw_writer l then (ReadLock # ops, l) else run_ops ops (l\<lparr>rw_readers := rw_readers l + 1\<rparr>))"
| "run_ops (DropRead # ops) l = run_ops ops (l\<lparr>rw_readers := rw_readers l - 1\<rparr>)"
| "run_ops (WriteLock # ops) l =
     (if rw_writer l \<or> 0 < rw_readers l then (WriteLock # ops, l) else run_ops ops (l\<lparr>rw_writer := True\<rparr>))"
| "run_ops (DropWrite # ops) l = run_ops ops (l\<lparr>rw_writer := False\<rparr>)"
| "run_ops (Reconnect # ops) l = run_ops ops l"
| "run_ops (StoreSession # ops) l = run_ops ops l"

text \<open>A write session whose connection was closed waits for its own read guard for ever.\<close>

lemma write_session_reconnect_deadlocks:
  "run_ops (get_session_ops True) \<lparr>rw_readers = 0, rw_writer = False\<rparr> = ([], \<lparr>rw_readers = 0, rw_writer = False\<rparr>)"
  "run_ops (get_write_session_ops True) \<lparr>rw_readers = n, rw_writer = False\<rparr> =
     ([WriteLock, StoreSession, DropWrite, DropRead], \<lparr>rw_readers = Suc n, rw_writer = False\<rparr>)"
  by (simp_all add: get_session_ops_def get_write_session_ops_def)

section \<open>Codecs\<close>

text \<open>What the code relies on for a block: its values are read back as they were written.\<close>

definition transaction_codec_ok :: "pg_codec \<Rightarrow> transaction_info \<Rightarrow> bool" where
  "transaction_codec_ok px t \<longleftrightarrow>
     px_signature_from_str px (px_signature_to_string px (ti_signature t)) = Some (ti_signature t) \<and>
     hash_from_str (px_block_env px) (px_hash_to_string px (ti_recent_blockhash t)) = Inr (ti_recent_blockhash t) \<and>
     px_message_deserialize px (px_message_encode px (ti_message t)) = Some (ti_message t) \<and>
     Option.bind (Option.bind (ti_err t) (px_error_serialize px)) (px_error_deserialize px) = ti_err t"

definition codec_ok :: "pg_codec \<Rightarrow> produced_block \<Rightarrow> bool" where
  "codec_ok px b \<longleftrightarrow>
     hash_from_str (px_block_env px) (px_hash_to_string px (pb_blockhash b)) = Inr (pb_blockhash b) \<and>
     hash_from_str (px_block_env px) (px_hash_to_string px (pb_previous_blockhash b)) = Inr (pb_previous_blockhash b) \<and>
     Option.bind (Option.bind (pb_rewards b) (px_rewards_serialize px)) (px_rewards_deserialize px) = pb_rewards b \<and>
     list_all (transaction_codec_ok px) (pb_transactions b)"

text \<open>What is kept of a transaction and of a block.\<close>

definition stored_transaction :: "transaction_info \<Rightarrow> transaction_info" where
  "stored_transaction t = t\<lparr>ti_is_vote := False, ti_writable_accounts := [], ti_readable_accounts := [],
     ti_address_lookup_tables := []\<rparr>"

definition stored_block :: "produced_block \<Rightarrow> transaction_info list \<Rightarrow> produced_block" where
  "stored_block b txs = b\<lparr>pb_transactions := txs, pb_leader_id := None, pb_commitment_config := confirmed_config\<rparr>"

lemma block_row_roundtrip:
  "codec_ok px b \<Longrightarrow>
   to_produced_block px (postgres_block_from px b) txs confirmed_config = Inr (stored_block b txs)"
  by (simp add: codec_ok_def to_produced_block_def postgres_block_from_def expect_hash_def stored_block_def)

lemma ucast_u32_u64: "ucast (ucast (x :: u32) :: u64) = x"
  by transfer (simp add: min_def)

lemma transaction_row_roundtrip:
  assumes "transaction_codec_ok px t"
  shows "to_transaction_info px (postgres_transaction_new px t sl) = Inr (stored_transaction t)"
proof -
  have "map_option ucast (map_option (ucast :: u32 \<Rightarrow> u64) (ti_cu_requested t)) = ti_cu_requested t"
    by (cases "ti_cu_requested t") (simp_all add: ucast_u32_u64)
  then show ?thesis
    using assms by (simp add: transaction_codec_ok_def to_transaction_info_def postgres_transaction_new_def
        expect_hash_def stored_transaction_def)
qed

section \<open>Rows of transactions by position\<close>

text \<open>The values are copied with the error and the block hash exchanged, and selected exchanged again:
  the row holds them in their columns.\<close>

lemma blockdata_row_columns:
  "value_at blockdata_columns (blockdata_row ids t) TransactionId = sql_bigint (map_of ids (pgt_signature t))"
  "value_at blockdata_columns (blockdata_row ids t) SlotColumn = SqlBigint (pgt_slot t)"
  "value_at blockdata_columns (blockdata_row ids t) CuRequested = sql_bigint (pgt_cu_requested t)"
  "value_at blockdata_columns (blockdata_row ids t) PrioritizationFees = sql_bigint (pgt_prioritization_fees t)"
  "value_at blockdata_columns (blockdata_row ids t) CuConsumed = sql_bigint (pgt_cu_consumed t)"
  "value_at blockdata_columns (blockdata_row ids t) RecentBlockhash = SqlText (pgt_recent_blockhash t)"
  "value_at blockdata_columns (blockdata_row ids t) ErrColumn = sql_text (pgt_err t)"
  "value_at blockdata_columns (blockdata_row ids t) MessageColumn = SqlText (pgt_message t)"
  by (simp_all add: value_at_def blockdata_columns_def blockdata_row_def copy_columns_def copied_values_def
      selected_columns_def)

lemma option_values [simp]: "option_bigint (sql_bigint x) = x" "option_text (sql_text y) = y"
  by (cases x; simp add: option_bigint_def sql_bigint_def) (cases y; simp add: option_text_def sql_text_def)

lemma sql_bigint_inject [simp]: "sql_bigint x = SqlBigint n \<longleftrightarrow> x = Some n" "SqlBigint n = sql_bigint x \<longleftrightarrow> x = Some n"
  "sql_bigint x = SqlNull \<longleftrightarrow> x = None"
  by (auto simp: sql_bigint_def split: option.splits)

section \<open>Saving transactions\<close>

fun fresh_ids :: "nat \<Rightarrow> string list \<Rightarrow> (string \<times> i64) list" where
  "fresh_ids n [] = []"
| "fresh_ids n (sig # sigs) = (sig, word_of_nat (Suc n)) # fresh_ids (Suc n) sigs"

lemma fresh_ids_keys [simp]: "List.map fst (fresh_ids n sigs) = sigs"
  by (induction sigs arbitrary: n) simp_all

lemma fresh_ids_key_set [simp]: "fst ` set (fresh_ids n sigs) = set sigs"
  by (induction sigs arbitrary: n) simp_all

lemma fresh_ids_snd: "List.map snd (fresh_ids n sigs) = List.map (\<lambda>k. word_of_nat (Suc k)) [n ..< n + length sigs]"
proof (induction sigs arbitrary: n)
  case (Cons sig sigs)
  have "[n ..< n + length (sig # sigs)] = n # [Suc n ..< Suc n + length sigs]"
    by (simp add: upt_conv_Cons del: upt_Suc)
  with Cons show ?case by simp
qed simp

lemma insert_signatures_fresh:
  "distinct sigs \<Longrightarrow> set sigs \<inter> fst ` set ids = {} \<Longrightarrow>
   insert_signatures sigs ids = ids @ fresh_ids (length ids) sigs"
proof (induction sigs arbitrary: ids)
  case Nil
  then show ?case by simp
next
  case (Cons sig sigs)
  have "map_of ids sig = None" using Cons.prems(2) by (auto simp: map_of_eq_None_iff)
  moreover have "insert_signatures sigs (ids @ [(sig, word_of_nat (Suc (length ids)))]) =
      (ids @ [(sig, word_of_nat (Suc (length ids)))]) @ fresh_ids (Suc (length ids)) sigs"
    using Cons.IH [of "ids @ [(sig, word_of_nat (Suc (length ids)))]"] Cons.prems by auto
  ultimately show ?case by simp
qed

text \<open>The signatures are numbered one after the other; every row of the transaction table belongs to a
  numbered signature and a stored block.\<close>

definition tables_inv :: "epoch_tables \<Rightarrow> bool" where
  "tables_inv et \<longleftrightarrow>
     et_transaction_ids et = fresh_ids 0 (List.map fst (et_transaction_ids et)) \<and>
     distinct (List.map fst (et_transaction_ids et)) \<and>
     (\<forall>row \<in> set (et_blockdata et).
        value_at blockdata_columns row TransactionId \<in> SqlBigint ` snd ` set (et_transaction_ids et) \<and>
        value_at blockdata_columns row SlotColumn \<in> SqlBigint ` pgb_slot ` set (et_blocks et))"

lemma fresh_ids_append: "fresh_ids n (xs @ ys) = fresh_ids n xs @ fresh_ids (n + length xs) ys"
  by (induction xs arbitrary: n) simp_all

lemma fresh_ids_numbers:
  assumes "n + length sigs < 18446744073709551616"
  shows "distinct (List.map snd (fresh_ids n sigs))"
    and "k \<in> snd ` set (fresh_ids n sigs) \<Longrightarrow> n < unat k \<and> unat k \<le> n + length sigs"
proof -
  have m: "List.map snd (fresh_ids n sigs) = List.map (\<lambda>k. word_of_nat (Suc k)) [n ..< n + length sigs]"
    by (rule fresh_ids_snd)
  have u: "unat (word_of_nat (Suc k) :: u64) = Suc k" if "k < n + length sigs" for k
    using that assms by (intro unat_u64_of_nat) simp
  have "inj_on (\<lambda>k. word_of_nat (Suc k) :: u64) (set [n ..< n + length sigs])"
  proof (rule inj_onI)
    fix x y assume xy: "x \<in> set [n ..< n + length sigs]" "y \<in> set [n ..< n + length sigs]"
      "(word_of_nat (Suc x) :: u64) = word_of_nat (Suc y)"
    then have "unat (word_of_nat (Suc x) :: u64) = unat (word_of_nat (Suc y) :: u64)" by simp
    then show "x = y" using xy(1,2) u by simp
  qed
  then show "distinct (List.map snd (fresh_ids n sigs))" by (simp add: m distinct_map)
  assume "k \<in> snd ` set (fresh_ids n sigs)"
  then have "k \<in> set (List.map snd (fresh_ids n sigs))" by simp
  then obtain j where "j < n + length sigs" "n \<le> j" "k = word_of_nat (Suc j)" unfolding m by auto
  with u [of j] show "n < unat k \<and> unat k \<le> n + length sigs" by simp
qed

lemma insert_blockdata_new:
  assumes "distinct (List.map pgt_signature ts)" and "\<forall>t \<in> set ts. pgt_slot t \<in> slots"
    and "\<forall>t \<in> set ts. \<exists>n. map_of ids (pgt_signature t) = Some n \<and>
      SqlBigint n \<notin> set (List.map (\<lambda>r. value_at blockdata_columns r TransactionId) table)"
    and "\<And>s s' n. map_of ids s = Some n \<Longrightarrow> map_of ids s' = Some n \<Longrightarrow> s = s'"
  shows "insert_blockdata slots (List.map (blockdata_row ids) ts) table =
    Inr (table @ List.map (blockdata_row ids) ts)"
  using assms(1-3)
proof (induction ts arbitrary: table)
  case (Cons t ts)
  obtain n where n: "map_of ids (pgt_signature t) = Some n"
      "SqlBigint n \<notin> set (List.map (\<lambda>r. value_at blockdata_columns r TransactionId) table)"
    using Cons.prems(3) by auto
  have "\<exists>m. map_of ids (pgt_signature t') = Some m \<and>
      SqlBigint m \<notin> set (List.map (\<lambda>r. value_at blockdata_columns r TransactionId) (table @ [blockdata_row ids t]))"
    if t': "t' \<in> set ts" for t'
  proof -
    obtain m where m: "map_of ids (pgt_signature t') = Some m"
        "SqlBigint m \<notin> set (List.map (\<lambda>r. value_at blockdata_columns r TransactionId) table)"
      using bspec [OF Cons.prems(3) list.set_intros(2) [OF t']] by blast
    have "pgt_signature t' \<noteq> pgt_signature t" using Cons.prems(1) imageI [OF t', of pgt_signature] by auto
    then have "m \<noteq> n" using assms(4) [OF m(1)] n(1) by auto
    with m n(1) show ?thesis by (auto simp: blockdata_row_columns sql_bigint_def)
  qed
  with Cons.prems have "insert_blockdata slots (List.map (blockdata_row ids) ts) (table @ [blockdata_row ids t]) =
      Inr ((table @ [blockdata_row ids t]) @ List.map (blockdata_row ids) ts)"
    by (intro Cons.IH) auto
  moreover have "\<not> list_ex (\<lambda>c. value_at blockdata_columns (blockdata_row ids t) c = SqlNull) not_null_columns"
    using n(1) by (simp add: not_null_columns_def blockdata_row_columns)
  ultimately show ?case
    using n Cons.prems(2) by (simp add: blockdata_row_columns sql_bigint_def)
qed simp

lemma value_slots: "SqlBigint (pgt_slot t) \<in> SqlBigint ` slots \<longleftrightarrow> pgt_slot t \<in> slots"
  by auto

text \<open>Saving one chunk of new transactions.\<close>

definition with_chunk :: "postgres_transaction list \<Rightarrow> epoch_tables \<Rightarrow> epoch_tables" where
  "with_chunk ts et =
     (let ids = et_transaction_ids et @ fresh_ids (length (et_transaction_ids et)) (List.map pgt_signature ts)
      in et\<lparr>et_transaction_ids := ids, et_blockdata := et_blockdata et @ List.map (blockdata_row ids) ts\<rparr>)"

definition chunk_ok :: "postgres_transaction list \<Rightarrow> epoch_tables \<Rightarrow> bool" where
  "chunk_ok ts et \<longleftrightarrow> distinct (List.map pgt_signature ts) \<and>
     (\<forall>t \<in> set ts. pgt_signature t \<notin> fst ` set (et_transaction_ids et) \<and> pgt_slot t \<in> pgb_slot ` set (et_blocks et)) \<and>
     length (et_transaction_ids et) + length ts < 18446744073709551616"

lemma with_chunk_simps [simp]:
  "et_blocks (with_chunk ts et) = et_blocks et"
  "et_transaction_ids (with_chunk ts et) =
     et_transaction_ids et @ fresh_ids (length (et_transaction_ids et)) (List.map pgt_signature ts)"
  by (simp_all add: with_chunk_def Let_def)

lemma image_disjoint: "\<forall>t \<in> A. f t \<notin> B \<Longrightarrow> B \<inter> f ` A = {}"
  by (simp add: disjoint_iff) blast

lemma fresh_ids_all:
  assumes "tables_inv et" and "chunk_ok ts et"
  shows "et_transaction_ids (with_chunk ts et) = fresh_ids 0 (List.map fst (et_transaction_ids (with_chunk ts et)))"
    and "distinct (List.map fst (et_transaction_ids (with_chunk ts et)))"
    and "distinct (List.map snd (et_transaction_ids (with_chunk ts et)))"
proof -
  let ?ids = "et_transaction_ids et" and ?sigs = "List.map pgt_signature ts"
  have ids: "?ids = fresh_ids 0 (List.map fst ?ids)" using assms(1) by (simp add: tables_inv_def)
  have "fresh_ids 0 (List.map fst ?ids @ ?sigs) = fresh_ids 0 (List.map fst ?ids) @ fresh_ids (length ?ids) ?sigs"
    by (simp add: fresh_ids_append)
  then show all: "et_transaction_ids (with_chunk ts et) = fresh_ids 0 (List.map fst (et_transaction_ids (with_chunk ts et)))"
    using ids by simp
  have "\<forall>t \<in> set ts. pgt_signature t \<notin> fst ` set ?ids"
    using assms(2) by (simp only: chunk_ok_def) blast
  then have "set (List.map fst ?ids) \<inter> set ?sigs = {}"
    unfolding list.set_map by (rule image_disjoint)
  then show "distinct (List.map fst (et_transaction_ids (with_chunk ts et)))"
    using assms(1,2) by (simp add: tables_inv_def chunk_ok_def del: set_map list.set_map)
  show "distinct (List.map snd (et_transaction_ids (with_chunk ts et)))"
    using assms(2) by (subst all) (rule fresh_ids_numbers(1), simp add: chunk_ok_def)
qed

lemma distinct_map_of:
  "distinct (List.map snd ids) \<Longrightarrow> map_of ids s = Some n \<Longrightarrow> map_of ids s' = Some n \<Longrightarrow> s = s'"
  by (metis (no_types, lifting) distinct_map inj_onD map_of_SomeD prod.inject snd_conv)

lemma blockdata_row_append:
  "map_of ids (pgt_signature t) \<noteq> None \<Longrightarrow> distinct (List.map fst (ids @ new)) \<Longrightarrow>
   blockdata_row (ids @ new) t = blockdata_row ids t"
  by (cases "map_of ids (pgt_signature t)") (auto simp: blockdata_row_def map_add_Some_iff map_of_eq_None_iff
      image_iff dest: map_of_SomeD)

lemma save_chunk_new:
  assumes "hm_get db schema = Some et" and "hm_inv db" and "tables_inv et" and "chunk_ok ts et"
  shows "save_transactions_from_block schema ts db = (hm_put schema (with_chunk ts et) db, Inr ())"
    and "tables_inv (with_chunk ts et)"
proof -
  let ?ids = "et_transaction_ids (with_chunk ts et)"
  note ids = fresh_ids_all [OF assms(3,4)]
  have new: "insert_signatures (List.map pgt_signature ts) (et_transaction_ids et) = ?ids"
    using insert_signatures_fresh [of "List.map pgt_signature ts" "et_transaction_ids et"] assms(4)
    by (auto simp: chunk_ok_def)
  have found: "\<exists>n. map_of ?ids (pgt_signature t) = Some n \<and> (pgt_signature t, n) \<in> set ?ids" if "t \<in> set ts" for t
  proof -
    have "pgt_signature t \<in> set (List.map fst ?ids)" using that by simp
    then obtain n where "map_of ?ids (pgt_signature t) = Some n"
      by (metis list.set_map map_of_eq_None_iff option.exhaust)
    then show ?thesis using map_of_SomeD by fast
  qed
  have unused: "SqlBigint n \<notin> set (List.map (\<lambda>r. value_at blockdata_columns r TransactionId) (et_blockdata et))"
    if t: "t \<in> set ts" and n: "map_of ?ids (pgt_signature t) = Some n" for t n
  proof
    assume "SqlBigint n \<in> set (List.map (\<lambda>r. value_at blockdata_columns r TransactionId) (et_blockdata et))"
    then obtain s where s: "(s, n) \<in> set (et_transaction_ids et)"
      using assms(3) by (auto simp: tables_inv_def)
    then have "map_of ?ids s = Some n" using ids(2) by (intro map_of_is_SomeI) auto
    then have "s = pgt_signature t" using distinct_map_of [OF ids(3)] n by blast
    with s t assms(4) show False by (force simp: chunk_ok_def)
  qed
  have "insert_blockdata (pgb_slot ` set (et_blocks et)) (List.map (blockdata_row ?ids) ts) (et_blockdata et) =
      Inr (et_blockdata et @ List.map (blockdata_row ?ids) ts)"
  proof (rule insert_blockdata_new)
    show "distinct (List.map pgt_signature ts)" "\<forall>t \<in> set ts. pgt_slot t \<in> pgb_slot ` set (et_blocks et)"
      using assms(4) by (auto simp: chunk_ok_def)
    show "\<forall>t \<in> set ts. \<exists>n. map_of ?ids (pgt_signature t) = Some n \<and>
        SqlBigint n \<notin> set (List.map (\<lambda>r. value_at blockdata_columns r TransactionId) (et_blockdata et))"
      using found unused by blast
    show "\<And>s s' n. map_of ?ids s = Some n \<Longrightarrow> map_of ?ids s' = Some n \<Longrightarrow> s = s'"
      by (rule distinct_map_of [OF ids(3)])
  qed
  then show "save_transactions_from_block schema ts db = (hm_put schema (with_chunk ts et) db, Inr ())"
    by (simp only: save_transactions_from_block_def assms(1) new Let_def option.case sum.case) (simp add: with_chunk_def Let_def)
  have "value_at blockdata_columns (blockdata_row ?ids t) TransactionId \<in> SqlBigint ` snd ` set ?ids" if "t \<in> set ts" for t
    using found [OF that] by (force simp: blockdata_row_columns sql_bigint_def)
  then have new_rows: "\<forall>row \<in> set (List.map (blockdata_row ?ids) ts).
      value_at blockdata_columns row TransactionId \<in> SqlBigint ` snd ` set ?ids \<and>
      value_at blockdata_columns row SlotColumn \<in> SqlBigint ` pgb_slot ` set (et_blocks et)"
    using assms(4) by (simp add: blockdata_row_columns(2) chunk_ok_def)
  have old_rows: "\<forall>row \<in> set (et_blockdata et).
      value_at blockdata_columns row TransactionId \<in> SqlBigint ` snd ` set ?ids \<and>
      value_at blockdata_columns row SlotColumn \<in> SqlBigint ` pgb_slot ` set (et_blocks et)"
    using assms(3) unfolding tables_inv_def with_chunk_simps(2) set_append image_Un by blast
  have "et_blockdata (with_chunk ts et) = et_blockdata et @ List.map (blockdata_row ?ids) ts"
    by (simp add: with_chunk_def Let_def)
  with ids(1,2) new_rows old_rows show "tables_inv (with_chunk ts et)"
    unfolding tables_inv_def with_chunk_simps(1) by (metis Un_iff set_append)
qed

text \<open>All the chunks: two chunks one after the other are saved as one.\<close>

lemma with_chunk_Nil [simp]: "with_chunk [] et = et"
  by (simp add: with_chunk_def)

lemma fresh_ids_length [simp]: "length (fresh_ids n sigs) = length sigs"
  by (induction sigs arbitrary: n) simp_all

lemma with_chunk_append:
  assumes "tables_inv et" and "chunk_ok (xs @ ys) et"
  shows "with_chunk (xs @ ys) et = with_chunk ys (with_chunk xs et)"
proof -
  let ?ids = "et_transaction_ids (with_chunk xs et)"
  let ?new = "fresh_ids (length ?ids) (List.map pgt_signature ys)"
  have all: "et_transaction_ids (with_chunk (xs @ ys) et) = ?ids @ ?new"
    by (simp add: fresh_ids_append)
  have d: "distinct (List.map fst (?ids @ ?new))"
    using fresh_ids_all(2) [OF assms] unfolding all .
  have "blockdata_row (?ids @ ?new) t = blockdata_row ?ids t" if t: "t \<in> set xs" for t
  proof (rule blockdata_row_append [OF _ d])
    have "pgt_signature t \<in> set (List.map fst ?ids)" using t by simp
    then show "map_of ?ids (pgt_signature t) \<noteq> None" by (simp only: map_of_eq_None_iff list.set_map) blast
  qed
  then have "List.map (blockdata_row (?ids @ ?new)) xs = List.map (blockdata_row ?ids) xs" by simp
  then show ?thesis by (simp add: with_chunk_def Let_def fresh_ids_append)
qed

lemma chunk_ok_append:
  assumes "chunk_ok (xs @ ys) et"
  shows "chunk_ok xs et" and "chunk_ok ys (with_chunk xs et)"
proof -
  show "chunk_ok xs et" using assms by (simp add: chunk_ok_def)
  have "\<forall>t \<in> set ys. pgt_signature t \<notin> set (List.map fst (et_transaction_ids (with_chunk xs et)))"
    using assms by (fastforce simp: chunk_ok_def)
  then show "chunk_ok ys (with_chunk xs et)" using assms by (simp add: chunk_ok_def image_Un)
qed

lemma save_chunks_new:
  "hm_get db schema = Some et \<Longrightarrow> hm_inv db \<Longrightarrow> tables_inv et \<Longrightarrow> chunk_ok (concat cs) et \<Longrightarrow>
   \<exists>db'. save_chunks schema cs db = (db', True) \<and>
     hm_get db' schema = Some (with_chunk (concat cs) et) \<and> hm_inv db'"
proof (induction cs arbitrary: db et)
  case Nil
  then show ?case by simp
next
  case (Cons c cs)
  let ?db = "hm_put schema (with_chunk c et) db"
  have oks: "chunk_ok c et" "chunk_ok (concat cs) (with_chunk c et)"
    using chunk_ok_append [of c "concat cs" et] Cons.prems(4) by simp_all
  note saved = save_chunk_new [OF Cons.prems(1-3) oks(1)]
  have "hm_get ?db schema = Some (with_chunk c et)" "hm_inv ?db"
    using hm_inv_put [OF Cons.prems(2)] by (simp_all add: hm_get_hm_put)
  from Cons.IH [OF this saved(2) oks(2)] obtain db' where db': "save_chunks schema cs ?db = (db', True)"
    "hm_get db' schema = Some (with_chunk (concat cs) (with_chunk c et))" "hm_inv db'" by blast
  moreover have "with_chunk (concat (c # cs)) et = with_chunk (concat cs) (with_chunk c et)"
    using with_chunk_append [of et c "concat cs"] Cons.prems(3,4) by simp
  ultimately show ?case using saved(1) by simp
qed

text \<open>There are never more chunks than sessions.\<close>

lemma length_chunks: "0 < n \<Longrightarrow> length (chunks n xs) * n < length xs + n"
proof (induction n xs rule: chunks.induct)
  case (1 n xs)
  show ?case
  proof (cases "xs = []")
    case False
    with 1 have "length (chunks n (drop n xs)) * n < length xs - n + n" by simp
    then show ?thesis
      using False 1(2) by (cases "length xs \<le> n") (simp_all add: chunks.simps [of n xs])
  qed (use 1 in simp)
qed

lemma div_ceil_bound: "0 < b \<Longrightarrow> a \<le> div_ceil a b * b"
proof -
  assume "0 < b"
  then have "a + b - 1 < Suc ((a + b - 1) div b) * b"
    using dividend_less_div_times [of b "a + b - 1"] by (simp add: algebra_simps)
  then show ?thesis using \<open>0 < b\<close> by (simp add: div_ceil_def)
qed

lemma chunks_fit: "length (chunks (write_chunk_size (length xs)) xs) \<le> parallel_write_sessions"
proof -
  let ?n = "write_chunk_size (length xs)"
  have pos: "0 < ?n" by (simp add: write_chunk_size_def min_write_chunk_size_def)
  have "length xs \<le> ?n * 4"
    using div_ceil_bound [of 4 "length xs"]
    by (simp add: write_chunk_size_def parallel_write_sessions_def max_def)
  with length_chunks [OF pos, of xs] have "length (chunks ?n xs) * ?n < 5 * ?n" by linarith
  then have "length (chunks ?n xs) < 5" by (simp only: mult_less_cancel2)
  then show ?thesis by (simp add: parallel_write_sessions_def)
qed

section \<open>Reading back\<close>

lemma find_append: "List.find P (xs @ ys) = (case List.find P xs of None \<Rightarrow> List.find P ys | Some x \<Rightarrow> Some x)"
  by (induction xs) simp_all

lemma postgres_transaction_new_simps [simp]:
  "pgt_slot (postgres_transaction_new px t sl) = sl"
  "pgt_signature (postgres_transaction_new px t sl) = px_signature_to_string px (ti_signature t)"
  by (simp_all add: postgres_transaction_new_def)

lemma find_number:
  assumes "distinct (List.map snd ids)" and "map_of ids s = Some n"
  shows "List.find (\<lambda>(_, m). SqlBigint m = SqlBigint n) ids = Some (s, n)"
  using assms by (induction ids) (force split: if_splits dest: map_of_SomeD)+

lemma transaction_of_blockdata_row:
  assumes "distinct (List.map snd ids)" and "map_of ids (pgt_signature t) = Some n" and "pgt_slot t = sl"
  shows "transaction_of_row ids sl (blockdata_row ids t) = Inr t"
proof -
  have "value_at blockdata_columns (blockdata_row ids t) TransactionId = SqlBigint n"
    using assms(2) by (simp add: blockdata_row_columns)
  then have "List.find (\<lambda>(_, m). SqlBigint m = value_at blockdata_columns (blockdata_row ids t) TransactionId) ids =
      Some (pgt_signature t, n)"
    using find_number [OF assms(1,2)] by simp
  then show ?thesis
    unfolding transaction_of_row_def Let_def using assms(3) by (simp add: blockdata_row_columns(2-8))
qed

text \<open>The tables after a block and its transactions were stored.\<close>

definition with_block :: "postgres_block \<Rightarrow> epoch_tables \<Rightarrow> epoch_tables" where
  "with_block row et = et\<lparr>et_blocks := et_blocks et @ [row]\<rparr>"

lemma tables_inv_block: "tables_inv et \<Longrightarrow> tables_inv (with_block row et)"
  by (force simp: tables_inv_def with_block_def)

lemma save_block_new:
  assumes schema: "schema = build_schema_name (ep_epoch (get_epoch_at_slot es (pb_slot b)))"
    and txs: "txs = List.map (\<lambda>t. postgres_transaction_new px t (pb_slot b)) (pb_transactions b)"
    and et: "hm_get db schema = Some et" "hm_inv db" "tables_inv et"
    and new: "pb_slot b \<notin> pgb_slot ` set (et_blocks et)"
    and ok: "chunk_ok txs (with_block (postgres_block_from px b) et)"
  shows "\<exists>db'. save_block px es b db = (db', Saved) \<and>
    hm_get db' schema = Some (with_chunk txs (with_block (postgres_block_from px b) et)) \<and> hm_inv db'"
proof -
  let ?et = "with_block (postgres_block_from px b) et" and ?cs = "chunks (write_chunk_size (length txs)) txs"
  let ?db = "hm_put schema ?et db"
  have row: "save_block_row schema (postgres_block_from px b) db = Inr (?db, True)"
    using new by (simp add: save_block_row_def et(1) postgres_block_from_def with_block_def)
  have cs: "concat ?cs = txs"
    by (rule concat_chunks) (simp add: write_chunk_size_def min_write_chunk_size_def)
  have "hm_get ?db schema = Some ?et" "hm_inv ?db"
    using hm_inv_put [OF et(2)] by (simp_all add: hm_get_hm_put)
  from save_chunks_new [OF this tables_inv_block [OF et(3)], of ?cs] ok
  obtain db' where db': "save_chunks schema ?cs ?db = (db', True)"
    "hm_get db' schema = Some (with_chunk txs ?et)" "hm_inv db'" unfolding cs by blast
  have "save_block px es b db = (db', Saved)"
    unfolding save_block_def Let_def schema [symmetric] txs [symmetric] row
    using chunks_fit [of txs] db'(1) by simp
  with db' show ?thesis by blast
qed

lemma query_block_with:
  assumes codec: "codec_ok px b"
    and schema: "schema = build_schema_name (ep_epoch (get_epoch_at_slot es (pb_slot b)))"
    and txs: "txs = List.map (\<lambda>t. postgres_transaction_new px t (pb_slot b)) (pb_transactions b)"
    and et: "tables_inv et" "pb_slot b \<notin> pgb_slot ` set (et_blocks et)"
    and ok: "chunk_ok txs (with_block (postgres_block_from px b) et)"
    and db: "hm_get db schema = Some (with_chunk txs (with_block (postgres_block_from px b) et))"
  shows "query_block px es (pb_slot b) db =
    Inr (Inr (stored_block b (List.map stored_transaction (pb_transactions b))))"
proof -
  let ?row = "postgres_block_from px b" and ?sl = "pb_slot b"
  let ?et = "with_chunk txs (with_block ?row et)"
  let ?ids = "et_transaction_ids ?et"
  note ids = fresh_ids_all [OF tables_inv_block [OF et(1)] ok]
  have "List.find (\<lambda>row. pgb_slot row = ?sl) (et_blocks et) = None"
    using et(2) by (force simp: find_None_iff image_iff)
  then have "List.find (\<lambda>row. pgb_slot row = ?sl) (et_blocks et @ [?row]) = Some ?row"
    by (simp add: find_append postgres_block_from_def)
  then have found: "List.find (\<lambda>row. pgb_slot row = ?sl) (et_blocks ?et) = Some ?row"
    by (simp add: with_block_def)
  have none: "filter (\<lambda>r. value_at blockdata_columns r SlotColumn = SqlBigint ?sl) (et_blockdata et) = []"
    using et by (force simp: tables_inv_def filter_empty_conv)
  have rows: "filter (\<lambda>r. value_at blockdata_columns r SlotColumn = SqlBigint ?sl) (et_blockdata ?et) =
      List.map (blockdata_row ?ids) txs"
    using none by (simp add: with_chunk_def with_block_def Let_def filter_map comp_def blockdata_row_columns txs
        postgres_transaction_new_def)
  have read: "bind_outcome (transaction_of_row ?ids ?sl (blockdata_row ?ids (postgres_transaction_new px t ?sl)))
      (to_transaction_info px) = Inr (stored_transaction t)" if t: "t \<in> set (pb_transactions b)" for t
  proof -
    have "pgt_signature (postgres_transaction_new px t ?sl) \<in> set (List.map fst ?ids)"
      using t by (simp add: txs)
    then obtain n where "map_of ?ids (pgt_signature (postgres_transaction_new px t ?sl)) = Some n"
      by (metis list.set_map map_of_eq_None_iff option.exhaust)
    note row = transaction_of_blockdata_row [OF ids(3) this postgres_transaction_new_simps(1)]
    have "transaction_codec_ok px t" using codec t by (simp add: codec_ok_def list_all_iff)
    from transaction_row_roundtrip [OF this] show ?thesis by (simp only: row bind_outcome.simps)
  qed
  have "map_outcome (\<lambda>r. bind_outcome (transaction_of_row ?ids ?sl r) (to_transaction_info px))
      (List.map (blockdata_row ?ids) txs) = Inr (List.map stored_transaction (pb_transactions b))"
    using map_outcome_Inr [OF read] by (simp add: txs map_outcome_map comp_def)
  then show ?thesis
    by (simp only: query_block_def schema [symmetric] db option.case found rows bind_outcome.simps
        block_row_roundtrip [OF codec])
qed

section \<open>Failures\<close>

lemma insert_signatures_keeps: "map_of ids s = Some n \<Longrightarrow> map_of (insert_signatures sigs ids) s = Some n"
  by (induction sigs ids rule: insert_signatures.induct) (auto simp: map_add_Some_iff)

lemma insert_blockdata_known:
  assumes "r \<in> set rows"
    and "value_at blockdata_columns r TransactionId \<in> set (List.map (\<lambda>r. value_at blockdata_columns r TransactionId) table)"
  shows "\<exists>e. insert_blockdata slots rows table = Inl e"
  using assms by (induction slots rows table rule: insert_blockdata.induct) auto

lemma one_chunk: "xs \<noteq> [] \<Longrightarrow> length xs \<le> min_write_chunk_size \<Longrightarrow> chunks (write_chunk_size (length xs)) xs = [xs]"
  by (simp add: chunks.simps [of _ xs] write_chunk_size_def min_write_chunk_size_def)

lemma save_block_again:
  assumes "hm_get db (build_schema_name (ep_epoch (get_epoch_at_slot es (pb_slot b)))) = Some et"
    and "pb_slot b \<in> pgb_slot ` set (et_blocks et)"
  shows "save_block px es b db = (db, Saved)"
  using assms by (simp add: save_block_def Let_def save_block_row_def postgres_block_from_def)

lemma query_block_empty:
  assumes codec: "codec_ok px b"
    and db: "hm_get db (build_schema_name (ep_epoch (get_epoch_at_slot es (pb_slot b)))) = Some et'"
    and row: "List.find (\<lambda>row. pgb_slot row = pb_slot b) (et_blocks et') = Some (postgres_block_from px b)"
    and none: "filter (\<lambda>r. value_at blockdata_columns r SlotColumn = SqlBigint (pb_slot b)) (et_blockdata et') = []"
  shows "query_block px es (pb_slot b) db = Inr (Inr (stored_block b []))"
  by (simp only: query_block_def db row none option.case map_outcome.simps bind_outcome.simps block_row_roundtrip [OF codec])

section \<open>Properties\<close>

definition sample_codec :: pg_codec where
  "sample_codec = \<lparr>px_signature_to_string = (\<lambda>s. if s = 5 then ''five'' else ''other''),
     px_signature_from_str = (\<lambda>s. if s = ''five'' then Some 5 else None),
     px_hash_to_string = (\<lambda>_. ''h''), px_error_serialize = (\<lambda>_. Some ''e''),
     px_error_deserialize = (\<lambda>_. Some [7]), px_message_encode = (\<lambda>_. ''m''),
     px_message_deserialize = (\<lambda>_. Some empty_message), px_rewards_serialize = (\<lambda>_. Some ''r''),
     px_rewards_deserialize = (\<lambda>_. Some []), px_block_env = sample_block_env\<rparr>"

definition sample_stored_block :: "slot \<Rightarrow> produced_block" where
  "sample_stored_block sl = \<lparr>pb_transactions = [\<lparr>ti_signature = 5, ti_is_vote = True, ti_err = Some [7],
       ti_cu_requested = Some 9, ti_prioritization_fees = None, ti_cu_consumed = Some 3,
       ti_recent_blockhash = word_rcat (replicate 32 (1 :: u8)), ti_message = empty_message,
       ti_writable_accounts = [1], ti_readable_accounts = [], ti_address_lookup_tables = []\<rparr>],
     pb_leader_id = Some ''leader'', pb_blockhash = word_rcat (replicate 32 (1 :: u8)), pb_block_height = 1,
     pb_slot = sl, pb_parent_slot = sl - 1, pb_block_time = 7,
     pb_previous_blockhash = word_rcat (replicate 32 (1 :: u8)), pb_rewards = Some [],
     pb_commitment_config = finalized_config\<rparr>"

lemma sample_codec_ok: "codec_ok sample_codec (sample_stored_block sl)"
  by (simp add: codec_ok_def transaction_codec_ok_def sample_codec_def sample_stored_block_def hash_from_str_def
      sample_block_env_def word_of_bytes_def)

lemma sample_signatures:
  "List.map (\<lambda>t. px_signature_to_string sample_codec (ti_signature t)) (pb_transactions (sample_stored_block sl)) = [''five'']"
  by (simp add: sample_codec_def sample_stored_block_def)

lemma sample_epoch: "sl div 6 = e \<Longrightarrow> ep_epoch (get_epoch_at_slot sample_epochs sl) = e"
  by (simp add: get_epoch_at_slot_def sample_epochs_def)

text \<open>C28: A block that was saved reads back: if its slot is not stored yet and its signatures are
  distinct and new in the epoch, saving succeeds, whatever the number of transactions and chunks, and
  a query for the slot gives the block again, with every transaction exactly once and every value in
  its place although the statements exchange two columns; only the leader, the account lists and the
  vote flags are not kept, and the commitment is reported as confirmed.\<close>

lemma saved_block_reads_back:
  assumes "codec_ok px b"
    and "schema = build_schema_name (ep_epoch (get_epoch_at_slot es (pb_slot b)))"
    and "hm_get db schema = Some et" and "hm_inv db" and "tables_inv et"
    and "pb_slot b \<notin> pgb_slot ` set (et_blocks et)"
    and "sigs = List.map (\<lambda>t. px_signature_to_string px (ti_signature t)) (pb_transactions b)"
    and "distinct sigs" and "set sigs \<inter> fst ` set (et_transaction_ids et) = {}"
    and "length (et_transaction_ids et) + length sigs < 18446744073709551616"
  shows "\<exists>db' txs. save_block px es b db = (db', Saved) \<and>
    query_block px es (pb_slot b) db' = Inr (Inr (stored_block b txs)) \<and>
    mset txs = mset (List.map stored_transaction (pb_transactions b))"
proof -
  let ?txs = "List.map (\<lambda>t. postgres_transaction_new px t (pb_slot b)) (pb_transactions b)"
  have "List.map pgt_signature ?txs = sigs" by (simp add: assms(7) comp_def)
  moreover have "\<forall>t \<in> set ?txs. pgt_signature t \<notin> fst ` set (et_transaction_ids et)"
    using assms(9) by (auto simp: assms(7))
  ultimately have ok: "chunk_ok ?txs (with_block (postgres_block_from px b) et)"
    using assms(8,10) by (simp add: chunk_ok_def with_block_def postgres_block_from_def assms(7) comp_def)
  obtain db' where db': "save_block px es b db = (db', Saved)"
      "hm_get db' schema = Some (with_chunk ?txs (with_block (postgres_block_from px b) et))"
    using save_block_new [OF assms(2) refl assms(3-6) ok] by blast
  from query_block_with [OF assms(1,2) refl assms(5,6) ok db'(2)] db'(1) show ?thesis by blast
qed

lemma saved_block_reads_back_witness:
  "\<exists>db' txs. save_block sample_codec sample_epochs (sample_stored_block 7) [(build_schema_name 1, empty_tables)] = (db', Saved) \<and>
    query_block sample_codec sample_epochs 7 db' = Inr (Inr (stored_block (sample_stored_block 7) txs)) \<and>
    mset txs = mset (List.map stored_transaction (pb_transactions (sample_stored_block 7)))"
proof -
  have sl: "pb_slot (sample_stored_block 7) = 7" by (simp add: sample_stored_block_def)
  show ?thesis
    using saved_block_reads_back [where px = sample_codec and b = "sample_stored_block 7" and es = sample_epochs
        and db = "[(build_schema_name 1, empty_tables)]" and et = empty_tables and sigs = "[''five'']"
        and schema = "build_schema_name 1", OF sample_codec_ok] sample_signatures [of 7]
    by (simp only: sl sample_epoch) (simp add: hm_get_def hm_inv_def map_keys_def tables_inv_def empty_tables_def)
qed


definition sample_tables :: epoch_tables where
  "sample_tables = with_chunk [postgres_transaction_new sample_codec t 7. t \<leftarrow> pb_transactions (sample_stored_block 7)]
     (with_block (postgres_block_from sample_codec (sample_stored_block 7)) empty_tables)"


section \<open>Schema names and the archive\<close>

lemma parse_usize_decimal:
  assumes "n < 18446744073709551616"
  shows "parse_usize (decimal n) = Some n"
proof -
  have "CHR ''+'' \<notin> set (decimal n)" using digit_code [of "CHR ''+''" n] by auto
  then show ?thesis
    using decimal_not_Nil [of n] parse_decimal [OF assms] by (cases "decimal n") (auto simp: parse_usize_def)
qed

lemma trim_prefix_decimal: "trim_prefix (build_schema_name e) = decimal (unat e)"
proof -
  have "CHR ''r'' \<notin> set (decimal (unat e))" using digit_code [of "CHR ''r''" "unat e"] by auto
  then have "take (length epoch_schema_prefix) (decimal (unat e)) \<noteq> epoch_schema_prefix"
    by (metis epoch_schema_prefix_def in_set_takeD list.set_intros(1))
  then have "trim_prefix (decimal (unat e)) = decimal (unat e)"
    by (simp add: trim_prefix.simps [of "decimal (unat e)"])
  then show ?thesis unfolding build_schema_name_def
    by (simp add: trim_prefix.simps [of "epoch_schema_prefix @ decimal (unat e)"])
qed

text \<open>The name of a schema tells its epoch, and it is one that the query for the schemas finds.\<close>

lemma schema_name_roundtrip:
  "parse_epoch_from_schema_name (build_schema_name e) = Inr e \<and> is_epoch_schema (build_schema_name e)"
proof -
  have "unat e < 18446744073709551616" by (rule unat_u64_bound)
  from parse_usize_decimal [OF this] have "parse_epoch_from_schema_name (build_schema_name e) = Inr e"
    by (simp add: parse_epoch_from_schema_name_def trim_prefix_decimal)
  moreover have "list_all (\<lambda>c. digit_value c \<noteq> None) (decimal (unat e))"
    using digit_code [of _ "unat e"] by (auto simp: list_all_iff Let_def)
  ultimately show ?thesis
    using decimal_not_Nil [of "unat e"] by (simp add: is_epoch_schema_def build_schema_name_def starts_with_def)
qed

lemma epoch_has_range:
  assumes "get_slot_range_by_epoch db = Inr ranges" and "hm_get db (build_schema_name e) = Some et"
    and "et_blocks et \<noteq> []"
  shows "hm_get ranges e \<noteq> None"
proof -
  have "(build_schema_name e, et) \<in> set (filter (\<lambda>(name, et). is_epoch_schema name \<and> et_blocks et \<noteq> []) db)"
    using hm_get_Some_mem [OF assms(2)] assms(3) schema_name_roundtrip [of e] by simp
  from map_outcome_mem [OF assms(1) [unfolded get_slot_range_by_epoch_def] this]
  obtain r where "(e, r) \<in> set ranges" using schema_name_roundtrip [of e] by auto
  then have "e \<in> fst ` set ranges" by force
  then show ?thesis by (simp add: hm_get_def map_of_eq_None_iff)
qed

text \<open>Any block of the epoch makes every slot of the epoch count as in range: for a slot that the
  database does not have, the archive is not asked.\<close>

lemma stored_epoch_hides_archive:
  assumes "get_slot_range_by_epoch db = Inr ranges"
    and "hm_get db (build_schema_name (ep_epoch (get_epoch_at_slot es sl))) = Some et" and "et_blocks et \<noteq> []"
    and "sl \<notin> pgb_slot ` set (et_blocks et)"
  shows "storage_query_block px es faithful sl db = Inr (Inl ''not found although it was in range'')"
proof -
  have "is_block_in_range es sl db = Inr True"
    using epoch_has_range [OF assms(1-3)] by (simp add: is_block_in_range_def assms(1))
  moreover have "List.find (\<lambda>row. pgb_slot row = sl) (et_blocks et) = None"
    using assms(4) by (force simp: find_None_iff image_iff)
  then have "query_block px es sl db = Inr (Inl ''not found in postgres'')" by (simp add: query_block_def assms(2))
  ultimately show ?thesis by (simp add: storage_query_block_def)
qed

lemma stored_epoch_hides_archive_witness:
  "storage_query_block sample_codec sample_epochs (Some archive) 9 [(build_schema_name 1, sample_tables)] =
     Inr (Inl ''not found although it was in range'')"
proof -
  have ranges: "get_slot_range_by_epoch [(build_schema_name 1, sample_tables)] = Inr [(1, (7, 7))]"
    using schema_name_roundtrip [of 1]
    by (simp add: get_slot_range_by_epoch_def sample_tables_def with_block_def empty_tables_def sample_stored_block_def
        postgres_block_from_def sql_min_def sql_max_def min_or_def max_or_def)
  show ?thesis
    by (rule stored_epoch_hides_archive [OF ranges, where et = sample_tables])
      (simp_all add: sample_epoch hm_get_def sample_tables_def with_block_def empty_tables_def sample_stored_block_def
        postgres_block_from_def)
qed

end
