(* ===== verification/Forward_Proxy.thy ===== *)
theory Forward_Proxy
  imports Quic_Proxy Block_Mapping "HOL-Library.Sublist" "HOL-Library.Multiset"
begin

text \<open>
  The QUIC forward proxy, a process of its own (\<open>quic-forward-proxy/src\<close>): the listener that reads
  forwarding requests (\<open>inbound/proxy_listener.rs\<close>, \<open>proxy_request_format.rs\<close>), the forwarder with
  its agents (\<open>outbound/tx_forward.rs\<close>, \<open>outbound/sharder.rs\<close>, \<open>outbound/debouncer.rs\<close>) and the
  connection of an agent (\<open>quinn_auto_reconnect.rs\<close>).  One turn of the loop of the forwarder and one
  turn of the loop of an agent are one step each; what the network answers is an argument.
\<close>

section \<open>The connection of an agent\<close>

datatype agent_connection =
    AgentNotConnected
  | AgentConnection connection
  | AgentPermanentError
  | AgentFailedAttempt u32
  | AgentShuttingDown

definition agent_max_retry_attempts :: u32 where
  "agent_max_retry_attempts = 10"

definition agent_send_timeout :: nat where
  "agent_send_timeout = 5000"

fun agent_create_connection :: "created \<Rightarrow> connection option outcome" where
  "agent_create_connection (Made conn) = Inr (Some conn)"
| "agent_create_connection HandshakeTimedOut = Inr None"
| "agent_create_connection HandshakeRefused = Inl UnwrapNone"
| "agent_create_connection (HandshakeFailed e) = Inl (ExplicitPanic e)"

fun agent_refresh :: "(connection \<Rightarrow> bool) \<Rightarrow> created \<Rightarrow> agent_connection \<Rightarrow> agent_connection outcome" where
  "agent_refresh closed r (AgentConnection current) =
     (if closed current then
        bind_outcome (agent_create_connection r) (\<lambda>c. Inr (case c of
          Some new_connection \<Rightarrow> AgentConnection new_connection
        | None \<Rightarrow> AgentFailedAttempt 1))
      else Inr (AgentConnection current))"
| "agent_refresh closed r AgentNotConnected =
     bind_outcome (agent_create_connection r) (\<lambda>c. Inr (case c of
       Some new_connection \<Rightarrow> AgentConnection new_connection
     | None \<Rightarrow> AgentFailedAttempt 1))"
| "agent_refresh closed r AgentPermanentError = Inr AgentPermanentError"
| "agent_refresh closed r (AgentFailedAttempt attempts) =
     bind_outcome (agent_create_connection r) (\<lambda>c. Inr (case c of
       Some new_connection \<Rightarrow> AgentConnection new_connection
     | None \<Rightarrow> if attempts < agent_max_retry_attempts then AgentFailedAttempt (attempts + 1)
               else AgentPermanentError))"
| "agent_refresh closed r AgentShuttingDown = Inr AgentShuttingDown"

definition agent_refresh_and_get ::
    "(connection \<Rightarrow> bool) \<Rightarrow> created \<Rightarrow> agent_connection \<Rightarrow> (agent_connection \<times> (string + connection)) outcome" where
  "agent_refresh_and_get closed r st =
     bind_outcome (agent_refresh closed r st) (\<lambda>st'. Inr (st', case st' of
       AgentNotConnected \<Rightarrow> Inl ''not connected''
     | AgentConnection conn \<Rightarrow> Inr conn
     | AgentPermanentError \<Rightarrow> Inl ''permanent error''
     | AgentFailedAttempt _ \<Rightarrow> Inl ''failed connection attempt''
     | AgentShuttingDown \<Rightarrow> Inl ''shutting down''))"

definition agent_permanent_dead :: "agent_connection \<Rightarrow> bool" where
  "agent_permanent_dead st \<longleftrightarrow> st = AgentPermanentError"

definition agent_send_uni :: "uni_network \<Rightarrow> agent_connection \<Rightarrow> (agent_connection \<times> (string + unit)) outcome" where
  "agent_send_uni net st =
     bind_outcome (agent_refresh_and_get (un_closed net) (un_created net) st) (\<lambda>(st', conn).
       Inr (st', case conn of
         Inl e \<Rightarrow> Inl e
       | Inr _ \<Rightarrow>
           (case timeout agent_send_timeout (un_open net) of
              None \<Rightarrow> Inl ''open uni stream for sending''
            | Some (Inl e) \<Rightarrow> Inl e
            | Some (Inr _) \<Rightarrow>
                (case un_write net of Inl e \<Rightarrow> Inl e | Inr _ \<Rightarrow> un_finish net))))"

definition force_shutdown :: "agent_connection \<Rightarrow> agent_connection" where
  "force_shutdown st = AgentShuttingDown"

fun agent_connection_stats :: "(connection \<Rightarrow> string) \<Rightarrow> agent_connection \<Rightarrow> string" where
  "agent_connection_stats stats (AgentConnection conn) = stats conn"
| "agent_connection_stats stats AgentNotConnected = ''n/c''"
| "agent_connection_stats stats AgentPermanentError = ''n/a (permanent)''"
| "agent_connection_stats stats (AgentFailedAttempt _) = ''fail''"
| "agent_connection_stats stats AgentShuttingDown = ''shutdown''"

section \<open>Identity, shards and debouncing\<close>

record validator_identity =
  vi_keypair :: pubkey
  vi_is_dummy_keypair :: bool

text \<open>A key pair stands for its public key; \<open>fresh\<close> is a newly generated one.\<close>

definition validator_identity_new :: "pubkey \<Rightarrow> pubkey option \<Rightarrow> validator_identity" where
  "validator_identity_new fresh keypair =
     (case keypair of
        Some k \<Rightarrow> \<lparr>vi_keypair = k, vi_is_dummy_keypair = False\<rparr>
      | None \<Rightarrow> \<lparr>vi_keypair = fresh, vi_is_dummy_keypair = True\<rparr>)"

definition show_identity :: "(pubkey \<Rightarrow> string) \<Rightarrow> validator_identity \<Rightarrow> string" where
  "show_identity to_string v = (if vi_is_dummy_keypair v then ''no keypair'' else to_string (vi_keypair v))"

record sharder =
  sh_n_shards :: u32
  sh_pos :: u32

definition sharder_new :: "u32 \<Rightarrow> u32 \<Rightarrow> sharder outcome" where
  "sharder_new pos n_shards =
     (if \<not> 0 < n_shards then Inl AssertionFailed
      else if \<not> pos < n_shards then Inl (ExplicitPanic ''out of range'')
      else Inr \<lparr>sh_n_shards = n_shards, sh_pos = pos\<rparr>)"

definition sharder_matching :: "sharder \<Rightarrow> u64 \<Rightarrow> bool" where
  "sharder_matching s hash \<longleftrightarrow> ucast (hash mod ucast (sh_n_shards s)) = sh_pos s"

text \<open>Milliseconds since 1970; they are far below the bound of the 64 bits.\<close>

record debouncer =
  db_cooldown_ms :: int
  db_last :: int

definition debouncer_new :: "int \<Rightarrow> debouncer" where
  "debouncer_new cooldown = \<lparr>db_cooldown_ms = cooldown, db_last = - 1\<rparr>"

definition can_fire :: "int \<Rightarrow> debouncer \<Rightarrow> debouncer \<times> bool" where
  "can_fire epoch_now d =
     (if db_cooldown_ms d < epoch_now - db_last d then (d\<lparr>db_last := epoch_now\<rparr>, True) else (d, False))"

section \<open>Requests\<close>

text \<open>The request format of the proxy is the one of the client; \<open>serialize\<close> is bincode.\<close>

definition proxy_request_new ::
    "(versioned_transaction \<Rightarrow> wire) \<Rightarrow> (socket_addr \<times> pubkey) list \<Rightarrow> versioned_transaction list \<Rightarrow>
     tpu_forwarding_request outcome" where
  "proxy_request_new serialize tpu_fanout_nodes transactions =
     bind_outcome (map_outcome (\<lambda>tx.
         case vt_signatures tx of [] \<Rightarrow> Inl IndexOutOfBounds | sig # _ \<Rightarrow> Inr (tx_data_new sig (serialize tx))) transactions)
       (\<lambda>txs. Inr (tpu_forwarding_request_new tpu_fanout_nodes txs))"

definition try_deserialize :: "(wire \<Rightarrow> tpu_forwarding_request option) \<Rightarrow> wire \<Rightarrow> (string + tpu_forwarding_request) outcome" where
  "try_deserialize deserialize raw =
     (case deserialize raw of
        None \<Rightarrow> Inr (Inl ''deserialize proxy request'')
      | Some req \<Rightarrow>
          if tf_format_version req \<noteq> format_version1 then Inl AssertionFailed else Inr (Inr req))"

definition get_transaction_bytes :: "tpu_forwarding_request \<Rightarrow> wire list" where
  "get_transaction_bytes r = List.map td_transaction (tf_transactions r)"

definition get_hash :: "(signature \<Rightarrow> u64) \<Rightarrow> tpu_forwarding_request \<Rightarrow> u64 outcome" where
  "get_hash hasher r =
     (case tf_transactions r of [] \<Rightarrow> Inl IndexOutOfBounds | t # _ \<Rightarrow> Inr (hasher (td_signature t)))"

section \<open>The listener\<close>

record forward_packet =
  fp_transactions :: "wire list"
  fp_tpu_address :: socket_addr
  fp_shard_hash :: u64

definition forward_packet_new :: "wire list \<Rightarrow> socket_addr \<Rightarrow> u64 \<Rightarrow> forward_packet outcome" where
  "forward_packet_new transactions tpu_address hash =
     (if transactions = [] then Inl (ExplicitPanic ''no transactions'')
      else Inr \<lparr>fp_transactions = transactions, fp_tpu_address = tpu_address, fp_shard_hash = hash\<rparr>)"

text \<open>The packets of a request for its nodes, until the channel does not take one in time (\<open>accepts\<close>).\<close>

fun enqueue_packets ::
    "(signature \<Rightarrow> u64) \<Rightarrow> tpu_forwarding_request \<Rightarrow> wire list \<Rightarrow> bool list \<Rightarrow> tpu_node list \<Rightarrow>
     forward_packet list \<times> unit outcome" where
  "enqueue_packets hasher req txs accepts [] = ([], Inr ())"
| "enqueue_packets hasher req txs accepts (node # nodes) =
     (case bind_outcome (get_hash hasher req) (forward_packet_new txs (tn_tpu_socket_addr node)) of
        Inl p \<Rightarrow> ([], Inl p)
      | Inr packet \<Rightarrow>
          if accepts \<noteq> [] \<and> hd accepts then
            (let (packets, r) = enqueue_packets hasher req txs (tl accepts) nodes in (packet # packets, r))
          else ([], Inl (ExplicitPanic ''sending internal packet from proxy to forwarder'')))"

text \<open>One stream of a client: \<open>None\<close> stands for a stream that could not be read to its end.\<close>

definition handle_stream ::
    "(wire \<Rightarrow> tpu_forwarding_request option) \<Rightarrow> (signature \<Rightarrow> u64) \<Rightarrow> bool list \<Rightarrow> wire option \<Rightarrow>
     forward_packet list \<times> unit outcome" where
  "handle_stream deserialize hasher accepts raw =
     (case raw of
        None \<Rightarrow> ([], Inl UnwrapNone)
      | Some raw_request \<Rightarrow>
          (case try_deserialize deserialize raw_request of
             Inl p \<Rightarrow> ([], Inl p)
           | Inr (Inl _) \<Rightarrow> ([], Inl UnwrapNone)
           | Inr (Inr proxy_request) \<Rightarrow>
               if get_tpu_nodes proxy_request = [] then ([], Inr ())
               else enqueue_packets hasher proxy_request (get_transaction_bytes proxy_request) accepts
                      (get_tpu_nodes proxy_request)))"

datatype accept_uni = StreamAccepted "wire option" | ClosedByClient u64 | AcceptFailed string

text \<open>The streams for which a task is spawned, and the result once the connection has ended.\<close>

fun handle_client_connection :: "accept_uni list \<Rightarrow> wire option list \<times> (string + unit) option" where
  "handle_client_connection [] = ([], None)"
| "handle_client_connection (StreamAccepted raw # rest) =
     (let (streams, r) = handle_client_connection rest in (raw # streams, r))"
| "handle_client_connection (ClosedByClient code # rest) =
     ([], Some (if code \<noteq> 0 then Inl ''connection closed by client with unexpected reason'' else Inr ()))"
| "handle_client_connection (AcceptFailed e # rest) = ([], Some (Inl ''error accepting stream''))"

section \<open>The forwarder\<close>

definition max_parallel_streams :: nat where
  "max_parallel_streams = 6"

definition parallel_tpu_connection_count :: nat where
  "parallel_tpu_connection_count = 4"

definition agent_shutdown_idle :: nat where
  "agent_shutdown_idle = 2500"

text \<open>The capacity of the broadcast channel: a receiver that is behind loses its oldest packets.\<close>

definition broadcast_capacity :: nat where
  "broadcast_capacity = 1024"

text \<open>The sends of a chunk run in parallel and their errors are ignored; here in the order in which they
  take the lock of the connection.  The first result holds the transactions that were written.\<close>

fun send_chunk :: "(nat \<Rightarrow> uni_network) \<Rightarrow> nat \<Rightarrow> wire list \<Rightarrow> agent_connection \<Rightarrow> wire list \<times> agent_connection outcome" where
  "send_chunk nets k [] st = ([], Inr st)"
| "send_chunk nets k (tx_raw # txs) st =
     (case agent_send_uni (nets k) st of
        Inl p \<Rightarrow> ([], Inl p)
      | Inr (st1, r) \<Rightarrow>
          (let (sent, r2) = send_chunk nets (Suc k) txs st1
           in (if r = Inr () then tx_raw # sent else sent, r2)))"

fun send_tx_chunks :: "(nat \<Rightarrow> uni_network) \<Rightarrow> nat \<Rightarrow> wire list list \<Rightarrow> agent_connection \<Rightarrow> wire list \<times> agent_connection outcome" where
  "send_tx_chunks nets k [] st = ([], Inr st)"
| "send_tx_chunks nets k (c # cs) st =
     (case send_chunk nets k c st of
        (sent, Inl p) \<Rightarrow> (sent, Inl p)
      | (sent, Inr st1) \<Rightarrow> (let (sent2, r) = send_tx_chunks nets (k + length c) cs st1 in (sent @ sent2, r)))"

definition send_tx_batch_to_tpu :: "(nat \<Rightarrow> uni_network) \<Rightarrow> wire list \<Rightarrow> agent_connection \<Rightarrow> wire list \<times> agent_connection outcome" where
  "send_tx_batch_to_tpu nets txs st = send_tx_chunks nets 0 (chunks max_parallel_streams txs) st"

text \<open>A task of an agent, with its unread packets; \<open>at_delivered\<close> records what it wrote.\<close>

record agent_task =
  at_address :: socket_addr
  at_agent :: nat
  at_sharder :: sharder
  at_connection :: agent_connection
  at_queue :: "forward_packet list"
  at_lagged :: bool
  at_alive :: bool
  at_delivered :: "wire list"

record agent_handle =
  ah_tpu_address :: socket_addr
  ah_agent :: nat
  ah_last_used_at :: nat

datatype forwarder_end = ForwarderRunning | ForwarderBailed | ForwarderPanicked panic

record forwarder =
  fw_agents :: "(socket_addr, agent_handle) hashmap"
  fw_tasks :: "agent_task list"
  fw_signalled :: "nat list"
  fw_next_agent :: nat
  fw_debouncer :: debouncer
  fw_exit_signal :: bool
  fw_end :: forwarder_end
  fw_received :: "forward_packet list"

definition forwarder_new :: forwarder where
  "forwarder_new =
     \<lparr>fw_agents = [], fw_tasks = [], fw_signalled = [], fw_next_agent = 0, fw_debouncer = debouncer_new 200,
      fw_exit_signal = False, fw_end = ForwarderRunning, fw_received = []\<rparr>"

definition new_task :: "socket_addr \<Rightarrow> nat \<Rightarrow> nat \<Rightarrow> agent_task outcome" where
  "new_task tpu_address agent connection_idx =
     bind_outcome (sharder_new (word_of_nat connection_idx) (word_of_nat parallel_tpu_connection_count)) (\<lambda>sharder.
       Inr \<lparr>at_address = tpu_address, at_agent = agent, at_sharder = sharder, at_connection = AgentNotConnected,
         at_queue = [], at_lagged = False, at_alive = True, at_delivered = []\<rparr>)"

definition entry_or_insert_agent :: "nat \<Rightarrow> socket_addr \<Rightarrow> forwarder \<Rightarrow> forwarder outcome" where
  "entry_or_insert_agent now tpu_address fw =
     (if hm_get (fw_agents fw) tpu_address \<noteq> None then Inr fw
      else
        bind_outcome (map_outcome (new_task tpu_address (fw_next_agent fw)) [0 ..< parallel_tpu_connection_count]) (\<lambda>tasks.
          Inr (fw\<lparr>fw_agents := hm_put tpu_address
                  \<lparr>ah_tpu_address = tpu_address, ah_agent = fw_next_agent fw, ah_last_used_at = now\<rparr> (fw_agents fw),
                fw_tasks := fw_tasks fw @ tasks, fw_next_agent := Suc (fw_next_agent fw)\<rparr>)))"

definition touch_agent :: "nat \<Rightarrow> socket_addr \<Rightarrow> forwarder \<Rightarrow> forwarder" where
  "touch_agent now tpu_address fw =
     fw\<lparr>fw_agents := map_vals (\<lambda>a h. if a = tpu_address then h\<lparr>ah_last_used_at := now\<rparr> else h) (fw_agents fw)\<rparr>"

definition agent_idle :: "nat \<Rightarrow> socket_addr \<Rightarrow> socket_addr \<Rightarrow> agent_handle \<Rightarrow> bool" where
  "agent_idle now current_tpu_address tpu_address handle \<longleftrightarrow>
     tpu_address \<noteq> current_tpu_address \<and> agent_shutdown_idle < now - ah_last_used_at handle"

definition cleanup_agents :: "nat \<Rightarrow> socket_addr \<Rightarrow> forwarder \<Rightarrow> forwarder" where
  "cleanup_agents now current_tpu_address fw =
     fw\<lparr>fw_agents := map_retain (\<lambda>a h. \<not> agent_idle now current_tpu_address a h) (fw_agents fw),
        fw_signalled := fw_signalled fw @
          List.map (ah_agent \<circ> snd) (filter (\<lambda>(a, h). agent_idle now current_tpu_address a h) (fw_agents fw))\<rparr>"

definition task_receive :: "forward_packet \<Rightarrow> agent_task \<Rightarrow> agent_task" where
  "task_receive packet t =
     (if \<not> at_alive t then t
      else if length (at_queue t) < broadcast_capacity then t\<lparr>at_queue := at_queue t @ [packet]\<rparr>
      else t\<lparr>at_queue := tl (at_queue t) @ [packet], at_lagged := True\<rparr>)"

text \<open>Sending fails when nobody receives.\<close>

definition broadcast_send :: "forward_packet \<Rightarrow> forwarder \<Rightarrow> forwarder outcome" where
  "broadcast_send packet fw =
     (if \<not> list_ex at_alive (fw_tasks fw) then Inl (ExplicitPanic ''send must succeed'')
      else Inr (fw\<lparr>fw_tasks := List.map (task_receive packet) (fw_tasks fw),
                   fw_received := fw_received fw @ [packet]\<rparr>))"

text \<open>One turn of the loop of the forwarder, at the time \<open>now\<close> of the monotonic clock and
  \<open>epoch_now\<close> of the system clock.\<close>

definition forwarder_turn :: "nat \<Rightarrow> int \<Rightarrow> forward_packet \<Rightarrow> forwarder \<Rightarrow> forwarder outcome" where
  "forwarder_turn now epoch_now packet fw =
     bind_outcome (entry_or_insert_agent now (fp_tpu_address packet) fw) (\<lambda>fw1.
       let fw2 = touch_agent now (fp_tpu_address packet) fw1;
           (d, fire) = can_fire epoch_now (fw_debouncer fw2);
           fw3 = fw2\<lparr>fw_debouncer := d\<rparr>;
           fw4 = (if fire then cleanup_agents now (fp_tpu_address packet) fw3 else fw3)
       in broadcast_send packet fw4)"

section \<open>The tasks of an agent\<close>

definition for_task :: "agent_task \<Rightarrow> forward_packet \<Rightarrow> bool" where
  "for_task t packet \<longleftrightarrow> fp_tpu_address packet = at_address t \<and> sharder_matching (at_sharder t) (fp_shard_hash packet)"

definition task_exit :: "agent_task \<Rightarrow> agent_task" where
  "task_exit t = t\<lparr>at_alive := False, at_queue := [], at_connection := force_shutdown (at_connection t)\<rparr>"

text \<open>\<open>allowance\<close> is how many transactions of the batch the time limit of five seconds leaves.\<close>

definition task_send :: "(nat \<Rightarrow> uni_network) \<Rightarrow> nat \<Rightarrow> wire list \<Rightarrow> agent_task \<Rightarrow> agent_task" where
  "task_send nets allowance batch t =
     (case send_tx_batch_to_tpu nets (take allowance batch) (at_connection t) of
        (sent, Inl p) \<Rightarrow> t\<lparr>at_alive := False, at_queue := [], at_delivered := at_delivered t @ sent\<rparr>
      | (sent, Inr st) \<Rightarrow> t\<lparr>at_connection := st, at_queue := [], at_delivered := at_delivered t @ sent\<rparr>)"

text \<open>\<open>recv\<close> takes the oldest packet, or reports once that packets were lost.\<close>

definition task_recv :: "agent_task \<Rightarrow> agent_task" where
  "task_recv t = (if at_lagged t then t\<lparr>at_lagged := False\<rparr> else t\<lparr>at_queue := tl (at_queue t)\<rparr>)"

definition task_turn :: "bool \<Rightarrow> bool \<Rightarrow> (nat \<Rightarrow> uni_network) \<Rightarrow> nat \<Rightarrow> agent_task \<Rightarrow> agent_task" where
  "task_turn global_exit agent_exit nets allowance t =
     (if \<not> at_alive t \<or> at_queue t = [] then t
      else
        (let t1 = task_recv t;
             packet = hd (at_queue t)
         in if global_exit then task_exit t1
            else if agent_exit \<and> (at_queue t1 = [] \<or> agent_permanent_dead (at_connection t1)) then task_exit t1
            else if at_lagged t then task_exit t1
            else if \<not> for_task t1 packet then t1
            else if agent_permanent_dead (at_connection t1) then task_exit t1
            else task_send nets allowance
                   (fp_transactions packet @ concat (List.map fp_transactions (filter (for_task t1) (at_queue t1)))) t1))"

section \<open>Runs\<close>

datatype forwarder_event =
    PacketReceived nat int forward_packet
  | TaskTurn nat "nat \<Rightarrow> uni_network" nat
  | ExitSignalled

fun forwarder_step :: "forwarder \<Rightarrow> forwarder_event \<Rightarrow> forwarder" where
  "forwarder_step fw (PacketReceived now epoch_now packet) =
     (if fw_end fw \<noteq> ForwarderRunning then fw
      else if fw_exit_signal fw then fw\<lparr>fw_end := ForwarderBailed\<rparr>
      else (case forwarder_turn now epoch_now packet fw of
              Inl p \<Rightarrow> fw\<lparr>fw_end := ForwarderPanicked p\<rparr>
            | Inr fw' \<Rightarrow> fw'))"
| "forwarder_step fw (TaskTurn k nets allowance) =
     (if k < length (fw_tasks fw) then
        (let t = fw_tasks fw ! k
         in fw\<lparr>fw_tasks := (fw_tasks fw)[k := task_turn (fw_exit_signal fw) (at_agent t \<in> set (fw_signalled fw)) nets allowance t]\<rparr>)
      else fw)"
| "forwarder_step fw ExitSignalled = fw\<lparr>fw_exit_signal := True\<rparr>"

definition forwarder_run :: "forwarder_event list \<Rightarrow> forwarder" where
  "forwarder_run es = foldl forwarder_step forwarder_new es"

section \<open>Lemmas\<close>

lemma sharder_new_ok:
  "k < 4 \<Longrightarrow> sharder_new (word_of_nat k) (word_of_nat 4) = Inr \<lparr>sh_n_shards = 4, sh_pos = word_of_nat k\<rparr>"
proof -
  assume "k < 4"
  then consider "k = 0" | "k = 1" | "k = 2" | "k = 3" by linarith
  then show ?thesis by cases (simp_all add: sharder_new_def)
qed

lemma sharder_matching_four:
  assumes "k < 4"
  shows "sharder_matching \<lparr>sh_n_shards = 4, sh_pos = word_of_nat k\<rparr> hash \<longleftrightarrow> unat hash mod 4 = k"
proof -
  have "unat (ucast (hash mod 4) :: u32) = unat hash mod 4"
    by (simp add: unsigned_ucast_eq unat_mod take_bit_eq_mod)
  moreover have "unat (word_of_nat k :: u32) = k" using assms by (simp add: unat_of_nat)
  ultimately show ?thesis
    unfolding sharder_matching_def by (simp add: word_unat_eq_iff)
qed

lemma send_chunk_subseq: "subseq (fst (send_chunk nets k txs st)) txs"
proof (induction txs arbitrary: k st)
  case (Cons tx txs)
  show ?case
  proof (cases "agent_send_uni (nets k) st")
    case (Inr u)
    obtain st1 r where u: "u = (st1, r)" by (cases u)
    from Cons.IH [of "Suc k" st1] show ?thesis by (auto simp: Inr u split_def Let_def)
  qed simp
qed simp

lemma send_tx_chunks_subseq: "subseq (fst (send_tx_chunks nets k cs st)) (concat cs)"
proof (induction cs arbitrary: k st)
  case (Cons c cs)
  obtain sent r where c: "send_chunk nets k c st = (sent, r)" by (cases "send_chunk nets k c st")
  with send_chunk_subseq [of nets k c st] have "subseq sent c" by simp
  then show ?case
    using Cons.IH c by (cases r) (auto simp: split_def Let_def intro: list_emb_append_mono)
qed simp

lemma send_batch_subseq: "subseq (fst (send_tx_batch_to_tpu nets txs st)) txs"
proof -
  have "concat (chunks max_parallel_streams txs) = txs" by (rule concat_chunks) (simp add: max_parallel_streams_def)
  with send_tx_chunks_subseq [of nets 0 "chunks max_parallel_streams txs" st] show ?thesis
    by (simp add: send_tx_batch_to_tpu_def)
qed

definition pending :: "agent_task \<Rightarrow> forward_packet list \<Rightarrow> wire list" where
  "pending t q = concat (List.map fp_transactions (filter (for_task t) q))"

lemma pending_simps [simp]:
  "pending t [] = []"
  "pending t (p # q) = (if for_task t p then fp_transactions p else []) @ pending t q"
  "pending t (q @ q') = pending t q @ pending t q'"
  by (simp_all add: pending_def)

definition task_key :: "agent_task \<Rightarrow> nat \<times> socket_addr \<times> sharder" where
  "task_key t = (at_agent t, at_address t, at_sharder t)"

lemma task_key_updates [simp]:
  "task_key (t\<lparr>at_queue := q\<rparr>) = task_key t" "task_key (t\<lparr>at_lagged := b\<rparr>) = task_key t"
  "task_key (t\<lparr>at_alive := b\<rparr>) = task_key t" "task_key (t\<lparr>at_connection := c\<rparr>) = task_key t"
  "task_key (t\<lparr>at_delivered := d\<rparr>) = task_key t"
  by (simp_all add: task_key_def)

lemma task_key_steps [simp]:
  "task_key (task_receive p t) = task_key t" "task_key (task_exit t) = task_key t"
  "task_key (task_send nets allowance batch t) = task_key t" "task_key (task_recv t) = task_key t"
  by (simp_all add: task_receive_def task_exit_def task_send_def task_recv_def split: prod.splits sum.splits)

lemma task_turn_cases:
  "task_turn g a nets allowance t \<in> {t, task_recv t, task_exit (task_recv t)} \<or>
   (at_queue t \<noteq> [] \<and> \<not> at_lagged t \<and> for_task (task_recv t) (hd (at_queue t)) \<and>
    task_turn g a nets allowance t = task_send nets allowance (fp_transactions (hd (at_queue t)) @
      concat (List.map fp_transactions (filter (for_task (task_recv t)) (at_queue (task_recv t))))) (task_recv t))"
  by (simp add: task_turn_def Let_def)

lemma task_turn_key [simp]: "task_key (task_turn g a nets allowance t) = task_key t"
  using task_turn_cases [of g a nets allowance t] by auto

lemma for_task_key: "task_key t = task_key t' \<Longrightarrow> for_task t = for_task t'"
  by (simp add: fun_eq_iff for_task_def task_key_def)

lemma pending_key: "task_key t = task_key t' \<Longrightarrow> pending t = pending t'"
  using for_task_key [of t t'] by (intro ext) (simp add: pending_def)

text \<open>What a task has delivered and what is still in its queue are in order among the packets for it.\<close>

definition task_ok :: "forward_packet list \<Rightarrow> agent_task \<Rightarrow> bool" where
  "task_ok received t \<longleftrightarrow> subseq (at_delivered t @ pending t (at_queue t)) (pending t received)"

lemma subseq_drop_queue: "subseq (d @ q) r \<Longrightarrow> subseq q' q \<Longrightarrow> subseq (d @ q') r"
proof -
  assume r: "subseq (d @ q) r" and q: "subseq q' q"
  from q have "subseq (d @ q') (d @ q)" by (simp add: subseq_append')
  from subseq_order.order_trans [OF this r] show ?thesis .
qed

lemma pending_tl: "subseq (pending t (tl q)) (pending t q)"
  by (cases q) auto

lemma task_ok_weaken:
  assumes "task_ok received t" and "task_key t' = task_key t" and "at_delivered t' = at_delivered t"
    and "at_queue t' = [] \<or> at_queue t' = at_queue t \<or> at_queue t' = tl (at_queue t)"
  shows "task_ok received t'"
proof -
  have "subseq (pending t (at_queue t')) (pending t (at_queue t))" using assms(4) pending_tl by auto
  then show ?thesis
    using assms(1) unfolding task_ok_def pending_key [OF assms(2)] assms(3) by (rule subseq_drop_queue [rotated])
qed

lemma task_receive_ok: "task_ok received t \<Longrightarrow> task_ok (received @ [p]) (task_receive p t)"
proof -
  assume ok: "task_ok received t"
  have k: "pending (task_receive p t) = pending t" by (rule pending_key) simp
  have r: "subseq (at_delivered t @ pending t q @ pending t [p]) (pending t received @ pending t [p])"
    if "q = at_queue t \<or> q = tl (at_queue t)" for q
  proof -
    have "subseq (pending t q) (pending t (at_queue t))" using that pending_tl by auto
    with ok have "subseq (at_delivered t @ pending t q) (pending t received)"
      unfolding task_ok_def by (rule subseq_drop_queue)
    then have "subseq ((at_delivered t @ pending t q) @ pending t [p]) (pending t received @ pending t [p])"
      by (rule list_emb_append_mono) simp
    then show ?thesis by simp
  qed
  show ?thesis
  proof (cases "at_alive t")
    case True
    then show ?thesis
      using r [of "at_queue t"] r [of "tl (at_queue t)"] unfolding task_ok_def k
      by (cases "length (at_queue t) < broadcast_capacity") (simp_all add: task_receive_def del: pending_simps(2))
  next
    case False
    then show ?thesis
      using ok unfolding task_ok_def k
      by (cases "for_task t p") (simp_all add: task_receive_def subseq_rev_drop_many)
  qed
qed

lemma task_exit_ok: "task_ok received t \<Longrightarrow> task_ok received (task_exit t)"
  by (erule task_ok_weaken [OF _ task_key_steps(2)]) (simp_all add: task_exit_def)

lemma task_send_ok:
  assumes "subseq (at_delivered t @ batch) (pending t received)"
  shows "task_ok received (task_send nets allowance batch t)"
proof -
  obtain sent r where s: "send_tx_batch_to_tpu nets (take allowance batch) (at_connection t) = (sent, r)"
    by (cases "send_tx_batch_to_tpu nets (take allowance batch) (at_connection t)")
  with send_batch_subseq have "subseq sent (take allowance batch)" by (metis fst_conv)
  moreover have "subseq (take allowance batch) batch"
    using subseq_rev_drop_many [OF subseq_order.order_refl, of "take allowance batch" "drop allowance batch"] by simp
  ultimately have "subseq sent batch" by (rule subseq_order.order_trans)
  from subseq_drop_queue [OF assms this] have "subseq (at_delivered t @ sent) (pending t received)" .
  moreover have "pending (task_send nets allowance batch t) = pending t" by (rule pending_key) simp
  ultimately show ?thesis by (cases r) (simp_all add: task_ok_def task_send_def s)
qed

lemma task_turn_ok:
  assumes "task_ok received t"
  shows "task_ok received (task_turn g a nets allowance t)"
proof -
  let ?t1 = "task_recv t" and ?packet = "hd (at_queue t)"
  have ok1: "task_ok received ?t1"
    by (rule task_ok_weaken [OF assms task_key_steps(4)]) (simp_all add: task_recv_def)
  have "subseq (at_delivered ?t1 @ fp_transactions ?packet @ concat (List.map fp_transactions (filter (for_task ?t1) (at_queue ?t1))))
      (pending ?t1 received)" if that: "at_queue t \<noteq> []" "\<not> at_lagged t" "for_task ?t1 ?packet"
  proof -
    have t1: "at_queue ?t1 = tl (at_queue t)" "at_delivered ?t1 = at_delivered t" "for_task ?t1 = for_task t"
      using that(2) by (simp add: task_recv_def, simp add: task_recv_def, intro for_task_key) (rule task_key_steps(4))
    have "fp_transactions ?packet @ pending t (tl (at_queue t)) = pending t (at_queue t)"
      using that(1,3) unfolding t1 by (cases "at_queue t") simp_all
    with assms show ?thesis
      unfolding task_ok_def t1 pending_key [OF task_key_steps(4)] by (simp add: pending_def)
  qed
  then have sent: "task_ok received (task_send nets allowance (fp_transactions ?packet @
      concat (List.map fp_transactions (filter (for_task ?t1) (at_queue ?t1)))) ?t1)"
    if "at_queue t \<noteq> []" "\<not> at_lagged t" "for_task ?t1 ?packet"
    using that by (intro task_send_ok) blast
  from task_turn_cases [of g a nets allowance t] show ?thesis
    using assms ok1 task_exit_ok [OF ok1] sent by (elim disjE) (auto simp del: list.map)
qed

text \<open>The tasks of the agents: four for each, one for every shard.\<close>

definition agent_keys :: "socket_addr \<Rightarrow> nat \<Rightarrow> (nat \<times> socket_addr \<times> sharder) list" where
  "agent_keys a i = List.map (\<lambda>k. (i, a, \<lparr>sh_n_shards = 4, sh_pos = word_of_nat k\<rparr>)) [0 ..< 4]"

definition fresh_task :: "socket_addr \<Rightarrow> nat \<Rightarrow> nat \<Rightarrow> agent_task" where
  "fresh_task a i k = \<lparr>at_address = a, at_agent = i, at_sharder = \<lparr>sh_n_shards = 4, sh_pos = word_of_nat k\<rparr>,
     at_connection = AgentNotConnected, at_queue = [], at_lagged = False, at_alive = True, at_delivered = []\<rparr>"

lemma new_tasks: "map_outcome (new_task a i) [0 ..< parallel_tpu_connection_count] = Inr (List.map (fresh_task a i) [0 ..< 4])"
proof -
  have "new_task a i k = Inr (fresh_task a i k)" if "k \<in> set [0 ..< 4]" for k
    using that unfolding new_task_def parallel_tpu_connection_count_def
    by (subst sharder_new_ok) (simp_all add: fresh_task_def del: bind_outcome_Inr)
  from map_outcome_Inr [of "[0 ..< 4]", OF this] show ?thesis unfolding parallel_tpu_connection_count_def .
qed

lemma fresh_task_key: "List.map task_key (List.map (fresh_task a i) [0 ..< 4]) = agent_keys a i"
  by (simp add: agent_keys_def task_key_def fresh_task_def)

definition all_keys :: "socket_addr list \<Rightarrow> (nat \<times> socket_addr \<times> sharder) list" where
  "all_keys addrs = concat (List.map (\<lambda>(a, i). agent_keys a i) (zip addrs [0 ..< length addrs]))"

lemma all_keys_snoc: "all_keys (addrs @ [a]) = all_keys addrs @ agent_keys a (length addrs)"
  by (simp add: all_keys_def)

lemma agent_keys_filter: "filter (\<lambda>k. fst k = i) (agent_keys a j) = (if i = j then agent_keys a j else [])"
  by (simp add: agent_keys_def filter_empty_conv)

lemma all_keys_filter:
  "filter (\<lambda>k. fst k = i) (all_keys addrs) = (if i < length addrs then agent_keys (addrs ! i) i else [])"
proof (induction addrs rule: rev_induct)
  case (snoc a addrs)
  then show ?case by (auto simp: all_keys_snoc agent_keys_filter nth_append less_Suc_eq)
qed (simp add: all_keys_def)

definition forwarder_ok :: "forwarder \<Rightarrow> bool" where
  "forwarder_ok fw \<longleftrightarrow>
     (\<exists>addrs. length addrs = fw_next_agent fw \<and> List.map task_key (fw_tasks fw) = all_keys addrs) \<and>
     (\<forall>t \<in> set (fw_tasks fw). task_ok (fw_received fw) t)"

lemma entry_ok:
  assumes "forwarder_ok fw" and "entry_or_insert_agent now a fw = Inr fw'"
  shows "forwarder_ok fw'"
proof (cases "hm_get (fw_agents fw) a = None")
  case True
  have fresh: "task_ok received (fresh_task a i k)" for received i k by (simp add: task_ok_def fresh_task_def)
  from assms True have fw': "fw_tasks fw' = fw_tasks fw @ List.map (fresh_task a (fw_next_agent fw)) [0 ..< 4]"
      "fw_next_agent fw' = Suc (fw_next_agent fw)" "fw_received fw' = fw_received fw"
    by (auto simp: entry_or_insert_agent_def new_tasks simp del: upt_Suc)
  obtain addrs where addrs: "length addrs = fw_next_agent fw" "List.map task_key (fw_tasks fw) = all_keys addrs"
    using assms(1) by (auto simp: forwarder_ok_def)
  then have "length (addrs @ [a]) = fw_next_agent fw' \<and> List.map task_key (fw_tasks fw') = all_keys (addrs @ [a])"
    unfolding fw' all_keys_snoc map_append fresh_task_key by simp
  moreover have "\<forall>t \<in> set (fw_tasks fw'). task_ok (fw_received fw') t"
    using assms(1) fresh unfolding fw' forwarder_ok_def by auto
  ultimately show ?thesis unfolding forwarder_ok_def by blast
next
  case False
  with assms show ?thesis by (auto simp: entry_or_insert_agent_def)
qed

lemma forwarder_turn_ok:
  assumes "forwarder_ok fw" and "forwarder_turn now epoch_now packet fw = Inr fw'"
  shows "forwarder_ok fw'"
proof -
  from assms(2) obtain fw1 where fw1: "entry_or_insert_agent now (fp_tpu_address packet) fw = Inr fw1"
    by (auto simp: forwarder_turn_def)
  have ok: "forwarder_ok fw1" by (rule entry_ok [OF assms(1) fw1])
  from assms(2) fw1 have fw': "fw_tasks fw' = List.map (task_receive packet) (fw_tasks fw1)"
      "fw_next_agent fw' = fw_next_agent fw1" "fw_received fw' = fw_received fw1 @ [packet]"
    by (auto simp: forwarder_turn_def broadcast_send_def cleanup_agents_def touch_agent_def split_def Let_def
        split: if_splits)
  have "List.map task_key (fw_tasks fw') = List.map task_key (fw_tasks fw1)" by (simp add: fw')
  moreover have "\<forall>t \<in> set (fw_tasks fw'). task_ok (fw_received fw') t"
    using ok by (auto simp: forwarder_ok_def fw' intro: task_receive_ok)
  ultimately show ?thesis using ok unfolding forwarder_ok_def fw'(2) by metis
qed

lemma forwarder_step_ok: "forwarder_ok fw \<Longrightarrow> forwarder_ok (forwarder_step fw e)"
proof (cases e)
  case (PacketReceived now epoch_now packet)
  assume ok: "forwarder_ok fw"
  show ?thesis
  proof (cases "forwarder_turn now epoch_now packet fw")
    case (Inr fw')
    then show ?thesis using forwarder_turn_ok [OF ok Inr] ok by (simp add: PacketReceived forwarder_ok_def)
  qed (use ok in \<open>simp add: PacketReceived forwarder_ok_def\<close>)
next
  case (TaskTurn k nets allowance)
  assume ok: "forwarder_ok fw"
  show ?thesis
  proof (cases "k < length (fw_tasks fw)")
    case True
    let ?t = "fw_tasks fw ! k"
    let ?t' = "task_turn (fw_exit_signal fw) (at_agent ?t \<in> set (fw_signalled fw)) nets allowance ?t"
    have "List.map task_key ((fw_tasks fw)[k := ?t']) = List.map task_key (fw_tasks fw)"
      using True by (simp add: map_update list_update_same_conv)
    moreover have "\<forall>t \<in> set ((fw_tasks fw)[k := ?t']). task_ok (fw_received fw) t"
      using ok True set_update_subset_insert [of "fw_tasks fw" k ?t'] task_turn_ok [of "fw_received fw" ?t]
      by (auto simp: forwarder_ok_def)
    ultimately show ?thesis using ok True by (simp add: TaskTurn Let_def forwarder_ok_def)
  qed (use ok in \<open>simp add: TaskTurn\<close>)
next
  case ExitSignalled
  assume "forwarder_ok fw"
  then show ?thesis by (simp add: ExitSignalled forwarder_ok_def)
qed

lemma forwarder_run_ok: "forwarder_ok (forwarder_run es)"
proof -
  have "forwarder_ok fw \<Longrightarrow> forwarder_ok (foldl forwarder_step fw es)" for fw
    by (induction es arbitrary: fw) (simp_all add: forwarder_step_ok)
  moreover have "forwarder_ok forwarder_new" by (simp add: forwarder_ok_def forwarder_new_def all_keys_def)
  ultimately show ?thesis unfolding forwarder_run_def by blast
qed

text \<open>Among the four shards exactly one takes a packet.\<close>

definition keyed_pending :: "nat \<times> socket_addr \<times> sharder \<Rightarrow> forward_packet list \<Rightarrow> wire list" where
  "keyed_pending k q = concat (List.map fp_transactions
     (filter (\<lambda>p. fp_tpu_address p = fst (snd k) \<and> sharder_matching (snd (snd k)) (fp_shard_hash p)) q))"

lemma pending_keyed: "pending t = keyed_pending (task_key t)"
  by (simp add: fun_eq_iff pending_def keyed_pending_def task_key_def for_task_def [abs_def])

lemma shards_complete:
  "mset (concat (List.map (\<lambda>k. keyed_pending k q) (agent_keys a i))) =
   mset (concat (List.map fp_transactions (filter (\<lambda>p. fp_tpu_address p = a) q)))"
proof (induction q)
  case Nil
  then show ?case by (simp add: agent_keys_def keyed_pending_def upt_conv_Cons)
next
  case (Cons p q)
  have four: "sharder_matching \<lparr>sh_n_shards = 4, sh_pos = word_of_nat k\<rparr> (fp_shard_hash p) \<longleftrightarrow>
      unat (fp_shard_hash p) mod 4 = k" if "k \<in> {0, 1, 2, 3}" for k
    using that by (intro sharder_matching_four) auto
  have s: "sharder_matching \<lparr>sh_n_shards = 4, sh_pos = 0\<rparr> (fp_shard_hash p) \<longleftrightarrow> unat (fp_shard_hash p) mod 4 = 0"
    "sharder_matching \<lparr>sh_n_shards = 4, sh_pos = 1\<rparr> (fp_shard_hash p) \<longleftrightarrow> unat (fp_shard_hash p) mod 4 = 1"
    "sharder_matching \<lparr>sh_n_shards = 4, sh_pos = 2\<rparr> (fp_shard_hash p) \<longleftrightarrow> unat (fp_shard_hash p) mod 4 = 2"
    "sharder_matching \<lparr>sh_n_shards = 4, sh_pos = 3\<rparr> (fp_shard_hash p) \<longleftrightarrow> unat (fp_shard_hash p) mod 4 = 3"
    using four [of 0] four [of 1] four [of 2] four [of 3] by simp_all
  have keys: "agent_keys a i = [(i, a, \<lparr>sh_n_shards = 4, sh_pos = 0\<rparr>), (i, a, \<lparr>sh_n_shards = 4, sh_pos = 1\<rparr>),
      (i, a, \<lparr>sh_n_shards = 4, sh_pos = 2\<rparr>), (i, a, \<lparr>sh_n_shards = 4, sh_pos = 3\<rparr>)]"
    by (simp add: agent_keys_def upt_conv_Cons)
  have "unat (fp_shard_hash p) mod 4 < 4" by simp
  then consider "unat (fp_shard_hash p) mod 4 = 0" | "unat (fp_shard_hash p) mod 4 = 1" |
      "unat (fp_shard_hash p) mod 4 = 2" | "unat (fp_shard_hash p) mod 4 = 3" by linarith
  then show ?case
    using Cons.IH unfolding keys by cases (simp_all add: keyed_pending_def s)
qed

lemma subseq_mset: "subseq xs ys \<Longrightarrow> mset xs \<subseteq># mset ys"
  by (induction rule: list_emb.induct) (auto intro: subset_mset.order_trans)

lemma tasks_mset:
  "\<forall>t \<in> set ts. mset (at_delivered t) \<subseteq># mset (pending t q) \<Longrightarrow>
   mset (concat (List.map at_delivered ts)) \<subseteq># mset (concat (List.map (\<lambda>t. pending t q) ts))"
  by (induction ts) (auto intro: subset_mset.add_mono)

lemma task_ok_delivered: "task_ok received t \<Longrightarrow> subseq (at_delivered t) (pending t received)"
  unfolding task_ok_def by (meson subseq_order.order_trans subseq_rev_drop_many subseq_order.order_refl)

section \<open>Properties\<close>


text \<open>A network that lets every transaction through in time.\<close>

definition healthy :: "uni_network \<Rightarrow> bool" where
  "healthy net \<longleftrightarrow> (\<exists>c. un_created net = Made c) \<and> timeout agent_send_timeout (un_open net) = Some (Inr ()) \<and>
     un_write net = Inr () \<and> un_finish net = Inr ()"

fun usable :: "agent_connection \<Rightarrow> bool" where
  "usable AgentPermanentError = False"
| "usable AgentShuttingDown = False"
| "usable _ = True"

lemma agent_send_uni_healthy:
  assumes "healthy net" and "usable st"
  shows "\<exists>st'. agent_send_uni net st = Inr (st', Inr ()) \<and> usable st'"
proof -
  obtain c where c: "un_created net = Made c" using assms(1) by (auto simp: healthy_def)
  have "\<exists>c'. agent_refresh (un_closed net) (un_created net) st = Inr (AgentConnection c')"
    using assms(2) c by (cases st) (auto split: if_splits)
  then show ?thesis using assms(1) by (auto simp: agent_send_uni_def agent_refresh_and_get_def healthy_def)
qed

lemma send_chunk_healthy:
  "\<forall>k. healthy (nets k) \<Longrightarrow> usable st \<Longrightarrow> \<exists>st'. send_chunk nets k txs st = (txs, Inr st') \<and> usable st'"
proof (induction txs arbitrary: k st)
  case (Cons tx txs)
  obtain st1 where st1: "agent_send_uni (nets k) st = Inr (st1, Inr ())" "usable st1"
    using agent_send_uni_healthy [of "nets k" st] Cons.prems by blast
  from Cons.IH [OF Cons.prems(1) st1(2), of "Suc k"] show ?case by (auto simp: st1(1))
qed simp

lemma send_tx_chunks_healthy:
  "\<forall>k. healthy (nets k) \<Longrightarrow> usable st \<Longrightarrow> \<exists>st'. send_tx_chunks nets k cs st = (concat cs, Inr st') \<and> usable st'"
proof (induction cs arbitrary: k st)
  case (Cons c cs)
  obtain st1 where st1: "send_chunk nets k c st = (c, Inr st1)" "usable st1"
    using send_chunk_healthy [OF Cons.prems] by blast
  from Cons.IH [OF Cons.prems(1) st1(2), of "k + length c"] show ?case by (auto simp: st1(1))
qed simp

lemma task_send_healthy:
  assumes "\<forall>k. healthy (nets k)" and "usable (at_connection t)" and "length batch \<le> allowance"
  shows "\<exists>st. task_send nets allowance batch t =
    t\<lparr>at_connection := st, at_queue := [], at_delivered := at_delivered t @ batch\<rparr> \<and> usable st"
proof -
  have "concat (chunks max_parallel_streams batch) = batch" by (rule concat_chunks) (simp add: max_parallel_streams_def)
  then obtain st where "send_tx_batch_to_tpu nets batch (at_connection t) = (batch, Inr st)" "usable st"
    using send_tx_chunks_healthy [OF assms(1,2), of 0 "chunks max_parallel_streams batch"]
    by (auto simp: send_tx_batch_to_tpu_def)
  then show ?thesis using assms(3) by (auto simp: task_send_def)
qed

definition task_ready :: "agent_task \<Rightarrow> bool" where
  "task_ready t \<longleftrightarrow> at_alive t \<and> \<not> at_lagged t \<and> usable (at_connection t)"

lemma task_turn_healthy:
  assumes "\<forall>k. healthy (nets k)" and "task_ready t" and "at_queue t = p # q" and "length (pending t (p # q)) \<le> allowance"
  shows "\<exists>t'. task_turn False False nets allowance t = t' \<and> task_ready t' \<and> task_key t' = task_key t \<and>
    (at_queue t' = q \<and> \<not> for_task t p \<and> at_delivered t' = at_delivered t \<or>
     at_queue t' = [] \<and> at_delivered t' = at_delivered t @ pending t (p # q))"
proof -
  let ?t1 = "t\<lparr>at_queue := q\<rparr>"
  have t1: "task_recv t = ?t1" using assms(2,3) by (simp add: task_recv_def task_ready_def)
  have k: "for_task ?t1 = for_task t" by (rule for_task_key) simp
  have alive: "\<not> agent_permanent_dead (at_connection t)"
    using assms(2) by (cases "at_connection t") (simp_all add: agent_permanent_dead_def task_ready_def)
  show ?thesis
  proof (cases "for_task t p")
    case True
    then have "fp_transactions p @ concat (List.map fp_transactions (filter (for_task t) q)) = pending t (p # q)"
      by (simp add: pending_def)
    then have "task_turn False False nets allowance t = task_send nets allowance (pending t (p # q)) ?t1"
      using assms(2,3) True alive by (simp add: task_turn_def t1 k task_ready_def Let_def)
    moreover have "usable (at_connection ?t1)" using assms(2) by (simp add: task_ready_def)
    from task_send_healthy [OF assms(1) this assms(4)] obtain st where
      "task_send nets allowance (pending t (p # q)) ?t1 =
         ?t1\<lparr>at_connection := st, at_queue := [], at_delivered := at_delivered ?t1 @ pending t (p # q)\<rparr>" "usable st" by blast
    ultimately show ?thesis using assms(2) by (simp add: task_ready_def)
  next
    case False
    then have "task_turn False False nets allowance t = ?t1"
      using assms(2,3) alive by (simp add: task_turn_def t1 k task_ready_def Let_def)
    then show ?thesis using False assms(2) by (simp add: task_ready_def)
  qed
qed

lemma task_turn_idle: "at_queue t = [] \<Longrightarrow> (task_turn g a nets allowance ^^ n) t = t"
  by (induction n) (simp_all add: task_turn_def)

text \<open>With a network that works, a task that is not signalled to end writes everything that waits in its
  queue, in order, within as many turns as there are packets.\<close>

lemma queued_packets_delivered:
  assumes "\<forall>k. healthy (nets k)" and "task_ready t" and "length (pending t (at_queue t)) \<le> allowance"
  shows "\<exists>t'. (task_turn False False nets allowance ^^ length (at_queue t)) t = t' \<and> task_ready t' \<and>
    at_queue t' = [] \<and>
    at_delivered t' = at_delivered t @ concat (List.map fp_transactions (filter (for_task t) (at_queue t)))"
proof -
  have "\<exists>t'. (task_turn False False nets allowance ^^ length q) t = t' \<and> task_ready t' \<and> at_queue t' = [] \<and>
      at_delivered t' = at_delivered t @ pending t q"
    if "at_queue t = q" "task_ready t" "length (pending t q) \<le> allowance" for q t
    using that
  proof (induction q arbitrary: t)
    case (Cons p q)
    let ?t' = "task_turn False False nets allowance t"
    from task_turn_healthy [OF assms(1) Cons.prems(2,1,3)] have t': "task_ready ?t'" "task_key ?t' = task_key t"
      "at_queue ?t' = q \<and> \<not> for_task t p \<and> at_delivered ?t' = at_delivered t \<or>
       at_queue ?t' = [] \<and> at_delivered ?t' = at_delivered t @ pending t (p # q)" by auto
    have p': "pending ?t' q = pending t q" using pending_key [OF t'(2)] by simp
    from t'(3) show ?case
    proof
      assume c: "at_queue ?t' = q \<and> \<not> for_task t p \<and> at_delivered ?t' = at_delivered t"
      with Cons.prems(3) have "length (pending ?t' q) \<le> allowance" by (simp add: p')
      from Cons.IH [OF _ t'(1) this] c show ?thesis by (simp add: funpow_swap1 p')
    next
      assume c: "at_queue ?t' = [] \<and> at_delivered ?t' = at_delivered t @ pending t (p # q)"
      then have "(task_turn False False nets allowance ^^ length q) ?t' = ?t'" by (simp add: task_turn_idle)
      with c t'(1) show ?thesis by (simp add: funpow_swap1)
    qed
  qed simp
  from this [OF refl assms(2,3)] show ?thesis by (simp add: pending_def)
qed

definition sample_packet :: "u64 \<Rightarrow> forward_packet" where
  "sample_packet h = \<lparr>fp_transactions = [[1], [2]], fp_tpu_address = (1, 8), fp_shard_hash = h\<rparr>"

definition good_uni_network :: uni_network where
  "good_uni_network = \<lparr>un_closed = (\<lambda>_. False), un_created = Made 3, un_open = Some (Inr (), 7),
     un_write = Inr (), un_finish = Inr ()\<rparr>"


lemma queued_packets_delivered_witness:
  "\<exists>t'. (task_turn False False (\<lambda>_. good_uni_network) 9 ^^ 2)
       ((fresh_task (1, 8) 0 1)\<lparr>at_queue := [sample_packet 0, sample_packet 5]\<rparr>) = t' \<and> at_delivered t' = [[1], [2]]"
proof -
  let ?t = "(fresh_task (1, 8) 0 1)\<lparr>at_queue := [sample_packet 0, sample_packet 5]\<rparr>"
  have h: "\<forall>k. healthy ((\<lambda>_. good_uni_network) k)"
    by (simp add: healthy_def good_uni_network_def timeout_def agent_send_timeout_def)
  have r: "task_ready ?t" by (simp add: task_ready_def fresh_task_def)
  have f: "concat (List.map fp_transactions (filter (for_task ?t) (at_queue ?t))) = [[1], [2]]" by code_simp
  then have "length (pending ?t (at_queue ?t)) \<le> 9" by (simp add: pending_def)
  from queued_packets_delivered [OF h r this] f show ?thesis by (simp add: fresh_task_def numeral_2_eq_2)
qed

text \<open>C32: When every connection task has ended, the next packet for a known TPU node ends the forwarder, and
  with it the whole proxy: an agent stays in the map although none of its tasks lives.\<close>

lemma dead_agents_end_forwarder:
  assumes "fw_end fw = ForwarderRunning" and "\<not> fw_exit_signal fw"
    and "hm_get (fw_agents fw) (fp_tpu_address packet) \<noteq> None" and "\<forall>t \<in> set (fw_tasks fw). \<not> at_alive t"
  shows "fw_end (forwarder_step fw (PacketReceived now epoch_now packet)) = ForwarderPanicked (ExplicitPanic ''send must succeed'')"
proof -
  have "entry_or_insert_agent now (fp_tpu_address packet) fw = Inr fw" using assms(3) by (simp add: entry_or_insert_agent_def)
  moreover have "broadcast_send packet fw' = Inl (ExplicitPanic ''send must succeed'')" if "fw_tasks fw' = fw_tasks fw" for fw'
    using assms(4) that by (auto simp: broadcast_send_def list_ex_iff)
  ultimately have "forwarder_turn now epoch_now packet fw = Inl (ExplicitPanic ''send must succeed'')"
    by (simp add: forwarder_turn_def split_def Let_def cleanup_agents_def touch_agent_def)
  then show ?thesis using assms(1,2) by simp
qed

text \<open>A node that refuses connections is enough.\<close>

definition refusing_network :: uni_network where
  "refusing_network = good_uni_network\<lparr>un_created := HandshakeFailed ''refused''\<rparr>"

definition refusing_run :: "forwarder_event list" where
  "refusing_run = List.map (\<lambda>h. PacketReceived 1 1000 (sample_packet h)) [0, 1, 2, 3] @
     List.map (\<lambda>k. TaskTurn k (\<lambda>_. refusing_network) 9) [0, 1, 1, 2, 2, 2, 3, 3, 3, 3]"

lemma dead_agents_end_forwarder_witness:
  "fw_end (forwarder_step (forwarder_run refusing_run) (PacketReceived 2 1001 (sample_packet 4))) =
     ForwarderPanicked (ExplicitPanic ''send must succeed'')"
proof (rule dead_agents_end_forwarder)
  show "fw_end (forwarder_run refusing_run) = ForwarderRunning" by code_simp
  show "\<not> fw_exit_signal (forwarder_run refusing_run)" by code_simp
  show "hm_get (fw_agents (forwarder_run refusing_run)) (fp_tpu_address (sample_packet 4)) \<noteq> None" by code_simp
  show "\<forall>t \<in> set (fw_tasks (forwarder_run refusing_run)). \<not> at_alive t" by code_simp
qed

text \<open>The debouncer fires at most once in a cooldown; only idle agents of other nodes are removed.\<close>

lemma can_fire_spaced:
  "can_fire t1 d = (d1, True) \<Longrightarrow> can_fire t2 d1 = (d2, True) \<Longrightarrow> db_cooldown_ms d < t2 - t1"
  by (auto simp: can_fire_def split: if_splits)

lemma cleanup_keeps:
  "hm_inv (fw_agents fw) \<Longrightarrow> hm_get (fw_agents fw) a = Some h \<Longrightarrow>
   a = current \<or> now - ah_last_used_at h \<le> agent_shutdown_idle \<Longrightarrow>
   hm_get (fw_agents (cleanup_agents now current fw)) a = Some h"
  by (auto simp: cleanup_agents_def hm_get_retain agent_idle_def)

text \<open>The connection agrees with the client's copy of it, which cannot be shut down.\<close>

fun agent_view :: "connection_state \<Rightarrow> agent_connection" where
  "agent_view NeverConnected = AgentNotConnected"
| "agent_view (Connection c) = AgentConnection c"
| "agent_view PermanentError = AgentPermanentError"
| "agent_view (FailedAttempt n) = AgentFailedAttempt n"

lemma agent_refresh_agrees:
  "agent_refresh closed r (agent_view st) = bind_outcome (refresh closed r st) (\<lambda>st'. Inr (agent_view st'))"
  by (cases st; cases r) (simp_all add: agent_max_retry_attempts_def max_retry_attempts_def)

lemma agent_send_agrees:
  "agent_send_uni net (agent_view st) = bind_outcome (send_uni net st) (\<lambda>(st', r). Inr (agent_view st', r))"
proof (cases "refresh (un_closed net) (un_created net) st")
  case (Inr st')
  have "timeout agent_send_timeout (un_open net) = timeout send_timeout (un_open net)"
    by (simp add: agent_send_timeout_def send_timeout_def)
  with Inr show ?thesis
    by (cases st') (simp_all add: agent_send_uni_def send_uni_def agent_refresh_and_get_def refresh_and_get_def
        agent_refresh_agrees del: bind_outcome_Inr)
qed (simp add: agent_send_uni_def send_uni_def agent_refresh_and_get_def refresh_and_get_def agent_refresh_agrees)

section \<open>Requests of the client\<close>

text \<open>What the listener enqueues for a well-formed request: one packet per node with all transactions.\<close>

lemma request_enqueued:
  assumes "deserialize raw = Some req" and "tf_format_version req = format_version1"
    and "tf_transactions req \<noteq> []" and "get_tpu_nodes req \<noteq> []"
    and "length (get_tpu_nodes req) \<le> length accepts" and "list_all id accepts"
  shows "handle_stream deserialize hasher accepts (Some raw) =
    (List.map (\<lambda>n. \<lparr>fp_transactions = get_transaction_bytes req, fp_tpu_address = tn_tpu_socket_addr n,
       fp_shard_hash = hasher (td_signature (hd (tf_transactions req)))\<rparr>) (get_tpu_nodes req), Inr ())"
proof -
  have txs: "get_transaction_bytes req \<noteq> []" using assms(3) by (simp add: get_transaction_bytes_def)
  have hash: "get_hash hasher req = Inr (hasher (td_signature (hd (tf_transactions req))))"
    using assms(3) by (cases "tf_transactions req") (simp_all add: get_hash_def)
  have "enqueue_packets hasher req (get_transaction_bytes req) as ns =
      (List.map (\<lambda>n. \<lparr>fp_transactions = get_transaction_bytes req, fp_tpu_address = tn_tpu_socket_addr n,
       fp_shard_hash = hasher (td_signature (hd (tf_transactions req)))\<rparr>) ns, Inr ())"
    if "length ns \<le> length as" "list_all id as" for as ns
    using that
  proof (induction ns arbitrary: as)
    case (Cons n ns)
    then obtain b bs where "as = b # bs" by (cases as) auto
    with Cons show ?case by (simp add: hash forward_packet_new_def txs)
  qed simp
  from this [OF assms(5,6)] show ?thesis using assms(1,2,4) by (simp add: handle_stream_def try_deserialize_def)
qed

text \<open>A request without transactions panics once it names a node.\<close>

lemma empty_request_panics:
  assumes "deserialize raw = Some req" and "tf_format_version req = format_version1" and "tf_transactions req = []"
    and "get_tpu_nodes req \<noteq> []"
  shows "handle_stream deserialize hasher accepts (Some raw) = ([], Inl IndexOutOfBounds)"
  using assms by (cases "get_tpu_nodes req") (simp_all add: handle_stream_def try_deserialize_def get_hash_def)

lemma filter_one_node:
  "distinct (List.map f ns) \<Longrightarrow> n \<in> set ns \<Longrightarrow> filter (\<lambda>m. f m = f n) ns = [n]"
  by (induction ns) (auto simp: filter_empty_conv image_iff)



end
