(* ===== verification/Stream_Inspect.thy ===== *)
theory Stream_Inspect
  imports Grpc_Multiplex
begin

text \<open>
  \<open>cluster-endpoints/src/grpc_inspect.rs\<close>: the two tasks that watch the stream of blocks and warn when
  it breaks its rules, on the levels of one block and on the chain of blocks of one level.  A warning
  is a value; the times that are only printed are left out, and a block hash stands for its printed
  form.
\<close>

section \<open>The levels of a block\<close>

datatype inspect_warning =
    DuplicateProcessed | DuplicateConfirmed | DuplicateFinalized
  | ConfirmedWithoutProcessed | ConfirmedAfterFinalized
  | ProcessedAfterConfirmed | ProcessedAfterFinalized
  | FinalizedWithoutProcessed | FinalizedWithoutConfirmed

record inspector =
  si_cleanup_before_slot :: u64
  si_slots_since_last_cleanup :: nat
  si_saw_processed_at :: "(hash, slot) hashmap"
  si_saw_confirmed_at :: "(hash, slot) hashmap"
  si_saw_finalized_at :: "(hash, slot) hashmap"

definition inspector_new :: inspector where
  "inspector_new = \<lparr>si_cleanup_before_slot = 0, si_slots_since_last_cleanup = 0, si_saw_processed_at = [],
     si_saw_confirmed_at = [], si_saw_finalized_at = []\<rparr>"

definition is_confirmed :: "commitment_config \<Rightarrow> bool" where
  "is_confirmed c \<longleftrightarrow> cc_commitment c = LevelConfirmed"

definition warn_if :: "bool \<Rightarrow> inspect_warning \<Rightarrow> inspect_warning list" where
  "warn_if c w = (if c then [w] else [])"

definition saw :: "(hash, slot) hashmap \<Rightarrow> hash \<Rightarrow> bool" where
  "saw m h \<longleftrightarrow> hm_get m h \<noteq> None"

definition record_block :: "produced_block \<Rightarrow> inspector \<Rightarrow> inspector \<times> inspect_warning list" where
  "record_block b s =
     (let c = pb_commitment_config b; h = pb_blockhash b; sl = pb_slot b
      in (s\<lparr>si_saw_processed_at := (if is_processed c then hm_put h sl (si_saw_processed_at s) else si_saw_processed_at s),
            si_saw_confirmed_at := (if is_confirmed c then hm_put h sl (si_saw_confirmed_at s) else si_saw_confirmed_at s),
            si_saw_finalized_at := (if is_finalized c then hm_put h sl (si_saw_finalized_at s) else si_saw_finalized_at s)\<rparr>,
          warn_if (is_processed c \<and> saw (si_saw_processed_at s) h) DuplicateProcessed @
          warn_if (is_confirmed c \<and> saw (si_saw_confirmed_at s) h) DuplicateConfirmed @
          warn_if (is_finalized c \<and> saw (si_saw_finalized_at s) h) DuplicateFinalized))"

definition check_rules :: "produced_block \<Rightarrow> inspector \<Rightarrow> inspect_warning list" where
  "check_rules b s =
     (let c = pb_commitment_config b; h = pb_blockhash b
      in warn_if (is_confirmed c \<and> \<not> saw (si_saw_processed_at s) h) ConfirmedWithoutProcessed @
         warn_if (is_confirmed c \<and> saw (si_saw_finalized_at s) h) ConfirmedAfterFinalized @
         warn_if (is_processed c \<and> saw (si_saw_confirmed_at s) h) ProcessedAfterConfirmed @
         warn_if (is_processed c \<and> saw (si_saw_finalized_at s) h) ProcessedAfterFinalized @
         warn_if (is_finalized c \<and> \<not> saw (si_saw_processed_at s) h) FinalizedWithoutProcessed @
         warn_if (is_finalized c \<and> \<not> saw (si_saw_confirmed_at s) h) FinalizedWithoutConfirmed)"

text \<open>The maps are cleaned up with the old clean-up point; the subtraction wraps around.\<close>

definition inspect_cleanup :: "slot \<Rightarrow> inspector \<Rightarrow> inspector" where
  "inspect_cleanup sl s =
     (if si_slots_since_last_cleanup s < 500
      then s\<lparr>si_slots_since_last_cleanup := si_slots_since_last_cleanup s + 1\<rparr>
      else
        (let keep = map_retain (\<lambda>_ sl. si_cleanup_before_slot s \<le> sl)
         in s\<lparr>si_saw_processed_at := keep (si_saw_processed_at s),
              si_saw_confirmed_at := keep (si_saw_confirmed_at s),
              si_saw_finalized_at := keep (si_saw_finalized_at s),
              si_cleanup_before_slot := sl - 200, si_slots_since_last_cleanup := 0\<rparr>))"

definition inspect_block :: "produced_block \<Rightarrow> inspector \<Rightarrow> inspector \<times> inspect_warning list" where
  "inspect_block b s =
     (if pb_slot b < si_cleanup_before_slot s then (s, [])
      else
        (let (s1, duplicates) = record_block b s
         in (inspect_cleanup (pb_slot b) s1, duplicates @ check_rules b s1)))"

text \<open>The loop of the task: a lagged receiver goes on, a closed channel ends it.\<close>

datatype inspect_event = InspectBlock produced_block | InspectLagged | InspectClosed

fun inspect_run :: "inspector \<Rightarrow> inspect_event list \<Rightarrow> inspector \<times> inspect_warning list" where
  "inspect_run s [] = (s, [])"
| "inspect_run s (InspectBlock b # es) =
     (let (s1, w1) = inspect_block b s; (s2, w2) = inspect_run s1 es in (s2, w1 @ w2))"
| "inspect_run s (InspectLagged # es) = inspect_run s es"
| "inspect_run s (InspectClosed # es) = (s, [])"

section \<open>The chain of blocks\<close>

datatype chain_warning = ParentNotCorrect | NotMonotonic | PreviousHashNotCorrect

record chain_check =
  ch_last_slot_seen :: slot
  ch_last_highest_slot_number :: slot
  ch_last_blockhash :: "hash option"

definition chain_check_new :: chain_check where
  "chain_check_new = \<lparr>ch_last_slot_seen = 0, ch_last_highest_slot_number = 0, ch_last_blockhash = None\<rparr>"

definition chain_block :: "commitment_config \<Rightarrow> produced_block \<Rightarrow> chain_check \<Rightarrow> chain_check \<times> chain_warning list" where
  "chain_block c b s =
     (if pb_commitment_config b \<noteq> c then (s, [])
      else
        (let highest = ch_last_highest_slot_number s
         in (s\<lparr>ch_last_slot_seen := pb_slot b,
               ch_last_highest_slot_number := (if highest < pb_slot b then pb_slot b else highest),
               ch_last_blockhash := Some (pb_blockhash b)\<rparr>,
             (if highest \<noteq> 0 \<and> pb_parent_slot b \<noteq> highest then [ParentNotCorrect] else []) @
             (if highest < pb_slot b then [] else [NotMonotonic]) @
             (case ch_last_blockhash s of
                None \<Rightarrow> []
              | Some last_blockhash \<Rightarrow>
                  if pb_previous_blockhash b = last_blockhash then [] else [PreviousHashNotCorrect]))))"

fun chain_run :: "commitment_config \<Rightarrow> chain_check \<Rightarrow> produced_block list \<Rightarrow> chain_check \<times> chain_warning list" where
  "chain_run c s [] = (s, [])"
| "chain_run c s (b # bs) =
     (let (s1, w1) = chain_block c b s; (s2, w2) = chain_run c s1 bs in (s2, w1 @ w2))"

text \<open>The task that watches the progress: the slot it saw last and the time of the last change; it warns
  after ten seconds without a change.  Times are milliseconds.\<close>

record progress_watch =
  pw_prev_slot :: slot
  pw_last_changed_at :: nat

definition progress_turn :: "nat \<Rightarrow> slot \<Rightarrow> progress_watch \<Rightarrow> progress_watch \<times> bool" where
  "progress_turn now latest_slot w =
     (if pw_prev_slot w = 0 then (w\<lparr>pw_prev_slot := latest_slot\<rparr>, False)
      else if latest_slot \<noteq> pw_prev_slot w then (w\<lparr>pw_prev_slot := latest_slot, pw_last_changed_at := now\<rparr>, False)
      else (w\<lparr>pw_prev_slot := latest_slot\<rparr>, 10000 < now - pw_last_changed_at w))"

section \<open>What the warnings mean\<close>

text \<open>A block may come at a level once, and only when the levels below it, and none above it, came before.\<close>

definition level_ok :: "produced_block list \<Rightarrow> produced_block \<Rightarrow> bool" where
  "level_ok before b \<longleftrightarrow>
     (let seen = (\<lambda>c. (pb_blockhash b, c) \<in> set (List.map block_key before))
      in case cc_commitment (pb_commitment_config b) of
           LevelProcessed \<Rightarrow> \<not> seen processed_config \<and> \<not> seen confirmed_config \<and> \<not> seen finalized_config
         | LevelConfirmed \<Rightarrow> seen processed_config \<and> \<not> seen confirmed_config \<and> \<not> seen finalized_config
         | LevelFinalized \<Rightarrow> seen processed_config \<and> seen confirmed_config \<and> \<not> seen finalized_config)"

fun sequence_ok :: "produced_block list \<Rightarrow> produced_block list \<Rightarrow> bool" where
  "sequence_ok before [] = True"
| "sequence_ok before (b # bs) \<longleftrightarrow> level_ok before b \<and> sequence_ok (before @ [b]) bs"

lemma sequence_ok_append: "sequence_ok before (bs @ cs) \<longleftrightarrow> sequence_ok before bs \<and> sequence_ok (before @ bs) cs"
  by (induction bs arbitrary: before) auto

definition inspector_knows :: "produced_block list \<Rightarrow> inspector \<Rightarrow> bool" where
  "inspector_knows before s \<longleftrightarrow>
     si_cleanup_before_slot s = 0 \<and> si_slots_since_last_cleanup s = length before \<and>
     (\<forall>h. (saw (si_saw_processed_at s) h \<longleftrightarrow> (h, processed_config) \<in> set (List.map block_key before)) \<and>
          (saw (si_saw_confirmed_at s) h \<longleftrightarrow> (h, confirmed_config) \<in> set (List.map block_key before)) \<and>
          (saw (si_saw_finalized_at s) h \<longleftrightarrow> (h, finalized_config) \<in> set (List.map block_key before)))"

lemma saw_put [simp]: "saw (hm_put h sl m) h' \<longleftrightarrow> h' = h \<or> saw m h'"
  by (simp add: saw_def hm_get_hm_put)

lemma config_cases:
  obtains "c = processed_config" | "c = confirmed_config" | "c = finalized_config"
proof (cases c)
  case (fields l)
  then show ?thesis
    using that by (cases l) (simp_all add: processed_config_def confirmed_config_def finalized_config_def)
qed

lemma config_levels [simp]:
  "cc_commitment processed_config = LevelProcessed" "cc_commitment confirmed_config = LevelConfirmed"
  "cc_commitment finalized_config = LevelFinalized"
  "is_confirmed confirmed_config" "\<not> is_confirmed processed_config" "\<not> is_confirmed finalized_config"
  by (simp_all add: processed_config_def confirmed_config_def finalized_config_def is_confirmed_def)

lemma inspect_block_step:
  assumes "inspector_knows before s" and "length before < 500"
  shows "inspector_knows (before @ [b]) (fst (inspect_block b s)) \<and>
    (snd (inspect_block b s) = [] \<longleftrightarrow> level_ok before b)"
proof -
  have key: "block_key b = (pb_blockhash b, pb_commitment_config b)" by (simp add: block_key_def)
  show ?thesis
    using assms
    by (cases rule: config_cases [of "pb_commitment_config b"])
      (auto simp: inspect_block_def record_block_def check_rules_def inspect_cleanup_def key inspector_knows_def
        level_ok_def warn_if_def Let_def)
qed

lemma inspect_run_levels:
  "inspector_knows before s \<Longrightarrow> length before + length bs \<le> 500 \<Longrightarrow>
   snd (inspect_run s (List.map InspectBlock bs)) = [] \<longleftrightarrow> sequence_ok before bs"
proof (induction bs arbitrary: before s)
  case (Cons b bs)
  have "length before < 500" using Cons.prems(2) by simp
  from inspect_block_step [OF Cons.prems(1) this, of b]
  have step: "inspector_knows (before @ [b]) (fst (inspect_block b s))"
    "snd (inspect_block b s) = [] \<longleftrightarrow> level_ok before b" by blast+
  from Cons.IH [OF step(1)] Cons.prems(2) step(2) show ?case by (simp add: split_def Let_def)
qed simp

lemma inspector_new_knows: "inspector_knows [] inspector_new"
  by (simp add: inspector_knows_def inspector_new_def saw_def)

section \<open>The stream of the emitter\<close>

text \<open>Every finalization is reported after the confirmation of the same block.\<close>

definition infos_ordered :: "emitter_event list \<Rightarrow> bool" where
  "infos_ordered es \<longleftrightarrow>
     (\<forall>es1 i es2. es = es1 @ GotInfoFinalized i # es2 \<longrightarrow> bi_blockhash i \<in> confirmed_hashes es1)"

lemma infos_ordered_snoc:
  assumes "infos_ordered (es @ [e])"
  shows "infos_ordered es" and "e = GotInfoFinalized i \<Longrightarrow> bi_blockhash i \<in> confirmed_hashes es"
proof -
  show "infos_ordered es"
    unfolding infos_ordered_def
  proof (intro allI impI)
    fix es1 i es2 assume "es = es1 @ GotInfoFinalized i # es2"
    then have "es @ [e] = es1 @ GotInfoFinalized i # (es2 @ [e])" by simp
    with assms show "bi_blockhash i \<in> confirmed_hashes es1" unfolding infos_ordered_def by blast
  qed
  assume "e = GotInfoFinalized i"
  then have "es @ [e] = es @ GotInfoFinalized i # []" by simp
  with assms show "bi_blockhash i \<in> confirmed_hashes es" unfolding infos_ordered_def by blast
qed

lemma finalized_confirmed: "infos_ordered es \<Longrightarrow> finalized_hashes es \<subseteq> confirmed_hashes es"
proof (induction es rule: rev_induct)
  case (snoc e es)
  note o = infos_ordered_snoc [OF snoc.prems]
  from snoc.IH [OF o(1)] o(2) show ?case by (cases e) (auto simp: confirmed_hashes_snoc)
qed (simp add: confirmed_hashes_def finalized_hashes_def)

abbreviation emitted_keys :: "emitter_event list \<Rightarrow> (hash \<times> commitment_config) set" where
  "emitted_keys es \<equiv> set (List.map block_key (emitted_blocks es))"

lemma emitted_keys_cases:
  assumes "streams_ok es" and "(h, c) \<in> emitted_keys es"
  shows "\<exists>p. GotProcessedBlock p \<in> set es \<and> h = pb_blockhash p"
    and "c = confirmed_config \<Longrightarrow> h \<in> confirmed_hashes es" and "c = finalized_config \<Longrightarrow> h \<in> finalized_hashes es"
proof -
  obtain b where b: "b \<in> set (emitted_blocks es)" "h = pb_blockhash b" "c = pb_commitment_config b"
    using assms(2) by (auto simp: block_key_def)
  from emitted_key [OF assms(1) b(1)] show "\<exists>p. GotProcessedBlock p \<in> set es \<and> h = pb_blockhash p"
    and "c = confirmed_config \<Longrightarrow> h \<in> confirmed_hashes es" and "c = finalized_config \<Longrightarrow> h \<in> finalized_hashes es"
    using b(2,3) by auto
qed

lemma processed_emitted:
  assumes "streams_ok es" and "GotProcessedBlock p \<in> set es"
  shows "(pb_blockhash p, processed_config) \<in> emitted_keys es"
proof -
  obtain es1 es2 where es: "es = (es1 @ [GotProcessedBlock p]) @ es2" using assms(2) by (auto simp: in_set_conv_decomp)
  have "p \<in> set (emitted_blocks (es1 @ [GotProcessedBlock p]))" by (simp add: emitted_blocks_snoc)
  then have "p \<in> set (emitted_blocks es)" unfolding es using emitted_blocks_mono by blast
  moreover have "block_key p = (pb_blockhash p, processed_config)"
    using assms by (simp add: block_key_def streams_ok_def)
  ultimately show ?thesis by force
qed

lemma level_ok_key:
  assumes "block_key b = (h, c)"
  shows "c = processed_config \<Longrightarrow> level_ok before b \<longleftrightarrow> (\<forall>c'. (h, c') \<notin> set (List.map block_key before))"
    and "c = confirmed_config \<Longrightarrow> level_ok before b \<longleftrightarrow> (h, processed_config) \<in> set (List.map block_key before) \<and>
      (h, confirmed_config) \<notin> set (List.map block_key before) \<and> (h, finalized_config) \<notin> set (List.map block_key before)"
    and "c = finalized_config \<Longrightarrow> level_ok before b \<longleftrightarrow> (h, processed_config) \<in> set (List.map block_key before) \<and>
      (h, confirmed_config) \<in> set (List.map block_key before) \<and> (h, finalized_config) \<notin> set (List.map block_key before)"
proof -
  have b: "pb_blockhash b = h" "pb_commitment_config b = c" using assms by (simp_all add: block_key_def)
  have all: "(\<forall>c'. P c') \<longleftrightarrow> \<not> \<not> (P processed_config \<and> P confirmed_config \<and> P finalized_config)" for P
    by (metis config_cases)
  show "c = processed_config \<Longrightarrow> level_ok before b \<longleftrightarrow> (\<forall>c'. (h, c') \<notin> set (List.map block_key before))"
    unfolding all by (simp add: level_ok_def b Let_def)
qed (use assms in \<open>auto simp: level_ok_def block_key_def Let_def\<close>)

lemma emitter_sequence_ok:
  "streams_ok es \<Longrightarrow> CleanupTick \<notin> set es \<Longrightarrow> infos_ordered es \<Longrightarrow> sequence_ok [] (emitted_blocks es)"
proof (induction es rule: rev_induct)
  case Nil
  then show ?case by (simp add: emitted_blocks_def)
next
  case (snoc e es)
  let ?em = "fst (emitter_run emitter_new es)" and ?B = "emitted_blocks es"
  note o = infos_ordered_snoc [OF snoc.prems(3)]
  have ok: "streams_ok es" "CleanupTick \<notin> set es" using snoc.prems(1,2) by (simp_all add: streams_ok_snoc)
  note IH = snoc.IH [OF ok o(1)]
  note keys = emitted_keys_cases [OF ok(1)]
  have knows: "emitter_knows es ?em" by (rule conjunct1 [OF emitter_run_knows])
  have keeps: "emitter_keeps es ?em" by (rule emitter_run_keeps [OF ok])
  have new: "sequence_ok ?B (List.map_filter emitted_block (snd (emitter_step ?em e)))"
  proof (cases e)
    case (GotProcessedBlock b)
    let ?h = "pb_blockhash b"
    have b: "pb_commitment_config b = processed_config" "\<forall>b'. GotProcessedBlock b' \<in> set es \<longrightarrow> pb_blockhash b' \<noteq> ?h"
      using snoc.prems(1) by (simp_all add: GotProcessedBlock streams_ok_snoc)
    have kb: "block_key b = (?h, processed_config)" using b(1) by (simp add: block_key_def)
    have fresh: "\<forall>c. (?h, c) \<notin> set (List.map block_key ?B)" using keys(1) b(2) by metis
    have first: "level_ok ?B b" using fresh level_ok_key(1) [OF kb refl] by blast
    have conf: "level_ok (?B @ [b]) (to_confirmed_block b)"
      using fresh by (subst level_ok_key(2) [OF block_key_simps(1) refl]) (simp add: kb)
    have fin: "level_ok (?B @ [b, to_confirmed_block b]) (to_finalized_block b)"
      using fresh by (subst level_ok_key(3) [OF block_key_simps(2) refl]) (simp add: kb)
    have "?h \<in> em_confirmed_not_yet_processed ?em" if "?h \<in> em_finalized_not_yet_processed ?em"
    proof -
      have "?h \<in> finalized_hashes es" using that knows by (auto simp: emitter_knows_def)
      then have "?h \<in> confirmed_hashes es" using finalized_confirmed [OF o(1)] by blast
      then show ?thesis using keeps b(2) by (auto simp: emitter_keeps_def)
    qed
    then show ?thesis
      using first conf fin by (simp add: GotProcessedBlock map_filter_append)
  next
    case (GotInfoConfirmed i)
    show ?thesis
    proof (cases "hm_get (em_recent_processed_blocks ?em) (bi_blockhash i)")
      case (Some b)
      then have b: "pb_blockhash b = bi_blockhash i" "GotProcessedBlock b \<in> set es"
        using knows by (simp_all add: emitter_knows_def)
      have once: "bi_blockhash i \<notin> confirmed_hashes es" using snoc.prems(1) by (simp add: GotInfoConfirmed streams_ok_snoc)
      have "(bi_blockhash i, processed_config) \<in> emitted_keys es" using processed_emitted [OF ok(1) b(2)] b(1) by simp
      moreover have "(bi_blockhash i, confirmed_config) \<notin> emitted_keys es" using keys(2) [OF _ refl] once by blast
      moreover have "(bi_blockhash i, finalized_config) \<notin> emitted_keys es"
        using keys(3) [OF _ refl] once finalized_confirmed [OF o(1)] by blast
      ultimately have "level_ok ?B (to_confirmed_block b)"
        by (subst level_ok_key(2) [OF block_key_simps(1) refl]) (simp add: b(1))
      with Some show ?thesis by (simp add: GotInfoConfirmed on_info_confirmed_def Let_def)
    qed (simp add: GotInfoConfirmed on_info_confirmed_def Let_def)
  next
    case (GotInfoFinalized i)
    show ?thesis
    proof (cases "hm_get (em_recent_processed_blocks ?em) (bi_blockhash i)")
      case (Some b)
      then have b: "pb_blockhash b = bi_blockhash i" "GotProcessedBlock b \<in> set es"
        using knows by (simp_all add: emitter_knows_def)
      have once: "bi_blockhash i \<notin> finalized_hashes es" using snoc.prems(1) by (simp add: GotInfoFinalized streams_ok_snoc)
      have "to_confirmed_block b \<in> set ?B"
        using confirmed_emitted [OF ok b(2)] o(2) [OF GotInfoFinalized] once b(1) by simp
      then have "(bi_blockhash i, confirmed_config) \<in> emitted_keys es" using b(1) by (force simp: image_iff)
      moreover have "(bi_blockhash i, processed_config) \<in> emitted_keys es" using processed_emitted [OF ok(1) b(2)] b(1) by simp
      moreover have "(bi_blockhash i, finalized_config) \<notin> emitted_keys es" using keys(3) [OF _ refl] once by blast
      ultimately have "level_ok ?B (to_finalized_block b)"
        by (subst level_ok_key(3) [OF block_key_simps(2) refl]) (simp add: b(1))
      with Some show ?thesis by (simp add: GotInfoFinalized on_info_finalized_def Let_def)
    qed (simp add: GotInfoFinalized on_info_finalized_def Let_def)
  qed simp_all
  with IH show ?case by (simp add: emitted_blocks_snoc sequence_ok_append)
qed

section \<open>Properties\<close>

text \<open>Up to the first clean-up the inspection is exact: it warns if and only if some block comes twice at a
  level, before the levels below it, or after a level above it.\<close>

lemma inspection_exact:
  assumes "length bs \<le> 500"
  shows "snd (inspect_run inspector_new (List.map InspectBlock bs)) = [] \<longleftrightarrow> sequence_ok [] bs"
  using inspect_run_levels [OF inspector_new_knows, of bs] assms by simp

text \<open>C20: The emitter passes the inspection: when the sources deliver each block and each report once, and
  report a block as confirmed before they report it as finalized, then whether the reports come before
  or after the block, no warning is ever raised on what the emitter sends (up to the clean-ups of
  both tasks).\<close>

lemma emitter_passes_inspection:
  assumes "streams_ok es" and "CleanupTick \<notin> set es" and "infos_ordered es"
    and "length (emitted_blocks es) \<le> 500"
  shows "snd (inspect_run inspector_new (List.map InspectBlock (emitted_blocks es))) = []"
  using inspect_run_levels [OF inspector_new_knows, of "emitted_blocks es"] emitter_sequence_ok [OF assms(1-3)] assms(4)
  by simp

lemma inspection_exact_witness:
  "snd (inspect_run inspector_new (List.map InspectBlock
     [sample_stream_block 8, to_finalized_block (sample_stream_block 8)])) \<noteq> []"
proof -
  have "\<not> sequence_ok [] [sample_stream_block 8, to_finalized_block (sample_stream_block 8)]"
    by (simp add: level_ok_def Let_def block_key_def sample_stream_block_def to_finalized_block_def)
  with inspection_exact [of "[sample_stream_block 8, to_finalized_block (sample_stream_block 8)]"] show ?thesis by simp
qed

lemma emitter_passes_inspection_witness:
  "snd (inspect_run inspector_new (List.map InspectBlock (emitted_blocks
     [GotInfoConfirmed (sample_stream_info 8), GotProcessedBlock (sample_stream_block 8),
      GotInfoFinalized (sample_stream_info 8)]))) = []"
proof (rule emitter_passes_inspection)
  let ?es = "[GotInfoConfirmed (sample_stream_info 8), GotProcessedBlock (sample_stream_block 8),
      GotInfoFinalized (sample_stream_info 8)]"
  show "streams_ok ?es" by (simp add: streams_ok_def sample_stream_info_def sample_stream_block_def)
  show "CleanupTick \<notin> set ?es" by simp
  show "infos_ordered ?es"
    unfolding infos_ordered_def
  proof (intro allI impI)
    fix es1 i es2 assume "?es = es1 @ GotInfoFinalized i # es2"
    then have "i = sample_stream_info 8 \<and> es1 = [GotInfoConfirmed (sample_stream_info 8), GotProcessedBlock (sample_stream_block 8)]"
      by (auto simp: Cons_eq_append_conv append_eq_Cons_conv)
    then show "bi_blockhash i \<in> confirmed_hashes es1" by (auto simp: confirmed_hashes_def)
  qed
  have "length (emitted_blocks ?es) = 3"
    by (simp add: emitted_blocks_def emitter_new_def on_info_confirmed_def on_info_finalized_def on_processed_block_def
        sample_stream_info_def sample_stream_block_def hm_get_hm_put Let_def)
  then show "length (emitted_blocks ?es) \<le> 500" by simp
qed

text \<open>The clean-up point wraps around below slot 200: from then on every block is ignored.\<close>

lemma inspection_goes_silent:
  assumes "si_slots_since_last_cleanup s = 500" and "pb_slot b < 200" and "si_cleanup_before_slot s \<le> pb_slot b"
  shows "0xFFFFFFFFFFFFFF38 \<le> si_cleanup_before_slot (fst (inspect_block b s))"
    and "pb_slot b' < 0xFFFFFFFFFFFFFF38 \<Longrightarrow>
      inspect_block b' (fst (inspect_block b s)) = (fst (inspect_block b s), [])"
proof -
  have c: "si_cleanup_before_slot (fst (inspect_block b s)) = pb_slot b - 200"
    using assms(1) leD [OF assms(3)] by (simp add: inspect_block_def record_block_def inspect_cleanup_def Let_def)
  have "(0xFFFFFFFFFFFFFF38 :: u64) \<le> pb_slot b - 200" 
    using assms(2) by (simp add: word_le_nat_alt word_less_nat_alt unat_sub_if')
  then show 1: "0xFFFFFFFFFFFFFF38 \<le> si_cleanup_before_slot (fst (inspect_block b s))" by (simp add: c)
  assume "pb_slot b' < 0xFFFFFFFFFFFFFF38"
  with 1 have "pb_slot b' < si_cleanup_before_slot (fst (inspect_block b s))" by (rule less_le_trans [rotated])
  then show "inspect_block b' (fst (inspect_block b s)) = (fst (inspect_block b s), [])"
    by (subst inspect_block_def) simp
qed

text \<open>The chain check is exact on blocks of its level: no warning if and only if the slots ascend and every
  block names the slot and the hash of the one before it.\<close>

fun linked :: "produced_block list \<Rightarrow> bool" where
  "linked (a # b # bs) \<longleftrightarrow> pb_slot a < pb_slot b \<and> pb_parent_slot b = pb_slot a \<and>
     pb_previous_blockhash b = pb_blockhash a \<and> linked (b # bs)"
| "linked _ = True"

lemma chain_run_linked:
  assumes "\<forall>b \<in> set (a # bs). pb_commitment_config b = c" and "0 < pb_slot a"
  shows "snd (chain_run c chain_check_new (a # bs)) = [] \<longleftrightarrow> linked (a # bs)"
proof -
  have "snd (chain_run c \<lparr>ch_last_slot_seen = pb_slot a, ch_last_highest_slot_number = pb_slot a,
      ch_last_blockhash = Some (pb_blockhash a)\<rparr> bs) = [] \<longleftrightarrow> linked (a # bs)"
    if "\<forall>b \<in> set bs. pb_commitment_config b = c" "0 < pb_slot a" for a bs
    using that
  proof (induction bs arbitrary: a)
    case (Cons b bs)
    show ?case
    proof (cases "pb_slot a < pb_slot b")
      case True
      then have "0 < pb_slot b" using Cons.prems(2) by (meson order_less_trans)
      with Cons.IH [of b] Cons.prems True show ?thesis
        by (auto simp: chain_block_def Let_def split_def word_gt_0)
    qed (use Cons.prems in \<open>auto simp: chain_block_def Let_def split_def\<close>)
  qed simp
  from this [of bs a] assms show ?thesis
    by (simp add: chain_block_def chain_check_new_def Let_def split_def word_gt_0)
qed

end
