(* ===== verification/Account_Stream.thy ===== *)
theory Account_Stream
  imports On_Demand Block_Mapping Fee_Method
begin

text \<open>
  \<open>cluster-endpoints/src/grpc/grpc_accounts_streaming.rs\<close> and \<open>grpc_stream_utils.rs\<close>: the
  subscriptions for the configured account filters, the loop that turns account updates into
  notifications, its supervisor, and the tasks that pass messages on to broadcast channels.
  What the gRPC library delivers and whether a channel has receivers are arguments.
\<close>

section \<open>Subscriptions\<close>

datatype grpc_memcmp_data = GrpcBytes "u8 list" | GrpcBase58 string | GrpcBase64 string

datatype grpc_account_filter =
    GrpcDatasize u64
  | GrpcMemcmp u64 grpc_memcmp_data
  | GrpcTokenAccountState bool

record grpc_accounts =
  gas_account :: "string list"
  gas_owner :: "string list"
  gas_filters :: "grpc_account_filter list"

type_synonym accounts_request = "(string, grpc_accounts) hashmap"

fun to_grpc_data :: "memcmp_filter_data \<Rightarrow> grpc_memcmp_data" where
  "to_grpc_data (FBytes bytes) = GrpcBytes bytes"
| "to_grpc_data (FBase58 data) = GrpcBase58 data"
| "to_grpc_data (FBase64 data) = GrpcBase64 data"

fun to_grpc_filter :: "account_filter_type \<Rightarrow> grpc_account_filter" where
  "to_grpc_filter (FDatasize sz) = GrpcDatasize sz"
| "to_grpc_filter (FMemcmp memcmp) = GrpcMemcmp (mf_offset memcmp) (to_grpc_data (mf_data memcmp))"
| "to_grpc_filter FTokenAccountState = GrpcTokenAccountState False"

definition program_key :: "nat \<Rightarrow> string" where
  "program_key index = ''program_accounts_'' @ decimal index"

fun subscribe_programs :: "nat \<Rightarrow> account_filter list \<Rightarrow> accounts_request \<Rightarrow> accounts_request" where
  "subscribe_programs index [] m = m"
| "subscribe_programs index (f # fs) m =
     subscribe_programs (Suc index) fs
       (case af_program_id f of
          None \<Rightarrow> m
        | Some program_id \<Rightarrow>
            hm_put (program_key index)
              \<lparr>gas_account = [], gas_owner = [program_id],
               gas_filters = (case af_filters f of None \<Rightarrow> [] | Some filters \<Rightarrow> List.map to_grpc_filter filters)\<rparr> m)"

text \<open>The accounts are collected in a \<open>HashSet\<close>; \<open>order\<close> is its order of iteration.\<close>

definition accounts_to_subscribe :: "account_filter list \<Rightarrow> string list" where
  "accounts_to_subscribe fs = remdups (concat (List.map af_accounts fs))"

fun subscribe_accounts :: "nat \<Rightarrow> string list list \<Rightarrow> accounts_request list" where
  "subscribe_accounts index [] = []"
| "subscribe_accounts index (accounts_chunk # cs) =
     [(''account_sub_'' @ decimal (index + 1),
       \<lparr>gas_account = accounts_chunk, gas_owner = [], gas_filters = []\<rparr>)] #
     subscribe_accounts (index + 1) cs"

text \<open>One stream for all programs and one for every hundred accounts.\<close>

definition account_requests :: "(string list \<Rightarrow> string list) \<Rightarrow> account_filter list \<Rightarrow> accounts_request list" where
  "account_requests order fs =
     subscribe_programs 0 fs [] # subscribe_accounts 0 (chunks 100 (order (accounts_to_subscribe fs)))"

section \<open>The stream\<close>

record grpc_account_info =
  gi_pubkey :: "u8 list"
  gi_lamports :: u64
  gi_owner :: "u8 list"
  gi_executable :: bool
  gi_rent_epoch :: u64
  gi_data :: "u8 list"

datatype grpc_account_update =
    UpdateAccount slot "grpc_account_info option"
  | UpdatePing
  | UpdateOther

text \<open>A message of the merged streams: an error, a message without an update, or an update.\<close>

datatype stream_message = MessageError | MessageEmpty | MessageUpdate grpc_account_update

definition account_notification_of :: "slot \<Rightarrow> grpc_account_info \<Rightarrow> account_notification outcome" where
  "account_notification_of sl i =
     bind_outcome (expect ''Pubkey should be 32 byte long'' (word_of_bytes 32 (gi_pubkey i))) (\<lambda>pk.
     bind_outcome (expect ''owner pubkey should be deserializable'' (word_of_bytes 32 (gi_owner i))) (\<lambda>owner.
       Inr \<lparr>an_data = \<lparr>ad_pubkey = pk,
              ad_account = \<lparr>ac_lamports = gi_lamports i, ac_data = gi_data i, ac_owner = owner,
                ac_executable = gi_executable i, ac_rent_epoch = gi_rent_epoch i\<rparr>,
              ad_updated_slot = sl\<rparr>,
            an_commitment = Processed\<rparr>))"

text \<open>
  How a session of the loop ends: the streams broke and it subscribes again, the channel of the
  notifications has no receivers, a connection could not be made, or a panic.  \<open>started\<close> is the
  notification that updates arrive.
\<close>

datatype session_end = Resubscribe | ChannelClosed | ConnectFailed | SessionPanic panic

record session =
  ss_started :: bool
  ss_sent :: "account_notification list"

fun read_stream :: "session \<Rightarrow> (stream_message \<times> bool) list \<Rightarrow> session \<times> session_end" where
  "read_stream s [] = (s, Resubscribe)"
| "read_stream s ((MessageError, receivers) # ms) = (s, Resubscribe)"
| "read_stream s ((MessageEmpty, receivers) # ms) = read_stream s ms"
| "read_stream s ((MessageUpdate u, receivers) # ms) =
     (let s1 = s\<lparr>ss_started := True\<rparr>
      in case u of
           UpdateAccount sl (Some i) \<Rightarrow>
             (case account_notification_of sl i of
                Inl p \<Rightarrow> (s1, SessionPanic p)
              | Inr n \<Rightarrow>
                  if receivers then read_stream (s1\<lparr>ss_sent := ss_sent s1 @ [n]\<rparr>) ms
                  else (s1, ChannelClosed))
         | _ \<Rightarrow> read_stream s1 ms)"

text \<open>Every stream has a connection of its own; a refused subscription panics.\<close>

fun open_streams :: "(nat \<Rightarrow> bool) \<Rightarrow> (nat \<Rightarrow> bool) \<Rightarrow> nat \<Rightarrow> accounts_request list \<Rightarrow> session_end option" where
  "open_streams connects accepted k [] = None"
| "open_streams connects accepted k (r # rs) =
     (if \<not> connects k then Some ConnectFailed
      else if \<not> accepted k then Some (SessionPanic UnwrapNone)
      else open_streams connects accepted (Suc k) rs)"

record stream_round =
  sr_connects :: "nat \<Rightarrow> bool"
  sr_accepted :: "nat \<Rightarrow> bool"
  sr_messages :: "(stream_message \<times> bool) list"

definition stream_round_step ::
    "accounts_request list \<Rightarrow> session \<Rightarrow> stream_round \<Rightarrow> session \<times> session_end" where
  "stream_round_step requests s r =
     (case open_streams (sr_connects r) (sr_accepted r) 0 requests of
        Some e \<Rightarrow> (s, e)
      | None \<Rightarrow> read_stream s (sr_messages r))"

text \<open>\<open>start_account_streaming_tasks\<close>: the result is \<open>Resubscribe\<close> as long as the task goes on.\<close>

fun account_streaming :: "accounts_request list \<Rightarrow> session \<Rightarrow> stream_round list \<Rightarrow> session \<times> session_end" where
  "account_streaming requests s [] = (s, Resubscribe)"
| "account_streaming requests s (r # rs) =
     (case stream_round_step requests s r of
        (s1, Resubscribe) \<Rightarrow> account_streaming requests s1 rs
      | (s1, e) \<Rightarrow> (s1, e))"

section \<open>The supervisor\<close>

text \<open>\<open>create_grpc_account_streaming\<close>: the number of times the tasks of all sources were started and
  stopped, and what its receiver reports.\<close>

datatype supervisor_event = SupervisorData | SupervisorRecvError | SupervisorTimeout | SupervisorAbort

record 's supervisor =
  sv_started :: nat
  sv_aborted :: nat
  sv_running :: "'s list"

definition supervisor_start :: "'s list \<Rightarrow> 's supervisor \<Rightarrow> 's supervisor" where
  "supervisor_start sources s = s\<lparr>sv_started := sv_started s + 1, sv_running := sources\<rparr>"

definition supervisor_new :: "'s list \<Rightarrow> 's supervisor" where
  "supervisor_new sources = supervisor_start sources \<lparr>sv_started = 0, sv_aborted = 0, sv_running = []\<rparr>"

definition supervisor_stop :: "'s supervisor \<Rightarrow> 's supervisor" where
  "supervisor_stop s = s\<lparr>sv_aborted := sv_aborted s + 1, sv_running := []\<rparr>"

fun supervisor_step :: "'s list \<Rightarrow> supervisor_event \<Rightarrow> 's supervisor \<Rightarrow> 's supervisor" where
  "supervisor_step sources SupervisorData s = s"
| "supervisor_step sources SupervisorRecvError s = supervisor_start sources (supervisor_stop s)"
| "supervisor_step sources SupervisorTimeout s = supervisor_start sources (supervisor_stop s)"
| "supervisor_step sources SupervisorAbort s = supervisor_start sources (supervisor_stop s)"

section \<open>Passing messages on\<close>

text \<open>A send to a broadcast channel without receivers is an error and nothing is queued.\<close>

definition pass_on :: "bool \<Rightarrow> 'a \<Rightarrow> 'a list \<Rightarrow> 'a list" where
  "pass_on receivers m q = (if receivers then q @ [m] else q)"

text \<open>\<open>spawn_plugger_mpcs_to_broadcast_channels\<close>: the first channel without receivers ends the turn.\<close>

fun plug_message :: "'a \<Rightarrow> (bool \<times> 'a list) list \<Rightarrow> 'a list list" where
  "plug_message m [] = []"
| "plug_message m ((receivers, q) # qs) =
     (if receivers then (q @ [m]) # plug_message m qs else q # List.map snd qs)"

fun plug_messages :: "('a \<times> bool list) list \<Rightarrow> 'a list list \<Rightarrow> 'a list list" where
  "plug_messages [] qs = qs"
| "plug_messages ((m, receivers) # ms) qs = plug_messages ms (plug_message m (zip receivers qs))"

definition plugger_to_channels :: "('a \<times> bool list) list \<Rightarrow> nat \<Rightarrow> 'a list list outcome" where
  "plugger_to_channels ms downstreams =
     (if downstreams = 0 then Inl AssertionFailed
      else Inr (plug_messages ms (replicate downstreams [])))"

text \<open>\<open>spawn_plugger_mpcs_to_broadcast_channel\<close> and \<open>channelize_stream\<close>: one channel each.\<close>

fun plugger_to_channel :: "('a \<times> bool) list \<Rightarrow> 'a list \<Rightarrow> 'a list" where
  "plugger_to_channel [] q = q"
| "plugger_to_channel ((m, receivers) # ms) q = plugger_to_channel ms (pass_on receivers m q)"

fun channelize_stream :: "('a \<times> bool) list \<Rightarrow> 'a list \<Rightarrow> 'a list" where
  "channelize_stream [] q = q"
| "channelize_stream ((m, receivers) # ms) q = channelize_stream ms (pass_on receivers m q)"

section \<open>The subscriptions cover the filters\<close>

fun undecimal :: "nat \<Rightarrow> string \<Rightarrow> nat" where
  "undecimal acc [] = acc"
| "undecimal acc (c # cs) = undecimal (10 * acc + (of_char c - 48)) cs"

lemma undecimal_append: "undecimal acc (xs @ ys) = undecimal (undecimal acc xs) ys"
  by (induction xs arbitrary: acc) simp_all

lemma undecimal_decimal: "undecimal 0 (decimal n) = n"
proof (induction n rule: decimal.induct)
  case (1 n)
  have digit: "d < 10 \<Longrightarrow> of_char (char_of (48 + d) :: char) - 48 = d" for d :: nat by simp
  show ?case
  proof (cases "n < 10")
    case False
    with 1 have "undecimal 0 (decimal (n div 10)) = n div 10" by blast
    with False digit [of "n mod 10"] show ?thesis
      by (simp add: decimal.simps [of n] undecimal_append)
  qed (simp add: decimal.simps [of n] digit)
qed

lemma decimal_eq_iff [simp]: "decimal m = decimal n \<longleftrightarrow> m = n"
  by (metis undecimal_decimal)

lemma hm_put_new: "k \<notin> set (map_keys m) \<Longrightarrow> hm_put k v m = m @ [(k, v)]"
  by (induction m) (auto simp: hm_put_def map_keys_def)

definition program_entry :: "account_filter \<Rightarrow> string \<Rightarrow> grpc_accounts" where
  "program_entry f program_id = \<lparr>gas_account = [], gas_owner = [program_id],
     gas_filters = List.map to_grpc_filter (unwrap_or (af_filters f) [])\<rparr>"

lemma subscribe_programs_values:
  "\<forall>k \<in> set (map_keys m). \<exists>j < index. k = program_key j \<Longrightarrow>
   set (map_values (subscribe_programs index fs m)) =
     set (map_values m) \<union> {program_entry f p |f p. f \<in> set fs \<and> af_program_id f = Some p}"
proof (induction fs arbitrary: index m)
  case (Cons f fs)
  show ?case
  proof (cases "af_program_id f")
    case None
    have "\<forall>k \<in> set (map_keys m). \<exists>j < Suc index. k = program_key j"
      using Cons.prems less_SucI by blast
    from Cons.IH [OF this] None show ?thesis by auto
  next
    case (Some p)
    let ?k = "program_key index"
    have new: "?k \<notin> set (map_keys m)" using Cons.prems by (fastforce simp: program_key_def)
    let ?m = "hm_put ?k (program_entry f p) m"
    have "\<forall>k \<in> set (map_keys ?m). \<exists>j < Suc index. k = program_key j"
      using Cons.prems by (auto simp: hm_put_keys intro: less_SucI)
    note IH = Cons.IH [OF this]
    have step: "subscribe_programs index (f # fs) m = subscribe_programs (Suc index) fs ?m"
      by (cases "af_filters f") (simp_all add: Some program_entry_def)
    have "set (map_values ?m) = insert (program_entry f p) (set (map_values m))"
      by (simp only: hm_put_new [OF new]) (simp add: map_values_def)
    with Some show ?thesis unfolding step IH by auto
  qed
qed simp

lemma subscribe_accounts_values:
  "\<Union> (set (List.map (set \<circ> map_values) (subscribe_accounts index cs))) =
     (\<lambda>c. \<lparr>gas_account = c, gas_owner = [], gas_filters = []\<rparr>) ` set cs"
  by (induction index cs rule: subscribe_accounts.induct) (simp_all add: map_values_def)

definition delivered ::
    "(grpc_accounts \<Rightarrow> string \<Rightarrow> string \<Rightarrow> u8 list \<Rightarrow> bool) \<Rightarrow> accounts_request list \<Rightarrow>
     string \<Rightarrow> string \<Rightarrow> u8 list \<Rightarrow> bool" where
  "delivered serves requests pk owner data \<longleftrightarrow>
     (\<exists>r \<in> set requests. \<exists>e \<in> set (map_values r). serves e pk owner data)"

definition wanted ::
    "(grpc_account_filter \<Rightarrow> u8 list \<Rightarrow> bool) \<Rightarrow> account_filter list \<Rightarrow> string \<Rightarrow> string \<Rightarrow> u8 list \<Rightarrow> bool" where
  "wanted matches fs pk owner data \<longleftrightarrow>
     (\<exists>f \<in> set fs. pk \<in> set (af_accounts f) \<or>
        (af_program_id f = Some owner \<and>
         (\<forall>t \<in> set (unwrap_or (af_filters f) []). matches (to_grpc_filter t) data)))"

definition documented_matching ::
    "(grpc_account_filter \<Rightarrow> u8 list \<Rightarrow> bool) \<Rightarrow> grpc_accounts \<Rightarrow> string \<Rightarrow> string \<Rightarrow> u8 list \<Rightarrow> bool" where
  "documented_matching matches e pk owner data \<longleftrightarrow>
     (gas_account e = [] \<or> pk \<in> set (gas_account e)) \<and> (gas_owner e = [] \<or> owner \<in> set (gas_owner e)) \<and>
     (\<forall>t \<in> set (gas_filters e). matches t data)"

lemma account_requests_delivered:
  assumes "\<And>xs. set (order xs) = set xs"
    and "\<And>e k w d. serves e k w d \<longleftrightarrow> documented_matching matches e k w d"
  shows "delivered serves (account_requests order fs) pk owner data \<longleftrightarrow> wanted matches fs pk owner data"
proof -
  let ?a = "\<lambda>c. \<lparr>gas_account = c, gas_owner = [], gas_filters = []\<rparr>"
  let ?cs = "chunks 100 (order (accounts_to_subscribe fs))"
  have programs: "set (map_values (subscribe_programs 0 fs [])) =
      {program_entry f p |f p. f \<in> set fs \<and> af_program_id f = Some p}"
    by (subst subscribe_programs_values) (simp_all add: map_keys_def map_values_def)
  have "delivered serves (account_requests order fs) pk owner data \<longleftrightarrow>
      (\<exists>e \<in> set (map_values (subscribe_programs 0 fs [])). serves e pk owner data) \<or>
      (\<exists>e \<in> \<Union> (set (List.map (set \<circ> map_values) (subscribe_accounts 0 ?cs))). serves e pk owner data)"
    by (auto simp: delivered_def account_requests_def)
  also have "\<dots> \<longleftrightarrow> (\<exists>f p. f \<in> set fs \<and> af_program_id f = Some p \<and> serves (program_entry f p) pk owner data) \<or>
      (\<exists>c \<in> set ?cs. serves (?a c) pk owner data)"
    unfolding programs subscribe_accounts_values by blast
  also have "(\<exists>c \<in> set ?cs. serves (?a c) pk owner data) \<longleftrightarrow> (\<exists>c \<in> set ?cs. pk \<in> set c)"
    using length_chunk [of _ 100 "order (accounts_to_subscribe fs)"] by (fastforce simp: assms(2) documented_matching_def)
  also have "\<dots> \<longleftrightarrow> pk \<in> set (concat ?cs)" by simp
  also have "\<dots> \<longleftrightarrow> (\<exists>f \<in> set fs. pk \<in> set (af_accounts f))"
    by (simp add: concat_chunks assms(1) accounts_to_subscribe_def)
  also have "(\<exists>f p. f \<in> set fs \<and> af_program_id f = Some p \<and> serves (program_entry f p) pk owner data) \<longleftrightarrow>
      (\<exists>f \<in> set fs. af_program_id f = Some owner \<and>
         (\<forall>t \<in> set (unwrap_or (af_filters f) []). matches (to_grpc_filter t) data))"
    by (auto simp: assms(2) documented_matching_def program_entry_def)
  finally show ?thesis unfolding wanted_def by blast
qed

section \<open>The notifications of a stream\<close>

definition update_ok :: "stream_message \<Rightarrow> bool" where
  "update_ok m = (case m of
     MessageUpdate (UpdateAccount sl (Some i)) \<Rightarrow> length (gi_pubkey i) = 32 \<and> length (gi_owner i) = 32
   | _ \<Rightarrow> True)"

definition notified_by :: "stream_message \<Rightarrow> account_notification option" where
  "notified_by m = (case m of
     MessageUpdate (UpdateAccount sl (Some i)) \<Rightarrow>
       (case account_notification_of sl i of Inl _ \<Rightarrow> None | Inr n \<Rightarrow> Some n)
   | _ \<Rightarrow> None)"

definition round_notifications :: "(stream_message \<times> bool) list \<Rightarrow> account_notification list" where
  "round_notifications ms = List.map_filter notified_by (takeWhile (\<lambda>m. m \<noteq> MessageError) (List.map fst ms))"

lemma account_notification_total:
  "length (gi_pubkey i) = 32 \<Longrightarrow> length (gi_owner i) = 32 \<Longrightarrow> \<exists>n. account_notification_of sl i = Inr n"
  by (simp add: account_notification_of_def word_of_bytes_def)

lemma read_stream_complete:
  "\<forall>(m, b) \<in> set ms. update_ok m \<and> b \<Longrightarrow>
   ss_sent (fst (read_stream s ms)) = ss_sent s @ round_notifications ms \<and> snd (read_stream s ms) = Resubscribe"
proof (induction ms arbitrary: s)
  case (Cons mb ms)
  obtain m b where mb: "mb = (m, b)" by (cases mb)
  have here: "update_ok m" "b" and rest: "\<forall>(m, b) \<in> set ms. update_ok m \<and> b"
    using Cons.prems mb by auto
  note IH = Cons.IH [OF rest]
  show ?case
  proof (cases m)
    case (MessageUpdate u)
    show ?thesis
    proof (cases "\<exists>sl i. u = UpdateAccount sl (Some i)")
      case True
      then obtain sl i where u: "u = UpdateAccount sl (Some i)" by blast
      obtain n where n: "account_notification_of sl i = Inr n"
        using account_notification_total here(1) MessageUpdate u by (auto simp: update_ok_def)
      from IH [of "s\<lparr>ss_started := True, ss_sent := ss_sent s @ [n]\<rparr>"] n here(2) u MessageUpdate mb show ?thesis
        by (simp add: Let_def round_notifications_def notified_by_def)
    next
      case False
      have "read_stream s ((MessageUpdate u, b) # ms) = read_stream (s\<lparr>ss_started := True\<rparr>) ms"
        using False by (auto simp: Let_def split: grpc_account_update.split option.split)
      moreover have "notified_by (MessageUpdate u) = None"
        using False by (auto simp: notified_by_def split: grpc_account_update.split option.split)
      ultimately show ?thesis
        using IH [of "s\<lparr>ss_started := True\<rparr>"] MessageUpdate mb by (simp add: round_notifications_def)
    qed
  qed (use IH [of s] mb in \<open>simp_all add: round_notifications_def notified_by_def\<close>)
qed (simp add: round_notifications_def)

lemma open_streams_ok:
  "(\<And>k. connects k \<and> accepted k) \<Longrightarrow> open_streams connects accepted k rs = None"
  by (induction rs arbitrary: k) auto

lemma streams_notify_every_update:
  assumes "\<And>r k. r \<in> set rs \<Longrightarrow> sr_connects r k \<and> sr_accepted r k"
    and "\<And>r. r \<in> set rs \<Longrightarrow> \<forall>(m, b) \<in> set (sr_messages r). update_ok m \<and> b"
  shows "ss_sent (fst (account_streaming requests s rs)) =
      ss_sent s @ concat (List.map (\<lambda>r. round_notifications (sr_messages r)) rs)"
    and "snd (account_streaming requests s rs) = Resubscribe"
proof -
  have "ss_sent (fst (account_streaming requests s rs)) =
      ss_sent s @ concat (List.map (\<lambda>r. round_notifications (sr_messages r)) rs) \<and>
    snd (account_streaming requests s rs) = Resubscribe"
    using assms
  proof (induction rs arbitrary: s)
    case (Cons r rs)
    obtain s1 e where r: "read_stream s (sr_messages r) = (s1, e)" by fastforce
    have "ss_sent s1 = ss_sent s @ round_notifications (sr_messages r)" "e = Resubscribe"
      using read_stream_complete [of "sr_messages r" s] Cons.prems(2) [of r] r by auto
    moreover have "ss_sent (fst (account_streaming requests s1 rs)) =
        ss_sent s1 @ concat (List.map (\<lambda>r. round_notifications (sr_messages r)) rs) \<and>
      snd (account_streaming requests s1 rs) = Resubscribe"
    proof (rule Cons.IH)
      show "sr_connects r' k \<and> sr_accepted r' k" if "r' \<in> set rs" for r' k
        using Cons.prems(1) [of r' k] that by simp
      show "\<forall>(m, b) \<in> set (sr_messages r'). update_ok m \<and> b" if "r' \<in> set rs" for r'
        using Cons.prems(2) [of r'] that by simp
    qed
    ultimately show ?case using Cons.prems(1) [of r] r
      by (simp add: stream_round_step_def open_streams_ok)
  qed simp
  then show "ss_sent (fst (account_streaming requests s rs)) =
      ss_sent s @ concat (List.map (\<lambda>r. round_notifications (sr_messages r)) rs)"
    and "snd (account_streaming requests s rs) = Resubscribe" by blast+
qed

text \<open>A connection that cannot be made ends the task for good, in spite of the loop around it.\<close>

lemma failed_connection_ends_streaming:
  "\<not> sr_connects r 0 \<Longrightarrow> account_streaming (account_requests order fs) s (r # rs) = (s, ConnectFailed)"
  by (simp add: stream_round_step_def account_requests_def)

text \<open>The supervisor starts the streams again when it is told to abort, so at every time one generation of
  tasks is running.\<close>

lemma abort_restarts_streams:
  "sv_running (fold (supervisor_step sources) es (supervisor_new sources)) = sources \<and>
   sv_started (fold (supervisor_step sources) es (supervisor_new sources)) =
     sv_aborted (fold (supervisor_step sources) es (supervisor_new sources)) + 1"
proof (induction es rule: rev_induct)
  case (snoc e es)
  then show ?case by (cases e) (simp_all add: supervisor_start_def supervisor_stop_def)
qed (simp add: supervisor_new_def supervisor_start_def)

lemma plug_message_length [simp]: "length (plug_message m qs) = length qs"
  by (induction m qs rule: plug_message.induct) auto

lemma plug_message_all:
  "plug_message m (zip (replicate (length qs) True) qs) = List.map (\<lambda>q. q @ [m]) qs"
  by (induction qs) auto

lemma plugger_serves_all:
  assumes "0 < n"
  shows "plugger_to_channels (List.map (\<lambda>m. (m, replicate n True)) ms) n = Inr (replicate n ms)"
proof -
  have "plug_messages (List.map (\<lambda>m. (m, replicate (length qs) True)) ms) qs = List.map (\<lambda>q. q @ ms) qs" for qs :: "'a list list"
  proof (induction ms arbitrary: qs)
    case (Cons m ms)
    from Cons.IH [of "List.map (\<lambda>q. q @ [m]) qs"] show ?case by (simp add: plug_message_all)
  qed simp
  from this [of "replicate n []"] assms show ?thesis by (simp add: plugger_to_channels_def)
qed

text \<open>A channel without receivers cuts off the channels after it, whether they have receivers or not.\<close>

lemma idle_channel_starves_the_rest:
  assumes "\<forall>(m, receivers) \<in> set ms. length receivers = length qs \<and> hd receivers = False"
  shows "plug_messages ms qs = qs"
  using assms
proof (induction ms qs rule: plug_messages.induct)
  case (2 m receivers ms qs)
  have r: "length receivers = length qs" "hd receivers = False" using "2.prems" by auto
  have "plug_message m (zip receivers qs) = qs"
    using r by (cases receivers; cases qs) auto
  with 2 show ?case by simp
qed simp

lemma plugger_to_channel_served:
  "plugger_to_channel ms q = q @ List.map fst (filter snd ms)"
  "channelize_stream ms q = q @ List.map fst (filter snd ms)"
  by (induction ms arbitrary: q) (auto simp: pass_on_def)

section \<open>Properties\<close>

text \<open>The subscriptions are exactly the configured filters: when the server matches a subscription as its
  interface documents (the accounts, the owners and all filters of an entry, each if given), then one
  of the streams delivers an account if and only if a filter names it or names its owner and all
  conditions of that filter hold; whatever the number of filters and accounts and the order in which
  the accounts are cut into streams of a hundred.\<close>

theorem subscriptions_match_filters:
  assumes "\<And>xs. set (order xs) = set xs"
    and "\<And>e k w d. serves e k w d \<longleftrightarrow> documented_matching matches e k w d"
  shows "delivered serves (account_requests order fs) pk owner data \<longleftrightarrow> wanted matches fs pk owner data"
  by (rule account_requests_delivered [OF assms])

lemma subscriptions_match_filters_witness:
  "delivered (documented_matching (\<lambda>t data. t = GrpcDatasize (word_of_nat (length data))))
     (account_requests rev
       [\<lparr>af_accounts = [''a'', ''b''], af_program_id = None, af_filters = None\<rparr>,
        \<lparr>af_accounts = [], af_program_id = Some ''p'', af_filters = Some [FDatasize 2]\<rparr>]) ''x'' ''p'' [7, 7]"
  by (subst subscriptions_match_filters [where matches = "\<lambda>t data. t = GrpcDatasize (word_of_nat (length data))"])
    (simp_all add: wanted_def)

text \<open>C21: What is loaded on demand stays up to date: when a request has become the one that loads an account,
  the filters it sends to the streaming task are subscribed so that the streams deliver this account
  and every account asked for before.\<close>

theorem loading_accounts_are_streamed:
  assumes "\<And>xs. set (order xs) = set xs"
    and "\<And>e k w d. serves e k w d \<longleftrightarrow> documented_matching matches e k w d"
    and "begin_get_account st od pk c = Inr (od1, StartsLoading)"
    and "k = pk \<or> k \<in> set (od_accounts_subscribed od)"
  shows "delivered serves (account_requests order (od_watch (refresh_subscription to_str od1))) (to_str k) owner data"
proof -
  have "k \<in> set (od_accounts_subscribed od1)"
  proof -
    obtain s r where r: "as_get_account st (od_accounts_storage od) pk c = Inr (s, r)"
      using assms(3) by (auto simp: begin_get_account_def)
    have "r = Inr None"
      using assms(3) by (cases r rule: sum.exhaust; cases "projr r") (auto simp: begin_get_account_def r Let_def)
    with assms(3,4) show ?thesis
      by (auto simp: begin_get_account_def r Let_def split: if_splits)
  qed
  then have "to_str k \<in> set (concat (List.map af_accounts (od_watch (refresh_subscription to_str od1))))"
    using subscription_filters_accounts [of to_str "od_accounts_subscribed od1" "od_program_filters od1"]
    by (simp add: refresh_subscription_def del: set_concat)
  then show ?thesis unfolding account_requests_delivered [OF assms(1,2)] wanted_def by auto
qed

lemma loading_accounts_are_streamed_witness:
  "\<exists>od. begin_get_account (inmemory_storage (\<lambda>_ _. True))
      (accounts_on_demand_new inmemory_account_store_new\<lparr>od_accounts_subscribed := [2]\<rparr>) 1 Processed =
        Inr (od, StartsLoading) \<and>
    delivered (documented_matching (\<lambda>_ _. False)) (account_requests rev
      (od_watch (refresh_subscription (\<lambda>k. if k = 2 then ''2'' else ''1'') od))) ''2'' ''p'' []"
proof -
  obtain od where od: "begin_get_account (inmemory_storage (\<lambda>_ _. True))
      (accounts_on_demand_new inmemory_account_store_new\<lparr>od_accounts_subscribed := [2]\<rparr>) 1 Processed =
        Inr (od, StartsLoading)"
    by (simp add: begin_get_account_def inmemory_storage_def get_account_def inmemory_account_store_new_def
        accounts_on_demand_new_def)
  have "delivered (documented_matching (\<lambda>_ _. False)) (account_requests rev
      (od_watch (refresh_subscription (\<lambda>k. if k = 2 then ''2'' else ''1'') od))) (if 2 = (2 :: pubkey) then ''2'' else ''1'') ''p'' []"
    by (rule loading_accounts_are_streamed [OF _ _ od]) (simp_all add: accounts_on_demand_new_def)
  with od show ?thesis by auto
qed

end
