(* ===== verification/Postgres_Logger.thy ===== *)
theory Postgres_Logger
  imports Tx_Pipeline
begin

text \<open>
  \<open>lite-rpc/src/postgres_logger/mod.rs\<close>: the task that logs the forwarded transactions and their
  updates in a table of PostgreSQL.  Draining the channel does not wait and is one step with the
  writes that follow it; whether a session was obtained and whether the two statements succeeded is
  an argument of the step.  The table is the list of its rows and a statement what it does to them.
\<close>

section \<open>Messages and rows\<close>

type_synonym i64 = "64 word"

record transaction_update =
  tu_signature :: string
  tu_slot :: u64
  tu_cu_consumed :: "u64 option"
  tu_cu_requested :: "u32 option"
  tu_cu_price :: "u64 option"
  tu_transaction_status :: "wire option"
  tu_blockhash :: string
  tu_leader :: string
  tu_commitment :: commitment_level

record block_notification =
  bn_slot :: u64
  bn_block_leader :: string
  bn_parent_slot :: u64
  bn_cluster_time :: instant
  bn_local_time :: "instant option"
  bn_blockhash :: string
  bn_total_transactions :: u64
  bn_block_time :: u64
  bn_total_cu_consumed :: u64
  bn_commitment :: commitment_level
  bn_transaction_found :: u64
  bn_cu_consumed_by_txs :: u64

record account_addr =
  aa_id :: u32
  aa_addr :: string

datatype notification_msg =
    TxNotificationMsg "transaction_notification list"
  | BlockNotificationMsg block_notification
  | AccountAddrMsg account_addr
  | UpdateTransactionMsg "transaction_update list"

record postgres_tx =
  px_signature :: string
  px_recent_slot :: i64
  px_forwarded_slot :: i64
  px_forwarded_local_time :: instant
  px_processed_slot :: "i64 option"
  px_cu_consumed :: "i64 option"
  px_cu_requested :: "i64 option"
  px_quic_response :: int

definition postgres_tx_default_size :: nat where
  "postgres_tx_default_size = 88 + (3 * 8) + 2"

definition postgres_tx_from :: "(signature \<Rightarrow> string) \<Rightarrow> transaction_notification \<Rightarrow> postgres_tx" where
  "postgres_tx_from to_str v = \<lparr>px_signature = to_str (tn_signature v), px_recent_slot = tn_recent_slot v,
     px_forwarded_slot = tn_forwarded_slot v, px_forwarded_local_time = tn_forwarded_local_time v,
     px_processed_slot = tn_processed_slot v, px_cu_consumed = tn_cu_consumed v,
     px_cu_requested = tn_cu_requested v, px_quic_response = tn_quic_response v\<rparr>"

record postgres_tx_update =
  pu_signature :: string
  pu_processed_slot :: i64
  pu_cu_consumed :: "i64 option"
  pu_cu_requested :: "i64 option"
  pu_cu_price :: "i64 option"

definition postgres_tx_update_default_size :: nat where
  "postgres_tx_update_default_size = 88 + 8"

definition postgres_tx_update_max_size :: nat where
  "postgres_tx_update_max_size = postgres_tx_update_default_size + (3 * 8)"

definition postgres_tx_update_from :: "transaction_update \<Rightarrow> postgres_tx_update" where
  "postgres_tx_update_from v = \<lparr>pu_signature = tu_signature v, pu_processed_slot = tu_slot v,
     pu_cu_consumed = tu_cu_consumed v, pu_cu_requested = map_option ucast (tu_cu_requested v),
     pu_cu_price = tu_cu_price v\<rparr>"

definition max_query_size :: nat where
  "max_query_size = 200000"

text \<open>The capacities of a batch; the panics for a size of zero are decided by the compiler.\<close>

definition get_max_safe_inserts :: nat where
  "get_max_safe_inserts = max_query_size div postgres_tx_default_size"

definition get_max_safe_updates :: nat where
  "get_max_safe_updates = max_query_size div postgres_tx_update_max_size"

section \<open>The table\<close>

text \<open>A row of \<open>lite_rpc.Txs\<close>: the inserted columns and the price that only an update sets.\<close>

record tx_row =
  xr_tx :: postgres_tx
  xr_cu_price :: "i64 option"

definition send_txs :: "bool \<Rightarrow> postgres_tx list \<Rightarrow> tx_row list \<Rightarrow> tx_row list \<times> bool" where
  "send_txs succeeds txs table =
     (if txs = [] then (table, True)
      else if succeeds then (table @ List.map (\<lambda>tx. \<lparr>xr_tx = tx, xr_cu_price = None\<rparr>) txs, True)
      else (table, False))"

definition updated_row :: "postgres_tx_update \<Rightarrow> tx_row \<Rightarrow> tx_row" where
  "updated_row u r = r\<lparr>xr_tx := (xr_tx r)\<lparr>px_processed_slot := Some (pu_processed_slot u),
       px_cu_consumed := pu_cu_consumed u, px_cu_requested := pu_cu_requested u\<rparr>,
     xr_cu_price := pu_cu_price u\<rparr>"

text \<open>When several updates of the statement match a row the database takes one of them, \<open>pick\<close>.\<close>

definition update_txs ::
    "(postgres_tx_update list \<Rightarrow> postgres_tx_update) \<Rightarrow> bool \<Rightarrow> postgres_tx_update list \<Rightarrow> tx_row list \<Rightarrow>
     tx_row list \<times> bool" where
  "update_txs pick succeeds txs table =
     (if txs = [] then (table, True)
      else if succeeds then
        (List.map (\<lambda>r. case filter (\<lambda>u. pu_signature u = px_signature (xr_tx r)) txs of
             [] \<Rightarrow> r | u # us \<Rightarrow> updated_row (pick (u # us)) r) table, True)
      else (table, False))"

section \<open>The task\<close>

datatype logger_end = ChannelBroke | LoggerPanic panic

record logger =
  lg_channel :: "notification_msg list"
  lg_closed :: bool
  lg_tx_batch :: "postgres_tx list"
  lg_update_batch :: "postgres_tx_update list"
  lg_session_establish_error :: bool
  lg_table :: "tx_row list"
  lg_ended :: "logger_end option"

definition logger_new :: logger where
  "logger_new = \<lparr>lg_channel = [], lg_closed = False, lg_tx_batch = [], lg_update_batch = [],
     lg_session_establish_error = False, lg_table = [], lg_ended = None\<rparr>"

fun drain_channel ::
    "(signature \<Rightarrow> string) \<Rightarrow> bool \<Rightarrow> notification_msg list \<Rightarrow> postgres_tx list \<Rightarrow> postgres_tx_update list \<Rightarrow>
     logger_end + (notification_msg list \<times> postgres_tx list \<times> postgres_tx_update list)" where
  "drain_channel to_str closed [] txs ups =
     (if get_max_safe_inserts \<le> length txs \<or> get_max_safe_updates \<le> length ups then Inr ([], txs, ups)
      else if closed then Inl ChannelBroke else Inr ([], txs, ups))"
| "drain_channel to_str closed (m # ms) txs ups =
     (if get_max_safe_inserts \<le> length txs \<or> get_max_safe_updates \<le> length ups then Inr (m # ms, txs, ups)
      else case m of
          TxNotificationMsg tx \<Rightarrow> drain_channel to_str closed ms (txs @ List.map (postgres_tx_from to_str) tx) ups
        | BlockNotificationMsg _ \<Rightarrow> drain_channel to_str closed ms txs ups
        | UpdateTransactionMsg update \<Rightarrow>
            drain_channel to_str closed ms txs (ups @ List.map postgres_tx_update_from update)
        | AccountAddrMsg _ \<Rightarrow> Inl (LoggerPanic (ExplicitPanic ''not yet implemented'')))"

text \<open>What the outside decides in a turn; the two statements run concurrently, in either order.\<close>

record logger_turn =
  lt_session :: bool
  lt_insert :: bool
  lt_update :: bool
  lt_update_first :: bool
  lt_pick :: "postgres_tx_update list \<Rightarrow> postgres_tx_update"

definition write_batches :: "logger_turn \<Rightarrow> logger \<Rightarrow> logger" where
  "write_batches t lg =
     (let send = send_txs (lt_insert t) (lg_tx_batch lg);
          update = update_txs (lt_pick t) (lt_update t) (lg_update_batch lg);
          res_txs = snd (send (lg_table lg)); res_update = snd (update (lg_table lg))
      in lg\<lparr>lg_table := (if lt_update_first t then fst (send (fst (update (lg_table lg))))
                          else fst (update (fst (send (lg_table lg))))),
            lg_tx_batch := (if res_txs then [] else lg_tx_batch lg),
            lg_update_batch := (if res_update then [] else lg_update_batch lg)\<rparr>)"

definition drained :: "(signature \<Rightarrow> string) \<Rightarrow> logger \<Rightarrow>
    logger_end + (notification_msg list \<times> postgres_tx list \<times> postgres_tx_update list)" where
  "drained to_str lg =
     (if lg_session_establish_error lg then Inr (lg_channel lg, lg_tx_batch lg, lg_update_batch lg)
      else drain_channel to_str (lg_closed lg) (lg_channel lg) (lg_tx_batch lg) (lg_update_batch lg))"

definition logger_loop :: "(signature \<Rightarrow> string) \<Rightarrow> logger_turn \<Rightarrow> logger \<Rightarrow> logger" where
  "logger_loop to_str t lg =
     (if lg_ended lg \<noteq> None then lg
      else case drained to_str lg of
          Inl e \<Rightarrow> lg\<lparr>lg_ended := Some e\<rparr>
        | Inr (ms, txs, ups) \<Rightarrow>
            (let lg1 = lg\<lparr>lg_channel := ms, lg_tx_batch := txs, lg_update_batch := ups\<rparr>
             in if txs = [] \<and> ups = [] then lg1
                else if \<not> lt_session t then lg1\<lparr>lg_session_establish_error := True\<rparr>
                else write_batches t (lg1\<lparr>lg_session_establish_error := False\<rparr>)))"

datatype logger_event = LogMessage notification_msg | LogClosed | LogTurn logger_turn

fun logger_step :: "(signature \<Rightarrow> string) \<Rightarrow> logger_event \<Rightarrow> logger \<Rightarrow> logger" where
  "logger_step to_str (LogMessage m) lg = lg\<lparr>lg_channel := lg_channel lg @ [m]\<rparr>"
| "logger_step to_str LogClosed lg = lg\<lparr>lg_closed := True\<rparr>"
| "logger_step to_str (LogTurn t) lg = logger_loop to_str t lg"

definition logger_run :: "(signature \<Rightarrow> string) \<Rightarrow> logger_event list \<Rightarrow> logger \<Rightarrow> logger" where
  "logger_run to_str es lg = fold (logger_step to_str) es lg"

lemma logger_run_snoc [simp]: "logger_run to_str (es @ [e]) lg = logger_step to_str e (logger_run to_str es lg)"
  by (simp add: logger_run_def)

section \<open>Every transaction is logged once\<close>

fun tx_notifications :: "notification_msg \<Rightarrow> transaction_notification list" where
  "tx_notifications (TxNotificationMsg txs) = txs"
| "tx_notifications _ = []"

fun sent_messages :: "logger_event list \<Rightarrow> notification_msg list" where
  "sent_messages [] = []"
| "sent_messages (LogMessage m # es) = m # sent_messages es"
| "sent_messages (_ # es) = sent_messages es"

lemma sent_messages_append: "sent_messages (es @ es') = sent_messages es @ sent_messages es'"
  by (induction es rule: sent_messages.induct) auto

definition channel_txs :: "(signature \<Rightarrow> string) \<Rightarrow> notification_msg list \<Rightarrow> postgres_tx list" where
  "channel_txs to_str ms = List.map (postgres_tx_from to_str) (concat (List.map tx_notifications ms))"

lemma channel_txs_simps [simp]:
  "channel_txs to_str [] = []"
  "channel_txs to_str (m # ms) = List.map (postgres_tx_from to_str) (tx_notifications m) @ channel_txs to_str ms"
  "channel_txs to_str (ms @ ms') = channel_txs to_str ms @ channel_txs to_str ms'"
  by (simp_all add: channel_txs_def)

text \<open>What the logger knows of the transactions, by what never changes of a row.\<close>

definition row_key :: "postgres_tx \<Rightarrow> string \<times> i64 \<times> i64 \<times> instant" where
  "row_key tx = (px_signature tx, px_recent_slot tx, px_forwarded_slot tx, px_forwarded_local_time tx)"

definition logged :: "(signature \<Rightarrow> string) \<Rightarrow> logger \<Rightarrow> (string \<times> i64 \<times> i64 \<times> instant) list" where
  "logged to_str lg = List.map (row_key \<circ> xr_tx) (lg_table lg) @ List.map row_key (lg_tx_batch lg) @
     List.map row_key (channel_txs to_str (lg_channel lg))"

lemma drain_channel_txs:
  "drain_channel to_str closed ms txs ups = Inr (ms', txs', ups') \<Longrightarrow>
   txs' @ channel_txs to_str ms' = txs @ channel_txs to_str ms"
proof (induction to_str closed ms txs ups rule: drain_channel.induct)
  case (2 to_str closed m ms txs ups)
  then show ?case by (cases m) (auto split: if_splits)
qed (auto split: if_splits)

lemma updated_row_key [simp]: "row_key (xr_tx (updated_row u r)) = row_key (xr_tx r)"
  by (simp add: updated_row_def row_key_def)

lemma update_txs_keys [simp]:
  "List.map (row_key \<circ> xr_tx) (fst (update_txs pick b ups table)) = List.map (row_key \<circ> xr_tx) table"
  by (auto simp: update_txs_def split: list.split)

lemma write_batches_logged: "logged to_str (write_batches t lg) = logged to_str lg"
  by (auto simp: logged_def write_batches_def Let_def send_txs_def o_def update_txs_keys [unfolded o_def])

lemma logger_loop_logged:
  assumes "lg_ended (logger_loop to_str t lg) = None"
  shows "logged to_str (logger_loop to_str t lg) = logged to_str lg"
proof (cases "lg_ended lg")
  case None
  then obtain ms txs ups where d: "drained to_str lg = Inr (ms, txs, ups)"
    using assms by (cases "drained to_str lg") (auto simp: logger_loop_def)
  have "txs @ channel_txs to_str ms = lg_tx_batch lg @ channel_txs to_str (lg_channel lg)"
    using d drain_channel_txs by (auto simp: drained_def split: if_splits)
  then have "List.map row_key txs @ List.map row_key (channel_txs to_str ms) =
      List.map row_key (lg_tx_batch lg) @ List.map row_key (channel_txs to_str (lg_channel lg))"
    by (metis map_append)
  then show ?thesis
    by (auto simp: logger_loop_def None d Let_def write_batches_logged) (auto simp: logged_def)
qed (simp add: logger_loop_def)

lemma logger_loop_ended: "lg_ended lg \<noteq> None \<Longrightarrow> logger_loop to_str t lg = lg"
  by (simp add: logger_loop_def)

lemma logger_run_ended:
  "lg_ended lg \<noteq> None \<Longrightarrow> lg_ended (logger_run to_str es lg) = lg_ended lg \<and>
     lg_table (logger_run to_str es lg) = lg_table lg"
proof (induction es arbitrary: lg)
  case (Cons e es)
  have "lg_ended (logger_step to_str e lg) = lg_ended lg \<and> lg_table (logger_step to_str e lg) = lg_table lg"
    using Cons.prems by (cases e) (simp_all add: logger_loop_ended)
  with Cons.IH [of "logger_step to_str e lg"] Cons.prems show ?case by (simp add: logger_run_def)
qed (simp add: logger_run_def)

lemma logger_run_logged:
  "lg_ended (logger_run to_str es lg) = None \<Longrightarrow>
   logged to_str (logger_run to_str es lg) = logged to_str lg @ List.map row_key (channel_txs to_str (sent_messages es))"
proof (induction es rule: rev_induct)
  case (snoc e es)
  let ?lg = "logger_run to_str es lg"
  have "lg_ended ?lg = None"
    using snoc.prems by (cases e; cases "lg_ended ?lg") (auto simp: logger_loop_ended)
  note IH = snoc.IH [OF this]
  show ?case
  proof (cases e)
    case (LogTurn t)
    then show ?thesis
      using logger_loop_logged [of to_str t ?lg] snoc.prems IH by (simp add: sent_messages_append)
  qed (use IH in \<open>simp_all add: sent_messages_append logged_def\<close>)
qed (simp add: logger_run_def)

lemma logged_signatures: "List.map fst (logged to_str lg) =
    List.map (px_signature \<circ> xr_tx) (lg_table lg) @ List.map px_signature (lg_tx_batch lg) @
    List.map (to_str \<circ> tn_signature) (concat (List.map tx_notifications (lg_channel lg)))"
  by (simp add: logged_def row_key_def channel_txs_def postgres_tx_from_def o_def)

section \<open>Bounds\<close>

lemma capacities: "get_max_safe_inserts = 1754" "get_max_safe_updates = 1666"
  by (simp_all add: get_max_safe_inserts_def get_max_safe_updates_def max_query_size_def
      postgres_tx_default_size_def postgres_tx_update_max_size_def postgres_tx_update_default_size_def)

text \<open>A batch can exceed its capacity by at most the last message appended to it.\<close>

lemma drain_channel_bound:
  assumes "drain_channel to_str closed ms txs ups = Inr (ms', txs', ups')"
    and "\<forall>m \<in> set ms. length (tx_notifications m) \<le> k" and "length txs < get_max_safe_inserts + k"
  shows "length txs' < get_max_safe_inserts + k"
  using assms
proof (induction to_str closed ms txs ups rule: drain_channel.induct)
  case (2 to_str closed m ms txs ups)
  then show ?case by (cases m) (auto split: if_splits)
qed (auto split: if_splits)

section \<open>What can get lost\<close>

text \<open>When the channel is closed the task ends with what it just drained, before it is written.\<close>

lemma closed_channel_drops_batch:
  assumes "lg_ended lg = None" and "\<not> lg_session_establish_error lg" and "lg_closed lg"
    and "lg_channel lg = [TxNotificationMsg txs]"
    and "length (lg_tx_batch lg) + length txs < get_max_safe_inserts"
    and "length (lg_update_batch lg) < get_max_safe_updates"
  shows "lg_ended (logger_loop to_str t lg) = Some ChannelBroke"
    and "lg_table (logger_run to_str es (logger_loop to_str t lg)) = lg_table lg"
proof -
  have "drained to_str lg = Inl ChannelBroke" using assms by (simp add: drained_def)
  then have l: "logger_loop to_str t lg = lg\<lparr>lg_ended := Some ChannelBroke\<rparr>"
    using assms(1) by (simp add: logger_loop_def)
  then show "lg_ended (logger_loop to_str t lg) = Some ChannelBroke"
    and "lg_table (logger_run to_str es (logger_loop to_str t lg)) = lg_table lg"
    using logger_run_ended [of "logger_loop to_str t lg" to_str es] by simp_all
qed

text \<open>While a full batch cannot be inserted, no message is received any more, updates included.\<close>

lemma full_batch_stops_receiving:
  assumes "get_max_safe_inserts \<le> length (lg_tx_batch lg)"
    and "\<And>t. LogTurn t \<in> set es \<Longrightarrow> \<not> lt_insert t"
  shows "lg_channel (logger_run to_str es lg) = lg_channel lg @ sent_messages es \<and>
    lg_tx_batch (logger_run to_str es lg) = lg_tx_batch lg \<and>
    lg_ended (logger_run to_str es lg) = lg_ended lg"
  using assms(2)
proof (induction es rule: rev_induct)
  case (snoc e es)
  let ?lg = "logger_run to_str es lg"
  have IH: "lg_channel ?lg = lg_channel lg @ sent_messages es" "lg_tx_batch ?lg = lg_tx_batch lg"
    "lg_ended ?lg = lg_ended lg" using snoc by auto
  have full: "get_max_safe_inserts \<le> length (lg_tx_batch ?lg)" using assms(1) IH by simp
  then have "lg_tx_batch ?lg \<noteq> []" by (auto simp: capacities)
  moreover have "drain_channel to_str c ms (lg_tx_batch ?lg) ups = Inr (ms, lg_tx_batch ?lg, ups)" for c ms ups
    using full by (cases ms) simp_all
  ultimately show ?case
    using snoc.prems IH
    by (cases e) (auto simp: sent_messages_append logger_loop_def drained_def write_batches_def send_txs_def Let_def)
qed (simp add: logger_run_def)

section \<open>Properties\<close>

text \<open>C22: Every forwarded transaction is logged exactly once and in order, whatever sessions and statements
  fail: as long as the logger runs, the transactions forwarded to the TPU are, in this order, the rows
  of the table, the batch that waits for the next write, the messages in the channel and the
  notifications the sender has not sent yet.\<close>

theorem forwarded_transactions_logged:
  assumes "tx_run env (tx_pipeline_new dc now) ls s" and "tv_has_notifier env"
    and "concat (List.map tx_notifications (sent_messages es)) = notified_list ls"
    and "lg = logger_run to_str es logger_new" and "lg_ended lg = None"
  shows "List.map (px_signature \<circ> xr_tx) (lg_table lg) @ List.map px_signature (lg_tx_batch lg) @
      List.map (to_str \<circ> tn_signature) (concat (List.map tx_notifications (lg_channel lg))) @
      List.map (to_str \<circ> tn_signature) (tl_notifications s) =
    List.map (to_str \<circ> st_signature) (forwarded_infos ls)"
proof -
  have "channel_ok env [] (tx_pipeline_new dc now)" by (simp add: channel_defs tx_pipeline_new_def)
  from tx_run_channel [OF assms(1) this] assms(2)
  have "List.map to_str (List.map tn_signature (notified_list ls @ tl_notifications s)) =
      List.map to_str (List.map st_signature (forwarded_infos ls))"
    by (simp add: channel_ok_def)
  moreover have "logged to_str lg = List.map row_key (channel_txs to_str (sent_messages es))"
    using logger_run_logged [of to_str es logger_new] assms(4,5) by (simp add: logged_def logger_new_def)
  then have "List.map fst (logged to_str lg) = List.map (to_str \<circ> tn_signature) (notified_list ls)"
    by (simp add: channel_txs_def assms(3) row_key_def postgres_tx_from_def o_def)
  ultimately show ?thesis by (simp add: logged_signatures o_def flip: append_assoc)
qed

lemma forwarded_transactions_logged_witness:
  "\<exists>ls s. tx_run sample_tx_env (tx_pipeline_new sample_cache 0) ls s \<and>
    List.map (px_signature \<circ> xr_tx) (lg_table (logger_run (\<lambda>_. ''sig'')
      [LogMessage (TxNotificationMsg (notified_list ls)),
       LogTurn \<lparr>lt_session = True, lt_insert = True, lt_update = False, lt_update_first = False, lt_pick = hd\<rparr>]
      logger_new)) = [''sig'']"
proof -
  let ?s0 = "tx_pipeline_new sample_cache 0" and ?info = sample_info
  let ?s1 = "enqueue_transaction sample_tx_env ?info 1 ?s0"
  let ?s2 = "sender_forward sample_tx_env ?info (?s1\<lparr>tl_transaction_channel := []\<rparr>)"
  let ?n = "notification_of (?s1\<lparr>tl_transaction_channel := [], tl_cache := forward_txs ?info (tl_cache ?s1)\<rparr>) ?info"
  have notifier: "tv_has_notifier sample_tx_env" by (simp add: sample_tx_env_def)
  have running: "tl_sender_running ?s1" "tl_transaction_channel ?s1 = [?info]" "tl_now ?s1 = 0" "tl_notifications ?s1 = []"
    by (simp_all add: enqueue_transaction_def tx_pipeline_new_def Let_def)
  have s2: "tl_sender_running ?s2" "tl_notifications ?s2 = [?n]"
    using running notifier by (simp_all add: sender_forward_def Let_def)
  have "tx_step sample_tx_env ?s1 (Forwarded (tl_now ?s1) ?info) ?s2"
    by (rule tx_step.Forward [OF running(1,2)])
  moreover have "notify_transaction_messages sample_tx_env ?s2 = (?s2\<lparr>tl_notifications := []\<rparr>, [?n])"
    using s2 notifier by (simp add: notify_transaction_messages_def)
  then have "tx_step sample_tx_env ?s2 (Notified [?n]) (?s2\<lparr>tl_notifications := []\<rparr>)"
    by (rule tx_step.NotifyTick [OF s2(1)])
  ultimately have run: "tx_run sample_tx_env ?s0 ([Accepted 0 ?info 1] @ [Forwarded (tl_now ?s1) ?info] @ [Notified [?n]])
      (?s2\<lparr>tl_notifications := []\<rparr>)"
    by (metis append_assoc append_Nil sample_accept tx_run.Start tx_run.Next)
  let ?ls = "[Accepted 0 ?info 1] @ [Forwarded (tl_now ?s1) ?info] @ [Notified [?n]]"
  let ?es = "[LogMessage (TxNotificationMsg (notified_list ?ls)),
       LogTurn \<lparr>lt_session = True, lt_insert = True, lt_update = False, lt_update_first = False, lt_pick = hd\<rparr>]"
  have loop: "lg_ended (logger_run (\<lambda>_. ''sig'') ?es logger_new) = None"
    "lg_tx_batch (logger_run (\<lambda>_. ''sig'') ?es logger_new) = []"
    "lg_channel (logger_run (\<lambda>_. ''sig'') ?es logger_new) = []"
    by (simp_all add: logger_run_def logger_new_def notified_list_def logger_loop_def drained_def capacities
        write_batches_def send_txs_def update_txs_def Let_def)
  from forwarded_transactions_logged [OF run notifier _ refl loop(1)] run loop(2,3) show ?thesis
    by (auto simp: forwarded_infos_def)
qed

text \<open>C25: An update can be lost: when the batch of transactions cannot be inserted and the updates in the same
  turn can be applied, the update of a transaction of the batch finds no row, is dropped all the
  same, and the row inserted later does not show it.\<close>

theorem rejected_insert_loses_update:
  assumes "lg = logger_new\<lparr>lg_channel := [TxNotificationMsg [n], UpdateTransactionMsg [u]]\<rparr>"
    and "tu_signature u = to_str (tn_signature n)"
    and "lt_session t" and "\<not> lt_insert t" and "lt_update t" and "lt_session t'" and "lt_insert t'"
  shows "lg_update_batch (logger_run to_str [LogTurn t, LogTurn t'] lg) = [] \<and>
    lg_table (logger_run to_str [LogTurn t, LogTurn t'] lg) =
      [\<lparr>xr_tx = postgres_tx_from to_str n, xr_cu_price = None\<rparr>]"
proof -
  have one: "logger_loop to_str t lg = lg\<lparr>lg_channel := [], lg_tx_batch := [postgres_tx_from to_str n]\<rparr>"
    using assms(3-5)
    by (simp add: assms(1) logger_new_def logger_loop_def drained_def capacities write_batches_def send_txs_def
        update_txs_def Let_def)
  show ?thesis
    using assms(6,7)
    by (simp add: logger_run_def one) (simp add: assms(1) logger_new_def logger_loop_def drained_def capacities
        write_batches_def send_txs_def update_txs_def Let_def)
qed

definition sample_notification :: transaction_notification where
  "sample_notification = \<lparr>tn_signature = 7, tn_recent_slot = 5, tn_forwarded_slot = 6, tn_forwarded_local_time = 0,
     tn_processed_slot = None, tn_cu_consumed = None, tn_cu_requested = None, tn_quic_response = 0\<rparr>"

definition sample_update :: transaction_update where
  "sample_update = \<lparr>tu_signature = ''sig'', tu_slot = 6, tu_cu_consumed = Some 300, tu_cu_requested = None,
     tu_cu_price = None, tu_transaction_status = None, tu_blockhash = [], tu_leader = [],
     tu_commitment = LevelConfirmed\<rparr>"

lemma rejected_insert_loses_update_witness:
  "List.map (px_processed_slot \<circ> xr_tx) (lg_table (logger_run (\<lambda>_. ''sig'')
     [LogTurn \<lparr>lt_session = True, lt_insert = False, lt_update = True, lt_update_first = False, lt_pick = hd\<rparr>,
      LogTurn \<lparr>lt_session = True, lt_insert = True, lt_update = True, lt_update_first = False, lt_pick = hd\<rparr>]
     (logger_new\<lparr>lg_channel := [TxNotificationMsg [sample_notification], UpdateTransactionMsg [sample_update]]\<rparr>))) = [None]"
proof -
  have "tu_signature sample_update = ''sig''" by (simp add: sample_update_def)
  note lost = rejected_insert_loses_update [where to_str = "\<lambda>_. ''sig''" and n = sample_notification and u = sample_update, OF refl this]
  show ?thesis
    by (subst conjunct2 [OF lost]) (simp_all add: postgres_tx_from_def sample_notification_def)
qed

end
