(* ===== verification/Service_Config.thy ===== *)
theory Service_Config
  imports Quic_Connection Fee_Method
begin

text \<open>
  The configuration of the service: \<open>lite-rpc/src/cli.rs\<close>, \<open>postgres_logger/postgres_config.rs\<close> and
  \<open>core/src/keypair_loader.rs\<close>.  The environment maps the names of its variables to their values
  (\<open>.env\<close> has been merged into it), the file system maps paths to contents, and the parsers of
  JSON, of addresses and of PostgreSQL connection strings are arguments.  An \<open>Err\<close> of the source
  is the left summand of a result and carries its context.
\<close>

section \<open>Reading the environment\<close>

type_synonym environment = "string \<Rightarrow> string option"

definition parse_bool :: "string \<Rightarrow> bool option" where
  "parse_bool s = (if s = ''true'' then Some True else if s = ''false'' then Some False else None)"

definition parse_u64 :: "string \<Rightarrow> u64 option" where
  "parse_u64 s = map_option word_of_nat (parse_usize s)"

definition parse_u8 :: "string \<Rightarrow> u8 option" where
  "parse_u8 s = Option.bind (parse_usize s) (\<lambda>n. if n < 256 then Some (word_of_nat n) else None)"

text \<open>\<open>env::var(..).unwrap_or(..)\<close> and \<open>env::var(..).map(|v| v.parse().unwrap())\<close>.\<close>

definition env_or :: "environment \<Rightarrow> string \<Rightarrow> string \<Rightarrow> string" where
  "env_or env name d = unwrap_or (env name) d"

definition env_parse :: "(string \<Rightarrow> 'a option) \<Rightarrow> environment \<Rightarrow> string \<Rightarrow> 'a option outcome" where
  "env_parse parse env name =
     (case env name of
        None \<Rightarrow> Inr None
      | Some v \<Rightarrow> (case parse v of None \<Rightarrow> Inl UnwrapNone | Some x \<Rightarrow> Inr (Some x)))"

section \<open>PostgreSQL and QUIC\<close>

record postgres_ssl_config =
  pl_ca_pem_b64 :: string
  pl_client_pks_b64 :: string
  pl_client_pks_pass :: string

record postgres_session_config =
  pc_pg_config :: string
  pc_ssl :: "postgres_ssl_config option"

text \<open>\<open>ssl_disabled\<close> parses a connection string and tells whether its SSL mode is \<open>Disable\<close>.\<close>

definition postgres_from_env ::
    "(string \<Rightarrow> bool option) \<Rightarrow> environment \<Rightarrow> string + postgres_session_config option" where
  "postgres_from_env ssl_disabled env =
     (case env ''PG_ENABLED'' of
        None \<Rightarrow> Inr None
      | Some enable_pg \<Rightarrow>
          if enable_pg \<noteq> ''true'' then Inr None
          else (case env ''PG_CONFIG'' of
            None \<Rightarrow> Inl ''PG_CONFIG not found''
          | Some pg_config \<Rightarrow>
              (case ssl_disabled pg_config of
                 None \<Rightarrow> Inl ''invalid connection string''
               | Some True \<Rightarrow> Inr (Some \<lparr>pc_pg_config = pg_config, pc_ssl = None\<rparr>)
               | Some False \<Rightarrow>
                   (case env ''CA_PEM_B64'' of
                      None \<Rightarrow> Inl ''CA_PEM_B64 not found''
                    | Some ca \<Rightarrow> (case env ''CLIENT_PKS_B64'' of
                        None \<Rightarrow> Inl ''CLIENT_PKS_B64 not found''
                      | Some pks \<Rightarrow> (case env ''CLIENT_PKS_PASS'' of
                          None \<Rightarrow> Inl ''CLIENT_PKS_PASS not found''
                        | Some pass \<Rightarrow> Inr (Some \<lparr>pc_pg_config = pg_config,
                            pc_ssl = Some \<lparr>pl_ca_pem_b64 = ca, pl_client_pks_b64 = pks,
                              pl_client_pks_pass = pass\<rparr>\<rparr>)))))))"

definition quic_params_from_environment :: "environment \<Rightarrow> quic_connection_parameters option outcome" where
  "quic_params_from_environment env =
     bind_outcome (env_parse parse_usize env ''QUIC_CONNECTION_TIMEOUT_MILLIS'') (\<lambda>connection_timeout.
     bind_outcome (env_parse parse_usize env ''QUIC_UNISTREAM_TIMEOUT_MILLIS'') (\<lambda>unistream_timeout.
     bind_outcome (env_parse parse_usize env ''QUIC_WRITE_TIMEOUT_MILLIS'') (\<lambda>write_timeout.
     bind_outcome (env_parse parse_usize env ''QUIC_FINALIZE_TIMEOUT_MILLIS'') (\<lambda>finalize_timeout.
     bind_outcome (env_parse parse_usize env ''QUIC_CONNECTION_RETRY_COUNT'') (\<lambda>retry_count.
     bind_outcome (env_parse parse_usize env ''QUIC_MAX_NUMBER_OF_CONNECTIONS'') (\<lambda>max_connections.
     bind_outcome (env_parse parse_usize env ''QUIC_NUMBER_OF_TRANSACTIONS_PER_TASK'') (\<lambda>per_unistream.
     bind_outcome (env_parse parse_u8 env ''QUIC_PERCENTAGE_TO_CREATE_NEW_CONNECTION'') (\<lambda>percentage.
       Inr (Some (default_parameters
         \<lparr>qp_connection_timeout := unwrap_or connection_timeout (qp_connection_timeout default_parameters),
          qp_unistream_timeout := unwrap_or unistream_timeout (qp_unistream_timeout default_parameters),
          qp_write_timeout := unwrap_or write_timeout (qp_write_timeout default_parameters),
          qp_finalize_timeout := unwrap_or finalize_timeout (qp_finalize_timeout default_parameters),
          qp_connection_retry_count := unwrap_or retry_count (qp_connection_retry_count default_parameters),
          qp_max_number_of_connections := unwrap_or max_connections (qp_max_number_of_connections default_parameters),
          qp_number_of_transactions_per_unistream :=
            unwrap_or per_unistream (qp_number_of_transactions_per_unistream default_parameters),
          qp_unistreams_percentage := unwrap_or percentage (qp_unistreams_percentage default_parameters)\<rparr>))))))))))"

section \<open>The configuration\<close>

record config =
  cf_rpc_addr :: string
  cf_ws_addr :: string
  cf_lite_rpc_http_addr :: string
  cf_lite_rpc_ws_addr :: string
  cf_fanout_size :: u64
  cf_identity_keypair :: "string option"
  cf_prometheus_addr :: string
  cf_maximum_retries_per_tx :: nat
  cf_transaction_retry_after_secs :: u64
  cf_quic_proxy_addr :: "string option"
  cf_use_grpc :: bool
  cf_calculate_leader_schedule_from_geyser :: bool
  cf_grpc_addr :: string
  cf_grpc_x_token :: "string option"
  cf_grpc_addr2 :: "string option"
  cf_grpc_x_token2 :: "string option"
  cf_grpc_addr3 :: "string option"
  cf_grpc_x_token3 :: "string option"
  cf_grpc_addr4 :: "string option"
  cf_grpc_x_token4 :: "string option"
  cf_enable_grpc_stream_inspection :: bool
  cf_postgres :: "postgres_session_config option"
  cf_max_number_of_connection :: "nat option"
  cf_address_lookup_tables_binary :: "string option"
  cf_enable_address_lookup_tables :: "bool option"
  cf_account_filters :: "string option"
  cf_enable_accounts_on_demand :: "bool option"
  cf_quic_connection_parameters :: "quic_connection_parameters option"

text \<open>The values of missing fields; the constants can be changed when the service is compiled.\<close>

definition default_rpc_addr :: string where "default_rpc_addr = ''http://0.0.0.0:8899''"
definition default_ws_addr :: string where "default_ws_addr = ''ws://0.0.0.0:8900''"
definition default_lite_rpc_http_addr :: string where "default_lite_rpc_http_addr = ''[::]:8890''"
definition default_lite_rpc_ws_addr :: string where "default_lite_rpc_ws_addr = ''[::]:8891''"
definition default_fanout_size :: u64 where "default_fanout_size = 18"
definition default_prometheus_addr :: string where "default_prometheus_addr = ''[::]:9091''"
definition default_maximum_retries_per_tx :: nat where "default_maximum_retries_per_tx = 40"
definition default_transaction_retry_after_secs :: u64 where "default_transaction_retry_after_secs = 3"
definition default_grpc_addr :: string where "default_grpc_addr = ''http://localhost:10000''"

definition default_config :: config where
  "default_config = \<lparr>cf_rpc_addr = default_rpc_addr, cf_ws_addr = default_ws_addr,
     cf_lite_rpc_http_addr = default_lite_rpc_http_addr, cf_lite_rpc_ws_addr = default_lite_rpc_ws_addr,
     cf_fanout_size = default_fanout_size, cf_identity_keypair = None,
     cf_prometheus_addr = default_prometheus_addr,
     cf_maximum_retries_per_tx = default_maximum_retries_per_tx,
     cf_transaction_retry_after_secs = default_transaction_retry_after_secs, cf_quic_proxy_addr = None,
     cf_use_grpc = False, cf_calculate_leader_schedule_from_geyser = False, cf_grpc_addr = default_grpc_addr,
     cf_grpc_x_token = None, cf_grpc_addr2 = None, cf_grpc_x_token2 = None, cf_grpc_addr3 = None,
     cf_grpc_x_token3 = None, cf_grpc_addr4 = None, cf_grpc_x_token4 = None,
     cf_enable_grpc_stream_inspection = False, cf_postgres = None, cf_max_number_of_connection = None,
     cf_address_lookup_tables_binary = None, cf_enable_address_lookup_tables = None,
     cf_account_filters = None, cf_enable_accounts_on_demand = None, cf_quic_connection_parameters = None\<rparr>"

section \<open>Loading\<close>

text \<open>Addresses and numbers; \<open>valid_addr\<close> is the parser of socket addresses.\<close>

definition apply_addresses :: "(string \<Rightarrow> bool) \<Rightarrow> environment \<Rightarrow> config \<Rightarrow> config outcome" where
  "apply_addresses valid_addr env c =
     (let http = env_or env ''LITE_RPC_HTTP_ADDR'' (cf_lite_rpc_http_addr c);
          ws = env_or env ''LITE_RPC_WS_ADDR'' (cf_lite_rpc_ws_addr c)
      in if \<not> valid_addr http then Inl (ExplicitPanic ''invalid LITE_RPC_HTTP_ADDR'')
         else if \<not> valid_addr ws then Inl (ExplicitPanic ''invalid LITE_RPC_WS_ADDR'')
         else
           bind_outcome (env_parse parse_u64 env ''FANOUT_SIZE'') (\<lambda>fanout.
           bind_outcome (env_parse parse_usize env ''MAX_RETRIES'') (\<lambda>retries.
           bind_outcome (env_parse parse_u64 env ''RETRY_TIMEOUT'') (\<lambda>retry_after.
             Inr (c\<lparr>cf_rpc_addr := env_or env ''RPC_ADDR'' (cf_rpc_addr c),
                    cf_ws_addr := env_or env ''WS_ADDR'' (cf_ws_addr c),
                    cf_lite_rpc_http_addr := http, cf_lite_rpc_ws_addr := ws,
                    cf_fanout_size := unwrap_or fanout (cf_fanout_size c),
                    cf_prometheus_addr := env_or env ''PROMETHEUS_ADDR'' (cf_prometheus_addr c),
                    cf_maximum_retries_per_tx := unwrap_or retries (cf_maximum_retries_per_tx c),
                    cf_transaction_retry_after_secs :=
                      unwrap_or retry_after (cf_transaction_retry_after_secs c)\<rparr>)))))"

definition apply_grpc :: "environment \<Rightarrow> config \<Rightarrow> config outcome" where
  "apply_grpc env c =
     bind_outcome (env_parse parse_bool env ''USE_GRPC'') (\<lambda>use_grpc.
       if env ''GRPC_ADDR1'' \<noteq> None then Inl (ExplicitPanic ''use GRPC_ADDR instead of GRPC_ADDR1'')
       else if env ''GRPC_X_TOKEN1'' \<noteq> None then Inl (ExplicitPanic ''use GRPC_X_TOKEN instead of GRPC_X_TOKEN1'')
       else Inr (c\<lparr>cf_quic_proxy_addr := env ''QUIC_PROXY_ADDR'',
              cf_use_grpc := unwrap_or use_grpc (cf_use_grpc c),
              cf_grpc_addr := env_or env ''GRPC_ADDR'' (cf_grpc_addr c),
              cf_grpc_x_token := or_else (env ''GRPC_X_TOKEN'') (cf_grpc_x_token c),
              cf_grpc_addr2 := or_else (env ''GRPC_ADDR2'') (cf_grpc_addr2 c),
              cf_grpc_x_token2 := or_else (env ''GRPC_X_TOKEN2'') (cf_grpc_x_token2 c),
              cf_grpc_addr3 := or_else (env ''GRPC_ADDR3'') (cf_grpc_addr3 c),
              cf_grpc_x_token3 := or_else (env ''GRPC_X_TOKEN3'') (cf_grpc_x_token3 c),
              cf_grpc_addr4 := or_else (env ''GRPC_ADDR4'') (cf_grpc_addr4 c),
              cf_grpc_x_token4 := or_else (env ''GRPC_X_TOKEN4'') (cf_grpc_x_token4 c)\<rparr>))"

text \<open>A number of connections that does not parse removes the one of the file.\<close>

definition apply_features :: "environment \<Rightarrow> config \<Rightarrow> config outcome" where
  "apply_features env c =
     bind_outcome (env_parse parse_bool env ''ENABLE_GRPC_STREAM_INSPECTION'') (\<lambda>inspection.
     bind_outcome (env_parse parse_bool env ''ENABLE_ADDRESS_LOOKUP_TABLES'') (\<lambda>alts.
     bind_outcome (env_parse parse_bool env ''ENABLE_ACCOUNT_ON_DEMAND'') (\<lambda>on_demand.
       Inr (c\<lparr>cf_enable_grpc_stream_inspection := unwrap_or inspection (cf_enable_grpc_stream_inspection c),
              cf_max_number_of_connection :=
                (case env ''MAX_NB_OF_CONNECTIONS_WITH_LEADERS'' of
                   None \<Rightarrow> cf_max_number_of_connection c | Some x \<Rightarrow> parse_usize x),
              cf_enable_address_lookup_tables := or_else alts (cf_enable_address_lookup_tables c),
              cf_address_lookup_tables_binary :=
                or_else (env ''ADDRESS_LOOKUP_TABLES_BINARY'') (cf_address_lookup_tables_binary c),
              cf_account_filters := or_else (env ''ACCOUNT_FILTERS'') (cf_account_filters c),
              cf_enable_accounts_on_demand := or_else on_demand (cf_enable_accounts_on_demand c)\<rparr>))))"

text \<open>The parameters of the environment are computed in any case, and only used when the file has none.\<close>

definition apply_services ::
    "(string \<Rightarrow> bool option) \<Rightarrow> environment \<Rightarrow> config \<Rightarrow> (string + config) outcome" where
  "apply_services ssl_disabled env c =
     (case postgres_from_env ssl_disabled env of
        Inl e \<Rightarrow> Inr (Inl e)
      | Inr pg \<Rightarrow>
          bind_outcome (quic_params_from_environment env) (\<lambda>quic.
            Inr (Inr (c\<lparr>cf_postgres := or_else pg (cf_postgres c),
                        cf_quic_connection_parameters := or_else (cf_quic_connection_parameters c) quic\<rparr>))))"

record config_world =
  cw_env :: environment
  cw_exists :: "string \<Rightarrow> bool"
  cw_read :: "string \<Rightarrow> string option"
  cw_parse_json :: "string \<Rightarrow> config option"
  cw_valid_addr :: "string \<Rightarrow> bool"
  cw_ssl_disabled :: "string \<Rightarrow> bool option"

definition config_path :: "config_world \<Rightarrow> string option \<Rightarrow> string option" where
  "config_path w arg =
     (case arg of
        Some path \<Rightarrow> Some path
      | None \<Rightarrow> if cw_exists w ''config.json'' then Some ''config.json'' else None)"

definition config_text :: "config_world \<Rightarrow> string option \<Rightarrow> string option" where
  "config_text w arg = (case config_path w arg of None \<Rightarrow> Some ''{}'' | Some path \<Rightarrow> cw_read w path)"

definition apply_environment :: "config_world \<Rightarrow> config \<Rightarrow> (string + config) outcome" where
  "apply_environment w c =
     bind_outcome (apply_addresses (cw_valid_addr w) (cw_env w) c) (\<lambda>c.
     bind_outcome (apply_grpc (cw_env w) c) (\<lambda>c.
     bind_outcome (apply_features (cw_env w) c) (\<lambda>c.
       apply_services (cw_ssl_disabled w) (cw_env w) c)))"

definition config_load :: "config_world \<Rightarrow> string option \<Rightarrow> (string + config) outcome" where
  "config_load w arg =
     (case config_text w arg of
        None \<Rightarrow> Inr (Inl ''Error reading config file'')
      | Some raw \<Rightarrow>
          (case cw_parse_json w raw of
             None \<Rightarrow> Inr (Inl ''Error parsing config file'')
           | Some c \<Rightarrow> apply_environment w c))"

section \<open>The sources and how they are printed\<close>

record grpc_source =
  gs_addr :: string
  gs_x_token :: "string option"

definition extra_source :: "string option \<Rightarrow> string option \<Rightarrow> grpc_source list" where
  "extra_source addr token = (case addr of None \<Rightarrow> [] | Some a \<Rightarrow> [\<lparr>gs_addr = a, gs_x_token = token\<rparr>])"

definition get_grpc_sources :: "config \<Rightarrow> grpc_source list" where
  "get_grpc_sources c =
     [\<lparr>gs_addr = cf_grpc_addr c, gs_x_token = cf_grpc_x_token c\<rparr>] @
     extra_source (cf_grpc_addr2 c) (cf_grpc_x_token2 c) @
     extra_source (cf_grpc_addr3 c) (cf_grpc_x_token3 c) @
     extra_source (cf_grpc_addr4 c) (cf_grpc_x_token4 c)"

text \<open>A string is its bytes; \<open>truncate\<close> panics when it would cut a character.\<close>

definition is_char_boundary :: "string \<Rightarrow> nat \<Rightarrow> bool" where
  "is_char_boundary s i \<longleftrightarrow> i = 0 \<or> i = length s \<or>
     (i < length s \<and> \<not> (128 \<le> (of_char (s ! i) :: nat) \<and> (of_char (s ! i) :: nat) < 192))"

definition truncate_string :: "nat \<Rightarrow> string \<Rightarrow> string outcome" where
  "truncate_string n s =
     (if length s < n then Inr s
      else if is_char_boundary s n then Inr (take n s) else Inl AssertionFailed)"

definition obfuscate_token :: "string option \<Rightarrow> string outcome" where
  "obfuscate_token token =
     (case token of
        None \<Rightarrow> Inr ''n/a''
      | Some t \<Rightarrow> bind_outcome (truncate_string 5 t) (\<lambda>t. Inr (t @ ''...'')))"

text \<open>\<open>parse_url\<close> gives the path of a URL and the URL with another path.\<close>

definition url_obfuscate_api_token ::
    "(string \<Rightarrow> (string \<times> (string \<Rightarrow> string)) option) \<Rightarrow> string \<Rightarrow> string" where
  "url_obfuscate_api_token parse_url url =
     (case parse_url url of
        Some (path, set_path) \<Rightarrow> if path = ''/'' then url else set_path ''omitted-secret''
      | None \<Rightarrow> url)"

definition show_grpc_source ::
    "(string \<Rightarrow> (string \<times> (string \<Rightarrow> string)) option) \<Rightarrow> grpc_source \<Rightarrow> string outcome" where
  "show_grpc_source parse_url s =
     bind_outcome (obfuscate_token (gs_x_token s)) (\<lambda>token.
       Inr (''GrpcSource '' @ url_obfuscate_api_token parse_url (gs_addr s) @ '' (x-token '' @ token @ '')''))"

section \<open>The identity\<close>

text \<open>\<open>parse_keypair\<close> reads the bytes from JSON and the key from the bytes.\<close>

definition load_identity_keypair ::
    "environment \<Rightarrow> (string \<Rightarrow> string option) \<Rightarrow> (string \<Rightarrow> u8 list option) \<Rightarrow> (u8 list \<Rightarrow> 'k option) \<Rightarrow>
     string option \<Rightarrow> string + 'k option" where
  "load_identity_keypair env read parse_bytes from_bytes path =
     (let from_text = (\<lambda>raw. case parse_bytes raw of
            None \<Rightarrow> Inl ''Invalid identity format expected Vec<u8>''
          | Some bytes \<Rightarrow> (case from_bytes bytes of
              None \<Rightarrow> Inl ''Invalid identity'' | Some k \<Rightarrow> Inr (Some k)))
      in case env ''IDENTITY'' of
           Some raw \<Rightarrow> from_text raw
         | None \<Rightarrow>
             (case path of
                None \<Rightarrow> Inr None
              | Some p \<Rightarrow> (case read p of
                  None \<Rightarrow> Inl ''Cannot find the identity file provided'' | Some raw \<Rightarrow> from_text raw)))"

section \<open>What loading does\<close>

definition env_ok :: "(string \<Rightarrow> 'a option) \<Rightarrow> environment \<Rightarrow> string \<Rightarrow> bool" where
  "env_ok parse env name \<longleftrightarrow> (\<forall>v. env name = Some v \<longrightarrow> parse v \<noteq> None)"

lemma env_parse_ok: "(\<exists>x. env_parse parse env name = Inr x) \<longleftrightarrow> env_ok parse env name"
  by (auto simp: env_parse_def env_ok_def split: option.splits)

lemma env_parse_value: "env_parse parse env name = Inr x \<Longrightarrow> x = Option.bind (env name) parse"
  by (auto simp: env_parse_def split: option.splits)

definition quic_env_ok :: "environment \<Rightarrow> bool" where
  "quic_env_ok env \<longleftrightarrow>
     (\<forall>name \<in> {''QUIC_CONNECTION_TIMEOUT_MILLIS'', ''QUIC_UNISTREAM_TIMEOUT_MILLIS'',
        ''QUIC_WRITE_TIMEOUT_MILLIS'', ''QUIC_FINALIZE_TIMEOUT_MILLIS'', ''QUIC_CONNECTION_RETRY_COUNT'',
        ''QUIC_MAX_NUMBER_OF_CONNECTIONS'', ''QUIC_NUMBER_OF_TRANSACTIONS_PER_TASK''}. env_ok parse_usize env name) \<and>
     env_ok parse_u8 env ''QUIC_PERCENTAGE_TO_CREATE_NEW_CONNECTION''"

lemma quic_params_total:
  "(\<exists>q. quic_params_from_environment env = Inr q) \<longleftrightarrow> quic_env_ok env"
  by (simp add: quic_params_from_environment_def quic_env_ok_def env_parse_ok [symmetric]) blast

lemma apply_addresses_total:
  "(\<exists>c'. apply_addresses valid_addr env c = Inr c') \<longleftrightarrow>
     valid_addr (env_or env ''LITE_RPC_HTTP_ADDR'' (cf_lite_rpc_http_addr c)) \<and>
     valid_addr (env_or env ''LITE_RPC_WS_ADDR'' (cf_lite_rpc_ws_addr c)) \<and>
     env_ok parse_u64 env ''FANOUT_SIZE'' \<and> env_ok parse_usize env ''MAX_RETRIES'' \<and>
     env_ok parse_u64 env ''RETRY_TIMEOUT''"
  by (simp add: apply_addresses_def env_parse_ok [symmetric] Let_def) blast

lemma apply_grpc_total:
  "(\<exists>c'. apply_grpc env c = Inr c') \<longleftrightarrow>
     env_ok parse_bool env ''USE_GRPC'' \<and> env ''GRPC_ADDR1'' = None \<and> env ''GRPC_X_TOKEN1'' = None"
  by (auto simp: apply_grpc_def env_parse_ok [symmetric] split: if_splits)

lemma apply_features_total:
  "(\<exists>c'. apply_features env c = Inr c') \<longleftrightarrow>
     env_ok parse_bool env ''ENABLE_GRPC_STREAM_INSPECTION'' \<and>
     env_ok parse_bool env ''ENABLE_ADDRESS_LOOKUP_TABLES'' \<and> env_ok parse_bool env ''ENABLE_ACCOUNT_ON_DEMAND''"
  by (simp add: apply_features_def env_parse_ok [symmetric]) blast

lemma apply_services_total:
  "(\<exists>c'. apply_services ssl env c = Inr (Inr c')) \<longleftrightarrow>
     (\<exists>pg. postgres_from_env ssl env = Inr pg) \<and> quic_env_ok env"
  by (auto simp: apply_services_def quic_params_total [symmetric] split: sum.splits)

lemma apply_environment_total:
  "(\<exists>c'. apply_environment w c = Inr (Inr c')) \<longleftrightarrow>
     (\<exists>c1. apply_addresses (cw_valid_addr w) (cw_env w) c = Inr c1) \<and>
     (\<exists>c2. apply_grpc (cw_env w) c = Inr c2) \<and> (\<exists>c3. apply_features (cw_env w) c = Inr c3) \<and>
     (\<exists>c4. apply_services (cw_ssl_disabled w) (cw_env w) c = Inr (Inr c4))"
proof -
  have "(\<exists>c2. apply_grpc (cw_env w) c' = Inr c2) \<longleftrightarrow> (\<exists>c2. apply_grpc (cw_env w) c = Inr c2)"
    "(\<exists>c2. apply_features (cw_env w) c' = Inr c2) \<longleftrightarrow> (\<exists>c2. apply_features (cw_env w) c = Inr c2)"
    "(\<exists>c2. apply_services (cw_ssl_disabled w) (cw_env w) c' = Inr (Inr c2)) \<longleftrightarrow>
      (\<exists>c2. apply_services (cw_ssl_disabled w) (cw_env w) c = Inr (Inr c2))" for c'
    by (simp_all only: apply_grpc_total apply_features_total apply_services_total)
  then show ?thesis unfolding apply_environment_def bind_outcome_Inr by metis
qed

section \<open>Tokens\<close>

lemma token_shown: "length t < 5 \<Longrightarrow> obfuscate_token (Some t) = Inr (t @ ''...'')"
  by (simp add: obfuscate_token_def truncate_string_def)

text \<open>A token with a character of several bytes across the fifth byte makes the print panic.\<close>

lemma token_print_panics:
  "obfuscate_token (Some (''abcd'' @ [char_of (195 :: nat), char_of (164 :: nat)])) = Inl AssertionFailed"
  by code_simp

lemma token_hidden:
  "obfuscate_token (Some t) = Inr s \<Longrightarrow> s = take 5 t @ ''...''"
  by (auto simp: obfuscate_token_def truncate_string_def split: if_splits)

section \<open>Sources\<close>

lemma grpc_sources_bounds: "1 \<le> length (get_grpc_sources c) \<and> length (get_grpc_sources c) \<le> 4"
  by (simp add: get_grpc_sources_def extra_source_def split: option.split)

section \<open>Properties\<close>

lemma config_load_stages:
  assumes "config_load w arg = Inr (Inr c)"
  obtains raw given c1 c2 c3 where "config_text w arg = Some raw" "cw_parse_json w raw = Some given"
    "apply_addresses (cw_valid_addr w) (cw_env w) given = Inr c1" "apply_grpc (cw_env w) c1 = Inr c2"
    "apply_features (cw_env w) c2 = Inr c3" "apply_services (cw_ssl_disabled w) (cw_env w) c3 = Inr (Inr c)"
  using assms by (auto simp: config_load_def apply_environment_def split: option.splits)

lemma apply_addresses_fields:
  assumes "apply_addresses valid_addr env c = Inr c'"
  shows "cf_rpc_addr c' = unwrap_or (env ''RPC_ADDR'') (cf_rpc_addr c)"
    "cf_fanout_size c' = unwrap_or (Option.bind (env ''FANOUT_SIZE'') parse_u64) (cf_fanout_size c)"
    "cf_use_grpc c' = cf_use_grpc c" "cf_grpc_addr c' = cf_grpc_addr c" "cf_grpc_x_token c' = cf_grpc_x_token c"
    "cf_postgres c' = cf_postgres c" "cf_quic_connection_parameters c' = cf_quic_connection_parameters c"
  using assms by (auto simp: apply_addresses_def Let_def env_or_def dest!: env_parse_value split: if_splits)

lemma apply_grpc_fields:
  assumes "apply_grpc env c = Inr c'"
  shows "cf_rpc_addr c' = cf_rpc_addr c" "cf_fanout_size c' = cf_fanout_size c"
    "cf_maximum_retries_per_tx c' = cf_maximum_retries_per_tx c"
    "cf_quic_proxy_addr c' = env ''QUIC_PROXY_ADDR''"
    "cf_use_grpc c' = unwrap_or (Option.bind (env ''USE_GRPC'') parse_bool) (cf_use_grpc c)"
    "cf_postgres c' = cf_postgres c" "cf_quic_connection_parameters c' = cf_quic_connection_parameters c"
    "get_grpc_sources c' = [\<lparr>gs_addr = unwrap_or (env ''GRPC_ADDR'') (cf_grpc_addr c),
         gs_x_token = or_else (env ''GRPC_X_TOKEN'') (cf_grpc_x_token c)\<rparr>] @
       extra_source (or_else (env ''GRPC_ADDR2'') (cf_grpc_addr2 c)) (or_else (env ''GRPC_X_TOKEN2'') (cf_grpc_x_token2 c)) @
       extra_source (or_else (env ''GRPC_ADDR3'') (cf_grpc_addr3 c)) (or_else (env ''GRPC_X_TOKEN3'') (cf_grpc_x_token3 c)) @
       extra_source (or_else (env ''GRPC_ADDR4'') (cf_grpc_addr4 c)) (or_else (env ''GRPC_X_TOKEN4'') (cf_grpc_x_token4 c))"
  using assms by (auto simp: apply_grpc_def env_or_def get_grpc_sources_def dest!: env_parse_value split: if_splits)

lemma apply_features_fields:
  assumes "apply_features env c = Inr c'"
  shows "cf_rpc_addr c' = cf_rpc_addr c" "cf_fanout_size c' = cf_fanout_size c"
    "cf_maximum_retries_per_tx c' = cf_maximum_retries_per_tx c" "cf_quic_proxy_addr c' = cf_quic_proxy_addr c"
    "cf_use_grpc c' = cf_use_grpc c" "get_grpc_sources c' = get_grpc_sources c" "cf_postgres c' = cf_postgres c"
    "cf_quic_connection_parameters c' = cf_quic_connection_parameters c"
  using assms by (auto simp: apply_features_def get_grpc_sources_def)

lemma apply_services_fields:
  assumes "apply_services ssl env c = Inr (Inr c')"
  shows "cf_rpc_addr c' = cf_rpc_addr c" "cf_fanout_size c' = cf_fanout_size c"
    "cf_maximum_retries_per_tx c' = cf_maximum_retries_per_tx c" "cf_quic_proxy_addr c' = cf_quic_proxy_addr c"
    "cf_use_grpc c' = cf_use_grpc c" "get_grpc_sources c' = get_grpc_sources c"
    "\<exists>pg. postgres_from_env ssl env = Inr pg \<and> cf_postgres c' = or_else pg (cf_postgres c)"
    "\<exists>q. quic_params_from_environment env = Inr q \<and>
      cf_quic_connection_parameters c' = or_else (cf_quic_connection_parameters c) q"
  using assms by (auto simp: apply_services_def get_grpc_sources_def split: sum.splits)

lemma config_load_proxy:
  assumes "config_load w arg = Inr (Inr c)"
  shows "cf_quic_proxy_addr c = cw_env w ''QUIC_PROXY_ADDR''"
proof -
  obtain raw given c1 c2 c3 where st: "config_text w arg = Some raw" "cw_parse_json w raw = Some given"
    "apply_addresses (cw_valid_addr w) (cw_env w) given = Inr c1" "apply_grpc (cw_env w) c1 = Inr c2"
    "apply_features (cw_env w) c2 = Inr c3" "apply_services (cw_ssl_disabled w) (cw_env w) c3 = Inr (Inr c)"
    using config_load_stages [OF assms] .
  show ?thesis
    by (simp add: apply_grpc_fields(4) [OF st(4)] apply_features_fields(4) [OF st(5)] apply_services_fields(4) [OF st(6)])
qed

text \<open>Which source wins: a variable of the environment takes the place of the value of the file, for
  addresses, numbers, switches and the gRPC sources with their tokens, with two exceptions: the
  address of the QUIC proxy is never taken from the file, and the QUIC parameters of the environment
  are only used when the file has none.\<close>

theorem environment_precedence:
  assumes "config_load w arg = Inr (Inr c)"
  shows "\<exists>raw given q. config_text w arg = Some raw \<and> cw_parse_json w raw = Some given \<and>
    cf_rpc_addr c = unwrap_or (cw_env w ''RPC_ADDR'') (cf_rpc_addr given) \<and>
    cf_fanout_size c = unwrap_or (Option.bind (cw_env w ''FANOUT_SIZE'') parse_u64) (cf_fanout_size given) \<and>
    cf_use_grpc c = unwrap_or (Option.bind (cw_env w ''USE_GRPC'') parse_bool) (cf_use_grpc given) \<and>
    hd (get_grpc_sources c) = \<lparr>gs_addr = unwrap_or (cw_env w ''GRPC_ADDR'') (cf_grpc_addr given),
      gs_x_token = or_else (cw_env w ''GRPC_X_TOKEN'') (cf_grpc_x_token given)\<rparr> \<and>
    cf_quic_proxy_addr c = cw_env w ''QUIC_PROXY_ADDR'' \<and>
    quic_params_from_environment (cw_env w) = Inr q \<and>
    cf_quic_connection_parameters c = or_else (cf_quic_connection_parameters given) q"
proof -
  obtain raw given c1 c2 c3 where st: "config_text w arg = Some raw" "cw_parse_json w raw = Some given"
    "apply_addresses (cw_valid_addr w) (cw_env w) given = Inr c1" "apply_grpc (cw_env w) c1 = Inr c2"
    "apply_features (cw_env w) c2 = Inr c3" "apply_services (cw_ssl_disabled w) (cw_env w) c3 = Inr (Inr c)"
    using config_load_stages [OF assms] .
  note f = apply_addresses_fields [OF st(3)] apply_grpc_fields [OF st(4)] apply_features_fields [OF st(5)] apply_services_fields(1-6) [OF st(6)]
  from apply_services_fields(8) [OF st(6)] obtain q where q: "quic_params_from_environment (cw_env w) = Inr q"
    "cf_quic_connection_parameters c = or_else (cf_quic_connection_parameters c3) q" by blast
  show ?thesis
    by (rule exI [of _ raw], rule exI [of _ given], rule exI [of _ q])
      (simp add: st(1,2) q f)
qed


text \<open>A switch of the environment can start PostgreSQL but not stop it.\<close>

lemma postgres_not_disabled:
  assumes "config_load w arg = Inr (Inr c)" and "cw_env w ''PG_ENABLED'' = Some ''false''"
  shows "\<exists>raw given. config_text w arg = Some raw \<and> cw_parse_json w raw = Some given \<and> cf_postgres c = cf_postgres given"
proof -
  obtain raw given c1 c2 c3 where st: "config_text w arg = Some raw" "cw_parse_json w raw = Some given"
    "apply_addresses (cw_valid_addr w) (cw_env w) given = Inr c1" "apply_grpc (cw_env w) c1 = Inr c2"
    "apply_features (cw_env w) c2 = Inr c3" "apply_services (cw_ssl_disabled w) (cw_env w) c3 = Inr (Inr c)"
    using config_load_stages [OF assms(1)] .
  have "postgres_from_env (cw_ssl_disabled w) (cw_env w) = Inr None"
    using assms(2) by (simp add: postgres_from_env_def)
  then have "cf_postgres c = cf_postgres c3" using apply_services_fields(7) [OF st(6)] by simp
  then show ?thesis
    using st(1,2) apply_addresses_fields(6) [OF st(3)] apply_grpc_fields(6) [OF st(4)] apply_features_fields(7) [OF st(5)]
    by auto
qed

definition sample_world :: "environment \<Rightarrow> config_world" where
  "sample_world env = \<lparr>cw_env = env, cw_exists = (\<lambda>_. True), cw_read = (\<lambda>_. Some ''file''),
     cw_parse_json = (\<lambda>_. Some (default_config\<lparr>cf_quic_proxy_addr := Some ''proxy''\<rparr>)),
     cw_valid_addr = (\<lambda>_. True), cw_ssl_disabled = (\<lambda>_. None)\<rparr>"

lemma environment_precedence_witness:
  "\<exists>c. config_load (sample_world [''USE_GRPC'' \<mapsto> ''true'']) None = Inr (Inr c) \<and>
    cf_use_grpc c \<and> cf_quic_proxy_addr c = None"
proof -
  let ?w = "sample_world [''USE_GRPC'' \<mapsto> ''true'']"
  have "\<exists>c. config_load ?w None = Inr (Inr c)"
    by (simp add: config_load_def config_text_def config_path_def apply_environment_def apply_addresses_def
        apply_grpc_def apply_features_def apply_services_def postgres_from_env_def quic_params_from_environment_def
        env_parse_def parse_bool_def sample_world_def Let_def)
  then obtain c where c: "config_load ?w None = Inr (Inr c)" by blast
  from environment_precedence [OF c] have "cf_use_grpc c \<and> cf_quic_proxy_addr c = None"
    by (auto simp: sample_world_def parse_bool_def)
  with c show ?thesis by blast
qed

end
