(* ===== verification/Service_Startup.thy ===== *)
theory Service_Startup
  imports Service_Config Tpu_Service
begin

text \<open>
  How the service is put together: \<open>lite-rpc/src/main.rs\<close>, \<open>start_server.rs\<close>, \<open>rpc_tester.rs\<close>,
  \<open>core/src/utils.rs\<close> and \<open>services/src/tpu_utils/tpu_connection_path.rs\<close>.  Starting is a sequence of
  decisions on the configuration, each of which can end the start with an error or a panic; the
  outcome is a plan of what was started with which parameters.  What the network, the file system and
  the other components answer on the way is an argument.
\<close>

section \<open>The path to the TPU\<close>

datatype tpu_connection_path = QuicDirectPath | QuicForwardProxyPath socket_addr

definition show_connection_path :: "(socket_addr \<Rightarrow> string) \<Rightarrow> tpu_connection_path \<Rightarrow> string" where
  "show_connection_path show_addr p =
     (case p of
        QuicDirectPath \<Rightarrow> ''Direct QUIC connection to TPU''
      | QuicForwardProxyPath addr \<Rightarrow> ''QUIC Forward Proxy on '' @ show_addr addr)"

text \<open>\<open>resolve\<close> gives the addresses of a host and port, or fails.\<close>

definition parse_host_port :: "(string \<Rightarrow> socket_addr list option) \<Rightarrow> string \<Rightarrow> string + socket_addr" where
  "parse_host_port resolve host_port =
     (case resolve host_port of
        None \<Rightarrow> Inl (''Unable to resolve host '' @ host_port)
      | Some addrs \<Rightarrow>
          if addrs = [] then Inl (''Unable to resolve host: '' @ host_port)
          else if 1 < length addrs then Inl (''Multiple addresses resolved for host: '' @ host_port)
          else Inr (addrs ! 0))"

definition configure_tpu_connection_path ::
    "(string \<Rightarrow> socket_addr list option) \<Rightarrow> string option \<Rightarrow> tpu_connection_path outcome" where
  "configure_tpu_connection_path resolve quic_proxy_addr =
     (case quic_proxy_addr of
        None \<Rightarrow> Inr QuicDirectPath
      | Some prox_address \<Rightarrow>
          (case parse_host_port resolve prox_address of
             Inl e \<Rightarrow> Inl (ExplicitPanic e)
           | Inr addr \<Rightarrow> Inr (QuicForwardProxyPath addr)))"

section \<open>Waiting for the first block\<close>

datatype block_wait = InfoArrived block_info | InfoElapsed | InfoFailed

text \<open>\<open>Inr None\<close> means that it still waits.\<close>

fun wait_till_block_of_commitment :: "commitment_config \<Rightarrow> block_wait list \<Rightarrow> block_info option outcome" where
  "wait_till_block_of_commitment c [] = Inr None"
| "wait_till_block_of_commitment c (InfoArrived i # es) =
     (if bi_commitment_config i = c then Inr (Some i) else wait_till_block_of_commitment c es)"
| "wait_till_block_of_commitment c (InfoElapsed # es) = wait_till_block_of_commitment c es"
| "wait_till_block_of_commitment c (InfoFailed # es) = Inl (ExplicitPanic ''Did not recv block info'')"

section \<open>The tester of the RPC node\<close>

record rpc_tester =
  rt_error_counter :: nat
  rt_ended :: bool

definition rpc_tester_new :: rpc_tester where
  "rpc_tester_new = \<lparr>rt_error_counter = 0, rt_ended = False\<rparr>"

definition rpc_tester_turn :: "bool \<Rightarrow> bool \<Rightarrow> rpc_tester \<Rightarrow> rpc_tester" where
  "rpc_tester_turn use_grpc answered t =
     (if rt_ended t then t
      else if answered then t\<lparr>rt_error_counter := 0\<rparr>
      else if 10 < rt_error_counter t + 1 then
        (if use_grpc then t\<lparr>rt_error_counter := 0\<rparr> else t\<lparr>rt_error_counter := rt_error_counter t + 1, rt_ended := True\<rparr>)
      else t\<lparr>rt_error_counter := rt_error_counter t + 1\<rparr>)"

definition rpc_tester_run :: "bool \<Rightarrow> bool list \<Rightarrow> rpc_tester" where
  "rpc_tester_run use_grpc answers = fold (rpc_tester_turn use_grpc) answers rpc_tester_new"

section \<open>The servers\<close>

record server_configuration =
  sc_max_request_body_size :: u32
  sc_max_response_body_size :: u32
  sc_max_connection :: u32
  sc_max_subscriptions_per_connection :: u32

definition default_server_configuration :: server_configuration where
  "default_server_configuration = \<lparr>sc_max_request_body_size = 50 * push_bit 10 1,
     sc_max_response_body_size = 500000 * push_bit 10 1, sc_max_connection = 1000000,
     sc_max_subscriptions_per_connection = 1000\<rparr>"

text \<open>The limits the two servers are built with.\<close>

record ws_server =
  wb_max_connections :: u32
  wb_max_subscriptions_per_connection :: u32
  wb_addr :: string

record http_server =
  hb_max_connections :: u32
  hb_max_request_body_size :: u32
  hb_max_response_body_size :: u32
  hb_addr :: string

definition start_servers :: "string \<Rightarrow> string \<Rightarrow> server_configuration option \<Rightarrow> ws_server \<times> http_server" where
  "start_servers ws_addr http_addr server_configuration =
     (let sc = unwrap_or server_configuration default_server_configuration
      in (\<lparr>wb_max_connections = sc_max_connection sc,
           wb_max_subscriptions_per_connection = sc_max_subscriptions_per_connection sc, wb_addr = ws_addr\<rparr>,
          \<lparr>hb_max_connections = sc_max_connection sc, hb_max_request_body_size = sc_max_response_body_size sc,
           hb_max_response_body_size = sc_max_response_body_size sc, hb_addr = http_addr\<rparr>))"

section \<open>Starting\<close>

text \<open>\<open>Inl\<close> when the session cannot be opened; the flag tells whether there is a notifier.\<close>

definition start_postgres :: "(postgres_session_config \<Rightarrow> bool) \<Rightarrow> postgres_session_config option \<Rightarrow> string + bool" where
  "start_postgres session_opens config =
     (case config of
        None \<Rightarrow> Inr False
      | Some c \<Rightarrow> if session_opens c then Inr True else Inl ''Connecting to Postgres failed'')"

datatype accounts_setup = NoAccounts | InMemoryAccounts | OnDemandAccounts

record startup_plan =
  up_tpu_connection_path :: tpu_connection_path
  up_account_filters :: "account_filter list"
  up_grpc_sources :: "grpc_source list"
  up_use_grpc :: bool
  up_stream_inspection :: bool
  up_accounts :: accounts_setup
  up_first_block :: block_info
  up_lookup_tables :: "string option option"
  up_notifier :: bool
  up_fanout_slots :: u64
  up_maximum_transaction_in_queue :: nat
  up_quic_connection_params :: quic_connection_parameters
  up_retry_after :: u64
  up_max_retries :: nat
  up_servers :: "ws_server \<times> http_server"

record startup_world =
  uw_config :: config_world
  uw_parse_bytes :: "string \<Rightarrow> u8 list option"
  uw_valid_keypair :: "u8 list \<Rightarrow> bool"
  uw_resolve :: "string \<Rightarrow> socket_addr list option"
  uw_parse_filters :: "string \<Rightarrow> account_filter list option"
  uw_populates :: bool
  uw_block_infos :: "block_wait list"
  uw_epoch_bootstraps :: bool
  uw_lookup_table_file :: "string \<Rightarrow> bool"
  uw_postgres_opens :: "postgres_session_config \<Rightarrow> bool"

definition account_filters_of :: "startup_world \<Rightarrow> config \<Rightarrow> account_filter list outcome" where
  "account_filters_of w c =
     (case cf_account_filters c of
        None \<Rightarrow> Inr []
      | Some fs \<Rightarrow> (case uw_parse_filters w fs of
          None \<Rightarrow> Inl (ExplicitPanic ''Account filters should be valid'') | Some filters \<Rightarrow> Inr filters))"

text \<open>Only the gRPC subscription has an account stream, and only when there are filters.\<close>

definition has_account_stream :: "bool \<Rightarrow> account_filter list \<Rightarrow> bool" where
  "has_account_stream use_grpc filters \<longleftrightarrow> use_grpc \<and> filters \<noteq> []"

definition accounts_setup_of :: "config \<Rightarrow> account_filter list \<Rightarrow> accounts_setup" where
  "accounts_setup_of c filters =
     (if has_account_stream (cf_use_grpc c) filters then
        (if unwrap_or (cf_enable_accounts_on_demand c) False then OnDemandAccounts else InMemoryAccounts)
      else NoAccounts)"

definition lookup_tables_of :: "startup_world \<Rightarrow> config \<Rightarrow> string + string option option" where
  "lookup_tables_of w c =
     (if unwrap_or (cf_enable_address_lookup_tables c) False then
        (case cf_address_lookup_tables_binary c of
           None \<Rightarrow> Inr (Some None)
         | Some path \<Rightarrow> if uw_lookup_table_file w path then Inr (Some (Some path)) else Inl ''lookup tables binary'')
      else Inr None)"

text \<open>The part after the first block: \<open>Inr None\<close> of the result means that the start still waits.\<close>

definition start_after_block ::
    "startup_world \<Rightarrow> config \<Rightarrow> tpu_connection_path \<Rightarrow> account_filter list \<Rightarrow> block_info \<Rightarrow> string + startup_plan" where
  "start_after_block w c path filters info =
     (if \<not> uw_epoch_bootstraps w then Inl ''bootstrap of the epoch''
      else case lookup_tables_of w c of
          Inl e \<Rightarrow> Inl e
        | Inr alts \<Rightarrow>
            (case start_postgres (uw_postgres_opens w) (cf_postgres c) of
               Inl e \<Rightarrow> Inl e
             | Inr notifier \<Rightarrow>
                 Inr \<lparr>up_tpu_connection_path = path, up_account_filters = filters,
                   up_grpc_sources = get_grpc_sources c, up_use_grpc = cf_use_grpc c,
                   up_stream_inspection = cf_enable_grpc_stream_inspection c,
                   up_accounts = accounts_setup_of c filters, up_first_block = info, up_lookup_tables = alts,
                   up_notifier = notifier, up_fanout_slots = cf_fanout_size c,
                   up_maximum_transaction_in_queue = 20000,
                   up_quic_connection_params = unwrap_or (cf_quic_connection_parameters c) default_parameters,
                   up_retry_after = cf_transaction_retry_after_secs c,
                   up_max_retries = cf_maximum_retries_per_tx c,
                   up_servers = start_servers (cf_lite_rpc_ws_addr c) (cf_lite_rpc_http_addr c) None\<rparr>))"

definition start_lite_rpc :: "startup_world \<Rightarrow> config \<Rightarrow> (string + startup_plan option) outcome" where
  "start_lite_rpc w c =
     (case load_identity_keypair (cw_env (uw_config w)) (cw_read (uw_config w)) (uw_parse_bytes w)
         (\<lambda>bytes. if uw_valid_keypair w bytes then Some bytes else None) (cf_identity_keypair c) of
        Inl e \<Rightarrow> Inr (Inl e)
      | Inr _ \<Rightarrow>
          bind_outcome (configure_tpu_connection_path (uw_resolve w) (cf_quic_proxy_addr c)) (\<lambda>path.
          bind_outcome (account_filters_of w c) (\<lambda>filters.
            if has_account_stream (cf_use_grpc c) filters \<and> \<not> uw_populates w then Inr (Inl ''populate from rpc'')
            else bind_outcome (wait_till_block_of_commitment finalized_config (uw_block_infos w)) (\<lambda>info.
              case info of
                None \<Rightarrow> Inr (Inr None)
              | Some i \<Rightarrow>
                  (case start_after_block w c path filters i of
                     Inl e \<Rightarrow> Inr (Inl e) | Inr plan \<Rightarrow> Inr (Inr (Some plan)))))))"

text \<open>\<open>main\<close>: the configuration is loaded, then the service is started.\<close>

definition service_main :: "startup_world \<Rightarrow> string option \<Rightarrow> (string + startup_plan option) outcome" where
  "service_main w arg =
     bind_outcome (config_load (uw_config w) arg) (\<lambda>r.
       case r of Inl e \<Rightarrow> Inr (Inl e) | Inr c \<Rightarrow> start_lite_rpc w c)"

section \<open>What starting does\<close>

definition skipped_wait :: "commitment_config \<Rightarrow> block_wait \<Rightarrow> bool" where
  "skipped_wait c e = (case e of InfoArrived i \<Rightarrow> bi_commitment_config i \<noteq> c | InfoElapsed \<Rightarrow> True | InfoFailed \<Rightarrow> False)"

lemma wait_till_block_first:
  "wait_till_block_of_commitment c es =
     (case dropWhile (skipped_wait c) es of
        [] \<Rightarrow> Inr None
      | InfoArrived i # _ \<Rightarrow> Inr (Some i)
      | _ \<Rightarrow> Inl (ExplicitPanic ''Did not recv block info''))"
  by (induction c es rule: wait_till_block_of_commitment.induct) (simp_all add: skipped_wait_def)

lemma wait_till_block_commitment:
  "wait_till_block_of_commitment c es = Inr (Some i) \<Longrightarrow> bi_commitment_config i = c \<and> InfoArrived i \<in> set es"
  by (induction c es rule: wait_till_block_of_commitment.induct) (auto split: if_splits)

text \<open>The tester counts the failures since the last answer; with gRPC it never ends.\<close>

lemma rpc_tester_grpc: "\<not> rt_ended (rpc_tester_run True answers) \<and> rt_error_counter (rpc_tester_run True answers) \<le> 10"
  by (induction answers rule: rev_induct) (auto simp: rpc_tester_run_def rpc_tester_new_def rpc_tester_turn_def)

lemma rpc_tester_counter:
  "\<not> rt_ended (rpc_tester_run False answers) \<Longrightarrow>
   rt_error_counter (rpc_tester_run False answers) = length (takeWhile Not (rev answers)) \<and>
   length (takeWhile Not (rev answers)) \<le> 10"
  by (induction answers rule: rev_induct)
    (auto simp: rpc_tester_run_def rpc_tester_new_def rpc_tester_turn_def split: if_splits)

lemma http_request_limit_ignored:
  "hb_max_request_body_size (snd (start_servers ws http None)) = 512000000"
  "sc_max_request_body_size default_server_configuration = 51200"
  by (simp_all add: start_servers_def default_server_configuration_def)

lemma start_stages:
  assumes "start_lite_rpc w c = Inr (Inr (Some plan))"
  obtains path filters info where
    "configure_tpu_connection_path (uw_resolve w) (cf_quic_proxy_addr c) = Inr path"
    "account_filters_of w c = Inr filters" "has_account_stream (cf_use_grpc c) filters \<longrightarrow> uw_populates w"
    "wait_till_block_of_commitment finalized_config (uw_block_infos w) = Inr (Some info)"
    "start_after_block w c path filters info = Inr plan"
proof -
  let ?key = "load_identity_keypair (cw_env (uw_config w)) (cw_read (uw_config w)) (uw_parse_bytes w)
    (\<lambda>bytes. if uw_valid_keypair w bytes then Some bytes else None) (cf_identity_keypair c)"
  from assms obtain path filters where p: "configure_tpu_connection_path (uw_resolve w) (cf_quic_proxy_addr c) = Inr path"
    "account_filters_of w c = Inr filters"
    by (cases ?key) (auto simp: start_lite_rpc_def)
  with assms have populated: "has_account_stream (cf_use_grpc c) filters \<longrightarrow> uw_populates w"
    by (cases ?key; cases "uw_populates w") (auto simp: start_lite_rpc_def)
  with assms p obtain info where info: "wait_till_block_of_commitment finalized_config (uw_block_infos w) = Inr info"
    by (cases ?key) (auto simp: start_lite_rpc_def)
  from assms p populated info obtain i where i: "info = Some i"
    by (cases ?key; cases info) (auto simp: start_lite_rpc_def)
  from assms p populated info i have "start_after_block w c path filters i = Inr plan"
    by (cases ?key; cases "start_after_block w c path filters i") (auto simp: start_lite_rpc_def)
  with p populated info i show ?thesis using that by blast
qed

lemma start_after_block_plan:
  assumes "start_after_block w c path filters info = Inr plan"
  shows "up_tpu_connection_path plan = path" "up_account_filters plan = filters" "up_first_block plan = info"
    "up_grpc_sources plan = get_grpc_sources c" "up_accounts plan = accounts_setup_of c filters"
    "up_notifier plan \<longleftrightarrow> cf_postgres c \<noteq> None" "up_use_grpc plan = cf_use_grpc c"
    "up_max_retries plan = cf_maximum_retries_per_tx c"
  using assms by (auto simp: start_after_block_def start_postgres_def split: sum.splits option.splits if_splits)

text \<open>Accounts on demand are only served when there is a filter, and only over gRPC.\<close>

lemma accounts_on_demand_needs_filters:
  assumes "start_lite_rpc w c = Inr (Inr (Some plan))" and "cf_account_filters c = None \<or> \<not> cf_use_grpc c"
  shows "up_accounts plan = NoAccounts"
proof -
  obtain path filters info where st:
    "configure_tpu_connection_path (uw_resolve w) (cf_quic_proxy_addr c) = Inr path"
    "account_filters_of w c = Inr filters" "has_account_stream (cf_use_grpc c) filters \<longrightarrow> uw_populates w"
    "wait_till_block_of_commitment finalized_config (uw_block_infos w) = Inr (Some info)"
    "start_after_block w c path filters info = Inr plan"
    using start_stages [OF assms(1)] .
  have "\<not> has_account_stream (cf_use_grpc c) filters"
    using st(2) assms(2) by (auto simp: account_filters_of_def has_account_stream_def)
  then show ?thesis by (simp add: start_after_block_plan(5) [OF st(5)] accounts_setup_of_def)
qed

section \<open>Properties\<close>


definition sample_startup :: "environment \<Rightarrow> startup_world" where
  "sample_startup env = \<lparr>uw_config = sample_world env, uw_parse_bytes = (\<lambda>_. None), uw_valid_keypair = (\<lambda>_. True),
     uw_resolve = (\<lambda>_. Some [(7, 11111)]), uw_parse_filters = (\<lambda>_. None), uw_populates = True,
     uw_block_infos = [InfoElapsed, InfoArrived \<lparr>bi_slot = 5, bi_parent = 4, bi_block_height = 5, bi_blockhash = 0,
       bi_commitment_config = finalized_config, bi_block_time = 0\<rparr>],
     uw_epoch_bootstraps = True, uw_lookup_table_file = (\<lambda>_. True), uw_postgres_opens = (\<lambda>_. True)\<rparr>"

lemma sample_starts:
  "\<exists>plan. service_main (sample_startup [''QUIC_PROXY_ADDR'' \<mapsto> ''proxy:11111'']) None = Inr (Inr (Some plan))"
proof -
  let ?w = "sample_startup [''QUIC_PROXY_ADDR'' \<mapsto> ''proxy:11111'']"
  obtain c where c: "config_load (uw_config ?w) None = Inr (Inr c)" "cf_quic_proxy_addr c = Some ''proxy:11111''"
    "cf_account_filters c = None" "cf_enable_address_lookup_tables c = None" "cf_postgres c = None" "cf_identity_keypair c = None"
    by (simp add: config_load_def config_text_def config_path_def apply_environment_def apply_addresses_def
        apply_grpc_def apply_features_def apply_services_def postgres_from_env_def quic_params_from_environment_def
        env_parse_def sample_world_def sample_startup_def default_config_def Let_def)
  have "\<exists>plan. start_lite_rpc ?w c = Inr (Inr (Some plan))"
    by (simp add: start_lite_rpc_def c(2-6) sample_startup_def sample_world_def load_identity_keypair_def
        configure_tpu_connection_path_def parse_host_port_def account_filters_of_def has_account_stream_def
        start_after_block_def lookup_tables_of_def start_postgres_def Let_def)
  with c(1) show ?thesis by (auto simp: service_main_def)
qed


end
