(* ===== verification/Statistics.thy ===== *)
theory Statistics
  imports Data_Cache
begin

text \<open>
  What the service reports about itself and the lists it polls: \<open>services/src/metrics_capture.rs\<close>,
  the percentiles of sorted values of \<open>util/src/histogram_percentiles.rs\<close>, and the pollers of
  \<open>cluster-endpoints/src/rpc_polling/vote_accounts_and_cluster_info_polling.rs\<close>.  The values of the
  percentiles are of any linear order, which leaves out the floating-point values that do not
  compare; a percentile itself is its hundredths.
\<close>

section \<open>Metrics of the transactions\<close>

record metrics =
  me_txs_sent :: nat
  me_txs_confirmed :: nat
  me_txs_finalized :: nat
  me_txs_ps :: nat
  me_txs_confirmed_ps :: nat
  me_txs_finalized_ps :: nat

definition metrics_new :: metrics where
  "metrics_new = \<lparr>me_txs_sent = 0, me_txs_confirmed = 0, me_txs_finalized = 0, me_txs_ps = 0,
     me_txs_confirmed_ps = 0, me_txs_finalized_ps = 0\<rparr>"

text \<open>\<open>status_of\<close> is the SDK's \<open>TransactionStatus::confirmation_status\<close>.\<close>

fun count_statuses ::
    "(transaction_status \<Rightarrow> confirmation_status) \<Rightarrow> (signature \<times> tx_props) list \<Rightarrow> nat \<times> nat \<Rightarrow> nat \<times> nat" where
  "count_statuses status_of [] (confirmed, finalized) = (confirmed, finalized)"
| "count_statuses status_of ((_, props) # txs) (confirmed, finalized) =
     count_statuses status_of txs
       (case tp_status props of
          None \<Rightarrow> (confirmed, finalized)
        | Some tx \<Rightarrow> (case status_of tx of
            StatusConfirmed \<Rightarrow> (confirmed + 1, finalized)
          | StatusFinalized \<Rightarrow> (confirmed + 1, finalized + 1)
          | StatusProcessed \<Rightarrow> (confirmed, finalized)))"

text \<open>A tick; \<open>checked_sub\<close> with the default is the subtraction of natural numbers.\<close>

definition metrics_capture :: "(transaction_status \<Rightarrow> confirmation_status) \<Rightarrow> tx_store \<Rightarrow> metrics \<Rightarrow> metrics" where
  "metrics_capture status_of store m =
     (let txs_sent = tx_len store; (txs_confirmed, txs_finalized) = count_statuses status_of store (0, 0)
      in \<lparr>me_txs_sent = txs_sent, me_txs_confirmed = txs_confirmed, me_txs_finalized = txs_finalized,
          me_txs_ps = txs_sent - me_txs_sent m, me_txs_confirmed_ps = txs_confirmed - me_txs_confirmed m,
          me_txs_finalized_ps = txs_finalized - me_txs_finalized m\<rparr>)"

definition has_status :: "(transaction_status \<Rightarrow> confirmation_status) \<Rightarrow> confirmation_status set \<Rightarrow> tx_props \<Rightarrow> bool" where
  "has_status status_of S props \<longleftrightarrow> (\<exists>tx. tp_status props = Some tx \<and> status_of tx \<in> S)"

lemma count_statuses_filter:
  "count_statuses status_of txs (a, b) =
     (a + length (filter (has_status status_of {StatusConfirmed, StatusFinalized} \<circ> snd) txs),
      b + length (filter (has_status status_of {StatusFinalized} \<circ> snd) txs))"
proof (induction txs arbitrary: a b)
  case (Cons e txs)
  obtain sig props where e: "e = (sig, props)" by (cases e)
  show ?case
  proof (cases "tp_status props")
    case (Some tx)
    with Cons e show ?thesis by (cases "status_of tx") (simp_all add: has_status_def)
  qed (simp add: Cons e has_status_def)
qed simp

text \<open>The counts are nested, and a rate is what the store gained since the last tick.\<close>

lemma metrics_nested:
  "me_txs_finalized (metrics_capture status_of store m) \<le> me_txs_confirmed (metrics_capture status_of store m)"
  "me_txs_confirmed (metrics_capture status_of store m) \<le> me_txs_sent (metrics_capture status_of store m)"
proof -
  have "length (filter (has_status status_of {StatusFinalized} \<circ> snd) store) \<le>
      length (filter (has_status status_of {StatusConfirmed, StatusFinalized} \<circ> snd) store)"
    by (induction store) (auto simp: has_status_def)
  then show "me_txs_finalized (metrics_capture status_of store m) \<le> me_txs_confirmed (metrics_capture status_of store m)"
    by (simp add: metrics_capture_def count_statuses_filter Let_def)
  show "me_txs_confirmed (metrics_capture status_of store m) \<le> me_txs_sent (metrics_capture status_of store m)"
    by (simp add: metrics_capture_def count_statuses_filter tx_len_def Let_def)
qed

fun captured :: "(transaction_status \<Rightarrow> confirmation_status) \<Rightarrow> tx_store list \<Rightarrow> metrics \<Rightarrow> metrics list" where
  "captured status_of [] m = []"
| "captured status_of (s # ss) m =
     (let m1 = metrics_capture status_of s m in m1 # captured status_of ss m1)"

lemma rates_add_up:
  "sorted (me_txs_sent m # List.map tx_len stores) \<Longrightarrow>
   me_txs_sent m + sum_list (List.map me_txs_ps (captured status_of stores m)) =
     (if stores = [] then me_txs_sent m else tx_len (last stores))"
proof (induction stores arbitrary: m)
  case (Cons s ss)
  let ?m = "metrics_capture status_of s m"
  have m: "me_txs_sent ?m = tx_len s" "me_txs_ps ?m = tx_len s - me_txs_sent m"
    by (simp_all add: metrics_capture_def Let_def split_def)
  from Cons.IH [of ?m] Cons.prems show ?case by (auto simp: m Let_def)
qed simp

section \<open>Percentiles of sorted values\<close>

definition percentile_steps :: "nat list" where
  "percentile_steps = List.map (\<lambda>i. 5 * i) [0 ..< 21]"

record 'a percentiles =
  pt_v :: "'a list"
  pt_p :: "nat list"

definition calculate_percentiles :: "'a::linorder list \<Rightarrow> 'a percentiles outcome" where
  "calculate_percentiles input =
     (if input = [] then Inr \<lparr>pt_v = [], pt_p = []\<rparr>
      else if \<not> sorted input then Inl AssertionFailed
      else Inr \<lparr>pt_v = List.map (\<lambda>p. input ! min (length input * p div 100) (length input - 1)) percentile_steps,
                pt_p = percentile_steps\<rparr>)"

definition get_bucket_value :: "'a percentiles \<Rightarrow> nat \<Rightarrow> 'a option" where
  "get_bucket_value ps p = map_option snd (List.find (\<lambda>(q, _). q = p) (zip (pt_p ps) (pt_v ps)))"

lemma percentile_steps_le: "p \<in> set percentile_steps \<Longrightarrow> p \<le> 100"
  by (auto simp: percentile_steps_def)

lemma percentile_steps_mem: "p \<in> set percentile_steps \<longleftrightarrow> p \<le> 100 \<and> 5 dvd p"
  by (auto simp: percentile_steps_def image_iff dvd_def)

lemma find_zip_map:
  "List.find (\<lambda>(q, _). q = p) (zip ps (List.map f ps)) = (if p \<in> set ps then Some (p, f p) else None)"
  by (induction ps) auto

lemma calculate_percentiles_value:
  assumes "input \<noteq> []" and "sorted input"
  shows "\<exists>ps. calculate_percentiles input = Inr ps \<and>
    (\<forall>p. get_bucket_value ps p =
      (if p \<in> set percentile_steps then Some (input ! min (length input * p div 100) (length input - 1)) else None))"
  using assms by (auto simp: calculate_percentiles_def get_bucket_value_def find_zip_map)

lemma sorted_count_below:
  assumes "sorted xs" and "i < length (xs :: 'a::linorder list)"
  shows "length (filter (\<lambda>x. x < xs ! i) xs) \<le> i" and "Suc i \<le> length (filter (\<lambda>x. x \<le> xs ! i) xs)"
proof -
  have split: "xs = take i xs @ drop i xs" by simp
  have drop_ge: "\<forall>x \<in> set (drop i xs). xs ! i \<le> x"
    using assms by (auto simp: in_set_conv_nth intro!: sorted_nth_mono)
  then have "filter (\<lambda>x. x < xs ! i) (drop i xs) = []" by (auto simp: filter_empty_conv not_less)
  then have "length (filter (\<lambda>x. x < xs ! i) xs) = length (filter (\<lambda>x. x < xs ! i) (take i xs))"
    by (metis append_Nil2 filter_append split)
  also have "\<dots> \<le> i" by (rule order_trans [OF length_filter_le]) simp
  finally show "length (filter (\<lambda>x. x < xs ! i) xs) \<le> i" .
  have take_le: "\<forall>x \<in> set (take (Suc i) xs). x \<le> xs ! i"
    using assms by (auto simp: in_set_conv_nth intro!: sorted_nth_mono)
  have "Suc i = length (filter (\<lambda>x. x \<le> xs ! i) (take (Suc i) xs))"
    using take_le assms(2) by (simp add: filter_True)
  also have "\<dots> \<le> length (filter (\<lambda>x. x \<le> xs ! i) (take (Suc i) xs)) + length (filter (\<lambda>x. x \<le> xs ! i) (drop (Suc i) xs))"
    by simp
  also have "\<dots> = length (filter (\<lambda>x. x \<le> xs ! i) xs)"
    by (metis append_take_drop_id filter_append length_append)
  finally show "Suc i \<le> length (filter (\<lambda>x. x \<le> xs ! i) xs)" .
qed

text \<open>The value at a percentile is a quantile: at most that part of the values lies below it, and at
  least that part is not above it.\<close>

lemma percentiles_are_quantiles:
  assumes "input \<noteq> []" and "sorted input" and "p \<le> 100" and "5 dvd p"
  shows "\<exists>ps v. calculate_percentiles input = Inr ps \<and> get_bucket_value ps p = Some v \<and> v \<in> set input \<and>
    100 * length (filter (\<lambda>x. x < v) input) \<le> p * length input \<and>
    p * length input \<le> 100 * length (filter (\<lambda>x. x \<le> v) input)"
proof -
  let ?n = "length input" and ?i = "min (length input * p div 100) (length input - 1)"
  obtain ps where ps: "calculate_percentiles input = Inr ps" "get_bucket_value ps p = Some (input ! ?i)"
    using calculate_percentiles_value [OF assms(1,2)] assms(3,4) percentile_steps_mem by auto
  have i: "?i < ?n" using assms(1) by (cases input) auto
  note c = sorted_count_below [OF assms(2) i]
  have "100 * length (filter (\<lambda>x. x < input ! ?i) input) \<le> 100 * ?i" using c(1) by simp
  also have "\<dots> \<le> 100 * (?n * p div 100)" by simp
  also have "\<dots> \<le> p * ?n" by (simp add: mult.commute)
  finally have below: "100 * length (filter (\<lambda>x. x < input ! ?i) input) \<le> p * ?n" .
  have "p * ?n \<le> 100 * Suc ?i"
  proof (cases "?n * p div 100 \<le> ?n - 1")
    case True
    then have "Suc ?i = ?n * p div 100 + 1" by simp
    moreover have "?n * p < 100 * (?n * p div 100 + 1)" using div_less_iff_less_mult by fastforce
    ultimately show ?thesis by (simp add: mult.commute)
  next
    case False
    then have "Suc ?i = ?n" using i by simp
    moreover have "p * ?n \<le> 100 * ?n" using assms(3) by simp
    ultimately show ?thesis by metis
  qed
  also have "\<dots> \<le> 100 * length (filter (\<lambda>x. x \<le> input ! ?i) input)" using c(2) by simp
  finally have "p * ?n \<le> 100 * length (filter (\<lambda>x. x \<le> input ! ?i) input)" .
  with ps below nth_mem [OF i] show ?thesis by blast
qed

section \<open>The pollers of cluster nodes and vote accounts\<close>

text \<open>Both tasks have the same loop: an answer is sent, whether there are receivers or not, and the next
  request follows after ten minutes; a failure is tried again after ten seconds.  The state is the
  time of the next request and what was sent; nothing ends the task.\<close>

record 'a list_poller =
  po_next_request :: nat
  po_sent :: "'a list"

definition list_poller_turn :: "'a option \<Rightarrow> bool \<Rightarrow> 'a list_poller \<Rightarrow> 'a list_poller" where
  "list_poller_turn answer receivers s =
     (case answer of
        Some x \<Rightarrow> \<lparr>po_next_request = po_next_request s + 600,
                   po_sent = (if receivers then po_sent s @ [x] else po_sent s)\<rparr>
      | None \<Rightarrow> s\<lparr>po_next_request := po_next_request s + 10\<rparr>)"

definition poll_cluster_info :: "(contact_info list option \<times> bool) list \<Rightarrow> contact_info list list_poller" where
  "poll_cluster_info turns =
     fold (\<lambda>(answer, receivers). list_poller_turn answer receivers) turns \<lparr>po_next_request = 0, po_sent = []\<rparr>"

definition poll_vote_accounts :: "('v option \<times> bool) list \<Rightarrow> 'v list_poller" where
  "poll_vote_accounts turns =
     fold (\<lambda>(answer, receivers). list_poller_turn answer receivers) turns \<lparr>po_next_request = 0, po_sent = []\<rparr>"

lemma list_poller_sends_answers:
  "fold (\<lambda>(answer, receivers). list_poller_turn answer receivers) turns s =
     \<lparr>po_next_request = po_next_request s + sum_list (List.map (\<lambda>(answer, _). if answer = None then 10 else 600) turns),
      po_sent = po_sent s @ List.map_filter (\<lambda>(answer, receivers). if receivers then answer else None) turns\<rparr>"
proof (induction turns arbitrary: s)
  case (Cons t ts)
  obtain answer receivers where t: "t = (answer, receivers)" by (cases t)
  show ?case by (simp add: Cons.IH t) (cases answer; simp add: list_poller_turn_def)
qed simp

end
