(* ===== verification/Spec2Isabelle.thy ===== *)
theory Spec2Isabelle
  imports On_Demand Lookup_Tables Prio_Fees Fee_Heap Leader_Lookup Data_Cache Stake_Safety Tx_Pipeline Grpc_Multiplex Rpc_Polling Rpc_Pubsub Tpu_Service Postgres_Store Forward_Proxy Stream_Inspect Account_Stream Postgres_Logger Service_Startup Statistics
begin

text \<open>
  Verification of the lite-rpc service of this repository (src/compute-engine/lite-rpc).  All file
  names below are relative to that directory.

  What the program does.  lite-rpc stands between the clients of the Solana chain and its validators.
  It follows the chain over gRPC or by polling an RPC node, keeps what it saw in memory, answers RPC
  requests and subscriptions from there, and forwards the transactions of its clients over QUIC to
  the TPU ports of the coming leaders, either directly or through a forward proxy, replaying them
  until they are confirmed or expire.  Its parts, in the order data flows through them:

    cluster-endpoints        the chain as streams of blocks, block infos, slots, accounts, leaders
    core                     the shared data types and stores
    services                 the caching service, the transaction service, the QUIC client
    stake_vote               stakes, votes and the leader schedule computed from them
    accounts, accounts-on-demand, address-lookup-tables
                             account data per commitment level, loading on demand, lookup tables
    prioritization_fees      fee statistics of blocks and accounts
    blockstore               blocks of past epochs in PostgreSQL
    lite-rpc                 the RPC requests and subscriptions
    quic-forward-proxy       the forward proxy, a process of its own

  How the code is represented.

    Data.  A struct is a record, an enum a datatype, both with the names of the source (a prefix tells
    the struct of a field).  A u64, u32 or u16 is a word of that width: addition and subtraction wrap
    around, as in the release build of the workspace, which has no overflow checks.  A length or an
    index is a natural number.  A HashMap is an association list with distinct keys whose order stands
    for the unspecified order of iteration, a BTreeMap one with increasing keys (Key_Maps).
    Errors.  A panic is the left summand of the type outcome: every unwrap, expect, index, assertion
    and todo of the modelled code is a branch.  A Result of the source is a sum inside it.
    State and concurrency.  A method that holds a lock, or that does not wait, is one transition of an
    explicit state.  A task is cut at its waits: each piece is a step, the steps of all tasks are
    interleaved in an arbitrary order given by a list of events, and what comes from outside (an
    answer of an RPC node, a failure of the network, a clock, a closed channel) is an argument of the
    event.  Properties of runs are proved for all lists of events by induction on the list, from an
    invariant of one step.
    Loops.  The loops of the code over a collection are structural recursions, or functions with a
    termination proof.  No fuel is used; a loop of a task that never ends by itself is a step that is
    repeated by the events.  The retries that the code itself bounds (the batches of the initial load,
    the reconnects of a QUIC connection) carry the bound of the code.
    Foreign code.  The Solana SDK, quinn, tokio, bincode, base58, the JSON-RPC library and PostgreSQL
    are not in the repository.  What the code asks of them is an argument of the definitions, and a
    property that relies on their behaviour says so in a hypothesis; its witness instantiates it.

  The theories.

    Lite_Prelude    integers, panics, lists and options shared by all; Key_Maps the two kinds of map
                    with their interface locales key_map and ordered_map.
    Core_Data       core/src/structures, core/src/commitment_utils.rs.
    Block_Store     core/src/stores/block_information_store.rs: the known block hashes; the order of
                    two notifications does not matter, commitments do not drop.
    Data_Cache      the other stores of core/src/stores and services/src/data_caching_service.rs: a
                    step per handled message, the invariant of the cache, transactions of a handled
                    block count as confirmed.
    Fee_Heap        core/src/structures/prioritization_fee_heap.rs, refined to a list sorted by fee.
    Leader_Lookup, Leaders_Getter
                    core/src/structures/leaderschedule.rs and the two implementations of
                    leaders_fetcher_interface.rs, behind the locale leader_fetcher.
    Account_Store, Account_Service, On_Demand
                    accounts/src and accounts-on-demand/src.  The service is written over a record of
                    the functions of the storage interface; the locale account_storage_laws states
                    what it relies on and is interpreted on the in-memory store and on the on-demand
                    wrapper, which itself wraps any storage that meets the laws.
    Lookup_Tables   address-lookup-tables/src: after loading, every message resolves.
    Prio_Fees, Fee_Method
                    prioritization_fees/src: percentiles by transaction and by compute unit, the two
                    tasks, the method parameter.
    Takable, Stake_Votes, Epoch_Schedule, Stake_Loop, Stake_Safety
                    stake_vote/src: the store whose content is taken out and merged back (locale
                    versioned_store), stake and vote accounts, epochs and schedules, the main loop
                    with the tasks it spawns, and the safety of the loop: the content has one owner,
                    no change is lost, a computed schedule is published.
    Block_Mapping, Grpc_Multiplex, Rpc_Polling, Stream_Inspect, Account_Stream
                    cluster-endpoints/src: the gRPC and the RPC mapping of a block agree, the merging
                    tasks emit each block once per level, the pollers miss nothing they were told of; the
                    inspection of the block stream and that the emitter passes it; the account
                    subscriptions, the loop over the updates and its supervisor.
    Tx_Pipeline     services/src/transaction_service.rs, tx_sender.rs, transaction_replayer.rs: a step
                    relation with labels for what the outside sees; accepted transactions are
                    forwarded in order, replays are bounded, finished transactions are not replayed.
    Quic_Connection, Tpu_Listener, Quic_Proxy, Tpu_Service
                    the QUIC client of services/src: sending tasks over a shared connection, the pool
                    of connections with its semaphores, the tasks around the heap, the thread that
                    forwards over the proxy, and the choice of connections on every slot.
    Forward_Proxy   quic-forward-proxy/src: listener, forwarder, agents; joined with Quic_Proxy to the
                    path of a batch from the client's thread to the forwarder.
    Rpc_Bridge, Rpc_Pubsub
                    lite-rpc/src/bridge.rs and bridge_pubsub.rs: every request and subscription.
    Postgres_Logger lite-rpc/src/postgres_logger: the batches of the transaction log; every forwarded
                    transaction is logged once, joined with the sender of Tx_Pipeline.
    Service_Config, Service_Startup
                    lite-rpc/src/cli.rs, main.rs and start_server.rs: which source of a setting wins,
                    when loading succeeds, and what a started service runs with.
    Statistics      services/src/metrics_capture.rs, util/src/histogram_percentiles.rs and the pollers of
                    cluster nodes and vote accounts.
    Postgres_Store  blockstore/src: rows, schemas, saving in chunks, querying, the archive.  The
                    database is its tables; a statement is what it does to them.

  Each theory gives the definitions in the order of the code, then the lemmas about one operation each
  (invariants, behaviour on every branch), then the properties.  A property is marked with its number
  in the comment before it; where it has hypotheses, the lemma named after it with the suffix _witness
  applies it to concrete values.  Several properties exhibit what the code does against its comments
  or its evident intent: they are proved of the model as the code is, and listed as findings beside
  the theories.

  Interfaces between parts.  Account_Service calls any storage (account_storage_laws); Tpu_Service any
  leader fetcher (leader_fetcher); Stake_Loop the stores of Stake_Votes (versioned_store); Tx_Pipeline
  and the QUIC client read the data cache, whose steps come from Data_Cache; Rpc_Bridge calls
  Tx_Pipeline, Data_Cache, Prio_Fees and Account_Service.

  Not modelled.  The wiring of the channels between the tasks (the rest of lite-rpc/src/main.rs,
  service_spawner.rs) and the second copy of the PostgreSQL configuration in blockstore, the
  declarations of the RPC interface by macros (rpc.rs, rpc_pubsub.rs), TLS and endpoint
  configuration, the export of metrics, logging and tracing, the gRPC client library with its reconnecting
  subscriptions: they only call libraries, or have no state of their own.  The benchmarks, their
  runner, the integration tests and the unit tests inside the modelled files are not part of the
  service.  Floating point appears only in percentiles and statistics and is an argument there.  The
  rest of the repository (cloud functions, execution handlers and scripts in other languages) does
  not interact with lite-rpc.
\<close>

end
